(* ===== verification/Go_Prelude.thy ===== *)
theory Go_Prelude
  imports Main "HOL-Library.Word"
begin

unbundle bit_operations_syntax

text \<open>
  The prelude: the Go values the components share and the generic facts about them.

  \<^item> \<open>byte\<close> and \<open>bytes\<close>: a Go \<^verbatim>\<open>[]byte\<close>. Copies (\<^verbatim>\<open>append([]byte(nil), x...)\<close>) are
    the identity of the model. A Go \<^verbatim>\<open>string\<close> is a \<open>string\<close> of 8-bit characters and
    \<open>bytes_of\<close> is the conversion \<^verbatim>\<open>[]byte(s)\<close>.
  \<^item> A Go \<^verbatim>\<open>int\<close> is an \<open>int\<close>; a fixed-width unsigned value is a \<open>word\<close>, so that a
    conversion \<^verbatim>\<open>uint32(x)\<close> is \<open>word_of_int x\<close> and wraps.
  \<^item> \<open>'a res\<close>: the results \<^verbatim>\<open>(v, nil)\<close>, \<^verbatim>\<open>(_, err)\<close> and a run-time panic.
  \<^item> big-endian byte strings, as \<^verbatim>\<open>encoding/binary.BigEndian\<close> writes and reads them.
  \<^item> the decimal text \<^verbatim>\<open>%d\<close> of \<^verbatim>\<open>fmt.Sprintf\<close>, quorum arithmetic, lists with indices, and \<^verbatim>\<open>strconv.Atoi\<close>.
\<close>

section \<open>Named collections\<close>

named_theorems wire_simps \<open>unfolding rules of the byte-level writers and readers\<close>
named_theorems res_simps \<open>case rules of the result type\<close>
named_theorems inv_intros \<open>preservation rules of the components' invariants\<close>

section \<open>Results\<close>

datatype 'a res = Ok 'a | Err string | Panic

fun bindR :: "'a res \<Rightarrow> ('a \<Rightarrow> 'b res) \<Rightarrow> 'b res" where
  "bindR (Ok x) f = f x"
| "bindR (Err e) f = Err e"
| "bindR Panic f = Panic"

fun guardR :: "bool \<Rightarrow> string \<Rightarrow> unit res" where
  "guardR b e = (if b then Ok () else Err e)"

fun is_Ok :: "'a res \<Rightarrow> bool" where
  "is_Ok (Ok _) = True"
| "is_Ok _ = False"

text \<open>Every error of the callee reported under the caller's own message, as in
  \<^verbatim>\<open>if err != nil { return fmt.Errorf(...) }\<close>.\<close>

fun reErr :: "string \<Rightarrow> 'a res \<Rightarrow> 'a res" where
  "reErr e (Ok x) = Ok x"
| "reErr e (Err _) = Err e"
| "reErr e Panic = Panic"

lemma bindR_eq_Ok [simp]: "bindR m f = Ok y \<longleftrightarrow> (\<exists>x. m = Ok x \<and> f x = Ok y)"
  by (cases m) auto

lemma bindR_Ok_right [simp]: "bindR m Ok = m"
  by (cases m) auto

lemma bindR_assoc: "bindR (bindR m f) g = bindR m (\<lambda>x. bindR (f x) g)"
  by (cases m) auto

lemma reErr_eq_Ok [simp]: "reErr e m = Ok x \<longleftrightarrow> m = Ok x"
  by (cases m) auto

lemma bindR_not_Panic:
  "m \<noteq> Panic \<Longrightarrow> (\<And>x. m = Ok x \<Longrightarrow> f x \<noteq> Panic) \<Longrightarrow> bindR m f \<noteq> Panic"
  by (cases m) auto

lemma is_Ok_conv: "is_Ok m \<longleftrightarrow> (\<exists>x. m = Ok x)"
  by (cases m) auto

lemmas [res_simps] = bindR_eq_Ok reErr_eq_Ok

section \<open>Bytes and strings\<close>

type_synonym byte = "8 word"
type_synonym bytes = "byte list"

definition bytes_of :: "string \<Rightarrow> bytes" where
  "bytes_of s = map of_char s"

definition string_of :: "bytes \<Rightarrow> string" where
  "string_of bs = map (\<lambda>b. char_of (unat b)) bs"

lemma unat_less_256 [simp]: "unat (b :: byte) < 256"
  using unsigned_less [of b] by simp

lemma unat_word_of_nat_id: "n < 2 ^ LENGTH('a::len) \<Longrightarrow> unat (word_of_nat n :: 'a word) = n"
  by (simp add: unat_of_nat)

lemma unat_of_char [simp]: "unat (of_char c :: byte) = of_char c"
proof -
  have "of_char c = (word_of_nat (of_char c) :: byte)"
    by (metis of_nat_of_char)
  moreover have "(of_char c :: nat) < 2 ^ LENGTH(8)" by simp
  ultimately show ?thesis by (simp add: unat_word_of_nat_id)
qed

lemma string_of_bytes_of [simp]: "string_of (bytes_of s) = s"
  by (simp add: string_of_def bytes_of_def comp_def)

lemma bytes_of_string_of [simp]: "bytes_of (string_of bs) = bs"
proof -
  have "of_char (char_of (unat b) :: char) = b" for b :: byte
  proof -
    have "(of_char (char_of (unat b) :: char) :: nat) = unat b" by simp
    then show ?thesis
      by (metis of_nat_of_char of_nat_unat ucast_id)
  qed
  then show ?thesis by (simp add: string_of_def bytes_of_def comp_def)
qed

lemma length_bytes_of [simp]: "length (bytes_of s) = length s"
  by (simp add: bytes_of_def)

lemma length_string_of [simp]: "length (string_of bs) = length bs"
  by (simp add: string_of_def)

lemma bytes_of_eq_iff [simp]: "bytes_of s = bytes_of t \<longleftrightarrow> s = t"
  by (metis string_of_bytes_of)

lemma bytes_of_Nil [simp]: "bytes_of [] = []"
  by (simp add: bytes_of_def)

lemma bytes_of_Cons: "bytes_of (c # s) = of_char c # bytes_of s"
  by (simp add: bytes_of_def)

lemma bytes_of_append [simp]: "bytes_of (s @ t) = bytes_of s @ bytes_of t"
  by (simp add: bytes_of_def)

section \<open>Big-endian numbers\<close>

primrec be_bytes :: "nat \<Rightarrow> nat \<Rightarrow> bytes" where
  "be_bytes 0 n = []"
| "be_bytes (Suc k) n = be_bytes k (n div 256) @ [word_of_nat (n mod 256)]"

definition be_nat :: "bytes \<Rightarrow> nat" where
  "be_nat bs = foldl (\<lambda>a b. a * 256 + unat b) 0 bs"

lemma length_be_bytes [simp]: "length (be_bytes k n) = k"
  by (induction k arbitrary: n) auto

lemma be_nat_Nil [simp]: "be_nat [] = 0"
  by (simp add: be_nat_def)

lemma be_nat_snoc [simp]: "be_nat (bs @ [b]) = be_nat bs * 256 + unat b"
  by (simp add: be_nat_def)

lemma unat_byte_of_mod [simp]: "unat (word_of_nat (n mod 256) :: byte) = n mod 256"
  by (simp add: unat_of_nat)

lemma be_nat_be_bytes: "n < 256 ^ k \<Longrightarrow> be_nat (be_bytes k n) = n"
proof (induction k arbitrary: n)
  case 0
  then show ?case by simp
next
  case (Suc k)
  have "n div 256 < 256 ^ k"
    using Suc.prems by (simp add: less_mult_imp_div_less mult.commute)
  then have "be_nat (be_bytes k (n div 256)) = n div 256" by (rule Suc.IH)
  then show ?case by simp
qed

lemma be_nat_less: "be_nat bs < 256 ^ length bs"
proof (induction bs rule: rev_induct)
  case Nil
  then show ?case by simp
next
  case (snoc b bs)
  have "be_nat bs * 256 + unat b < (be_nat bs + 1) * 256" by simp
  also have "\<dots> \<le> 256 ^ length bs * 256" using snoc by (intro mult_le_mono1) simp
  finally show ?case by (simp add: mult.commute)
qed

lemma be_bytes_be_nat: "be_bytes (length bs) (be_nat bs) = bs"
proof (induction bs rule: rev_induct)
  case Nil
  then show ?case by simp
next
  case (snoc b bs)
  have "(be_nat bs * 256 + unat b) div 256 = be_nat bs"
    and "(be_nat bs * 256 + unat b) mod 256 = unat b" by auto
  with snoc show ?case by simp
qed

text \<open>The writers and readers of fixed-width words, and their reading as numbers.\<close>

definition be_word :: "bytes \<Rightarrow> 'a::len word" where
  "be_word bs = foldl (\<lambda>a b. a * 256 + ucast b) 0 bs"

definition put32 :: "32 word \<Rightarrow> bytes" where
  "put32 w = map (\<lambda>k. ucast (drop_bit k w)) [24, 16, 8, 0]"

definition get32 :: "bytes \<Rightarrow> 32 word" where
  "get32 bs = be_word bs"

definition put64 :: "64 word \<Rightarrow> bytes" where
  "put64 w = map (\<lambda>k. ucast (drop_bit k w)) [56, 48, 40, 32, 24, 16, 8, 0]"

definition get64 :: "bytes \<Rightarrow> 64 word" where
  "get64 bs = be_word bs"

lemma be_word_eq: "(be_word bs :: 'a::len word) = word_of_nat (be_nat bs)"
proof (induction bs rule: rev_induct)
  case Nil
  then show ?case by (simp add: be_word_def)
next
  case (snoc b bs)
  have "(be_word (bs @ [b]) :: 'a word) = be_word bs * 256 + ucast b"
    by (simp add: be_word_def)
  with snoc show ?case by simp
qed

lemma get32_eq: "get32 bs = word_of_nat (be_nat bs)"
  and get64_eq: "get64 bs = word_of_nat (be_nat bs)"
  by (simp_all add: get32_def get64_def be_word_eq)

lemma byte_of_drop_bit:
  "(ucast (drop_bit k w) :: byte) = word_of_nat (unat (w :: 'a::len word) div 2 ^ k mod 256)"
proof -
  have "(ucast (drop_bit k w) :: byte) = word_of_nat (unat (drop_bit k w))"
    by simp
  also have "unat (drop_bit k w) = unat w div 2 ^ k"
    by (simp only: unat_drop_bit_eq) (simp only: drop_bit_eq_div)
  finally show ?thesis
    by (simp add: word_of_nat_eq_iff take_bit_eq_mod)
qed

lemma be_bytes_8:
  "be_bytes (Suc (Suc (Suc (Suc (Suc (Suc (Suc (Suc 0)))))))) n =
     map (\<lambda>k. word_of_nat (n div 2 ^ k mod 256)) [56, 48, 40, 32, 24, 16, 8, 0]"
  by (simp add: div_mult2_eq [symmetric])

lemma be_bytes_4:
  "be_bytes (Suc (Suc (Suc (Suc 0)))) n =
     map (\<lambda>k. word_of_nat (n div 2 ^ k mod 256)) [24, 16, 8, 0]"
  by (simp add: div_mult2_eq [symmetric])

lemma Suc_numerals: "Suc (Suc (Suc (Suc 0))) = 4"
    "Suc (Suc (Suc (Suc (Suc (Suc (Suc (Suc 0))))))) = 8"
  by simp_all

lemma put32_eq: "put32 w = be_bytes 4 (unat w)"
  unfolding put32_def byte_of_drop_bit be_bytes_4 [unfolded Suc_numerals(1)] ..

lemma put64_eq: "put64 w = be_bytes 8 (unat w)"
  unfolding put64_def byte_of_drop_bit be_bytes_8 [unfolded Suc_numerals(2)] ..

lemma length_put [simp]: "length (put32 w) = 4" "length (put64 v) = 8"
  by (simp_all add: put32_def put64_def)

lemma unat_less_be: "unat (w :: 32 word) < 256 ^ 4" "unat (v :: 64 word) < 256 ^ 8"
  using unsigned_less [of w, where ?'a = nat] unsigned_less [of v, where ?'a = nat] by simp_all

lemma get32_put32 [simp]: "get32 (put32 w) = w"
  by (simp only: get32_eq put32_eq be_nat_be_bytes [OF unat_less_be(1)] of_nat_unat ucast_id)

lemma get64_put64 [simp]: "get64 (put64 w) = w"
  by (simp only: get64_eq put64_eq be_nat_be_bytes [OF unat_less_be(2)] of_nat_unat ucast_id)

lemma put32_get32: "length bs = 4 \<Longrightarrow> put32 (get32 bs) = bs"
  using be_nat_less [of bs] be_bytes_be_nat [of bs]
  by (simp add: get32_eq put32_eq unat_word_of_nat_id)

lemma put64_get64: "length bs = 8 \<Longrightarrow> put64 (get64 bs) = bs"
  using be_nat_less [of bs] be_bytes_be_nat [of bs]
  by (simp add: get64_eq put64_eq unat_word_of_nat_id)

lemma put32_eq_iff [simp]: "put32 v = put32 w \<longleftrightarrow> v = w"
  by (metis get32_put32)

lemma put64_eq_iff [simp]: "put64 v = put64 w \<longleftrightarrow> v = w"
  by (metis get64_put64)

text \<open>The largest value of a Go \<^verbatim>\<open>int\<close>: \<^verbatim>\<open>int(^uint(0)>>1)\<close>.\<close>

definition max_int :: int where
  "max_int = 2 ^ 63 - 1"

lemma uint_word_of_int32: "0 \<le> i \<Longrightarrow> i < 2 ^ 32 \<Longrightarrow> uint (word_of_int i :: 32 word) = i"
  by (simp add: uint_word_of_int)

lemma uint_word_of_int64: "0 \<le> i \<Longrightarrow> i < 2 ^ 64 \<Longrightarrow> uint (word_of_int i :: 64 word) = i"
  by (simp add: uint_word_of_int)

section \<open>Decimal text\<close>

fun nat_digits :: "nat \<Rightarrow> string" where
  "nat_digits n =
     (if n < 10 then [char_of (48 + n)] else nat_digits (n div 10) @ [char_of (48 + n mod 10)])"

declare nat_digits.simps [simp del]

definition itoa :: "int \<Rightarrow> string" where
  "itoa v = (if v < 0 then CHR ''-'' # nat_digits (nat (- v)) else nat_digits (nat v))"

definition digits_value :: "string \<Rightarrow> nat" where
  "digits_value s = foldl (\<lambda>a c. a * 10 + (of_char c - 48)) 0 s"

lemma digits_value_nat_digits: "digits_value (nat_digits n) = n"
proof (induction n rule: nat_digits.induct)
  case (1 n)
  show ?case
  proof (cases "n < 10")
    case True
    then show ?thesis by (simp add: digits_value_def nat_digits.simps [of n])
  next
    case False
    with 1 have "digits_value (nat_digits (n div 10)) = n div 10" by blast
    then show ?thesis using False
      by (simp add: digits_value_def nat_digits.simps [of n])
  qed
qed

lemma nat_digits_inj: "nat_digits m = nat_digits n \<longleftrightarrow> m = n"
  by (metis digits_value_nat_digits)

lemma nat_digits_hd: "nat_digits n \<noteq> [] \<and> of_char (hd (nat_digits n)) \<ge> (48 :: nat)"
proof (induction n rule: nat_digits.induct)
  case (1 n)
  then show ?case by (cases "n < 10") (simp_all add: nat_digits.simps [of n])
qed

lemma itoa_inj [simp]: "itoa v = itoa w \<longleftrightarrow> v = w"
proof -
  have ne: "CHR ''-'' # xs \<noteq> nat_digits n" for xs n
  proof
    assume "CHR ''-'' # xs = nat_digits n"
    then have "hd (nat_digits n) = CHR ''-''" by (metis list.sel(1))
    then show False using nat_digits_hd [of n] by simp
  qed
  show ?thesis
    using ne ne [symmetric] by (auto simp: itoa_def nat_digits_inj)
qed

section \<open>Integers, indexing and loops over slices\<close>

text \<open>Go's \<^verbatim>\<open>%\<close> truncates: the remainder has the sign of the dividend.\<close>

definition goRem :: "int \<Rightarrow> int \<Rightarrow> int" where
  "goRem a n = sgn a * (\<bar>a\<bar> mod \<bar>n\<bar>)"

definition goQuo :: "int \<Rightarrow> int \<Rightarrow> int" where
  "goQuo a n = sgn a * sgn n * (\<bar>a\<bar> div \<bar>n\<bar>)"

lemma goRem_nonneg: "0 \<le> a \<Longrightarrow> 0 < n \<Longrightarrow> goRem a n = a mod n"
  by (cases "a = 0") (auto simp: goRem_def)

lemma goQuo_nonneg: "0 \<le> a \<Longrightarrow> 0 < n \<Longrightarrow> goQuo a n = a div n"
  by (cases "a = 0") (auto simp: goQuo_def)

text \<open>\<^verbatim>\<open>xs[i]\<close> panics out of range.\<close>

definition indexR :: "'a list \<Rightarrow> int \<Rightarrow> 'a res" where
  "indexR xs i = (if 0 \<le> i \<and> i < int (length xs) then Ok (xs ! nat i) else Panic)"

fun mapR :: "('a \<Rightarrow> 'b res) \<Rightarrow> 'a list \<Rightarrow> 'b list res" where
  "mapR f [] = Ok []"
| "mapR f (x # xs) = bindR (f x) (\<lambda>y. bindR (mapR f xs) (\<lambda>ys. Ok (y # ys)))"

lemma mapR_Ok: "(\<And>x. x \<in> set xs \<Longrightarrow> f x = Ok (g x)) \<Longrightarrow> mapR f xs = Ok (map g xs)"
  by (induction xs) auto

lemma mapR_eq_Ok: "mapR f xs = Ok ys \<longleftrightarrow> list_all2 (\<lambda>x y. f x = Ok y) xs ys"
  by (induction xs arbitrary: ys) (auto simp: list_all2_Cons1)

lemma indexR_Ok [simp]: "0 \<le> i \<Longrightarrow> i < int (length xs) \<Longrightarrow> indexR xs i = Ok (xs ! nat i)"
  by (simp add: indexR_def)

text \<open>\<^verbatim>\<open>strconv.Atoi\<close>: an optional sign, decimal digits, and the range of a 64-bit integer.\<close>

definition isDigit :: "char \<Rightarrow> bool" where
  "isDigit c \<longleftrightarrow> 48 \<le> (of_char c :: nat) \<and> (of_char c :: nat) \<le> 57"

definition atoi :: "string \<Rightarrow> int option" where
  "atoi s =
     (let (neg, d) = (case s of [] \<Rightarrow> (False, [])
            | c # r \<Rightarrow> if c = CHR ''-'' then (True, r)
                       else if c = CHR ''+'' then (False, r) else (False, s));
          v = (if neg then - int (digits_value d) else int (digits_value d))
      in if d = [] \<or> \<not> list_all isDigit d \<or> v < - (2 ^ 63) \<or> v > max_int then None else Some v)"

lemma nat_digits_isDigit: "list_all isDigit (nat_digits n)"
proof (induction n rule: nat_digits.induct)
  case (1 n)
  then show ?case by (cases "n < 10") (simp_all add: nat_digits.simps [of n] isDigit_def)
qed

lemma atoi_itoa: "- (2 ^ 63) \<le> v \<Longrightarrow> v \<le> max_int \<Longrightarrow> atoi (itoa v) = Some v"
proof -
  assume v: "- (2 ^ 63) \<le> v" "v \<le> max_int"
  have ne: "nat_digits n \<noteq> []" for n using nat_digits_hd by blast
  have c: "nat_digits n = c # r \<Longrightarrow> c \<noteq> CHR ''-'' \<and> c \<noteq> CHR ''+''" for n c r
    using nat_digits_hd [of n] by auto
  show ?thesis
  proof (cases "v < 0")
    case True
    then show ?thesis
      using v ne nat_digits_isDigit
      by (simp add: atoi_def itoa_def digits_value_nat_digits max_int_def)
  next
    case False
    obtain c r where cr: "nat_digits (nat v) = c # r" using ne by (cases "nat_digits (nat v)") auto
    then show ?thesis
      using v False c [OF cr] nat_digits_isDigit [of "nat v"] digits_value_nat_digits [of "nat v"]
      by (simp add: atoi_def itoa_def)
  qed
qed

section \<open>Lists\<close>

lemma list_update_same_set: "set (xs[i := x]) \<subseteq> insert x (set xs)"
  by (rule set_update_subset_insert)

lemma take_append_exact [simp]: "length xs = n \<Longrightarrow> take n (xs @ ys) = xs"
  by simp

lemma drop_append_exact [simp]: "length xs = n \<Longrightarrow> drop n (xs @ ys) = ys"
  by simp

lemma append_eq_same_length:
  "length a = length b \<Longrightarrow> a @ x = b @ y \<longleftrightarrow> a = b \<and> x = y"
  by simp

lemma fold_res_mono:
  "(\<And>x s. P s \<Longrightarrow> P (f x s)) \<Longrightarrow> P s \<Longrightarrow> P (fold f xs s)"
  by (induction xs arbitrary: s) auto

section \<open>Quorums\<close>

text \<open>Two sets of at least \<open>n - f\<close> of \<open>n\<close> nodes share a node outside any set of \<open>f\<close>
  nodes, when \<open>n > 3 f\<close>.\<close>

lemma quorum_card_Int:
  fixes Q R U :: "'a set"
  assumes "finite U" "Q \<subseteq> U" "R \<subseteq> U"
  shows "card Q + card R \<le> card U + card (Q \<inter> R)"
proof -
  have "finite Q" "finite R" using assms finite_subset by auto
  then have "card Q + card R = card (Q \<union> R) + card (Q \<inter> R)" by (rule card_Un_Int)
  moreover have "card (Q \<union> R) \<le> card U" using assms by (intro card_mono) auto
  ultimately show ?thesis by linarith
qed

lemma quorum_honest_Int:
  fixes Q R U B :: "'a set"
  assumes "finite U" "Q \<subseteq> U" "R \<subseteq> U" "finite B"
    and "card U + card B < card Q + card R"
  obtains p where "p \<in> Q" "p \<in> R" "p \<notin> B"
proof -
  have "card B < card (Q \<inter> R)"
    using quorum_card_Int [OF assms(1-3)] assms(5) by linarith
  then have "\<not> Q \<inter> R \<subseteq> B" using assms(4) card_mono leD by blast
  then show thesis using that by auto
qed

end
