(* ===== verification/Sha256.thy ===== *)
theory Sha256
  imports Go_Prelude
begin

text \<open>
  SHA-256 as \<^verbatim>\<open>crypto/sha256\<close> computes it (FIPS 180-4): the hash of every digest, certificate
  statement and Merkle node of the program. The theory
  \<open>Sha256_Vector\<close> evaluates a published test vector.
\<close>

definition sha_K :: "32 word list" where
  "sha_K =
    [1116352408, 1899447441, 3049323471, 3921009573, 961987163, 1508970993, 2453635748, 2870763221,
     3624381080, 310598401, 607225278, 1426881987, 1925078388, 2162078206, 2614888103, 3248222580,
     3835390401, 4022224774, 264347078, 604807628, 770255983, 1249150122, 1555081692, 1996064986,
     2554220882, 2821834349, 2952996808, 3210313671, 3336571891, 3584528711, 113926993, 338241895,
     666307205, 773529912, 1294757372, 1396182291, 1695183700, 1986661051, 2177026350, 2456956037,
     2730485921, 2820302411, 3259730800, 3345764771, 3516065817, 3600352804, 4094571909, 275423344,
     430227734, 506948616, 659060556, 883997877, 958139571, 1322822218, 1537002063, 1747873779,
     1955562222, 2024104815, 2227730452, 2361852424, 2428436474, 2756734187, 3204031479, 3329325298]"

type_synonym sha_state =
  "32 word \<times> 32 word \<times> 32 word \<times> 32 word \<times> 32 word \<times> 32 word \<times> 32 word \<times> 32 word"

definition sha_H0 :: sha_state where
  "sha_H0 = (1779033703, 3144134277, 1013904242, 2773480762,
             1359893119, 2600822924, 528734635, 1541459225)"

definition rotr32 :: "nat \<Rightarrow> 32 word \<Rightarrow> 32 word" where
  "rotr32 k w = drop_bit k w OR push_bit (32 - k) w"

definition sha_sigma0 :: "32 word \<Rightarrow> 32 word" where
  "sha_sigma0 x = rotr32 7 x XOR rotr32 18 x XOR drop_bit 3 x"

definition sha_sigma1 :: "32 word \<Rightarrow> 32 word" where
  "sha_sigma1 x = rotr32 17 x XOR rotr32 19 x XOR drop_bit 10 x"

definition sha_Sigma0 :: "32 word \<Rightarrow> 32 word" where
  "sha_Sigma0 x = rotr32 2 x XOR rotr32 13 x XOR rotr32 22 x"

definition sha_Sigma1 :: "32 word \<Rightarrow> 32 word" where
  "sha_Sigma1 x = rotr32 6 x XOR rotr32 11 x XOR rotr32 25 x"

definition sha_Ch :: "32 word \<Rightarrow> 32 word \<Rightarrow> 32 word \<Rightarrow> 32 word" where
  "sha_Ch x y z = (x AND y) XOR (NOT x AND z)"

definition sha_Maj :: "32 word \<Rightarrow> 32 word \<Rightarrow> 32 word \<Rightarrow> 32 word" where
  "sha_Maj x y z = (x AND y) XOR (x AND z) XOR (y AND z)"

text \<open>The message schedule: sixteen words of the block, extended to sixty-four.\<close>

definition sha_next :: "32 word list \<Rightarrow> 32 word" where
  "sha_next ws =
     (let t = length ws in
      sha_sigma1 (ws ! (t - 2)) + ws ! (t - 7) + sha_sigma0 (ws ! (t - 15)) + ws ! (t - 16))"

primrec sha_extend :: "nat \<Rightarrow> 32 word list \<Rightarrow> 32 word list" where
  "sha_extend 0 ws = ws"
| "sha_extend (Suc k) ws = sha_extend k (ws @ [sha_next ws])"

fun sha_round :: "sha_state \<Rightarrow> 32 word \<times> 32 word \<Rightarrow> sha_state" where
  "sha_round (a, b, c, d, e, f, g, h) (k, w) =
     (let t1 = h + sha_Sigma1 e + sha_Ch e f g + k + w;
          t2 = sha_Sigma0 a + sha_Maj a b c
      in (t1 + t2, a, b, c, d + t1, e, f, g))"

fun sha_add :: "sha_state \<Rightarrow> sha_state \<Rightarrow> sha_state" where
  "sha_add (a, b, c, d, e, f, g, h) (a', b', c', d', e', f', g', h') =
     (a + a', b + b', c + c', d + d', e + e', f + f', g + g', h + h')"

fun sha_words :: "bytes \<Rightarrow> 32 word list" where
  "sha_words (w # x # y # z # bs) = get32 [w, x, y, z] # sha_words bs"
| "sha_words _ = []"

definition sha_compress :: "sha_state \<Rightarrow> bytes \<Rightarrow> sha_state" where
  "sha_compress s block =
     sha_add s (foldl sha_round s (zip sha_K (sha_extend 48 (sha_words block))))"

fun sha_blocks :: "sha_state \<Rightarrow> bytes \<Rightarrow> sha_state" where
  "sha_blocks s bs =
     (if length bs < 64 then s else sha_blocks (sha_compress s (take 64 bs)) (drop 64 bs))"

declare sha_blocks.simps [simp del]

definition sha_pad :: "bytes \<Rightarrow> bytes" where
  "sha_pad bs =
     bs @ [0x80] @ replicate ((119 - length bs mod 64) mod 64) 0 @ put64 (8 * word_of_nat (length bs))"

fun sha_output :: "sha_state \<Rightarrow> bytes" where
  "sha_output (a, b, c, d, e, f, g, h) =
     put32 a @ put32 b @ put32 c @ put32 d @ put32 e @ put32 f @ put32 g @ put32 h"

definition sha256 :: "bytes \<Rightarrow> bytes" where
  "sha256 bs = sha_output (sha_blocks sha_H0 (sha_pad bs))"

lemma length_sha256 [simp]: "length (sha256 bs) = 32"
  by (cases "sha_blocks sha_H0 (sha_pad bs)" rule: sha_output.cases) (simp add: sha256_def)

lemma sha256_not_Nil [simp]: "sha256 bs \<noteq> []"
  by (metis length_sha256 list.size(3) zero_neq_numeral)

text \<open>The padded message is a whole number of blocks.\<close>

lemma length_sha_pad_mod: "length (sha_pad bs) mod 64 = 0"
proof -
  define q r where "q = length bs div 64" and "r = length bs mod 64"
  have len: "length bs = 64 * q + r" and r: "r < 64" by (simp_all add: q_def r_def)
  have "(119 - r) mod 64 = (if r \<le> 55 then 55 - r else 119 - r)"
    using r by (auto simp: mod_if)
  then have "length (sha_pad bs) = 64 * (if r \<le> 55 then q + 1 else q + 2)"
    using r by (simp add: sha_pad_def len)
  then show ?thesis by simp
qed

text \<open>A collision of the hash: two different inputs with one digest.\<close>

definition collision :: "bytes \<Rightarrow> bytes \<Rightarrow> bool" where
  "collision x y \<longleftrightarrow> x \<noteq> y \<and> sha256 x = sha256 y"

end
