(* ===== verification/Mvba_Messages.thy ===== *)
theory Mvba_Messages
  imports Go_Prelude Sha256
begin

text \<open>
  The data of the Dumbo-MVBA library (\<^verbatim>\<open>experiments/dumbomvba-go/core\<close>): configuration, protocol
  tags, message bodies and the interfaces \<^verbatim>\<open>Signer\<close> and \<^verbatim>\<open>ThresholdSigner\<close>, with the field names
  of the source behind a short prefix. A message body is the sum of the types the source
  registers with \<^verbatim>\<open>encoding/gob\<close>; \<open>BOther\<close> stands for a body no handler acts on (among them the
  registered but unused \<^verbatim>\<open>abaEstMsg\<close> and \<^verbatim>\<open>abaDecisionMsg\<close>).
\<close>

section \<open>Values and configuration (types.go)\<close>

record SigShare =
  ss_Signer :: int
  ss_Sig :: bytes

record ProposalValue =
  pv_Payload :: bytes
  pv_Round :: int
  pv_Hint :: string
  pv_Proof :: "SigShare list"

text \<open>\<^verbatim>\<open>ProposalValue{}\<close>, the zero value returned with every error.\<close>

definition zeroProposal :: ProposalValue where
  "zeroProposal = \<lparr>pv_Payload = [], pv_Round = 0, pv_Hint = [], pv_Proof = []\<rparr>"

text \<open>The timeouts are in nanoseconds, as \<^verbatim>\<open>time.Duration\<close> is. \<open>cfg_ValidatePayload\<close> is the
  application predicate, \<open>None\<close> for a nil function.\<close>

record Config =
  cfg_SID :: string
  cfg_ID :: int
  cfg_N :: int
  cfg_F :: int
  cfg_MaxRounds :: int
  cfg_WaitSPBCTimeout :: int
  cfg_RouteSendTimeout :: int
  cfg_UseEquivalentPath :: bool
  cfg_EquivalentCoinMode :: string
  cfg_ValidatePayload :: "(bytes \<Rightarrow> bool) option"

datatype ProtocolTag =
    TagSPBC | TagMVBACoin | TagMVBAPD | TagMVBAPDFinish | TagMVBARCPrepare | TagMVBARC
  | TagMVBARCPull | TagMVBAABA | TagMVBAABACoin | TagMVBAABADecision | TagACSDiffuse | TagACSMVBA

section \<open>Message bodies (equivalent\_messages.go, mvba.go)\<close>

record merkleBranch =
  mb_Index :: int
  mb_Siblings :: "bytes list"

record pdStoreMsg =
  pds_SID :: string
  pds_Root :: bytes
  pds_Stripe :: bytes
  pds_Branch :: merkleBranch

record pdPullRequest =
  pdp_SID :: string
  pdp_Root :: bytes
  pdp_Requester :: int
  pdp_Index :: int

record pdStoredMsg =
  pdsd_SID :: string
  pdsd_Root :: bytes
  pdsd_Share :: bytes

record pdLockMsg =
  pdl_SID :: string
  pdl_Leader :: int
  pdl_Root :: bytes
  pdl_Certificate :: bytes

record pdLockedMsg =
  pdld_SID :: string
  pdld_Root :: bytes
  pdld_Share :: bytes

record pdDoneMsg =
  pdd_SID :: string
  pdd_Leader :: int
  pdd_Root :: bytes
  pdd_Certificate :: bytes

record quitReadyMsg =
  qr_SID :: string
  qr_Share :: bytes

record quitFinishMsg =
  qf_SID :: string
  qf_Certificate :: bytes

record rcStoreMsg =
  rcs_SID :: string
  rcs_Root :: bytes
  rcs_From :: int
  rcs_Stripe :: bytes
  rcs_Branch :: merkleBranch

record rcPullRequest =
  rcp_SID :: string
  rcp_Root :: bytes
  rcp_Requester :: int

record rcLockMsg =
  rcl_SID :: string
  rcl_Leader :: int
  rcl_Root :: bytes
  rcl_Certificate :: bytes

record rcPrepareMsg =
  rcpr_SID :: string
  rcpr_Leader :: int
  rcpr_Lock :: "pdLockMsg option"

record coinShareMsg =
  cs_SID :: string
  cs_Nonce :: string
  cs_Share :: bytes

text \<open>\<^verbatim>\<open>abaPhaseMsg.Phase\<close> is a string of the wire; only the three constants are acted on.\<close>

record abaPhaseMsg =
  ap_SID :: string
  ap_Iter :: int
  ap_Round :: int
  ap_Phase :: string
  ap_Value :: int
  ap_Values :: "int list"

definition abaPhaseEST :: string where "abaPhaseEST = ''EST''"
definition abaPhaseAUX :: string where "abaPhaseAUX = ''AUX''"
definition abaPhaseCONF :: string where "abaPhaseCONF = ''CONF''"

record acsDiffuseMsg =
  ad_SID :: string
  ad_Value :: ProposalValue
  ad_Sig :: bytes

record acsVectorEntry =
  ae_From :: int
  ae_Value :: ProposalValue
  ae_Sig :: bytes

record mvbaABAVoteMsg =
  av_Round :: int
  av_Node :: int
  av_Bit :: int
  av_Payload :: bytes

record mvbaABACoinMsg =
  ac_Round :: int
  ac_Node :: int
  ac_Share :: bytes

datatype Body =
    BpdStore pdStoreMsg | BpdPull pdPullRequest | BpdStored pdStoredMsg | BpdLock pdLockMsg
  | BpdLocked pdLockedMsg | BpdDone pdDoneMsg | BquitReady quitReadyMsg
  | BquitFinish quitFinishMsg | BrcStore rcStoreMsg | BrcPull rcPullRequest | BrcLock rcLockMsg
  | BrcPrepare rcPrepareMsg | BcoinShare coinShareMsg | BabaPhase abaPhaseMsg
  | BacsDiffuse acsDiffuseMsg | BmvbaABAVote mvbaABAVoteMsg | BmvbaABACoin mvbaABACoinMsg
  | BProtocol ProtocolMessage | BOther
and ProtocolMessage =
  ProtocolMessage (pm_Tag: ProtocolTag) (pm_Round: int) (pm_Leader: int) (pm_Body: Body)

record ReceivedMessage =
  rm_From :: int
  rm_Msg :: ProtocolMessage

section \<open>Wire-cost classes\<close>

datatype EquivalentMessageClass =
  EquivalentMessageOther | EquivalentMessagePDData | EquivalentMessageRCData
| EquivalentMessageCertificate

fun ClassifyEquivalentMessage :: "ProtocolMessage \<Rightarrow> EquivalentMessageClass" where
  "ClassifyEquivalentMessage msg = (case pm_Body msg of
      BpdStore _ \<Rightarrow> EquivalentMessagePDData
    | BrcStore _ \<Rightarrow> EquivalentMessageRCData
    | BpdLock _ \<Rightarrow> EquivalentMessageCertificate
    | BpdDone _ \<Rightarrow> EquivalentMessageCertificate
    | BquitFinish _ \<Rightarrow> EquivalentMessageCertificate
    | BrcLock _ \<Rightarrow> EquivalentMessageCertificate
    | BrcPrepare body \<Rightarrow>
        (if rcpr_Lock body \<noteq> None then EquivalentMessageCertificate else EquivalentMessageOther)
    | _ \<Rightarrow> EquivalentMessageOther)"

section \<open>The signer interfaces\<close>

text \<open>
  \<^verbatim>\<open>Signer\<close> and \<^verbatim>\<open>ThresholdSigner\<close>: a record of the interface's methods. \<open>sg_threshold\<close> says
  whether the dynamic value is a \<^verbatim>\<open>ThresholdSigner\<close> (the type assertion \<^verbatim>\<open>signer.(ThresholdSigner)\<close>).
  The signatures themselves are group operations of the BLS packages the signers call; nothing
  is assumed of the methods here. The shares of \<^verbatim>\<open>Recover\<close> are the map's entries.
\<close>

record signer =
  sg_ID :: int
  sg_Sign :: "string \<Rightarrow> bytes \<Rightarrow> bytes res"
  sg_Verify :: "int \<Rightarrow> string \<Rightarrow> bytes \<Rightarrow> bytes \<Rightarrow> bool"
  sg_threshold :: bool
  sg_Threshold :: "string \<Rightarrow> int"
  sg_Recover :: "string \<Rightarrow> bytes \<Rightarrow> (int \<times> bytes) list \<Rightarrow> bytes res"
  sg_VerifyRecovered :: "string \<Rightarrow> bytes \<Rightarrow> bytes \<Rightarrow> bool"

section \<open>Hashing (equivalent\_utils.go)\<close>

definition hashBytes :: "bytes list \<Rightarrow> bytes" where
  "hashBytes parts = sha256 (concat parts)"

definition digestDomain :: "string \<Rightarrow> string \<Rightarrow> bytes \<Rightarrow> bytes" where
  "digestDomain domain sid root = hashBytes [bytes_of domain, [0], bytes_of sid, [0], root]"

definition pdCertificateDigest :: "string \<Rightarrow> string \<Rightarrow> int \<Rightarrow> bytes \<Rightarrow> bytes" where
  "pdCertificateDigest domain sid leader root =
     hashBytes [bytes_of domain, [0], bytes_of sid, [0], put64 (word_of_int leader), [0], root]"

lemma length_hashBytes [simp]: "length (hashBytes parts) = 32"
  by (simp add: hashBytes_def)

lemma hashBytes_not_Nil [simp]: "hashBytes parts \<noteq> []"
  by (simp add: hashBytes_def)

text \<open>For one domain and one session, equal certificate digests bind leader and root, up to a
  collision of the two digested strings.\<close>

definition pdDigestInput :: "string \<Rightarrow> string \<Rightarrow> int \<Rightarrow> bytes \<Rightarrow> bytes" where
  "pdDigestInput domain sid leader root =
     bytes_of domain @ [0] @ bytes_of sid @ [0] @ put64 (word_of_int leader) @ [0] @ root"

lemma pdCertificateDigest_binds:
  assumes "pdCertificateDigest domain sid leader root = pdCertificateDigest domain sid leader' root'"
    and "\<not> collision (pdDigestInput domain sid leader root) (pdDigestInput domain sid leader' root')"
  shows "root = root' \<and> (word_of_int leader :: 64 word) = word_of_int leader'"
  using assms
  by (auto simp: pdCertificateDigest_def hashBytes_def pdDigestInput_def collision_def)

section \<open>Copies and keys (pd\_equivalent.go, mvba.go, mvba\_equivalent.go)\<close>

text \<open>The copying helpers are written out: in the model a copy is the value itself.\<close>

definition cloneSiblings :: "bytes list \<Rightarrow> bytes list" where
  "cloneSiblings xs = map (\<lambda>x. x) xs"

definition cloneShares :: "SigShare list \<Rightarrow> SigShare list" where
  "cloneShares xs = map (\<lambda>s. \<lparr>ss_Signer = ss_Signer s, ss_Sig = ss_Sig s\<rparr>) xs"

definition cloneProposal :: "ProposalValue \<Rightarrow> ProposalValue" where
  "cloneProposal v = \<lparr>pv_Payload = pv_Payload v, pv_Round = pv_Round v, pv_Hint = pv_Hint v,
     pv_Proof = map (\<lambda>s. \<lparr>ss_Signer = ss_Signer s, ss_Sig = ss_Sig s\<rparr>) (pv_Proof v)\<rparr>"

definition cloneLock :: "pdLockMsg option \<Rightarrow> pdLockMsg option" where
  "cloneLock l = (case l of None \<Rightarrow> None
     | Some m \<Rightarrow> Some \<lparr>pdl_SID = pdl_SID m, pdl_Leader = pdl_Leader m, pdl_Root = pdl_Root m,
         pdl_Certificate = pdl_Certificate m\<rparr>)"

definition sameRoot :: "bytes \<Rightarrow> bytes \<Rightarrow> bool" where
  "sameRoot a b \<longleftrightarrow> a = b"

lemma SigShare_copy [simp]: "\<lparr>ss_Signer = ss_Signer s, ss_Sig = ss_Sig s\<rparr> = s"
  by (cases s) simp

lemma clone_simps [simp]:
  "cloneSiblings xs = xs" "cloneShares ss = ss" "cloneProposal v = v" "cloneLock l = l"
  "sameRoot a b \<longleftrightarrow> a = b"
  by (simp_all add: cloneSiblings_def cloneShares_def cloneProposal_def cloneLock_def
      sameRoot_def split: option.splits)

text \<open>\<^verbatim>\<open>fmt.Sprintf("%x", root)\<close>: two lower-case hexadecimal digits for each byte.\<close>

definition hexDigit :: "nat \<Rightarrow> char" where
  "hexDigit d = char_of (if d < 10 then 48 + d else 87 + d)"

definition hexString :: "bytes \<Rightarrow> string" where
  "hexString bs = concat (map (\<lambda>b. [hexDigit (unat b div 16), hexDigit (unat b mod 16)]) bs)"

definition proofKey :: "bytes \<Rightarrow> string" where
  "proofKey root = hexString root"

lemma hexDigit_inj: "d < 16 \<Longrightarrow> e < 16 \<Longrightarrow> hexDigit d = hexDigit e \<Longrightarrow> d = e"
  by (auto simp: hexDigit_def char_of_eq_iff take_bit_eq_mod split: if_splits)

lemma hexString_inj: "hexString a = hexString b \<longleftrightarrow> a = b"
proof
  show "hexString a = hexString b \<Longrightarrow> a = b"
  proof (induction a arbitrary: b)
    case Nil
    then show ?case by (cases b) (auto simp: hexString_def)
  next
    case (Cons x a)
    then obtain y b' where b: "b = y # b'" by (cases b) (auto simp: hexString_def)
    have q: "unat x div 16 < 16" "unat y div 16 < 16" by (simp_all add: less_mult_imp_div_less)
    from Cons.prems b have "hexDigit (unat x div 16) = hexDigit (unat y div 16)"
      "hexDigit (unat x mod 16) = hexDigit (unat y mod 16)" "hexString a = hexString b'"
      by (auto simp: hexString_def)
    then have "unat x div 16 = unat y div 16" "unat x mod 16 = unat y mod 16" "a = b'"
      using hexDigit_inj q Cons.IH by auto
    then show ?case using b by (metis div_mult_mod_eq word_unat_eq_iff)
  qed
qed simp

end
