(* ===== verification/Codec.thy ===== *)
theory Codec
  imports Go_Prelude
begin

text \<open>
  The interfaces of the byte-level codecs. \<open>prefix_codec\<close> is the contract between a writer that
  appends a field and the reader that takes it back off the front of a \<^verbatim>\<open>bytes.Reader\<close>;
  \<open>canonical_codec\<close> is the contract of a whole message codec that rejects every encoding but
  its own. Both are interpreted on the codecs of the MVBA library and of the CV-sAPVSS wire
  format, which share the length-prefixed field.
\<close>

section \<open>Readers\<close>

text \<open>\<^verbatim>\<open>io.ReadFull(r, buf)\<close> with a buffer of \<open>k\<close> bytes; the reader is the unread rest.\<close>

definition readFull :: "nat \<Rightarrow> bytes \<Rightarrow> (bytes \<times> bytes) res" where
  "readFull k r = (if length r < k then Err ''unexpected EOF'' else Ok (take k r, drop k r))"

lemma readFull_append [simp]: "length xs = k \<Longrightarrow> readFull k (xs @ rest) = Ok (xs, rest)"
  by (simp add: readFull_def)

lemma readFull_Ok_iff: "readFull k r = Ok (xs, rest) \<longleftrightarrow> length xs = k \<and> r = xs @ rest"
proof
  assume "readFull k r = Ok (xs, rest)"
  then show "length xs = k \<and> r = xs @ rest"
    by (auto simp: readFull_def not_less split: if_splits)
qed (auto simp: readFull_def)

text \<open>The loop \<^verbatim>\<open>for i := range out { out[i], err = get(r) ... }\<close>.\<close>

primrec readN :: "(bytes \<Rightarrow> ('a \<times> bytes) res) \<Rightarrow> nat \<Rightarrow> bytes \<Rightarrow> ('a list \<times> bytes) res" where
  "readN get 0 r = Ok ([], r)"
| "readN get (Suc k) r = bindR (get r) (\<lambda>(x, r). bindR (readN get k r) (\<lambda>(xs, r). Ok (x # xs, r)))"

lemma readN_length: "readN get k r = Ok (xs, rest) \<Longrightarrow> length xs = k"
  by (induction k arbitrary: r xs) (auto split: prod.splits)

section \<open>Field codecs\<close>

locale prefix_codec =
  fixes put :: "'a \<Rightarrow> bytes"
    and get :: "bytes \<Rightarrow> ('a \<times> bytes) res"
    and valid :: "'a \<Rightarrow> bool"
  assumes get_put: "valid a \<Longrightarrow> get (put a @ rest) = Ok (a, rest)"
    and get_inv: "get bs = Ok (a, rest) \<Longrightarrow> valid a \<and> bs = put a @ rest"
begin

lemma get_iff: "get bs = Ok (a, rest) \<longleftrightarrow> valid a \<and> bs = put a @ rest"
  using get_inv [of bs a rest] by (auto simp: get_put)

lemma put_prefix_free:
  assumes "valid a" "valid b" "put a @ x = put b @ y"
  shows "a = b \<and> x = y"
proof -
  have "Ok (a, x) = Ok (b, y)"
    using get_put [OF assms(1), of x] get_put [OF assms(2), of y] by (simp only: assms(3))
  then show ?thesis by simp
qed

lemma readN_put:
  "\<forall>a \<in> set as. valid a \<Longrightarrow> readN get (length as) (concat (map put as) @ rest) = Ok (as, rest)"
  by (induction as) (simp_all add: get_put)

lemma readN_inv:
  "readN get k bs = Ok (as, rest) \<Longrightarrow>
     length as = k \<and> (\<forall>a \<in> set as. valid a) \<and> bs = concat (map put as) @ rest"
proof (induction k arbitrary: bs as)
  case 0
  then show ?case by simp
next
  case (Suc k)
  then obtain a r as' where a: "get bs = Ok (a, r)" and as': "readN get k r = Ok (as', rest)"
    and as: "as = a # as'" by (auto split: prod.splits)
  from get_inv [OF a] Suc.IH [OF as'] as show ?case by simp
qed

lemma readN_iff:
  "readN get k bs = Ok (as, rest) \<longleftrightarrow>
     length as = k \<and> (\<forall>a \<in> set as. valid a) \<and> bs = concat (map put as) @ rest"
  using readN_inv [of k bs as rest] by (auto simp: readN_put)

end

section \<open>Message codecs\<close>

locale canonical_codec =
  fixes enc :: "'a \<Rightarrow> bytes res"
    and dec :: "bytes \<Rightarrow> 'a res"
    and valid :: "'a \<Rightarrow> bool"
  assumes enc_dec: "valid m \<Longrightarrow> \<exists>w. enc m = Ok w \<and> dec w = Ok m"
    and dec_enc: "dec w = Ok m \<Longrightarrow> valid m \<and> enc m = Ok w"
begin

lemma dec_iff: "dec w = Ok m \<longleftrightarrow> valid m \<and> enc m = Ok w"
  using enc_dec [of m] dec_enc [of w m] by auto

lemma enc_inj: "valid m \<Longrightarrow> valid m' \<Longrightarrow> enc m = enc m' \<Longrightarrow> m = m'"
  using enc_dec [of m] enc_dec [of m'] by auto

lemma wire_unique: "dec w = Ok m \<Longrightarrow> dec w' = Ok m \<Longrightarrow> w = w'"
  using dec_enc [of w m] dec_enc [of w' m] by auto

end

section \<open>The length-prefixed field\<close>

text \<open>A 32-bit big-endian length and the bytes, which both wire formats write.\<close>

definition lengthPrefixed :: "bytes \<Rightarrow> bytes" where
  "lengthPrefixed v = put32 (word_of_nat (length v)) @ v"

lemma uint_word_of_nat32: "n < 2 ^ 32 \<Longrightarrow> uint (word_of_nat n :: 32 word) = int n"
  by (simp add: uint_nat unat_word_of_nat_id)

lemma lengthPrefixed_not_Nil [simp]: "lengthPrefixed v \<noteq> []"
  by (simp add: lengthPrefixed_def put32_def)

lemma length_lengthPrefixed [simp]: "length (lengthPrefixed v) = 4 + length v"
  by (simp add: lengthPrefixed_def)

definition readLengthPrefixed :: "int \<Rightarrow> bytes \<Rightarrow> (bytes \<times> bytes) res" where
  "readLengthPrefixed maximum r =
     bindR (readFull 4 r) (\<lambda>(lenw, r).
       let n = uint (get32 lenw) in
       if n < 0 \<or> n > maximum \<or> n > int (length r) then Err ''invalid length''
       else readFull (nat n) r)"

lemma readLengthPrefixed_put:
  assumes "int (length v) \<le> maximum" "length v < 2 ^ 32"
  shows "readLengthPrefixed maximum (lengthPrefixed v @ rest) = Ok (v, rest)"
  using assms by (simp add: readLengthPrefixed_def lengthPrefixed_def uint_word_of_nat32)

lemma readLengthPrefixed_inv:
  assumes "readLengthPrefixed maximum r = Ok (v, rest)"
  shows "int (length v) \<le> maximum \<and> length v < 2 ^ 32 \<and> r = lengthPrefixed v @ rest"
proof -
  obtain lenw r' where lenw: "length lenw = 4" and r: "r = lenw @ r'"
    and n: "uint (get32 lenw) \<le> maximum"
    and body: "readFull (nat (uint (get32 lenw))) r' = Ok (v, rest)"
    using assms
    by (auto simp: readLengthPrefixed_def readFull_Ok_iff Let_def split: if_splits prod.splits)
  from body have r': "r' = v @ rest" and len: "length v = nat (uint (get32 lenw))"
    by (auto simp: readFull_Ok_iff)
  have u: "length v = unat (get32 lenw)" using len by simp
  then have "(word_of_nat (length v) :: 32 word) = get32 lenw"
    by simp
  then have "lengthPrefixed v = lenw @ v"
    using lenw by (simp add: lengthPrefixed_def put32_get32)
  moreover have "length v < 2 ^ 32"
    using u unsigned_less [of "get32 lenw", where ?'a = nat] by simp
  ultimately show ?thesis using r r' n len by simp
qed

interpretation lp: prefix_codec lengthPrefixed "readLengthPrefixed maximum"
  "\<lambda>v. int (length v) \<le> maximum \<and> length v < 2 ^ 32" for maximum
  by unfold_locales (use readLengthPrefixed_put readLengthPrefixed_inv in blast)+

text \<open>The fixed-width fields.\<close>

definition putInt32 :: "int \<Rightarrow> bytes" where
  "putInt32 i = put32 (word_of_int i)"

definition readInt32 :: "bytes \<Rightarrow> (int \<times> bytes) res" where
  "readInt32 r = bindR (readFull 4 r) (\<lambda>(w, r). Ok (uint (get32 w), r))"

definition readUint64 :: "bytes \<Rightarrow> (64 word \<times> bytes) res" where
  "readUint64 r = bindR (readFull 8 r) (\<lambda>(w, r). Ok (get64 w, r))"

lemma bindR_readInt32:
  "bindR (readInt32 r) f = bindR (readFull 4 r) (\<lambda>(w, r). f (uint (get32 w), r))"
  by (cases "readFull 4 r") (auto simp: readInt32_def split: prod.splits)

lemma length_putInt32 [simp]: "length (putInt32 i) = 4"
  by (simp add: putInt32_def)

interpretation i32: prefix_codec putInt32 readInt32 "\<lambda>i. 0 \<le> i \<and> i < 2 ^ 32"
proof unfold_locales
  fix i :: int and rest
  assume "0 \<le> i \<and> i < 2 ^ 32"
  then show "readInt32 (putInt32 i @ rest) = Ok (i, rest)"
    by (simp add: readInt32_def putInt32_def uint_word_of_int32)
next
  fix bs rest and i :: int
  assume "readInt32 bs = Ok (i, rest)"
  then obtain w where "length w = 4" "bs = w @ rest" "i = uint (get32 w)"
    by (auto simp: readInt32_def readFull_Ok_iff split: prod.splits)
  then show "(0 \<le> i \<and> i < 2 ^ 32) \<and> bs = putInt32 i @ rest"
    using uint_lt2p [of "get32 w"] by (simp add: putInt32_def put32_get32)
qed

interpretation u64: prefix_codec put64 readUint64 "\<lambda>_. True"
proof unfold_locales
  fix w :: "64 word" and rest
  show "readUint64 (put64 w @ rest) = Ok (w, rest)" by (simp add: readUint64_def)
next
  fix bs rest and v :: "64 word"
  assume "readUint64 bs = Ok (v, rest)"
  then obtain w where "length w = 8" "bs = w @ rest" "v = get64 w"
    by (auto simp: readUint64_def readFull_Ok_iff split: prod.splits)
  then show "True \<and> bs = put64 v @ rest" by (simp add: put64_get64)
qed

lemmas field_get_put = lp.get_put i32.get_put u64.get_put
lemmas field_get_iff = lp.get_iff i32.get_iff u64.get_iff
lemmas [wire_simps] = field_get_put

end
