(* ===== verification/Mvba_Wire.thy ===== *)
theory Mvba_Wire
  imports Mvba_Messages Codec
begin

text \<open>
  The hand-written gob codecs of \<^verbatim>\<open>equivalent_messages.go\<close>: length-prefixed fields, Merkle branches,
  and the two store messages. The result is that each message codec is canonical: on the messages
  within the decoder's limits encoding and decoding are inverse, and the decoder accepts no other
  byte string.
\<close>

section \<open>Fields\<close>

definition appendWireBytes :: "bytes \<Rightarrow> bytes \<Rightarrow> bytes res" where
  "appendWireBytes dst value =
     (if length value > 2 ^ 32 - 1 then Err ''wire field too large''
      else Ok (dst @ put32 (word_of_nat (length value)) @ value))"

definition readWireBytes :: "bytes \<Rightarrow> int \<Rightarrow> (bytes \<times> bytes) res" where
  "readWireBytes r maximum =
     bindR (readFull 4 r) (\<lambda>(len, r).
       let n = uint (get32 len) in
       if n < 0 \<or> n > maximum \<or> n > int (length r) then Err ''invalid wire field length''
       else bindR (readFull (nat n) r) (\<lambda>(out, r). Ok (out, r)))"

lemma appendWireBytes_eq:
  "appendWireBytes dst v =
     (if length v < 2 ^ 32 then Ok (dst @ lengthPrefixed v) else Err ''wire field too large'')"
  by (simp add: appendWireBytes_def lengthPrefixed_def)

lemma readWireBytes_iff:
  "readWireBytes r maximum = Ok (v, rest) \<longleftrightarrow> readLengthPrefixed maximum r = Ok (v, rest)"
  by (auto simp: readWireBytes_def readLengthPrefixed_def Let_def split: prod.splits if_splits)

interpretation wb: prefix_codec lengthPrefixed "\<lambda>r. readWireBytes r maximum"
  "\<lambda>v. int (length v) \<le> maximum \<and> length v < 2 ^ 32" for maximum
  by unfold_locales (use readWireBytes_iff lp.get_iff in metis)+

section \<open>Merkle branches\<close>

primrec appendSiblings :: "bytes \<Rightarrow> bytes list \<Rightarrow> bytes res" where
  "appendSiblings dst [] = Ok dst"
| "appendSiblings dst (sibling # rest) =
     bindR (appendWireBytes dst sibling) (\<lambda>dst. appendSiblings dst rest)"

definition encodeMerkleBranch :: "bytes \<Rightarrow> merkleBranch \<Rightarrow> bytes res" where
  "encodeMerkleBranch dst branch =
     (let dst = dst @ put32 (word_of_int (mb_Index branch)) in
      if length (mb_Siblings branch) > 1024 then Err ''too many merkle siblings''
      else appendSiblings (dst @ put32 (word_of_nat (length (mb_Siblings branch))))
             (mb_Siblings branch))"

definition decodeMerkleBranch :: "bytes \<Rightarrow> (merkleBranch \<times> bytes) res" where
  "decodeMerkleBranch r =
     bindR (readFull 4 r) (\<lambda>(field, r).
     let index = uint (get32 field) in
     bindR (readFull 4 r) (\<lambda>(field, r).
     let count = uint (get32 field) in
     if count < 0 \<or> count > 1024 then Err ''invalid merkle sibling count''
     else bindR (readN (\<lambda>r. readWireBytes r (2 ^ 20)) (nat count) r) (\<lambda>(siblings, r).
       Ok (\<lparr>mb_Index = index, mb_Siblings = siblings\<rparr>, r))))"

text \<open>The branches the decoder can return, and the bytes of such a branch.\<close>

definition wireBranch :: "merkleBranch \<Rightarrow> bool" where
  "wireBranch b \<longleftrightarrow> 0 \<le> mb_Index b \<and> mb_Index b < 2 ^ 32 \<and> length (mb_Siblings b) \<le> 1024 \<and>
     (\<forall>s \<in> set (mb_Siblings b). length s \<le> 2 ^ 20)"

definition branchBytes :: "merkleBranch \<Rightarrow> bytes" where
  "branchBytes b = putInt32 (mb_Index b) @ putInt32 (int (length (mb_Siblings b))) @
     concat (map lengthPrefixed (mb_Siblings b))"

lemma appendSiblings_eq:
  "\<forall>s \<in> set ss. length s < 2 ^ 32 \<Longrightarrow>
     appendSiblings dst ss = Ok (dst @ concat (map lengthPrefixed ss))"
  by (induction ss arbitrary: dst) (simp_all add: appendWireBytes_eq)

lemma encodeMerkleBranch_eq:
  assumes "wireBranch b"
  shows "encodeMerkleBranch dst b = Ok (dst @ branchBytes b)"
proof -
  have "\<forall>s \<in> set (mb_Siblings b). length s < 2 ^ 32"
    using assms by (force simp: wireBranch_def)
  then show ?thesis
    using assms
    by (simp add: encodeMerkleBranch_def branchBytes_def appendSiblings_eq wireBranch_def
        putInt32_def)
qed

lemma decodeMerkleBranch_alt:
  "decodeMerkleBranch r =
     bindR (readInt32 r) (\<lambda>(index, r).
     bindR (readInt32 r) (\<lambda>(count, r).
     if count < 0 \<or> count > 1024 then Err ''invalid merkle sibling count''
     else bindR (readN (\<lambda>r. readWireBytes r (2 ^ 20)) (nat count) r) (\<lambda>(siblings, r).
       Ok (\<lparr>mb_Index = index, mb_Siblings = siblings\<rparr>, r))))"
  by (simp add: decodeMerkleBranch_def bindR_readInt32 Let_def)

interpretation mbc: prefix_codec branchBytes decodeMerkleBranch wireBranch
proof unfold_locales
  fix b rest
  assume b: "wireBranch b"
  have "readN (\<lambda>r. readWireBytes r (2 ^ 20)) (length (mb_Siblings b))
     (concat (map lengthPrefixed (mb_Siblings b)) @ rest) = Ok (mb_Siblings b, rest)"
    using b by (intro wb.readN_put) (force simp: wireBranch_def)
  then show "decodeMerkleBranch (branchBytes b @ rest) = Ok (b, rest)"
    using b by (simp add: decodeMerkleBranch_alt branchBytes_def wireBranch_def i32.get_put)
next
  fix bs b rest
  assume "decodeMerkleBranch bs = Ok (b, rest)"
  then show "wireBranch b \<and> bs = branchBytes b @ rest"
    by (fastforce simp: decodeMerkleBranch_alt i32.get_iff wb.readN_iff wireBranch_def
        branchBytes_def split: prod.splits if_splits)
qed

section \<open>The store messages\<close>

definition pdStoreMsg_GobEncode :: "pdStoreMsg \<Rightarrow> bytes res" where
  "pdStoreMsg_GobEncode m =
     bindR (appendWireBytes [] (bytes_of (pds_SID m))) (\<lambda>out.
     bindR (appendWireBytes out (pds_Root m)) (\<lambda>out.
     bindR (appendWireBytes out (pds_Stripe m)) (\<lambda>out.
     encodeMerkleBranch out (pds_Branch m))))"

definition pdStoreMsg_GobDecode :: "bytes \<Rightarrow> pdStoreMsg res" where
  "pdStoreMsg_GobDecode data =
     bindR (readWireBytes data (2 ^ 20)) (\<lambda>(sid, r).
     bindR (readWireBytes r (2 ^ 20)) (\<lambda>(root, r).
     bindR (readWireBytes r (64 * 2 ^ 20)) (\<lambda>(stripe, r).
     bindR (decodeMerkleBranch r) (\<lambda>(branch, r).
     if r \<noteq> [] then Err ''trailing pd store bytes''
     else Ok \<lparr>pds_SID = string_of sid, pds_Root = root, pds_Stripe = stripe,
              pds_Branch = branch\<rparr>))))"

definition rcStoreMsg_GobEncode :: "rcStoreMsg \<Rightarrow> bytes res" where
  "rcStoreMsg_GobEncode m =
     bindR (appendWireBytes [] (bytes_of (rcs_SID m))) (\<lambda>out.
     bindR (appendWireBytes out (rcs_Root m)) (\<lambda>out.
     let out = out @ put32 (word_of_int (rcs_From m)) in
     bindR (appendWireBytes out (rcs_Stripe m)) (\<lambda>out.
     encodeMerkleBranch out (rcs_Branch m))))"

definition rcStoreMsg_GobDecode :: "bytes \<Rightarrow> rcStoreMsg res" where
  "rcStoreMsg_GobDecode data =
     bindR (readWireBytes data (2 ^ 20)) (\<lambda>(sid, r).
     bindR (readWireBytes r (2 ^ 20)) (\<lambda>(root, r).
     bindR (readFull 4 r) (\<lambda>(from, r).
     bindR (readWireBytes r (64 * 2 ^ 20)) (\<lambda>(stripe, r).
     bindR (decodeMerkleBranch r) (\<lambda>(branch, r).
     if r \<noteq> [] then Err ''trailing rc store bytes''
     else Ok \<lparr>rcs_SID = string_of sid, rcs_Root = root, rcs_From = uint (get32 from),
              rcs_Stripe = stripe, rcs_Branch = branch\<rparr>)))))"

definition wirePdStore :: "pdStoreMsg \<Rightarrow> bool" where
  "wirePdStore m \<longleftrightarrow> length (pds_SID m) \<le> 2 ^ 20 \<and> length (pds_Root m) \<le> 2 ^ 20 \<and>
     length (pds_Stripe m) \<le> 64 * 2 ^ 20 \<and> wireBranch (pds_Branch m)"

definition wireRcStore :: "rcStoreMsg \<Rightarrow> bool" where
  "wireRcStore m \<longleftrightarrow> length (rcs_SID m) \<le> 2 ^ 20 \<and> length (rcs_Root m) \<le> 2 ^ 20 \<and>
     0 \<le> rcs_From m \<and> rcs_From m < 2 ^ 32 \<and>
     length (rcs_Stripe m) \<le> 64 * 2 ^ 20 \<and> wireBranch (rcs_Branch m)"

lemma pdStore_encoded:
  assumes "wirePdStore m"
  shows "pdStoreMsg_GobEncode m = Ok (lengthPrefixed (bytes_of (pds_SID m)) @
     lengthPrefixed (pds_Root m) @ lengthPrefixed (pds_Stripe m) @ branchBytes (pds_Branch m))"
  using assms
  by (simp add: pdStoreMsg_GobEncode_def wirePdStore_def appendWireBytes_eq encodeMerkleBranch_eq)

lemma rcStore_encoded:
  assumes "wireRcStore m"
  shows "rcStoreMsg_GobEncode m = Ok (lengthPrefixed (bytes_of (rcs_SID m)) @
     lengthPrefixed (rcs_Root m) @ putInt32 (rcs_From m) @ lengthPrefixed (rcs_Stripe m) @
     branchBytes (rcs_Branch m))"
  using assms
  by (simp add: rcStoreMsg_GobEncode_def wireRcStore_def appendWireBytes_eq encodeMerkleBranch_eq
      putInt32_def)

lemma rcStore_decode_alt:
  "rcStoreMsg_GobDecode data =
     bindR (readWireBytes data (2 ^ 20)) (\<lambda>(sid, r).
     bindR (readWireBytes r (2 ^ 20)) (\<lambda>(root, r).
     bindR (readInt32 r) (\<lambda>(from, r).
     bindR (readWireBytes r (64 * 2 ^ 20)) (\<lambda>(stripe, r).
     bindR (decodeMerkleBranch r) (\<lambda>(branch, r).
     if r \<noteq> [] then Err ''trailing rc store bytes''
     else Ok \<lparr>rcs_SID = string_of sid, rcs_Root = root, rcs_From = from,
              rcs_Stripe = stripe, rcs_Branch = branch\<rparr>)))))"
  by (simp add: rcStoreMsg_GobDecode_def bindR_readInt32)

interpretation pdsc: canonical_codec pdStoreMsg_GobEncode pdStoreMsg_GobDecode wirePdStore
proof unfold_locales
  fix m
  assume m: "wirePdStore m"
  have "pdStoreMsg_GobDecode (lengthPrefixed (bytes_of (pds_SID m)) @
     lengthPrefixed (pds_Root m) @ lengthPrefixed (pds_Stripe m) @ branchBytes (pds_Branch m)) = Ok m"
    using m mbc.get_put [of "pds_Branch m" "[]"]
    by (simp add: pdStoreMsg_GobDecode_def wirePdStore_def wb.get_put)
  with pdStore_encoded [OF m]
  show "\<exists>w. pdStoreMsg_GobEncode m = Ok w \<and> pdStoreMsg_GobDecode w = Ok m" by blast
next
  fix w m
  assume "pdStoreMsg_GobDecode w = Ok m"
  then have m: "wirePdStore m" and w: "w = lengthPrefixed (bytes_of (pds_SID m)) @
     lengthPrefixed (pds_Root m) @ lengthPrefixed (pds_Stripe m) @ branchBytes (pds_Branch m)"
    by (auto simp: pdStoreMsg_GobDecode_def wirePdStore_def wb.get_iff mbc.get_iff
        split: prod.splits if_splits)
  then show "wirePdStore m \<and> pdStoreMsg_GobEncode m = Ok w" using pdStore_encoded by simp
qed

interpretation rcsc: canonical_codec rcStoreMsg_GobEncode rcStoreMsg_GobDecode wireRcStore
proof unfold_locales
  fix m
  assume m: "wireRcStore m"
  have "rcStoreMsg_GobDecode (lengthPrefixed (bytes_of (rcs_SID m)) @
     lengthPrefixed (rcs_Root m) @ putInt32 (rcs_From m) @ lengthPrefixed (rcs_Stripe m) @
     branchBytes (rcs_Branch m)) = Ok m"
    using m mbc.get_put [of "rcs_Branch m" "[]"]
    by (simp add: rcStore_decode_alt wireRcStore_def wb.get_put i32.get_put)
  with rcStore_encoded [OF m]
  show "\<exists>w. rcStoreMsg_GobEncode m = Ok w \<and> rcStoreMsg_GobDecode w = Ok m" by blast
next
  fix w m
  assume "rcStoreMsg_GobDecode w = Ok m"
  then have m: "wireRcStore m" and w: "w = lengthPrefixed (bytes_of (rcs_SID m)) @
     lengthPrefixed (rcs_Root m) @ putInt32 (rcs_From m) @ lengthPrefixed (rcs_Stripe m) @
     branchBytes (rcs_Branch m)"
    by (auto simp: rcStore_decode_alt wireRcStore_def wb.get_iff mbc.get_iff i32.get_iff
        split: prod.splits if_splits)
  then show "wireRcStore m \<and> rcStoreMsg_GobEncode m = Ok w" using rcStore_encoded by simp
qed

section \<open>Properties\<close>

text \<open>The two store codecs are canonical in both directions: a byte string decodes to a
  message exactly when the message is within the decoder's limits (session, root, stripe and
  sibling lengths, 32-bit index and sender, at most 1024 siblings) and encodes to that byte
  string. So decoding never accepts a second encoding of a message and never loses one.\<close>

theorem store_codecs_canonical:
  "(pdStoreMsg_GobDecode w = Ok m \<longleftrightarrow> wirePdStore m \<and> pdStoreMsg_GobEncode m = Ok w) \<and>
   (rcStoreMsg_GobDecode w = Ok m' \<longleftrightarrow> wireRcStore m' \<and> rcStoreMsg_GobEncode m' = Ok w)"
  by (intro conjI pdsc.dec_iff rcsc.dec_iff)

end
