(* ===== verification/Merkle_Core.thy ===== *)
theory Merkle_Core
  imports Mvba_Messages
begin

text \<open>
  Merkle trees over byte strings with the last node of an odd level duplicated, as both
  \<^verbatim>\<open>buildMerkle\<close> of the MVBA library and \<^verbatim>\<open>cvAPDBBuildMerkleScalar\<close> of the APDB layer build them.
  The node hash is a parameter: the locale \<open>merkle_hash\<close> states what the two clients promise of
  theirs (it is SHA-256 of an injective framing of its children) and proves once that the
  branches built for a tree verify, and that an opening of a built root is the committed leaf
  or exhibits a hash collision among the strings hashed by the builder and by the verifier.
\<close>

section \<open>Levels, branches and roots\<close>

definition padLevel :: "bytes list \<Rightarrow> bytes list" where
  "padLevel level = (if odd (length level) then level @ [last level] else level)"

fun pairUp :: "(bytes \<Rightarrow> bytes \<Rightarrow> bytes) \<Rightarrow> bytes list \<Rightarrow> bytes list" where
  "pairUp node (l # r # rest) = node l r # pairUp node rest"
| "pairUp node _ = []"

definition nextLevel :: "(bytes \<Rightarrow> bytes \<Rightarrow> bytes) \<Rightarrow> bytes list \<Rightarrow> bytes list" where
  "nextLevel node level = pairUp node (padLevel level)"

text \<open>\<^verbatim>\<open>sibling := pos ^ 1; if sibling >= len(padded) { sibling = len(padded) - 1 }\<close>\<close>

definition siblingPos :: "nat \<Rightarrow> nat \<Rightarrow> nat" where
  "siblingPos len pos = (let sibling = pos XOR 1 in if sibling \<ge> len then len - 1 else sibling)"

text \<open>Go's \<^verbatim>\<open>idx /= 2\<close> on a signed integer truncates towards zero.\<close>

definition goHalf :: "int \<Rightarrow> int" where
  "goHalf idx = (if idx < 0 then - ((- idx) div 2) else idx div 2)"

fun climb :: "(bytes \<Rightarrow> bytes \<Rightarrow> bytes) \<Rightarrow> bytes \<Rightarrow> int \<Rightarrow> bytes list \<Rightarrow> bytes" where
  "climb node cur idx [] = cur"
| "climb node cur idx (sib # rest) =
     climb node (if even idx then node cur sib else node sib cur) (goHalf idx) rest"

lemma length_padLevel: "length (padLevel level) = 2 * ((length level + 1) div 2)"
  by (auto simp: padLevel_def elim!: oddE evenE)

lemma length_pairUp [simp]: "length (pairUp node xs) = length xs div 2"
  by (induction node xs rule: pairUp.induct) auto

lemma length_nextLevel [simp]: "length (nextLevel node level) = (length level + 1) div 2"
  by (simp add: nextLevel_def length_padLevel)

lemma nth_pairUp:
  "2 * j + 1 < length xs \<Longrightarrow> pairUp node xs ! j = node (xs ! (2 * j)) (xs ! (2 * j + 1))"
proof (induction node xs arbitrary: j rule: pairUp.induct)
  case (1 node l r rest)
  then show ?case by (cases j) auto
qed auto

lemma pair_bound: "i < n \<Longrightarrow> 2 * (i div 2) + 1 < 2 * ((n + 1) div (2 :: nat))"
  by presburger

lemma sibling_bound:
  "i < n \<Longrightarrow> (if even i then i + 1 else i - 1) < 2 * ((n + 1) div (2 :: nat))"
  by presburger

lemma pair_pos: "(if even p then 2 * (p div 2) else 2 * (p div 2) + 1) = (p :: nat)"
  by presburger

lemma set_padLevel: "level \<noteq> [] \<Longrightarrow> set (padLevel level) = set level"
  by (auto simp: padLevel_def)

lemma nth_nextLevel:
  assumes "i < length level"
  shows "nextLevel node level ! (i div 2) =
    node (padLevel level ! (2 * (i div 2))) (padLevel level ! (2 * (i div 2) + 1))"
  unfolding nextLevel_def
  by (intro nth_pairUp) (unfold length_padLevel, rule pair_bound [OF assms])

lemma nth_padLevel [simp]: "i < length level \<Longrightarrow> padLevel level ! i = level ! i"
  by (simp add: padLevel_def nth_append)

lemma padLevel_sibling:
  assumes "i < length level"
  shows "siblingPos (length (padLevel level)) i = (if even i then i + 1 else i - 1)"
proof -
  have "i XOR 1 = (if even i then i + 1 else i - 1)"
    using xor_one_eq [of i] by simp
  moreover have "(if even i then i + 1 else i - 1) < length (padLevel level)"
    unfolding length_padLevel by (rule sibling_bound [OF assms])
  ultimately show ?thesis by (simp add: siblingPos_def)
qed

text \<open>The branch of leaf \<open>i\<close>, level by level, and the top level.\<close>

function pathFrom :: "(bytes \<Rightarrow> bytes \<Rightarrow> bytes) \<Rightarrow> bytes list \<Rightarrow> nat \<Rightarrow> bytes list" where
  "pathFrom node level i =
     (if length level > 1
      then padLevel level ! siblingPos (length (padLevel level)) i
             # pathFrom node (nextLevel node level) (i div 2)
      else [])"
  by pat_completeness auto
termination
  by (relation "measure (\<lambda>(node, level, i). length level)") auto

function topLevel :: "(bytes \<Rightarrow> bytes \<Rightarrow> bytes) \<Rightarrow> bytes list \<Rightarrow> bytes list" where
  "topLevel node level = (if length level > 1 then topLevel node (nextLevel node level) else level)"
  by pat_completeness auto
termination
  by (relation "measure (\<lambda>(node, level). length level)") auto

declare pathFrom.simps [simp del] topLevel.simps [simp del]

text \<open>\<^verbatim>\<open>cvAPDBMerkleDepth\<close>, the number of levels above the leaves.\<close>

fun merkleDepth :: "nat \<Rightarrow> nat" where
  "merkleDepth n = (if n > 1 then Suc (merkleDepth ((n + 1) div 2)) else 0)"

declare merkleDepth.simps [simp del]

lemma topLevel_eq: "topLevel node level = (nextLevel node ^^ merkleDepth (length level)) level"
proof (induction node level rule: topLevel.induct)
  case (1 node level)
  show ?case
  proof (cases "length level > 1")
    case True
    with 1 show ?thesis
      by (simp add: topLevel.simps [of node level] merkleDepth.simps [of "length level"]
          funpow_swap1)
  next
    case False
    then show ?thesis
      by (simp add: topLevel.simps [of node level] merkleDepth.simps [of "length level"])
  qed
qed

lemma length_topLevel: "level \<noteq> [] \<Longrightarrow> length (topLevel node level) = 1"
proof (induction node level rule: topLevel.induct)
  case (1 node level)
  show ?case
  proof (cases "length level > 1")
    case True
    then have "nextLevel node level \<noteq> []" by (auto simp flip: length_greater_0_conv)
    with 1 True show ?thesis by (simp add: topLevel.simps [of node level])
  next
    case False
    with "1.prems" show ?thesis by (cases level) (auto simp: topLevel.simps [of node "[_]"])
  qed
qed

lemma length_pathFrom: "length (pathFrom node level i) = merkleDepth (length level)"
proof (induction node level i rule: pathFrom.induct)
  case (1 node level i)
  then show ?case
    by (simp add: pathFrom.simps [of node level] merkleDepth.simps [of "length level"])
qed

lemma set_pathFrom_length:
  assumes "\<forall>x \<in> set level. length x = k" "\<And>l r. length (node l r) = k" "i < length level"
  shows "\<forall>x \<in> set (pathFrom node level i). length x = k"
  using assms
proof (induction node level i rule: pathFrom.induct)
  case (1 node level i)
  show ?case
  proof (cases "length level > 1")
    case False
    then show ?thesis by (simp add: pathFrom.simps [of node level])
  next
    case True
    have pad: "\<forall>x \<in> set (padLevel level). length x = k"
      using "1.prems" True set_padLevel [of level] by fastforce
    have sib: "siblingPos (length (padLevel level)) i < length (padLevel level)"
      by (subst padLevel_sibling [OF "1.prems"(3)], subst length_padLevel,
          rule sibling_bound [OF "1.prems"(3)])
    have nxt: "\<forall>x \<in> set (pairUp node xs). length x = k" for xs
      by (induction xs rule: induct_list012) (auto simp: "1.prems"(2))
    have "\<forall>x \<in> set (pathFrom node (nextLevel node level) (i div 2)). length x = k"
      using True "1.prems"(2,3) nxt by (intro "1.IH") (auto simp: nextLevel_def length_padLevel)
    with True pad sib show ?thesis by (simp add: pathFrom.simps [of node level])
  qed
qed

text \<open>Climbing a leaf's own branch ends at the root.\<close>

lemma climb_pathFrom:
  "i < length level \<Longrightarrow>
     climb node (level ! i) (int i) (pathFrom node level i) = hd (topLevel node level)"
proof (induction node level i rule: pathFrom.induct)
  case (1 node level i)
  show ?case
  proof (cases "length level > 1")
    case False
    with "1.prems" show ?thesis
      by (cases level) (auto simp: pathFrom.simps [of node "[_]"] topLevel.simps [of node "[_]"])
  next
    case True
    let ?p = "padLevel level"
    have half: "goHalf (int i) = int (i div 2)" by (simp add: goHalf_def zdiv_int)
    have "(if even (int i) then node (level ! i) (?p ! siblingPos (length ?p) i)
             else node (?p ! siblingPos (length ?p) i) (level ! i))
          = nextLevel node level ! (i div 2)"
      unfolding nth_nextLevel [OF "1.prems"] padLevel_sibling [OF "1.prems"]
      using "1.prems" by (auto elim!: evenE oddE)
    moreover have "i div 2 < length (nextLevel node level)" using "1.prems" by simp
    ultimately show ?thesis
      using True "1.IH"
      by (simp add: pathFrom.simps [of node level] topLevel.simps [of node level] half)
  qed
qed

lemma climb_snoc:
  "0 \<le> idx \<Longrightarrow> climb node cur idx (ss @ [s]) =
     (let x = climb node cur idx ss in
      if even (idx div 2 ^ length ss) then node x s else node s x)"
proof (induction ss arbitrary: cur idx)
  case Nil
  then show ?case by simp
next
  case (Cons t ss)
  have "0 \<le> goHalf idx" and "goHalf idx div 2 ^ length ss = idx div 2 ^ Suc (length ss)"
    using Cons.prems by (simp_all add: goHalf_def zdiv_zmult2_eq)
  then show ?case using Cons.IH by simp
qed

section \<open>The strings hashed\<close>

text \<open>The framings hashed on a verifier's way up and by the builder of a tree.\<close>

fun climbInputs :: "(bytes \<Rightarrow> bytes \<Rightarrow> bytes) \<Rightarrow> (bytes \<Rightarrow> bytes \<Rightarrow> bytes) \<Rightarrow> bytes \<Rightarrow> int \<Rightarrow> bytes list \<Rightarrow> bytes set" where
  "climbInputs node inp cur idx [] = {}"
| "climbInputs node inp cur idx (sib # rest) =
     insert (if even idx then inp cur sib else inp sib cur)
       (climbInputs node inp (if even idx then node cur sib else node sib cur) (goHalf idx) rest)"

fun pairInputs :: "(bytes \<Rightarrow> bytes \<Rightarrow> bytes) \<Rightarrow> bytes list \<Rightarrow> bytes set" where
  "pairInputs inp (l # r # rest) = insert (inp l r) (pairInputs inp rest)"
| "pairInputs inp _ = {}"

definition treeInputs :: "(bytes \<Rightarrow> bytes \<Rightarrow> bytes) \<Rightarrow> (bytes \<Rightarrow> bytes \<Rightarrow> bytes) \<Rightarrow> bytes list \<Rightarrow> bytes set" where
  "treeInputs node inp leaves =
     (\<Union>j < merkleDepth (length leaves). pairInputs inp (padLevel ((nextLevel node ^^ j) leaves)))"

lemma climbInputs_snoc:
  "0 \<le> idx \<Longrightarrow> climbInputs node inp cur idx (ss @ [s]) =
     insert (let x = climb node cur idx ss in
       if even (idx div 2 ^ length ss) then inp x s else inp s x) (climbInputs node inp cur idx ss)"
proof (induction ss arbitrary: cur idx)
  case Nil
  then show ?case by simp
next
  case (Cons t ss)
  have "0 \<le> goHalf idx" and "goHalf idx div 2 ^ length ss = idx div 2 ^ Suc (length ss)"
    using Cons.prems by (simp_all add: goHalf_def zdiv_zmult2_eq)
  then show ?case using Cons.IH by (simp add: insert_commute)
qed

lemma pairInputs_nth:
  "2 * j + 1 < length xs \<Longrightarrow> inp (xs ! (2 * j)) (xs ! (2 * j + 1)) \<in> pairInputs inp xs"
proof (induction inp xs arbitrary: j rule: pairInputs.induct)
  case (1 inp l r rest)
  then show ?case by (cases j) auto
qed auto

section \<open>The interface of the node hash\<close>

locale merkle_hash =
  fixes node :: "bytes \<Rightarrow> bytes \<Rightarrow> bytes"
    and inp :: "bytes \<Rightarrow> bytes \<Rightarrow> bytes"
  assumes node_sha: "node l r = sha256 (inp l r)"
    and inp_inj: "inp l r = inp l' r' \<Longrightarrow> length l = length l' \<or> length r = length r' \<Longrightarrow>
      l = l' \<and> r = r'"
begin

lemma node_length [simp]: "length (node l r) = 32"
  by (simp add: node_sha)

lemma node_inj:
  assumes "node l r = node l' r'" "length l = length l' \<or> length r = length r'"
    and "\<not> collision (inp l r) (inp l' r')"
  shows "l = l' \<and> r = r'"
proof -
  have "inp l r = inp l' r'" using assms(1,3) by (simp add: node_sha collision_def)
  then show ?thesis using assms(2) by (rule inp_inj)
qed

lemma level_length32:
  assumes "\<forall>x \<in> set leaves. length x = 32"
  shows "\<forall>x \<in> set ((nextLevel node ^^ j) leaves). length x = 32"
proof (induction j)
  case 0
  then show ?case using assms by simp
next
  case (Suc j)
  have "\<forall>x \<in> set (pairUp node xs). length x = 32" for xs
    by (induction xs rule: induct_list012) auto
  then show ?case by (simp add: nextLevel_def)
qed

text \<open>One level down: a node of level \<open>j + 1\<close> that the climb reaches came from its two children.\<close>

lemma climb_step:
  assumes "0 \<le> idx" and leaves: "\<forall>x \<in> set leaves. length x = 32"
    and cur: "length (climb node cur idx ss) = 32"
    and j: "Suc j \<le> merkleDepth (length leaves)"
    and p: "p < length ((nextLevel node ^^ j) leaves)"
    and eq: "climb node cur idx (ss @ [s]) = (nextLevel node ^^ Suc j) leaves ! (p div 2)"
    and nocoll: "\<And>x y. x \<in> treeInputs node inp leaves \<Longrightarrow>
      y \<in> climbInputs node inp cur idx (ss @ [s]) \<Longrightarrow> \<not> collision y x"
  shows "climb node cur idx ss =
    padLevel ((nextLevel node ^^ j) leaves) !
      (if even (idx div 2 ^ length ss) then 2 * (p div 2) else 2 * (p div 2) + 1)"
proof -
  let ?lv = "(nextLevel node ^^ j) leaves" and ?x = "climb node cur idx ss"
  let ?l = "padLevel ?lv ! (2 * (p div 2))" and ?r = "padLevel ?lv ! (2 * (p div 2) + 1)"
  have bound: "2 * (p div 2) + 1 < length (padLevel ?lv)"
    unfolding length_padLevel by (rule pair_bound [OF p])
  have eq': "climb node cur idx (ss @ [s]) = node ?l ?r"
    using eq nth_nextLevel [OF p] by simp
  have "inp ?l ?r \<in> pairInputs inp (padLevel ?lv)" using bound by (rule pairInputs_nth)
  then have tree: "inp ?l ?r \<in> treeInputs node inp leaves"
    using j by (auto simp: treeInputs_def)
  have lens: "length ?l = 32" "length ?r = 32"
  proof -
    have "set (padLevel ?lv) = set ?lv" using p by (intro set_padLevel) auto
    then show "length ?l = 32" "length ?r = 32"
      using level_length32 [OF leaves, of j] bound by (auto intro: nth_mem)
  qed
  show ?thesis
  proof (cases "even (idx div 2 ^ length ss)")
    case True
    then have "node ?x s = node ?l ?r" using eq' \<open>0 \<le> idx\<close> by (simp add: climb_snoc)
    moreover have "\<not> collision (inp ?x s) (inp ?l ?r)"
      using nocoll [OF tree] True \<open>0 \<le> idx\<close> by (simp add: climbInputs_snoc)
    ultimately show ?thesis using node_inj [of ?x s ?l ?r] cur lens True by simp
  next
    case False
    then have "node s ?x = node ?l ?r" using eq' \<open>0 \<le> idx\<close> by (simp add: climb_snoc)
    moreover have "\<not> collision (inp s ?x) (inp ?l ?r)"
      using nocoll [OF tree] False \<open>0 \<le> idx\<close> by (simp add: climbInputs_snoc)
    ultimately show ?thesis using node_inj [of s ?x ?l ?r] cur lens False by simp
  qed
qed

lemma climb_length32: "length cur = 32 \<Longrightarrow> length (climb node cur idx ss) = 32"
  by (induction ss arbitrary: cur idx) auto

text \<open>At the tree's own depth an opening of index \<open>i\<close> is leaf \<open>i\<close>.\<close>

lemma climb_exact:
  assumes "i < length leaves" "\<forall>x \<in> set leaves. length x = 32" "length cur = 32"
    and "length ss \<le> merkleDepth (length leaves)"
    and "climb node cur (int i) ss = (nextLevel node ^^ length ss) leaves ! (i div 2 ^ length ss)"
    and "\<And>x y. x \<in> treeInputs node inp leaves \<Longrightarrow> y \<in> climbInputs node inp cur (int i) ss \<Longrightarrow>
      \<not> collision y x"
  shows "cur = leaves ! i"
  using assms(4-6)
proof (induction ss rule: rev_induct)
  case Nil
  then show ?case by simp
next
  case (snoc s ss)
  let ?k = "length ss" and ?p = "i div 2 ^ length ss"
  have len: "length ((nextLevel node ^^ k) leaves) > i div 2 ^ k" for k
  proof (induction k)
    case (Suc k)
    have "i div 2 ^ Suc k = i div 2 ^ k div 2" by (simp add: div_mult2_eq [symmetric] mult.commute)
    with Suc show ?case by simp
  qed (use assms(1) in simp)
  have half: "i div 2 ^ length (ss @ [s]) = ?p div 2"
    by (simp add: div_mult2_eq [symmetric] mult.commute)
  have "climb node cur (int i) ss = padLevel ((nextLevel node ^^ ?k) leaves) !
      (if even (int i div 2 ^ ?k) then 2 * (?p div 2) else 2 * (?p div 2) + 1)"
    using snoc.prems half len [of ?k] climb_length32 [OF assms(3)] assms(2)
    by (intro climb_step [of "int i" leaves cur ss ?k ?p s]) auto
  also have "even (int i div 2 ^ ?k) \<longleftrightarrow> even ?p"
    by (metis even_of_nat of_nat_numeral of_nat_power zdiv_int)
  also have "(if even ?p then 2 * (?p div 2) else 2 * (?p div 2) + 1) = ?p" by (rule pair_pos)
  finally have "climb node cur (int i) ss = (nextLevel node ^^ ?k) leaves ! ?p"
    using len [of ?k] by simp
  moreover have "\<not> collision y x"
    if "x \<in> treeInputs node inp leaves" "y \<in> climbInputs node inp cur (int i) ss" for x y
    using snoc.prems(3) [OF that(1)] that(2) by (simp add: climbInputs_snoc)
  ultimately show ?case using snoc.IH snoc.prems(1) by simp
qed

text \<open>Going down from a node of level \<open>j\<close>, every value on the climb is a node of its level.\<close>

lemma climbInputs_prefix:
  "0 \<le> idx \<Longrightarrow> climbInputs node inp cur idx ss \<subseteq> climbInputs node inp cur idx (ss @ ts)"
proof (induction ts rule: rev_induct)
  case (snoc t ts)
  have "climbInputs node inp cur idx ((ss @ ts) @ [t]) \<supseteq> climbInputs node inp cur idx (ss @ ts)"
    using climbInputs_snoc [OF snoc.prems] by blast
  with snoc show ?case by auto
qed simp

lemma climb_member:
  assumes "0 \<le> idx" and leaves: "\<forall>x \<in> set leaves. length x = 32" and cur: "length cur = 32"
    and nocoll: "\<And>x y. x \<in> treeInputs node inp leaves \<Longrightarrow>
      y \<in> climbInputs node inp cur idx sibs \<Longrightarrow> \<not> collision y x"
    and "length ss' \<le> j" "j \<le> merkleDepth (length leaves)" "sibs = ss @ ss'"
    and "climb node cur idx sibs \<in> set ((nextLevel node ^^ j) leaves)"
  shows "climb node cur idx ss \<in> set ((nextLevel node ^^ (j - length ss')) leaves)"
  using assms(5,7)
proof (induction ss' arbitrary: ss)
  case Nil
  then show ?case using assms(8) by simp
next
  case (Cons t ss')
  define k where "k = j - length (t # ss')"
  have k: "j - length ss' = Suc k" "Suc k \<le> merkleDepth (length leaves)"
    using Cons.prems(1) assms(6) by (auto simp: k_def)
  have "climb node cur idx (ss @ [t]) \<in> set ((nextLevel node ^^ Suc k) leaves)"
    using Cons.IH [of "ss @ [t]"] Cons.prems k(1) by simp
  then obtain q where q: "q < length ((nextLevel node ^^ Suc k) leaves)"
    "climb node cur idx (ss @ [t]) = (nextLevel node ^^ Suc k) leaves ! q"
    by (metis in_set_conv_nth)
  have p: "2 * q < length ((nextLevel node ^^ k) leaves)" using q(1) by simp
  have sub: "climbInputs node inp cur idx (ss @ [t]) \<subseteq> climbInputs node inp cur idx sibs"
    using climbInputs_prefix [OF assms(1), of cur "ss @ [t]" ss'] Cons.prems(2) by simp
  have "climb node cur idx ss = padLevel ((nextLevel node ^^ k) leaves) !
      (if even (idx div 2 ^ length ss) then 2 * (2 * q div 2) else 2 * (2 * q div 2) + 1)"
    using q p k sub nocoll assms(1) leaves climb_length32 [OF cur]
    by (intro climb_step [of idx leaves cur ss k "2 * q" t]) auto
  moreover have "2 * (2 * q div 2) + 1 < length (padLevel ((nextLevel node ^^ k) leaves))"
    unfolding length_padLevel by (rule pair_bound [OF p])
  ultimately have "climb node cur idx ss \<in> set (padLevel ((nextLevel node ^^ k) leaves))"
    by (auto intro!: nth_mem)
  moreover have "(nextLevel node ^^ k) leaves \<noteq> []" using p by auto
  ultimately show ?case unfolding k_def [symmetric] using set_padLevel by blast
qed

lemma level_inputs:
  assumes "x \<in> set ((nextLevel node ^^ Suc j) leaves)" "Suc j \<le> merkleDepth (length leaves)"
  shows "\<exists>l r. x = node l r \<and> inp l r \<in> treeInputs node inp leaves"
proof -
  have "\<exists>l r. x = node l r \<and> inp l r \<in> pairInputs inp xs" if "x \<in> set (pairUp node xs)" for xs
    using that by (induction xs rule: induct_list012) auto
  then show ?thesis
    using assms by (force simp: nextLevel_def treeInputs_def)
qed

lemma opening_not_short:
  assumes "0 \<le> idx" "\<forall>x \<in> set leaves. length x = 32"
    and root: "climb node (sha256 ci) idx sibs \<in> set ((nextLevel node ^^ merkleDepth (length leaves)) leaves)"
    and not_node: "\<And>l r. ci \<noteq> inp l r"
    and nocoll: "\<And>x y. x \<in> treeInputs node inp leaves \<Longrightarrow>
      y \<in> insert ci (climbInputs node inp (sha256 ci) idx sibs) \<Longrightarrow> \<not> collision y x"
  shows "merkleDepth (length leaves) \<le> length sibs"
proof (rule ccontr)
  let ?D = "merkleDepth (length leaves)"
  assume "\<not> ?D \<le> length sibs"
  then obtain k where k: "?D - length sibs = Suc k" "Suc k \<le> ?D"
    by (cases "?D - length sibs") auto
  have "sha256 ci \<in> set ((nextLevel node ^^ (?D - length sibs)) leaves)"
    using climb_member [of idx leaves "sha256 ci" sibs sibs ?D "[]"] assms(1,2) nocoll root k by simp
  then obtain l r where "sha256 ci = node l r" "inp l r \<in> treeInputs node inp leaves"
    using level_inputs k by metis
  then show False
    using nocoll [of "inp l r" ci] not_node by (auto simp: collision_def node_sha)
qed

lemma opening_not_long:
  assumes "0 \<le> idx" and leaves: "\<And>x. x \<in> set leaves \<Longrightarrow> \<exists>li \<in> LI. x = sha256 li"
    and cur: "length cur = 32"
    and root: "climb node cur idx sibs \<in> set ((nextLevel node ^^ merkleDepth (length leaves)) leaves)"
    and not_node: "\<And>li l r. li \<in> LI \<Longrightarrow> li \<noteq> inp l r"
    and nocoll: "\<And>x y. x \<in> treeInputs node inp leaves \<union> LI \<Longrightarrow>
      y \<in> climbInputs node inp cur idx sibs \<Longrightarrow> \<not> collision y x"
  shows "length sibs \<le> merkleDepth (length leaves)"
proof (rule ccontr)
  let ?D = "merkleDepth (length leaves)"
  assume "\<not> length sibs \<le> ?D"
  then obtain ss ss' where split: "sibs = ss @ ss'" "length ss' = ?D" "ss \<noteq> []"
    by (metis append_take_drop_id diff_diff_cancel length_drop nat_le_linear take_eq_Nil
        diff_is_0_eq list.size(3))
  then obtain t u where tu: "ss = t @ [u]" by (metis rev_exhaust)
  have l32: "\<forall>x \<in> set leaves. length x = 32" using leaves by fastforce
  have "climb node cur idx ss \<in> set ((nextLevel node ^^ (?D - length ss')) leaves)"
    using l32 cur nocoll root split assms(1) by (intro climb_member [of _ _ _ sibs]) auto
  then obtain li where li: "li \<in> LI" "climb node cur idx ss = sha256 li"
    using split leaves by auto
  define x where "x = (let c = climb node cur idx t in
     if even (idx div 2 ^ length t) then inp c u else inp u c)"
  have "climb node cur idx ss = sha256 x"
    unfolding tu x_def using assms(1) by (simp add: climb_snoc node_sha Let_def)
  moreover have "x \<in> climbInputs node inp cur idx sibs"
    using climbInputs_prefix [of idx cur ss ss'] climbInputs_snoc [of idx node inp cur t u] assms(1)
    unfolding split(1) by (auto simp: tu x_def)
  moreover have "x \<noteq> li"
    using not_node [OF li(1)] unfolding x_def Let_def by (metis (full_types))
  ultimately show False
    using nocoll [of li x] li by (auto simp: collision_def)
qed

end

text \<open>A tree over leaf hashes that cannot be mistaken for node hashes.\<close>

locale merkle_tree = merkle_hash +
  fixes leaf :: "nat \<Rightarrow> bytes \<Rightarrow> bytes"
    and leafInp :: "nat \<Rightarrow> bytes \<Rightarrow> bytes"
  assumes leaf_sha: "leaf i s = sha256 (leafInp i s)"
    and leafInp_inj: "leafInp i s = leafInp i s' \<Longrightarrow> s = s'"
    and leaf_not_node: "leafInp i s \<noteq> inp l r"
begin

text \<open>An opening of a built root at a leaf's index is that leaf, at the depth of the tree, unless
  a string hashed by the verifier collides with one hashed by the builder.\<close>

lemma opening_sound:
  fixes stripes :: "bytes list"
  defines "leaves \<equiv> map2 leaf [0..<length stripes] stripes"
  defines "LI \<equiv> (\<lambda>i. leafInp i (stripes ! i)) ` {..<length stripes}"
  assumes i: "i < length stripes"
    and root: "climb node (leaf i s) (int i) sibs = hd (topLevel node leaves)"
    and nocoll: "\<And>x y. x \<in> treeInputs node inp leaves \<union> LI \<Longrightarrow>
      y \<in> insert (leafInp i s) (climbInputs node inp (leaf i s) (int i) sibs) \<Longrightarrow> \<not> collision y x"
  shows "s = stripes ! i \<and> length sibs = merkleDepth (length stripes)"
proof -
  let ?D = "merkleDepth (length stripes)" and ?cur = "leaf i s"
  have nl: "length leaves = length stripes" by (simp add: leaves_def)
  have leaf_nth: "leaves ! k = leaf k (stripes ! k)" if "k < length stripes" for k
    using that by (simp add: leaves_def)
  have LI: "\<exists>li \<in> LI. x = sha256 li" if "x \<in> set leaves" for x
    using that leaf_nth nl by (auto simp: in_set_conv_nth LI_def leaf_sha)
  then have l32: "\<forall>x \<in> set leaves. length x = 32" by fastforce
  have top: "topLevel node leaves = (nextLevel node ^^ ?D) leaves" by (simp add: topLevel_eq nl)
  have "leaves \<noteq> []" using i nl by auto
  then have len1: "length ((nextLevel node ^^ ?D) leaves) = 1"
    using length_topLevel [of leaves node] unfolding top by simp
  then have root_mem: "climb node ?cur (int i) sibs \<in> set ((nextLevel node ^^ ?D) leaves)"
    using root unfolding top by (cases "(nextLevel node ^^ ?D) leaves") auto
  have "?D \<le> length sibs"
    using opening_not_short [of "int i" leaves "leafInp i s" sibs] l32 root_mem leaf_not_node nocoll
    by (simp add: leaf_sha nl)
  moreover have "li \<noteq> inp l r" if "li \<in> LI" for li l r
    using that leaf_not_node by (auto simp: LI_def)
  then have "length sibs \<le> ?D"
    using opening_not_long [of "int i" leaves LI ?cur sibs] LI root_mem nocoll
    by (simp add: leaf_sha nl)
  ultimately have len: "length sibs = ?D" by simp
  have pos: "i div 2 ^ k < length ((nextLevel node ^^ k) leaves)" for k
  proof (induction k)
    case (Suc k)
    have "i div 2 ^ Suc k = i div 2 ^ k div 2" by (simp add: div_mult2_eq [symmetric] mult.commute)
    with Suc show ?case by simp
  qed (use i nl in simp)
  have "climb node ?cur (int i) sibs = (nextLevel node ^^ ?D) leaves ! (i div 2 ^ ?D)"
    using root len1 pos [of ?D] unfolding top by (cases "(nextLevel node ^^ ?D) leaves") auto
  then have "?cur = leaves ! i"
    using i nl l32 len nocoll by (intro climb_exact [of i leaves ?cur sibs]) (auto simp: leaf_sha)
  then have "sha256 (leafInp i s) = sha256 (leafInp i (stripes ! i))"
    using leaf_nth i by (simp add: leaf_sha)
  then have "leafInp i s = leafInp i (stripes ! i)"
    using nocoll [of "leafInp i (stripes ! i)" "leafInp i s"] i by (auto simp: collision_def LI_def)
  then show ?thesis using leafInp_inj [of i s "stripes ! i"] len by simp
qed

end

end
