(* ===== verification/Mvba_Erasure.thy ===== *)
theory Mvba_Erasure
  imports Merkle_Core
begin

text \<open>
  \<^verbatim>\<open>equivalent_utils.go\<close>: packing, erasure coding and the Merkle commitment of the shards.
  The Reed-Solomon coder is the third-party package \<^verbatim>\<open>klauspost/reedsolomon\<close>: a record of the
  methods the code calls, with their documented behaviour as the predicate \<open>rs_laws\<close>.
  A missing shard (nil) is the empty byte string: the code stores only copies made with
  \<^verbatim>\<open>append([]byte(nil), x...)\<close>, which are nil exactly when \<open>x\<close> is empty.
\<close>

section \<open>Packing\<close>

definition packValue :: "bytes \<Rightarrow> bytes" where
  "packValue v = put64 (word_of_nat (length v)) @ v"

text \<open>\<^verbatim>\<open>make([]byte, n)\<close> panics when \<open>n\<close> exceeds the largest allocation of the run-time
  (\<open>2 ^ 48\<close> bytes on 64-bit platforms). \<^verbatim>\<open>int(8+n)\<close> is a 64-bit addition, which wraps, read as
  a signed number.\<close>

definition maxAlloc :: nat where
  "maxAlloc = 2 ^ 48"

definition unpackValue :: "bytes \<Rightarrow> bytes res" where
  "unpackValue v =
     (if length v < 8 then Err ''packed value too short''
      else let n = get64 (take 8 v) in
        if sint (8 + n) > int (length v) then Err ''packed value length mismatch''
        else if unat n > maxAlloc then Panic
        else Ok (take (unat n) (drop 8 v)))"

lemma sint_less_63:
  assumes "unat (w :: 64 word) < 2 ^ 63"
  shows "sint w = int (unat w)"
proof -
  have "int (unat w) < 2 ^ 63" using assms by (metis of_nat_less_iff of_nat_numeral of_nat_power)
  then have lt: "uint w < 2 ^ 63" by (simp only: uint_nat)
  have "signed_take_bit 63 (uint w) = uint w"
  proof (rule signed_take_bit_int_eq_self)
    show "- (2 ^ 63) \<le> uint w" by (rule order_trans [of _ 0]) simp_all
    show "uint w < 2 ^ 63" by (rule lt)
  qed
  then show ?thesis by (simp add: sint_uint)
qed

lemma sint_ge_63:
  assumes "2 ^ 63 \<le> unat (w :: 64 word)"
  shows "sint w < 0"
proof -
  have "2 ^ 63 \<le> int (unat w)" using assms by (metis of_nat_le_iff of_nat_numeral of_nat_power)
  then have u: "2 ^ 63 \<le> uint w" by (simp only: uint_nat)
  have lt: "uint w < 2 ^ 64" using uint_lt2p [of w] by simp
  have "(uint w + 2 ^ 63) mod 2 ^ 64 = (uint w + 2 ^ 63 - 2 ^ 64) mod 2 ^ 64"
    by (simp only: minus_mod_self2)
  also have "\<dots> = uint w + 2 ^ 63 - 2 ^ 64" using u lt by (intro mod_pos_pos_trivial) simp_all
  finally have "sint w = uint w + 2 ^ 63 - 2 ^ 64 - 2 ^ 63"
    by (simp add: sint_uint take_bit_eq_mod signed_take_bit_eq_take_bit_shift)
  then show ?thesis using lt by simp
qed

lemma unat_word_add8:
  "unat (n :: 64 word) < 2 ^ 64 - 8 \<Longrightarrow> unat (8 + n) = 8 + unat n"
  by (simp add: unat_word_ariths)

lemma unpackValue_pack:
  assumes "length v \<le> maxAlloc"
  shows "unpackValue (packValue v @ pad) = Ok v"
proof -
  have len: "length v < 2 ^ 64" using assms by (simp add: maxAlloc_def)
  have n: "unat (word_of_nat (length v) :: 64 word) = length v"
    using len by (intro unat_word_of_nat_id) simp
  have "unat (8 + word_of_nat (length v) :: 64 word) = 8 + length v"
    using assms n by (subst unat_word_add8) (simp_all add: maxAlloc_def)
  then have "sint (8 + word_of_nat (length v) :: 64 word) = int (8 + length v)"
    using assms by (subst sint_less_63) (simp_all add: maxAlloc_def)
  then show ?thesis
    using assms n by (simp add: unpackValue_def packValue_def Let_def)
qed

section \<open>The Reed-Solomon package\<close>

record rsCoder =
  rs_New :: "int \<Rightarrow> int \<Rightarrow> unit res"
  rs_Split :: "int \<Rightarrow> int \<Rightarrow> bytes \<Rightarrow> bytes list res"
  rs_Encode :: "int \<Rightarrow> int \<Rightarrow> bytes list \<Rightarrow> bytes list res"
  rs_Reconstruct :: "int \<Rightarrow> int \<Rightarrow> bytes list \<Rightarrow> bytes list res"
  rs_Join :: "int \<Rightarrow> int \<Rightarrow> bytes list \<Rightarrow> int \<Rightarrow> bytes res"

text \<open>\<open>shards'\<close> is \<open>shards\<close> with some entries missing, at least \<open>k\<close> left.\<close>

definition shardSubset :: "nat \<Rightarrow> bytes list \<Rightarrow> bytes list \<Rightarrow> bool" where
  "shardSubset k shards shards' \<longleftrightarrow>
     length shards' = length shards \<and> (\<forall>i < length shards. shards' ! i = [] \<or> shards' ! i = shards ! i)
     \<and> k \<le> length (filter (\<lambda>s. s \<noteq> []) shards')"

text \<open>The package documentation: \<^verbatim>\<open>Split\<close> cuts non-empty data into equally sized shards, padding
  with zeros, and adds empty parity shards; \<^verbatim>\<open>Encode\<close> computes the parity of the data shards and
  leaves those as they are; \<^verbatim>\<open>Reconstruct\<close> recreates the missing shards when at least \<open>k\<close> are
  present; \<^verbatim>\<open>Join\<close> writes the data segment in full, up to the requested size.\<close>

definition rs_laws :: "rsCoder \<Rightarrow> bool" where
  "rs_laws rs \<longleftrightarrow>
    (\<forall>k m data. rs_New rs k m = Ok () \<longrightarrow> data \<noteq> [] \<longrightarrow>
      (\<exists>shards enc zs L. 0 < k \<and> 0 \<le> m \<and> 0 < L \<and> rs_Split rs k m data = Ok shards \<and>
        rs_Encode rs k m shards = Ok enc \<and>
        length enc = nat (k + m) \<and> (\<forall>s \<in> set enc. length s = L) \<and>
        concat (take (nat k) enc) = data @ zs \<and>
        (\<forall>part. shardSubset (nat k) enc part \<longrightarrow> rs_Reconstruct rs k m part = Ok enc) \<and>
        rs_Join rs k m enc (int L * k) = Ok (data @ zs)))"

definition erasureEncodeValue :: "rsCoder \<Rightarrow> bytes \<Rightarrow> int \<Rightarrow> int \<Rightarrow> bytes list res" where
  "erasureEncodeValue rs v k n =
     (if k \<le> 0 \<or> n \<le> 0 \<or> k > n then Err ''invalid erasure params''
      else if n = k then Ok (replicate (nat n) (packValue v))
      else bindR (rs_New rs k (n - k)) (\<lambda>_.
           bindR (rs_Split rs k (n - k) (packValue v)) (\<lambda>shards.
           rs_Encode rs k (n - k) shards)))"

text \<open>The first shard that is present fixes the shard length, as the source's loop does.\<close>

fun firstShard :: "bytes list \<Rightarrow> bytes option" where
  "firstShard [] = None"
| "firstShard (s # rest) = (if s \<noteq> [] then Some s else firstShard rest)"

definition erasureDecodeValue :: "rsCoder \<Rightarrow> bytes list \<Rightarrow> int \<Rightarrow> int \<Rightarrow> bytes res" where
  "erasureDecodeValue rs shards k n =
     (if int (length shards) \<noteq> n then Err ''invalid shard count''
      else if n = k then
        (case firstShard shards of Some s \<Rightarrow> unpackValue s | None \<Rightarrow> Err ''all shards missing'')
      else bindR (rs_New rs k (n - k)) (\<lambda>_.
        case firstShard shards of
          None \<Rightarrow> Err ''all shards missing''
        | Some s \<Rightarrow>
            bindR (rs_Reconstruct rs k (n - k) shards) (\<lambda>work.
            bindR (rs_Join rs k (n - k) work (int (length s) * k)) unpackValue)))"

lemma firstShard_Some:
  "filter (\<lambda>s. s \<noteq> []) shards \<noteq> [] \<Longrightarrow> \<exists>s \<in> set shards. firstShard shards = Some s \<and> s \<noteq> []"
  by (induction shards) auto

lemma shardSubset_first:
  assumes "shardSubset k shards part" "0 < k"
  obtains i where "i < length shards" "firstShard part = Some (shards ! i)"
proof -
  have "filter (\<lambda>s. s \<noteq> []) part \<noteq> []"
    using assms by (auto simp: shardSubset_def)
  then obtain s where s: "s \<in> set part" "firstShard part = Some s" "s \<noteq> []"
    using firstShard_Some by blast
  then obtain i where "i < length part" "part ! i = s" by (auto simp: in_set_conv_nth)
  then show thesis using that [of i] s assms by (auto simp: shardSubset_def)
qed

lemma packValue_not_Nil [simp]: "packValue v \<noteq> []"
  by (simp add: packValue_def put64_def)

lemma erasure_round_trip:
  assumes "rs_laws rs" "length v \<le> maxAlloc" "erasureEncodeValue rs v k n = Ok shards"
    and part: "shardSubset (nat k) shards part"
  shows "erasureDecodeValue rs part k n = Ok v"
proof -
  have k: "0 < k" "0 < n" "k \<le> n"
    using assms(3) by (auto simp: erasureEncodeValue_def split: if_splits)
  obtain i where i: "i < length shards" "firstShard part = Some (shards ! i)"
    using part k by (elim shardSubset_first) auto
  show ?thesis
  proof (cases "n = k")
    case True
    then have "shards = replicate (nat n) (packValue v)"
      using assms(3) k by (simp add: erasureEncodeValue_def)
    then show ?thesis
      using i part True k unpackValue_pack [OF assms(2), of "[]"]
      by (auto simp: erasureDecodeValue_def shardSubset_def)
  next
    case False
    let ?m = "n - k"
    have new: "rs_New rs k ?m = Ok ()"
      using assms(3) k False by (auto simp: erasureEncodeValue_def)
    obtain split enc zs L where law: "rs_Split rs k ?m (packValue v) = Ok split"
      "rs_Encode rs k ?m split = Ok enc" "length enc = nat n" "\<forall>s \<in> set enc. length s = L"
      "\<forall>part. shardSubset (nat k) enc part \<longrightarrow> rs_Reconstruct rs k ?m part = Ok enc"
      "rs_Join rs k ?m enc (int L * k) = Ok (packValue v @ zs)"
      using assms(1)[unfolded rs_laws_def, rule_format, OF new packValue_not_Nil [of v]] by auto
    have enc: "shards = enc" using assms(3) law k False new by (simp add: erasureEncodeValue_def)
    have "length (shards ! i) = L" using i law(4) enc by (auto intro: nth_mem)
    then show ?thesis
      using i law part new k False unpackValue_pack [OF assms(2), of zs] enc
      by (simp add: erasureDecodeValue_def shardSubset_def)
  qed
qed

section \<open>The Merkle commitment\<close>

definition leafHash :: "bytes \<Rightarrow> bytes" where
  "leafHash v = hashBytes [[0], v]"

definition nodeHash :: "bytes \<Rightarrow> bytes \<Rightarrow> bytes" where
  "nodeHash l r = hashBytes [[1], l, r]"

text \<open>The loop of \<^verbatim>\<open>buildMerkle\<close>: \<open>level\<close>, the running position of each leaf, and the siblings
  collected for it.\<close>

function merkleLoop :: "bytes list \<Rightarrow> nat list \<Rightarrow> bytes list list \<Rightarrow> bytes list \<times> bytes list list" where
  "merkleLoop level indexes branches =
     (if length level > 1 then
        let padded = padLevel level;
            branches = map2 (\<lambda>pos sibs. sibs @ [padded ! siblingPos (length padded) pos])
                         indexes branches;
            indexes = map (\<lambda>pos. pos div 2) indexes
        in merkleLoop (pairUp nodeHash padded) indexes branches
      else (level, branches))"
  by pat_completeness auto
termination
  by (relation "measure (\<lambda>(level, indexes, branches). length level)") (auto simp: length_padLevel)

declare merkleLoop.simps [simp del]

definition buildMerkle :: "bytes list \<Rightarrow> bytes \<times> merkleBranch list" where
  "buildMerkle stripes =
     (let n = length stripes in
      if n = 0 then (hashBytes [[]], [])
      else let (level, branches) =
                 merkleLoop (map leafHash stripes) [0..<n] (replicate n [])
           in (level ! 0, map2 (\<lambda>i sibs. \<lparr>mb_Index = int i, mb_Siblings = sibs\<rparr>) [0..<n] branches))"

definition verifyMerkle :: "bytes \<Rightarrow> bytes \<Rightarrow> merkleBranch \<Rightarrow> bool" where
  "verifyMerkle stripe root branch \<longleftrightarrow>
     climb nodeHash (leafHash stripe) (mb_Index branch) (mb_Siblings branch) = root"

lemma merkleLoop_eq:
  "length indexes = length branches \<Longrightarrow>
   merkleLoop level indexes branches =
     (topLevel nodeHash level, map2 (\<lambda>i sibs. sibs @ pathFrom nodeHash level i) indexes branches)"
proof (induction level indexes branches rule: merkleLoop.induct)
  case (1 level indexes branches)
  show ?case
  proof (cases "length level > 1")
    case False
    moreover have "map2 (\<lambda>x y. y) indexes branches = branches"
      using "1.prems" by (intro nth_equalityI) auto
    ultimately show ?thesis
      by (simp add: merkleLoop.simps [of level] topLevel.simps [of _ level]
          pathFrom.simps [of _ level])
  next
    case True
    have fuse: "map2 (\<lambda>i sibs. sibs @ P i) (map h xs) (map2 (\<lambda>pos sibs. sibs @ [Q pos]) xs ys) =
        map2 (\<lambda>i sibs. sibs @ Q i # P (h i)) xs ys" for P Q and h :: "nat \<Rightarrow> nat" and xs ys
      by (induction xs arbitrary: ys) (auto split: list.splits simp: zip_Cons1)
    show ?thesis using 1 True
      by (simp add: merkleLoop.simps [of level] topLevel.simps [of _ level]
          pathFrom.simps [of _ level] nextLevel_def fuse Let_def)
  qed
qed

lemma buildMerkle_eq:
  assumes "stripes \<noteq> []"
  shows "buildMerkle stripes =
    (hd (topLevel nodeHash (map leafHash stripes)),
     map (\<lambda>i. \<lparr>mb_Index = int i, mb_Siblings = pathFrom nodeHash (map leafHash stripes) i\<rparr>)
       [0..<length stripes])"
proof -
  let ?n = "length stripes" and ?lv = "map leafHash stripes"
  have rep: "map2 (\<lambda>i sibs. sibs @ P i) [0..<?n] (replicate ?n []) = map P [0..<?n]"
    for P :: "nat \<Rightarrow> bytes list"
    by (intro nth_equalityI) auto
  have top: "topLevel nodeHash ?lv ! 0 = hd (topLevel nodeHash ?lv)"
    using length_topLevel [of ?lv nodeHash] assms
    by (cases "topLevel nodeHash ?lv") auto
  show ?thesis
    using assms top
    by (simp add: buildMerkle_def merkleLoop_eq rep Let_def map2_map_map [symmetric])
      (simp add: zip_same_conv_map zip_map2 comp_def)
qed

interpretation mt: merkle_tree nodeHash "\<lambda>l r. [1] @ l @ r" "\<lambda>_. leafHash" "\<lambda>_ s. [0] @ s"
  by unfold_locales (auto simp: nodeHash_def leafHash_def hashBytes_def)

lemma length_leafHash [simp]: "length (leafHash s) = 32"
  by (simp add: leafHash_def)

lemma length_nodeHash [simp]: "length (nodeHash l r) = 32"
  by (simp add: nodeHash_def)

section \<open>Properties\<close>

text \<open>The strings \<^verbatim>\<open>buildMerkle\<close> hashes for a list of stripes, and those \<^verbatim>\<open>verifyMerkle\<close> hashes for
  one opening.\<close>

definition merkleInputs :: "bytes list \<Rightarrow> bytes set" where
  "merkleInputs stripes =
     treeInputs nodeHash (\<lambda>l r. [1] @ l @ r) (map leafHash stripes) \<union> ((@) [0]) ` set stripes"

definition openingInputs :: "bytes \<Rightarrow> merkleBranch \<Rightarrow> bytes set" where
  "openingInputs stripe branch =
     insert ([0] @ stripe)
       (climbInputs nodeHash (\<lambda>l r. [1] @ l @ r) (leafHash stripe) (mb_Index branch)
         (mb_Siblings branch))"

lemma collision_sym: "collision x y \<longleftrightarrow> collision y x"
  by (auto simp: collision_def)

lemma opening_binds:
  assumes "verifyMerkle stripe (fst (buildMerkle stripes)) branch"
    and "0 \<le> mb_Index branch" "mb_Index branch < int (length stripes)"
  shows "stripe = stripes ! nat (mb_Index branch) \<or>
    (\<exists>x \<in> merkleInputs stripes. \<exists>y \<in> openingInputs stripe branch. collision x y)"
proof (rule disjCI)
  assume nocoll: "\<not> (\<exists>x \<in> merkleInputs stripes. \<exists>y \<in> openingInputs stripe branch. collision x y)"
  let ?i = "nat (mb_Index branch)"
  have i: "?i < length stripes" "int ?i = mb_Index branch" using assms(2,3) by auto
  then have "stripes \<noteq> []" by auto
  have leaves: "map2 (\<lambda>_. leafHash) [0..<length stripes] stripes = map leafHash stripes"
    by (intro nth_equalityI) auto
  have LI: "(\<lambda>i. [0] @ stripes ! i) ` {..<length stripes} \<subseteq> ((@) [0]) ` set stripes" by auto
  have "stripe = stripes ! ?i \<and> length (mb_Siblings branch) = merkleDepth (length stripes)"
  proof (rule mt.opening_sound [OF i(1)])
    show "climb nodeHash (leafHash stripe) (int ?i) (mb_Siblings branch) =
        hd (topLevel nodeHash (map2 (\<lambda>_. leafHash) [0..<length stripes] stripes))"
      using assms(1) \<open>stripes \<noteq> []\<close>
      by (simp add: verifyMerkle_def buildMerkle_eq leaves assms(2))
    show "\<not> collision y x"
      if "x \<in> treeInputs nodeHash (\<lambda>l r. [1] @ l @ r) (map2 (\<lambda>_. leafHash) [0..<length stripes] stripes)
          \<union> (\<lambda>i. [0] @ stripes ! i) ` {..<length stripes}"
        "y \<in> insert ([0] @ stripe) (climbInputs nodeHash (\<lambda>l r. [1] @ l @ r) (leafHash stripe)
          (int ?i) (mb_Siblings branch))" for x y
      using that nocoll LI unfolding leaves i(2)
      by (auto simp: merkleInputs_def openingInputs_def collision_sym [of y])
  qed
  then show "stripe = stripes ! ?i" ..
qed

lemma length_buildMerkle_root [simp]: "length (fst (buildMerkle stripes)) = 32"
proof (cases "stripes = []")
  case False
  have l32: "\<forall>x \<in> set (map leafHash stripes). length x = 32" by simp
  have "hd (topLevel nodeHash (map leafHash stripes)) \<in> set (topLevel nodeHash (map leafHash stripes))"
    using length_topLevel [of "map leafHash stripes" nodeHash] False
    by (cases "topLevel nodeHash (map leafHash stripes)") auto
  then show ?thesis
    using mt.level_length32 [OF l32] False by (simp add: buildMerkle_eq topLevel_eq)
qed (simp add: buildMerkle_def)

lemma branch_verifies:
  assumes "i < length stripes"
  shows "mb_Index (snd (buildMerkle stripes) ! i) = int i \<and>
    verifyMerkle (stripes ! i) (fst (buildMerkle stripes)) (snd (buildMerkle stripes) ! i)"
proof -
  have "stripes \<noteq> []" using assms by auto
  then show ?thesis
    using assms climb_pathFrom [of i "map leafHash stripes" nodeHash]
    by (simp add: buildMerkle_eq verifyMerkle_def)
qed

text \<open>The strings hashed when the branches that \<^verbatim>\<open>buildMerkle\<close> returned are verified.\<close>

definition branchInputs :: "bytes list \<Rightarrow> bytes set" where
  "branchInputs stripes =
     (\<Union>i < length stripes. openingInputs (stripes ! i) (snd (buildMerkle stripes) ! i))"

lemma root_binds:
  assumes "fst (buildMerkle a) = fst (buildMerkle b)" "length a = length b"
    and "\<And>x y. x \<in> merkleInputs a \<Longrightarrow> y \<in> branchInputs b \<Longrightarrow> \<not> collision x y"
  shows "a = b"
proof (rule nth_equalityI)
  fix i assume "i < length a"
  then have i: "i < length b" using assms(2) by simp
  have "b ! i = a ! nat (mb_Index (snd (buildMerkle b) ! i)) \<or>
      (\<exists>x \<in> merkleInputs a. \<exists>y \<in> openingInputs (b ! i) (snd (buildMerkle b) ! i). collision x y)"
    using branch_verifies [OF i] assms(1,2) i by (intro opening_binds) auto
  then show "a ! i = b ! i"
    using assms(3) branch_verifies [OF i] i by (auto simp: branchInputs_def)
qed (rule assms(2))

text \<open>C27. Every branch that \<^verbatim>\<open>buildMerkle\<close> returns verifies: the branch of stripe \<open>i\<close> carries the
  index \<open>i\<close> and \<^verbatim>\<open>verifyMerkle\<close> accepts it against the returned root.\<close>

theorem buildMerkle_complete:
  assumes "i < length stripes"
  shows "mb_Index (snd (buildMerkle stripes) ! i) = int i \<and>
    verifyMerkle (stripes ! i) (fst (buildMerkle stripes)) (snd (buildMerkle stripes) ! i)"
  using assms by (rule branch_verifies)

theorem buildMerkle_complete_witness:
  "(1 :: nat) < length [[5], [6], [7 :: byte]] \<and>
   verifyMerkle [6] (fst (buildMerkle [[5], [6], [7]])) (snd (buildMerkle [[5], [6], [7]]) ! 1)"
  using buildMerkle_complete [of 1 "[[5], [6], [7]]"] by simp

text \<open>C26. A Merkle root binds its stripes. Whatever branch is presented, of whatever depth, if
  \<^verbatim>\<open>verifyMerkle\<close> accepts a stripe for an index of the tree against the root that \<^verbatim>\<open>buildMerkle\<close>
  computed, then it is the stripe committed at that index, or two concrete strings, one hashed by
  the builder and one by the verifier, are a collision of SHA-256.\<close>

theorem verifyMerkle_sound:
  assumes "verifyMerkle stripe (fst (buildMerkle stripes)) branch"
    and "0 \<le> mb_Index branch" "mb_Index branch < int (length stripes)"
  shows "stripe = stripes ! nat (mb_Index branch) \<or>
    (\<exists>x \<in> merkleInputs stripes. \<exists>y \<in> openingInputs stripe branch. collision x y)"
  using assms by (rule opening_binds)

theorem verifyMerkle_sound_witness:
  "[6] = [[5], [6], [7 :: byte]] ! 1 \<or>
    (\<exists>x \<in> merkleInputs [[5], [6], [7]].
     \<exists>y \<in> openingInputs [6] (snd (buildMerkle [[5], [6], [7]]) ! 1). collision x y)"
  using verifyMerkle_sound [of "[6]" "[[5], [6], [7]]" "snd (buildMerkle [[5], [6], [7]]) ! 1"]
    climb_pathFrom [of 1 "map leafHash [[5], [6], [7]]" nodeHash]
  by (simp add: buildMerkle_eq verifyMerkle_def)

text \<open>C28. Erasure coding recovers the value: whatever the shards that are missing, as long as \<open>k\<close>
  of the encoded shards are present, \<^verbatim>\<open>erasureDecodeValue\<close> returns the encoded value, on the
  replication path (\<open>n = k\<close>) and on the Reed-Solomon path alike.\<close>

theorem erasure_decode_encode:
  assumes "rs_laws rs" "length v \<le> maxAlloc" "erasureEncodeValue rs v k n = Ok shards"
    and "shardSubset (nat k) shards part"
  shows "erasureDecodeValue rs part k n = Ok v"
  using assms by (rule erasure_round_trip)

text \<open>A coder that satisfies the documented behaviour: one data shard, replicated.\<close>

definition replicationCoder :: rsCoder where
  "replicationCoder = \<lparr>rs_New = (\<lambda>k m. if k = 1 \<and> 0 \<le> m then Ok () else Err ''unsupported''),
     rs_Split = (\<lambda>k m data. Ok (data # replicate (nat m) [])),
     rs_Encode = (\<lambda>k m shards. Ok (replicate (nat (k + m)) (hd shards))),
     rs_Reconstruct = (\<lambda>k m part. case firstShard part of None \<Rightarrow> Err ''too few shards''
        | Some s \<Rightarrow> Ok (replicate (nat (k + m)) s)),
     rs_Join = (\<lambda>k m shards size. Ok (take (nat size) (concat (take (nat k) shards))))\<rparr>"

lemma replicationCoder_laws: "rs_laws replicationCoder"
proof -
  have rec: "rs_Reconstruct replicationCoder 1 m part = Ok (replicate (nat (1 + m)) data)"
    if "shardSubset (Suc 0) (replicate (nat (1 + m)) data) part" for m part data
    using shardSubset_first [OF that] by (fastforce simp: replicationCoder_def)
  show ?thesis
    unfolding rs_laws_def
  proof (intro allI impI)
    fix k m and data :: bytes
    assume "rs_New replicationCoder k m = Ok ()" "data \<noteq> []"
    then have km: "k = 1" "0 \<le> m" by (auto simp: replicationCoder_def split: if_splits)
    then have "take (Suc 0) (replicate (nat (1 + m)) data) = [data]"
      by (cases "nat (1 + m)") auto
    then show "\<exists>shards enc zs L. 0 < k \<and> 0 \<le> m \<and> 0 < L \<and>
        rs_Split replicationCoder k m data = Ok shards \<and>
        rs_Encode replicationCoder k m shards = Ok enc \<and>
        length enc = nat (k + m) \<and> (\<forall>s \<in> set enc. length s = L) \<and>
        concat (take (nat k) enc) = data @ zs \<and>
        (\<forall>part. shardSubset (nat k) enc part \<longrightarrow> rs_Reconstruct replicationCoder k m part = Ok enc) \<and>
        rs_Join replicationCoder k m enc (int L * k) = Ok (data @ zs)"
      using km rec \<open>data \<noteq> []\<close>
      by (intro exI [of _ "data # replicate (nat m) []"] exI [of _ "replicate (nat (1 + m)) data"]
          exI [of _ "[]"] exI [of _ "length data"])
        (auto simp: replicationCoder_def)
  qed
qed

theorem erasure_decode_encode_witness:
  "erasureDecodeValue replicationCoder [[], packValue [9, 8], []] 1 3 = Ok [9, 8]"
proof -
  have enc: "erasureEncodeValue replicationCoder [9, 8] 1 3 = Ok (replicate 3 (packValue [9, 8]))"
    by (simp add: erasureEncodeValue_def replicationCoder_def)
  have sub: "shardSubset (nat 1) (replicate 3 (packValue [9, 8])) [[], packValue [9, 8], []]"
    by (simp add: shardSubset_def less_Suc_eq numeral_3_eq_3)
  show ?thesis
    by (rule erasure_decode_encode [OF replicationCoder_laws _ enc sub]) (simp add: maxAlloc_def)
qed

text \<open>\<^verbatim>\<open>unpackValue\<close> does not survive every length prefix: on an input of allocatable size it
  panics exactly when the announced length is within eight of \<open>2 ^ 63\<close> or above, because \<^verbatim>\<open>int(8+n)\<close>
  is then negative or small and passes the bound check, while \<^verbatim>\<open>make\<close> cannot allocate \<open>n\<close> bytes.
  On every other prefix it returns a value or an error.\<close>

theorem unpackValue_panics:
  assumes "8 \<le> length v" "length v \<le> maxAlloc"
  shows "unpackValue v = Panic \<longleftrightarrow> 2 ^ 63 - 8 \<le> unat (get64 (take 8 v))"
proof -
  let ?n = "get64 (take 8 v)"
  consider (small) "unat ?n < 2 ^ 63 - 8" | (neg) "2 ^ 63 - 8 \<le> unat ?n" "unat ?n < 2 ^ 64 - 8"
    | (wrap) "2 ^ 64 - 8 \<le> unat ?n" by linarith
  then show ?thesis
  proof cases
    case small
    then have "sint (8 + ?n) = int (8 + unat ?n)"
      by (subst sint_less_63) (simp_all add: unat_word_add8)
    then have "int (length v) < sint (8 + ?n)" if "maxAlloc < unat ?n"
      using that assms(2) by (simp only: of_nat_less_iff)
    then show ?thesis using small assms(1) by (auto simp: unpackValue_def Let_def)
  next
    case neg
    then have "sint (8 + ?n) < 0" by (intro sint_ge_63) (simp add: unat_word_add8)
    then show ?thesis using neg assms by (auto simp: unpackValue_def Let_def maxAlloc_def)
  next
    case wrap
    have "unat ?n < 2 ^ 64" using unsigned_less [of ?n, where ?'a = nat] by simp
    then have "unat (8 + ?n) < 8" using wrap by (simp add: unat_word_ariths mod_if) linarith
    moreover from this have "sint (8 + ?n) = int (unat (8 + ?n))" by (intro sint_less_63) simp
    ultimately have "sint (8 + ?n) < 8" by (metis of_nat_less_iff of_nat_numeral)
    then show ?thesis using wrap assms by (auto simp: unpackValue_def Let_def maxAlloc_def)
  qed
qed

theorem unpackValue_panics_witness:
  "unpackValue [255, 255, 255, 255, 255, 255, 255, 255] = Panic"
  using unpackValue_panics [of "[255, 255, 255, 255, 255, 255, 255, 255]"]
  by (simp add: maxAlloc_def get64_def be_word_def)

end
