(* ===== verification/Go_Reactor.thy ===== *)
theory Go_Reactor
  imports Go_Prelude "HOL-Library.AList"
begin

text \<open>
  Protocol goroutines as event handlers. A goroutine that loops over a \<^verbatim>\<open>select\<close> is a handler from a
  state and an event to a \<open>step\<close>: it goes on with a new state, or returns. Every step carries the
  external calls it made, in order. \<open>runLoop\<close> feeds a handler a sequence of events, which is one
  schedule of its channels; the theorems about it hold for every schedule. The
  locales \<open>guarded_loop\<close> and \<open>loop_contract\<close> are what a component proves of its handler once, for one event, and gets for every
  run.
\<close>

datatype ('s, 'o, 'r) step = Continue 's "'o list" | Return "'r res" 's "'o list"

fun stepState :: "('s, 'o, 'r) step \<Rightarrow> 's" where
  "stepState (Continue s out) = s"
| "stepState (Return r s out) = s"

fun stepOut :: "('s, 'o, 'r) step \<Rightarrow> 'o list" where
  "stepOut (Continue s out) = out"
| "stepOut (Return r s out) = out"

fun stepResult :: "('s, 'o, 'r) step \<Rightarrow> 'r res option" where
  "stepResult (Continue s out) = None"
| "stepResult (Return r s out) = Some r"

fun prependOut :: "'o list \<Rightarrow> ('s, 'o, 'r) step \<Rightarrow> ('s, 'o, 'r) step" where
  "prependOut out0 (Continue s out) = Continue s (out0 @ out)"
| "prependOut out0 (Return r s out) = Return r s (out0 @ out)"

text \<open>\<^verbatim>\<open>x, err := m; if err != nil { return nil, err }\<close> inside a handler.\<close>

fun onOk :: "'a res \<Rightarrow> 's \<Rightarrow> 'o list \<Rightarrow> ('a \<Rightarrow> ('s, 'o, 'r) step) \<Rightarrow> ('s, 'o, 'r) step" where
  "onOk (Ok x) s out k = k x"
| "onOk (Err e) s out k = Return (Err e) s out"
| "onOk Panic s out k = Return Panic s out"

fun runLoop :: "('s \<Rightarrow> 'e \<Rightarrow> ('s, 'o, 'r) step) \<Rightarrow> 's \<Rightarrow> 'e list \<Rightarrow> ('s, 'o, 'r) step" where
  "runLoop h s [] = Continue s []"
| "runLoop h s (e # es) =
     (case h s e of
        Continue s' out \<Rightarrow> prependOut out (runLoop h s' es)
      | Return r s' out \<Rightarrow> Return r s' out)"

text \<open>The code before the loop, then the loop.\<close>

fun thenLoop :: "('s, 'o, 'r) step \<Rightarrow> ('s \<Rightarrow> 'e \<Rightarrow> ('s, 'o, 'r) step) \<Rightarrow> 'e list \<Rightarrow> ('s, 'o, 'r) step" where
  "thenLoop (Continue s out) h es = prependOut out (runLoop h s es)"
| "thenLoop (Return r s out) h es = Return r s out"

text \<open>The events of a protocol goroutine: the context ends, its timer fires, its channel delivers a
  message or, closed, the zero value.\<close>

datatype 'm event = CtxDone | TimerFired | Recv 'm | RecvClosed

lemma prependOut_simps [simp]:
  "stepState (prependOut out st) = stepState st"
  "stepOut (prependOut out st) = out @ stepOut st"
  "stepResult (prependOut out st) = stepResult st"
  "prependOut [] st = st"
  by (cases st; simp)+

lemma onOk_split:
  "P (onOk m s out k) \<longleftrightarrow>
     (\<forall>x. m = Ok x \<longrightarrow> P (k x)) \<and> (\<forall>e. m = Err e \<longrightarrow> P (Return (Err e) s out)) \<and>
     (m = Panic \<longrightarrow> P (Return Panic s out))"
  by (cases m) auto

text \<open>What a component shows of one event: \<open>inv\<close> relates the state and all the external calls so
  far, \<open>post\<close> holds of a returned result. \<open>good\<close> is what is assumed of the events of a schedule.\<close>

locale guarded_loop =
  fixes handler :: "'s \<Rightarrow> 'e \<Rightarrow> ('s, 'o, 'r) step"
    and good :: "'e \<Rightarrow> bool"
    and inv :: "'s \<Rightarrow> 'o list \<Rightarrow> bool"
    and post :: "'r res \<Rightarrow> 's \<Rightarrow> 'o list \<Rightarrow> bool"
  assumes step_inv: "good e \<Longrightarrow> inv s out \<Longrightarrow> inv (stepState (handler s e)) (out @ stepOut (handler s e))"
    and step_post: "good e \<Longrightarrow> inv s out \<Longrightarrow> handler s e = Return r s' out' \<Longrightarrow> post r s' (out @ out')"
begin

lemma run_inv:
  "inv s out \<Longrightarrow> \<forall>e \<in> set es. good e \<Longrightarrow>
    inv (stepState (runLoop handler s es)) (out @ stepOut (runLoop handler s es))"
proof (induction es arbitrary: s out)
  case (Cons e es)
  have good: "good e" using Cons.prems(2) by simp
  show ?case
    using Cons step_inv [OF good Cons.prems(1)]
    by (cases "handler s e") (auto simp flip: append_assoc)
qed simp

lemma run_post:
  "inv s out \<Longrightarrow> \<forall>e \<in> set es. good e \<Longrightarrow> runLoop handler s es = Return r s' out' \<Longrightarrow> post r s' (out @ out')"
proof (induction es arbitrary: s out out')
  case (Cons e es)
  have good: "good e" using Cons.prems(2) by simp
  show ?case
  proof (cases "handler s e")
    case (Continue s1 out1)
    then obtain out2 where "runLoop handler s1 es = Return r s' out2" "out' = out1 @ out2"
      using Cons.prems(3) by (cases "runLoop handler s1 es") auto
    then show ?thesis
      using Cons.IH [of s1 "out @ out1" out2] step_inv [OF good Cons.prems(1)] Continue Cons.prems(2)
      by simp
  next
    case (Return r1 s1 out1)
    then show ?thesis using Cons.prems good step_post by auto
  qed
qed simp

lemma loop_inv:
  assumes "inv (stepState st) (stepOut st)" "\<forall>e \<in> set es. good e"
  shows "inv (stepState (thenLoop st handler es)) (stepOut (thenLoop st handler es))"
  using assms run_inv by (cases st) auto

lemma loop_post:
  assumes "inv (stepState st) (stepOut st)" "\<forall>e \<in> set es. good e"
    and "\<And>r s out. st = Return r s out \<Longrightarrow> post r s out"
    and "thenLoop st handler es = Return r s out"
  shows "post r s out"
proof (cases st)
  case (Continue s0 out0)
  then obtain out' where "runLoop handler s0 es = Return r s out'" "out = out0 @ out'"
    using assms(4) by (cases "runLoop handler s0 es") auto
  then show ?thesis using run_post [of s0 out0 es r s out'] assms(1,2) Continue by simp
next
  case (Return r0 s0 out0)
  then show ?thesis using assms by simp
qed

end

text \<open>The contract of a handler that copes with every event.\<close>

locale loop_contract =
  fixes handler :: "'s \<Rightarrow> 'e \<Rightarrow> ('s, 'o, 'r) step"
    and inv :: "'s \<Rightarrow> 'o list \<Rightarrow> bool"
    and post :: "'r res \<Rightarrow> 's \<Rightarrow> 'o list \<Rightarrow> bool"
  assumes any_inv: "inv s out \<Longrightarrow> inv (stepState (handler s e)) (out @ stepOut (handler s e))"
    and any_post: "inv s out \<Longrightarrow> handler s e = Return r s' out' \<Longrightarrow> post r s' (out @ out')"

sublocale loop_contract \<subseteq> always: guarded_loop handler "\<lambda>_. True" inv post
  by unfold_locales (auto intro: any_inv any_post)

context loop_contract
begin

lemma loop_inv:
  "inv (stepState st) (stepOut st) \<Longrightarrow>
    inv (stepState (thenLoop st handler es)) (stepOut (thenLoop st handler es))"
  by (rule always.loop_inv) auto

lemma loop_post:
  assumes "inv (stepState st) (stepOut st)"
    and "\<And>r s out. st = Return r s out \<Longrightarrow> post r s out"
    and "thenLoop st handler es = Return r s out"
  shows "post r s out"
  using assms by (intro always.loop_post [of st es r s out]) auto

end

section \<open>Share maps\<close>

text \<open>A Go \<^verbatim>\<open>map[int][]byte\<close> filled by the handlers: an association list with distinct keys.\<close>

definition putShare :: "int \<Rightarrow> 'a \<Rightarrow> (int \<times> 'a) list \<Rightarrow> (int \<times> 'a) list" where
  "putShare k v m = AList.update k v m"

lemma keys_putShare [simp]: "fst ` set (putShare k v m) = insert k (fst ` set m)"
  by (simp add: putShare_def dom_update)

lemma distinct_putShare [simp]: "distinct (map fst m) \<Longrightarrow> distinct (map fst (putShare k v m))"
  by (simp add: putShare_def distinct_update)

lemma set_putShare: "distinct (map fst m) \<Longrightarrow>
  set (putShare k v m) = insert (k, v) {(k', v') \<in> set m. k' \<noteq> k}"
proof (induction m)
  case (Cons a m)
  then show ?case by (cases a) (auto simp: putShare_def image_iff)
qed (simp add: putShare_def)

lemma length_shares: "distinct (map fst m) \<Longrightarrow> card (fst ` set m) = length m"
  by (metis distinct_card length_map set_map)

lemma length_putShare: "distinct (map fst m) \<Longrightarrow>
  length (putShare k v m) = (if k \<in> fst ` set m then length m else Suc (length m))"
proof (induction m)
  case (Cons a m)
  then show ?case by (cases a) (auto simp: putShare_def image_iff)
qed (simp add: putShare_def)

end
