(* ===== verification/Mvba_Node.thy ===== *)
theory Mvba_Node
  imports Mvba_Erasure Go_Reactor
begin

text \<open>
  The Dumbo-MVBA node: \<^verbatim>\<open>NewDumboMVBA\<close> and the node's shared state, the external calls its
  goroutines make, and the threshold certificates they exchange (\<^verbatim>\<open>mvba.go\<close>,
  \<^verbatim>\<open>equivalent_utils.go\<close>).
\<close>

section \<open>The node\<close>

text \<open>\<open>m_hasSigner\<close> says that the signer is not nil. On the equivalent path it never is: the
  constructor asks for a threshold signer.\<close>

record DumboMVBA =
  m_cfg :: Config
  m_hasSigner :: bool
  m_signer :: signer
  m_rcStores :: "string \<rightharpoonup> rcStoreMsg"

text \<open>What the node reads of its surroundings: the Reed-Solomon package and \<^verbatim>\<open>os.Getenv\<close>.\<close>

record mvbaEnv =
  env_rs :: rsCoder
  env_getenv :: "string \<Rightarrow> string"

text \<open>The external calls of the goroutines: \<^verbatim>\<open>net.Send\<close>, \<^verbatim>\<open>net.Broadcast\<close> and \<^verbatim>\<open>signer.Sign\<close>.\<close>

datatype action =
  ASend int ProtocolMessage | ABroadcast ProtocolMessage | ASign string bytes

definition isThresholdSigner :: "bool \<Rightarrow> signer \<Rightarrow> bool" where
  "isThresholdSigner hasSigner sg \<longleftrightarrow> hasSigner \<and> sg_threshold sg"

definition NewDumboMVBA ::
  "Config \<Rightarrow> bool \<Rightarrow> bool \<Rightarrow> signer \<Rightarrow> bool \<Rightarrow> bool \<Rightarrow> DumboMVBA res" where
  "NewDumboMVBA cfg0 netNil hasSigner sg spbcNil recvNil =
    (if cfg_SID cfg0 = [] \<or> cfg_N cfg0 \<le> 0 \<or> cfg_F cfg0 < 0 \<or> cfg_N cfg0 < 3 * cfg_F cfg0 + 1
     then Err ''invalid mvba config: sid/n/f''
     else if cfg_ID cfg0 < 0 \<or> cfg_ID cfg0 \<ge> cfg_N cfg0
     then Err ''invalid mvba config: id out of range''
     else
       let cfg = cfg0\<lparr>
             cfg_MaxRounds := (if cfg_MaxRounds cfg0 \<le> 0 then 1 else cfg_MaxRounds cfg0),
             cfg_WaitSPBCTimeout :=
               (if cfg_WaitSPBCTimeout cfg0 \<le> 0 then 2000000000 else cfg_WaitSPBCTimeout cfg0),
             cfg_RouteSendTimeout :=
               (if cfg_RouteSendTimeout cfg0 \<le> 0 then 300000000 else cfg_RouteSendTimeout cfg0)\<rparr>
       in
       if netNil then Err ''invalid mvba config: nil network''
       else if \<not> cfg_UseEquivalentPath cfg \<and> spbcNil
       then Err ''invalid mvba config: nil spbc driver''
       else if recvNil then Err ''invalid mvba config: nil receive channel''
       else if cfg_UseEquivalentPath cfg \<and>
         (\<not> isThresholdSigner hasSigner sg \<or>
          sg_Threshold sg ''PD_STORED'' \<noteq> cfg_N cfg - cfg_F cfg \<or>
          sg_Threshold sg ''PD_LOCKED'' \<noteq> cfg_N cfg - cfg_F cfg \<or>
          sg_Threshold sg ''PD_QUIT_READY'' \<noteq> cfg_F cfg + 1 \<or>
          sg_Threshold sg ''EQ_COIN_SHARE'' \<noteq> cfg_F cfg + 1)
       then Err ''invalid mvba config: invalid threshold signer for equivalent path''
       else Ok \<lparr>m_cfg = (if cfg_EquivalentCoinMode cfg = []
                           then cfg\<lparr>cfg_EquivalentCoinMode := ''signature''\<rparr> else cfg),
                 m_hasSigner = hasSigner, m_signer = sg, m_rcStores = Map.empty\<rparr>)"

definition payloadValid :: "DumboMVBA \<Rightarrow> bytes \<Rightarrow> bool" where
  "payloadValid m payload =
     (case cfg_ValidatePayload (m_cfg m) of None \<Rightarrow> True | Some p \<Rightarrow> p payload)"

section \<open>The store cache\<close>

definition cacheRCStore ::
  "(string \<rightharpoonup> rcStoreMsg) \<Rightarrow> rcStoreMsg option \<Rightarrow> (string \<rightharpoonup> rcStoreMsg)" where
  "cacheRCStore stores store =
     (case store of
        None \<Rightarrow> stores
      | Some st \<Rightarrow>
          if rcs_SID st = [] then stores
          else stores(rcs_SID st \<mapsto>
            \<lparr>rcs_SID = rcs_SID st, rcs_Root = rcs_Root st, rcs_From = rcs_From st,
             rcs_Stripe = rcs_Stripe st,
             rcs_Branch = \<lparr>mb_Index = mb_Index (rcs_Branch st),
                           mb_Siblings = cloneSiblings (mb_Siblings (rcs_Branch st))\<rparr>\<rparr>))"

definition cachedRCStore :: "(string \<rightharpoonup> rcStoreMsg) \<Rightarrow> string \<Rightarrow> rcStoreMsg option" where
  "cachedRCStore stores sid =
     (if sid = [] then None
      else case stores sid of
        None \<Rightarrow> None
      | Some st \<Rightarrow> Some (st\<lparr>rcs_Branch := (rcs_Branch st)\<lparr>mb_Siblings :=
                     cloneSiblings (mb_Siblings (rcs_Branch st))\<rparr>\<rparr>))"

lemma rcStore_copy [simp]:
  "\<lparr>rcs_SID = rcs_SID st, rcs_Root = rcs_Root st, rcs_From = rcs_From st,
    rcs_Stripe = rcs_Stripe st, rcs_Branch = \<lparr>mb_Index = mb_Index (rcs_Branch st),
      mb_Siblings = mb_Siblings (rcs_Branch st)\<rparr>\<rparr> = st"
  by simp

lemma cacheRCStore_Some [simp]:
  "cacheRCStore stores (Some st) = (if rcs_SID st = [] then stores else stores(rcs_SID st \<mapsto> st))"
  by (simp add: cacheRCStore_def)

lemma cacheRCStore_None [simp]: "cacheRCStore stores None = stores"
  by (simp add: cacheRCStore_def)

lemma cachedRCStore_simp: "cachedRCStore stores sid = (if sid = [] then None else stores sid)"
  by (simp add: cachedRCStore_def split: option.splits)

section \<open>Threshold certificates\<close>

definition recoverThresholdCertificate ::
  "signer \<Rightarrow> string \<Rightarrow> bytes \<Rightarrow> (int \<times> bytes) list \<Rightarrow> int \<Rightarrow> bytes res" where
  "recoverThresholdCertificate sg domain digest shares threshold =
     (if \<not> sg_threshold sg \<or> threshold \<le> 0 \<or> sg_Threshold sg domain \<noteq> threshold \<or>
         int (length shares) < threshold
      then Err (''invalid '' @ domain @ '' threshold certificate input'')
      else case sg_Recover sg domain digest shares of
          Panic \<Rightarrow> Panic
        | Err _ \<Rightarrow> Err (''recover '' @ domain @ '' threshold certificate'')
        | Ok certificate \<Rightarrow>
            if sg_VerifyRecovered sg domain digest certificate then Ok certificate
            else Err (''recover '' @ domain @ '' threshold certificate''))"

definition verifyThresholdCertificate ::
  "signer \<Rightarrow> string \<Rightarrow> bytes \<Rightarrow> bytes \<Rightarrow> int \<Rightarrow> bool" where
  "verifyThresholdCertificate sg domain digest certificate threshold \<longleftrightarrow>
     sg_threshold sg \<and> threshold > 0 \<and> sg_Threshold sg domain = threshold \<and>
     certificate \<noteq> [] \<and> sg_VerifyRecovered sg domain digest certificate"

lemma recover_verified:
  assumes "recoverThresholdCertificate sg domain digest shares threshold = Ok c"
  shows "sg_VerifyRecovered sg domain digest c \<and> threshold \<le> int (length shares) \<and>
    sg_threshold sg \<and> 0 < threshold \<and> sg_Threshold sg domain = threshold"
  using assms by (auto simp: recoverThresholdCertificate_def split: if_splits res.splits)

text \<open>The digests a list of calls signs in a domain.\<close>

definition signsOf :: "string \<Rightarrow> action list \<Rightarrow> bytes list" where
  "signsOf d out = concat (map (\<lambda>a. case a of ASign d' dig \<Rightarrow> if d' = d then [dig] else [] | _ \<Rightarrow> []) out)"

lemma signsOf_simps [simp]:
  "signsOf d [] = []" "signsOf d (xs @ ys) = signsOf d xs @ signsOf d ys"
  "signsOf d (ASign d' dig # xs) = (if d' = d then dig # signsOf d xs else signsOf d xs)"
  "signsOf d (ASend p m # xs) = signsOf d xs" "signsOf d (ABroadcast m # xs) = signsOf d xs"
  by (simp_all add: signsOf_def)

lemma signsOf_sends [simp]: "signsOf d (map (\<lambda>i. ASend (g i) (h i)) xs) = []"
  by (induction xs) simp_all

section \<open>Properties\<close>

text \<open>A node of the equivalent path: what the constructor guarantees and the protocols rely on.\<close>

definition validNode :: "DumboMVBA \<Rightarrow> bool" where
  "validNode m \<longleftrightarrow>
     (let c = m_cfg m; sg = m_signer m in
      cfg_SID c \<noteq> [] \<and> 0 \<le> cfg_F c \<and> 3 * cfg_F c + 1 \<le> cfg_N c \<and> 0 \<le> cfg_ID c \<and>
      cfg_ID c < cfg_N c \<and> 0 < cfg_MaxRounds c \<and> 0 < cfg_WaitSPBCTimeout c \<and>
      0 < cfg_RouteSendTimeout c \<and> cfg_EquivalentCoinMode c \<noteq> [] \<and>
      (cfg_UseEquivalentPath c \<longrightarrow> m_hasSigner m \<and> sg_threshold sg \<and>
         sg_Threshold sg ''PD_STORED'' = cfg_N c - cfg_F c \<and>
         sg_Threshold sg ''PD_LOCKED'' = cfg_N c - cfg_F c \<and>
         sg_Threshold sg ''PD_QUIT_READY'' = cfg_F c + 1 \<and>
         sg_Threshold sg ''EQ_COIN_SHARE'' = cfg_F c + 1))"


end
