(* ===== verification/Mvba_PD.thy ===== *)
theory Mvba_PD
  imports Mvba_Node
begin

text \<open>
  Provable dissemination (\<^verbatim>\<open>pd_equivalent.go\<close>): one instance per leader. The leader erasure-codes its
  input, commits to the shards with a Merkle tree and sends each responsible node its shard; nodes
  sign the root once (\<^verbatim>\<open>PD_STORED\<close>), the leader combines \<open>n - f\<close> shares into a lock certificate,
  nodes sign the locked root once (\<^verbatim>\<open>PD_LOCKED\<close>), and the leader publishes the second certificate.
  \<^verbatim>\<open>runPDInstance\<close> is \<open>pdInit\<close> (the code before its loop) followed by \<open>pdHandle\<close>, one definition
  for each case of the \<^verbatim>\<open>select\<close> and of the type switch.
\<close>

section \<open>Responsibility\<close>

definition pdResponsibilityFanout :: "(string \<Rightarrow> string) \<Rightarrow> int \<Rightarrow> int \<Rightarrow> int" where
  "pdResponsibilityFanout getenv n f =
     (let raw = getenv ''PRACTICAL_MVBA_PD_RESPONSIBILITY_FANOUT'' in
      if raw = [] then n - f
      else case atoi raw of
          None \<Rightarrow> n
        | Some v \<Rightarrow> if v \<le> 0 \<or> v > n then n else if v < n - f then n - f else v)"

definition pdResponsibilityRecipients :: "int \<Rightarrow> int \<Rightarrow> int \<Rightarrow> int list" where
  "pdResponsibilityRecipients leader n fanout =
     (if n \<le> 0 \<or> fanout \<le> 0 then []
      else map (\<lambda>offset. goRem (leader + offset) n) [0..(if fanout > n then n else fanout) - 1])"

section \<open>State\<close>

record pdOutcome =
  po_store :: "rcStoreMsg option"
  po_lock :: "pdLockMsg option"
  po_done :: "pdDoneMsg option"

text \<open>The variables of \<^verbatim>\<open>runPDInstance\<close>. \<open>pd_pullC\<close> is the timer channel: \<open>None\<close> when nil, else the
  delay the timer was set to. \<open>pd_rcStores\<close> is the node's shared cache.\<close>

record pdState =
  pd_out :: pdOutcome
  pd_storedShares :: "(int \<times> bytes) list"
  pd_lockedShares :: "(int \<times> bytes) list"
  pd_seenStored :: "int list"
  pd_seenLocked :: "int list"
  pd_seenStoreFromLeader :: bool
  pd_seenLockFromLeader :: bool
  pd_lockSent :: bool
  pd_pullAttempts :: int
  pd_replacementNext :: int
  pd_pullC :: "int option"
  pd_stripes :: "bytes list"
  pd_root :: bytes
  pd_branches :: "merkleBranch list"
  pd_rcStores :: "string \<rightharpoonup> rcStoreMsg"

definition pdStart :: "mvbaEnv \<Rightarrow> DumboMVBA \<Rightarrow> pdState" where
  "pdStart env m = \<lparr>pd_out = \<lparr>po_store = None, po_lock = None, po_done = None\<rparr>,
     pd_storedShares = [], pd_lockedShares = [], pd_seenStored = [], pd_seenLocked = [],
     pd_seenStoreFromLeader = False, pd_seenLockFromLeader = False, pd_lockSent = False,
     pd_pullAttempts = 0,
     pd_replacementNext = pdResponsibilityFanout (env_getenv env) (cfg_N (m_cfg m)) (cfg_F (m_cfg m)),
     pd_pullC = None, pd_stripes = [], pd_root = [], pd_branches = [], pd_rcStores = m_rcStores m\<rparr>"

definition sendPD :: "int \<Rightarrow> int \<Rightarrow> Body \<Rightarrow> action" where
  "sendPD leader to body = ASend to (ProtocolMessage TagMVBAPD 0 leader body)"

definition broadcastPD :: "int \<Rightarrow> int \<Rightarrow> Body \<Rightarrow> action list" where
  "broadcastPD n leader body = map (\<lambda>i. sendPD leader i body) [0..n - 1]"

text \<open>The store message of index \<open>i\<close>, built in three places of the source.\<close>

definition pdStoreFor :: "string \<Rightarrow> bytes \<Rightarrow> bytes list \<Rightarrow> merkleBranch list \<Rightarrow> int \<Rightarrow> pdStoreMsg res" where
  "pdStoreFor sid root stripes branches i =
     bindR (indexR stripes i) (\<lambda>stripe.
     bindR (indexR branches i) (\<lambda>branch.
     Ok \<lparr>pds_SID = sid, pds_Root = root, pds_Stripe = stripe,
         pds_Branch = \<lparr>mb_Index = mb_Index branch,
                       mb_Siblings = cloneSiblings (mb_Siblings branch)\<rparr>\<rparr>))"

section \<open>Before the loop\<close>

definition pdInit ::
  "mvbaEnv \<Rightarrow> DumboMVBA \<Rightarrow> string \<Rightarrow> int \<Rightarrow> bytes \<Rightarrow> (pdState, action, pdOutcome) step" where
  "pdInit env m sid leader input =
    (let n = cfg_N (m_cfg m); f = cfg_F (m_cfg m); k = n - 2 * f;
         fanout = pdResponsibilityFanout (env_getenv env) n f; s0 = pdStart env m in
     if cfg_ID (m_cfg m) \<noteq> leader then Continue s0 []
     else onOk (erasureEncodeValue (env_rs env) input k n) s0 [] (\<lambda>stripes.
       let (root, branches) = buildMerkle stripes;
           s1 = s0\<lparr>pd_stripes := stripes, pd_root := root, pd_branches := branches\<rparr> in
       onOk (mapR (\<lambda>i. bindR (pdStoreFor sid root stripes branches i)
                         (\<lambda>st. Ok (sendPD leader i (BpdStore st))))
              (pdResponsibilityRecipients leader n fanout)) s1 [] (\<lambda>sends.
       Continue (s1\<lparr>pd_pullC :=
         (if fanout < n
          then Some (if cfg_RouteSendTimeout (m_cfg m) \<le> 0 then 300000000
                     else cfg_RouteSendTimeout (m_cfg m))
          else None)\<rparr>) sends)))"

section \<open>The loop\<close>

definition pdOnTimer ::
  "DumboMVBA \<Rightarrow> string \<Rightarrow> int \<Rightarrow> pdState \<Rightarrow> (pdState, action, pdOutcome) step" where
  "pdOnTimer m sid leader s =
    (let n = cfg_N (m_cfg m); f = cfg_F (m_cfg m); threshold = n - f;
         candidates = pdResponsibilityRecipients leader n n in
     if cfg_ID (m_cfg m) = leader \<and> \<not> pd_lockSent s \<and>
        int (length (pd_storedShares s)) < threshold \<and>
        pd_replacementNext s < int (length candidates)
     then onOk (indexR candidates (pd_replacementNext s)) s [] (\<lambda>candidate.
          onOk (pdStoreFor sid (pd_root s) (pd_stripes s) (pd_branches s) candidate) s [] (\<lambda>st.
          let attempts = pd_pullAttempts s + 1 in
          Continue (s\<lparr>pd_replacementNext := pd_replacementNext s + 1, pd_pullAttempts := attempts,
                      pd_pullC := Some ((1 + goQuo attempts 3) * 1000000000)\<rparr>)
            [sendPD leader candidate (BpdStore st)]))
     else Continue (s\<lparr>pd_pullC := None\<rparr>) [])"

definition pdOnStore ::
  "DumboMVBA \<Rightarrow> string \<Rightarrow> int \<Rightarrow> pdState \<Rightarrow> int \<Rightarrow> pdStoreMsg \<Rightarrow> (pdState, action, pdOutcome) step" where
  "pdOnStore m sid leader s from msg =
    (if pds_SID msg \<noteq> sid \<or> from \<noteq> leader \<or> pd_seenStoreFromLeader s \<or>
        mb_Index (pds_Branch msg) \<noteq> cfg_ID (m_cfg m)
     then Continue s []
     else if \<not> verifyMerkle (pds_Stripe msg) (pds_Root msg) (pds_Branch msg) then Continue s []
     else
       let store = \<lparr>rcs_SID = sid, rcs_Root = pds_Root msg, rcs_From = cfg_ID (m_cfg m),
             rcs_Stripe = pds_Stripe msg,
             rcs_Branch = \<lparr>mb_Index = mb_Index (pds_Branch msg),
                           mb_Siblings = cloneSiblings (mb_Siblings (pds_Branch msg))\<rparr>\<rparr>;
           s1 = s\<lparr>pd_seenStoreFromLeader := True,
                  pd_out := (pd_out s)\<lparr>po_store := Some store\<rparr>,
                  pd_rcStores := cacheRCStore (pd_rcStores s) (Some store)\<rparr>;
           dig = pdCertificateDigest ''PD_STORED'' sid leader (pds_Root msg) in
       onOk (sg_Sign (m_signer m) ''PD_STORED'' dig) s1 [ASign ''PD_STORED'' dig] (\<lambda>share.
       let out = [ASign ''PD_STORED'' dig,
             sendPD leader leader (BpdStored \<lparr>pdsd_SID = sid, pdsd_Root = pds_Root msg,
               pdsd_Share = share\<rparr>)] in
       if cfg_ID (m_cfg m) \<noteq> leader \<and> po_lock (pd_out s1) \<noteq> None
       then Return (Ok (pd_out s1)) s1 out
       else Continue s1 out))"

definition pdOnPull ::
  "DumboMVBA \<Rightarrow> string \<Rightarrow> int \<Rightarrow> pdState \<Rightarrow> int \<Rightarrow> pdPullRequest \<Rightarrow> (pdState, action, pdOutcome) step" where
  "pdOnPull m sid leader s from msg =
    (let n = cfg_N (m_cfg m) in
     if cfg_ID (m_cfg m) \<noteq> leader \<or> pdp_SID msg \<noteq> sid \<or> pdp_Requester msg \<noteq> from \<or>
        pdp_Requester msg < 0 \<or> pdp_Requester msg \<ge> n \<or> pdp_Index msg < 0 \<or> pdp_Index msg \<ge> n \<or>
        pd_root s = [] \<or> int (length (pd_stripes s)) \<noteq> n \<or>
        (pdp_Root msg \<noteq> [] \<and> \<not> sameRoot (pdp_Root msg) (pd_root s))
     then Continue s []
     else onOk (pdStoreFor sid (pd_root s) (pd_stripes s) (pd_branches s) (pdp_Index msg)) s [] (\<lambda>st.
       Continue s [sendPD leader (pdp_Requester msg) (BpdStore st)]))"

definition pdOnStored ::
  "DumboMVBA \<Rightarrow> string \<Rightarrow> int \<Rightarrow> pdState \<Rightarrow> int \<Rightarrow> pdStoredMsg \<Rightarrow> (pdState, action, pdOutcome) step" where
  "pdOnStored m sid leader s from msg =
    (let n = cfg_N (m_cfg m); f = cfg_F (m_cfg m); threshold = n - f in
     if pdsd_SID msg \<noteq> sid \<or> cfg_ID (m_cfg m) \<noteq> leader then Continue s []
     else if from \<in> set (pd_seenStored s) then Continue s []
     else
       let dig = pdCertificateDigest ''PD_STORED'' sid leader (pdsd_Root msg) in
       if \<not> sg_Verify (m_signer m) from ''PD_STORED'' dig (pdsd_Share msg) then Continue s []
       else
         let s1 = s\<lparr>pd_seenStored := from # pd_seenStored s,
               pd_storedShares := putShare from (pdsd_Share msg) (pd_storedShares s)\<rparr> in
         if int (length (pd_storedShares s1)) \<ge> threshold \<and> \<not> pd_lockSent s1
         then onOk (recoverThresholdCertificate (m_signer m) ''PD_STORED'' dig (pd_storedShares s1)
                      threshold) s1 [] (\<lambda>certificate.
              Continue (s1\<lparr>pd_lockSent := True\<rparr>)
                (broadcastPD n leader (BpdLock \<lparr>pdl_SID = sid, pdl_Leader = leader,
                   pdl_Root = pdsd_Root msg, pdl_Certificate = certificate\<rparr>)))
         else Continue s1 [])"

definition pdOnLock ::
  "DumboMVBA \<Rightarrow> string \<Rightarrow> int \<Rightarrow> pdState \<Rightarrow> int \<Rightarrow> pdLockMsg \<Rightarrow> (pdState, action, pdOutcome) step" where
  "pdOnLock m sid leader s from msg =
    (let n = cfg_N (m_cfg m); f = cfg_F (m_cfg m); threshold = n - f in
     if pdl_SID msg \<noteq> sid \<or> pdl_Leader msg \<noteq> leader \<or> from \<noteq> leader \<or> pd_seenLockFromLeader s
     then Continue s []
     else
       let dig = pdCertificateDigest ''PD_STORED'' sid leader (pdl_Root msg) in
       if \<not> verifyThresholdCertificate (m_signer m) ''PD_STORED'' dig (pdl_Certificate msg) threshold
       then Continue s []
       else
         let s1 = s\<lparr>pd_seenLockFromLeader := True,
               pd_out := (pd_out s)\<lparr>po_lock := Some \<lparr>pdl_SID = sid, pdl_Leader = leader,
                 pdl_Root = pdl_Root msg, pdl_Certificate = pdl_Certificate msg\<rparr>\<rparr>\<rparr>;
             dig2 = pdCertificateDigest ''PD_LOCKED'' sid leader (pdl_Root msg) in
         onOk (sg_Sign (m_signer m) ''PD_LOCKED'' dig2) s1 [ASign ''PD_LOCKED'' dig2] (\<lambda>share.
         let out = [ASign ''PD_LOCKED'' dig2,
               sendPD leader leader (BpdLocked \<lparr>pdld_SID = sid, pdld_Root = pdl_Root msg,
                 pdld_Share = share\<rparr>)] in
         if cfg_ID (m_cfg m) \<noteq> leader \<and> po_store (pd_out s1) \<noteq> None
         then Return (Ok (pd_out s1)) s1 out
         else Continue s1 out))"

definition pdOnLocked ::
  "DumboMVBA \<Rightarrow> string \<Rightarrow> int \<Rightarrow> pdState \<Rightarrow> int \<Rightarrow> pdLockedMsg \<Rightarrow> (pdState, action, pdOutcome) step" where
  "pdOnLocked m sid leader s from msg =
    (let n = cfg_N (m_cfg m); f = cfg_F (m_cfg m); threshold = n - f in
     if pdld_SID msg \<noteq> sid \<or> cfg_ID (m_cfg m) \<noteq> leader then Continue s []
     else if from \<in> set (pd_seenLocked s) then Continue s []
     else
       let dig = pdCertificateDigest ''PD_LOCKED'' sid leader (pdld_Root msg) in
       if \<not> sg_Verify (m_signer m) from ''PD_LOCKED'' dig (pdld_Share msg) then Continue s []
       else
         let s1 = s\<lparr>pd_seenLocked := from # pd_seenLocked s,
               pd_lockedShares := putShare from (pdld_Share msg) (pd_lockedShares s)\<rparr> in
         if int (length (pd_lockedShares s1)) \<ge> threshold
         then onOk (recoverThresholdCertificate (m_signer m) ''PD_LOCKED'' dig (pd_lockedShares s1)
                      threshold) s1 [] (\<lambda>certificate.
              let don = \<lparr>pdd_SID = sid, pdd_Leader = leader, pdd_Root = pdld_Root msg,
                    pdd_Certificate = certificate\<rparr>;
                  s2 = s1\<lparr>pd_out := (pd_out s1)\<lparr>po_done := Some don\<rparr>\<rparr> in
              Return (Ok (pd_out s2)) s2 (broadcastPD n leader (BpdDone don)))
         else Continue s1 [])"

definition pdHandle ::
  "DumboMVBA \<Rightarrow> string \<Rightarrow> int \<Rightarrow> pdState \<Rightarrow> ReceivedMessage event \<Rightarrow> (pdState, action, pdOutcome) step" where
  "pdHandle m sid leader s e =
    (case e of
       CtxDone \<Rightarrow> Return (Err ''context done'') s []
     | RecvClosed \<Rightarrow> Continue s []
     | TimerFired \<Rightarrow> if pd_pullC s = None then Continue s [] else pdOnTimer m sid leader s
     | Recv inp \<Rightarrow>
        (case pm_Body (rm_Msg inp) of
           BpdStore msg \<Rightarrow> pdOnStore m sid leader s (rm_From inp) msg
         | BpdPull msg \<Rightarrow> pdOnPull m sid leader s (rm_From inp) msg
         | BpdStored msg \<Rightarrow> pdOnStored m sid leader s (rm_From inp) msg
         | BpdLock msg \<Rightarrow> pdOnLock m sid leader s (rm_From inp) msg
         | BpdLocked msg \<Rightarrow> pdOnLocked m sid leader s (rm_From inp) msg
         | _ \<Rightarrow> Continue s []))"

definition runPDInstance ::
  "mvbaEnv \<Rightarrow> DumboMVBA \<Rightarrow> string \<Rightarrow> int \<Rightarrow> bytes \<Rightarrow> ReceivedMessage event list \<Rightarrow>
   (pdState, action, pdOutcome) step" where
  "runPDInstance env m sid leader input es =
     thenLoop (pdInit env m sid leader input) (pdHandle m sid leader) es"

section \<open>Invariant\<close>

definition pdValidStore :: "DumboMVBA \<Rightarrow> string \<Rightarrow> rcStoreMsg \<Rightarrow> bool" where
  "pdValidStore m sid st \<longleftrightarrow>
     rcs_SID st = sid \<and> rcs_From st = cfg_ID (m_cfg m) \<and>
     mb_Index (rcs_Branch st) = cfg_ID (m_cfg m) \<and>
     verifyMerkle (rcs_Stripe st) (rcs_Root st) (rcs_Branch st)"

definition pdValidLock :: "DumboMVBA \<Rightarrow> string \<Rightarrow> int \<Rightarrow> pdLockMsg \<Rightarrow> bool" where
  "pdValidLock m sid leader l \<longleftrightarrow>
     pdl_SID l = sid \<and> pdl_Leader l = leader \<and>
     verifyThresholdCertificate (m_signer m) ''PD_STORED''
       (pdCertificateDigest ''PD_STORED'' sid leader (pdl_Root l)) (pdl_Certificate l)
       (cfg_N (m_cfg m) - cfg_F (m_cfg m))"

definition pdValidDone :: "DumboMVBA \<Rightarrow> string \<Rightarrow> int \<Rightarrow> pdDoneMsg \<Rightarrow> bool" where
  "pdValidDone m sid leader d \<longleftrightarrow>
     pdd_SID d = sid \<and> pdd_Leader d = leader \<and>
     sg_VerifyRecovered (m_signer m) ''PD_LOCKED''
       (pdCertificateDigest ''PD_LOCKED'' sid leader (pdd_Root d)) (pdd_Certificate d)"

text \<open>The store a node keeps is the one it signed, exactly once; the same for the lock.\<close>

definition pdStoreInv ::
  "DumboMVBA \<Rightarrow> string \<Rightarrow> int \<Rightarrow> bool \<Rightarrow> rcStoreMsg option \<Rightarrow> rcStoreMsg option \<Rightarrow> bytes list \<Rightarrow> bool" where
  "pdStoreInv m sid leader seen store cached signs \<longleftrightarrow>
     (case store of
        None \<Rightarrow> \<not> seen \<and> signs = []
      | Some st \<Rightarrow> seen \<and> pdValidStore m sid st \<and>
          signs = [pdCertificateDigest ''PD_STORED'' sid leader (rcs_Root st)] \<and>
          (sid \<noteq> [] \<longrightarrow> cached = Some st))"

definition pdLockInv ::
  "DumboMVBA \<Rightarrow> string \<Rightarrow> int \<Rightarrow> bool \<Rightarrow> pdLockMsg option \<Rightarrow> bytes list \<Rightarrow> bool" where
  "pdLockInv m sid leader seen lock signs \<longleftrightarrow>
     (case lock of
        None \<Rightarrow> \<not> seen \<and> signs = []
      | Some l \<Rightarrow> seen \<and> pdValidLock m sid leader l \<and>
          signs = [pdCertificateDigest ''PD_LOCKED'' sid leader (pdl_Root l)])"

definition shareInv :: "signer \<Rightarrow> string \<Rightarrow> string \<Rightarrow> int \<Rightarrow> int list \<Rightarrow> (int \<times> bytes) list \<Rightarrow> bool" where
  "shareInv sg domn sid leader seen shares \<longleftrightarrow>
     distinct (map fst shares) \<and> fst ` set shares = set seen \<and>
     (\<forall>(i, sh) \<in> set shares. \<exists>root. sg_Verify sg i domn (pdCertificateDigest domn sid leader root) sh)"

definition pdInv :: "DumboMVBA \<Rightarrow> string \<Rightarrow> int \<Rightarrow> pdState \<Rightarrow> action list \<Rightarrow> bool" where
  "pdInv m sid leader s out \<longleftrightarrow>
     pdStoreInv m sid leader (pd_seenStoreFromLeader s) (po_store (pd_out s)) (pd_rcStores s sid)
       (signsOf ''PD_STORED'' out) \<and>
     pdLockInv m sid leader (pd_seenLockFromLeader s) (po_lock (pd_out s)) (signsOf ''PD_LOCKED'' out) \<and>
     shareInv (m_signer m) ''PD_STORED'' sid leader (pd_seenStored s) (pd_storedShares s) \<and>
     shareInv (m_signer m) ''PD_LOCKED'' sid leader (pd_seenLocked s) (pd_lockedShares s) \<and>
     (\<forall>d. po_done (pd_out s) = Some d \<longrightarrow> cfg_ID (m_cfg m) = leader \<and> pdValidDone m sid leader d) \<and>
     (\<forall>d. d \<notin> {''PD_STORED'', ''PD_LOCKED''} \<longrightarrow> signsOf d out = [])"

definition pdPost :: "DumboMVBA \<Rightarrow> int \<Rightarrow> pdOutcome res \<Rightarrow> pdState \<Rightarrow> bool" where
  "pdPost m leader r s \<longleftrightarrow>
     (\<forall>out. r = Ok out \<longrightarrow> out = pd_out s \<and>
        (if cfg_ID (m_cfg m) = leader then po_done out \<noteq> None
         else po_store out \<noteq> None \<and> po_lock out \<noteq> None))"

definition pdStepOk ::
  "DumboMVBA \<Rightarrow> string \<Rightarrow> int \<Rightarrow> action list \<Rightarrow> (pdState, action, pdOutcome) step \<Rightarrow> bool" where
  "pdStepOk m sid leader out st \<longleftrightarrow>
     pdInv m sid leader (stepState st) (out @ stepOut st) \<and>
     (\<forall>r. stepResult st = Some r \<longrightarrow> pdPost m leader r (stepState st))"

lemma shareInv_put:
  assumes "shareInv sg domn sid leader seen shares"
    and "sg_Verify sg i domn (pdCertificateDigest domn sid leader root) sh"
  shows "shareInv sg domn sid leader (i # seen) (putShare i sh shares)"
proof -
  have "\<exists>r. sg_Verify sg j domn (pdCertificateDigest domn sid leader r) t"
    if "(j, t) \<in> set (putShare i sh shares)" for j t
    using that assms by (auto simp: shareInv_def set_putShare)
  then show ?thesis using assms unfolding shareInv_def by auto
qed

lemma signsOf_sendPD [simp]: "signsOf d (sendPD leader to body # xs) = signsOf d xs"
  by (simp add: sendPD_def)

lemma signsOf_broadcastPD [simp]: "signsOf d (broadcastPD n leader body) = []"
  by (simp add: broadcastPD_def sendPD_def)

text \<open>The invariant does not look at the timer, the leader's own data or calls that sign nothing.\<close>

lemma pdInv_frame [simp]:
  "pdInv m sid leader (s\<lparr>pd_replacementNext := i\<rparr>) out = pdInv m sid leader s out"
  "pdInv m sid leader (s\<lparr>pd_pullAttempts := i\<rparr>) out = pdInv m sid leader s out"
  "pdInv m sid leader (s\<lparr>pd_pullC := c\<rparr>) out = pdInv m sid leader s out"
  "pdInv m sid leader (s\<lparr>pd_lockSent := b\<rparr>) out = pdInv m sid leader s out"
  "pdInv m sid leader (s\<lparr>pd_stripes := ss\<rparr>) out = pdInv m sid leader s out"
  "pdInv m sid leader (s\<lparr>pd_root := r\<rparr>) out = pdInv m sid leader s out"
  "pdInv m sid leader (s\<lparr>pd_branches := bs\<rparr>) out = pdInv m sid leader s out"
  by (simp_all add: pdInv_def)

lemma pdInv_unsigned:
  "(\<And>d. signsOf d o2 = []) \<Longrightarrow> pdInv m sid leader s (out @ o2) = pdInv m sid leader s out"
  by (simp add: pdInv_def)

lemma pdInv_sends [simp]:
  "pdInv m sid leader s (out @ [sendPD l to body]) = pdInv m sid leader s out"
  "pdInv m sid leader s (out @ broadcastPD n l body) = pdInv m sid leader s out"
  "pdInv m sid leader s (out @ [a, sendPD l to body]) = pdInv m sid leader s (out @ [a])"
proof -
  show "pdInv m sid leader s (out @ [a, sendPD l to body]) = pdInv m sid leader s (out @ [a])"
    using pdInv_unsigned [of "[sendPD l to body]" m sid leader s "out @ [a]"] by simp
qed (simp_all add: pdInv_unsigned)

lemma pdInv_stored:
  assumes "pdInv m sid leader s out"
    and "sg_Verify (m_signer m) i ''PD_STORED'' (pdCertificateDigest ''PD_STORED'' sid leader root) sh"
  shows "pdInv m sid leader (s\<lparr>pd_seenStored := i # pd_seenStored s,
    pd_storedShares := putShare i sh (pd_storedShares s)\<rparr>) out"
  using assms shareInv_put [OF _ assms(2)] by (simp add: pdInv_def)

lemma pdInv_locked:
  assumes "pdInv m sid leader s out"
    and "sg_Verify (m_signer m) i ''PD_LOCKED'' (pdCertificateDigest ''PD_LOCKED'' sid leader root) sh"
  shows "pdInv m sid leader (s\<lparr>pd_seenLocked := i # pd_seenLocked s,
    pd_lockedShares := putShare i sh (pd_lockedShares s)\<rparr>) out"
  using assms shareInv_put [OF _ assms(2)] by (simp add: pdInv_def)

lemma pdInv_store:
  assumes "pdInv m sid leader s out" "\<not> pd_seenStoreFromLeader s" "pdValidStore m sid st"
  shows "pdInv m sid leader (s\<lparr>pd_seenStoreFromLeader := True,
      pd_out := (pd_out s)\<lparr>po_store := Some st\<rparr>, pd_rcStores := cacheRCStore (pd_rcStores s) (Some st)\<rparr>)
    (out @ [ASign ''PD_STORED'' (pdCertificateDigest ''PD_STORED'' sid leader (rcs_Root st))])"
proof -
  have "signsOf ''PD_STORED'' out = []" "po_store (pd_out s) = None"
    using assms(1,2) by (auto simp: pdInv_def pdStoreInv_def split: option.splits)
  moreover have "rcs_SID st = sid" using assms(3) by (simp add: pdValidStore_def)
  ultimately show ?thesis using assms by (simp add: pdInv_def pdStoreInv_def pdLockInv_def)
qed

lemma pdInv_lock:
  assumes "pdInv m sid leader s out" "\<not> pd_seenLockFromLeader s" "pdValidLock m sid leader l"
  shows "pdInv m sid leader (s\<lparr>pd_seenLockFromLeader := True, pd_out := (pd_out s)\<lparr>po_lock := Some l\<rparr>\<rparr>)
    (out @ [ASign ''PD_LOCKED'' (pdCertificateDigest ''PD_LOCKED'' sid leader (pdl_Root l))])"
proof -
  have "signsOf ''PD_LOCKED'' out = []" "po_lock (pd_out s) = None"
    using assms(1,2) by (auto simp: pdInv_def pdLockInv_def split: option.splits)
  then show ?thesis using assms by (simp add: pdInv_def pdStoreInv_def pdLockInv_def)
qed

lemma pdInv_done:
  assumes "pdInv m sid leader s out" "cfg_ID (m_cfg m) = leader" "pdValidDone m sid leader d"
  shows "pdInv m sid leader (s\<lparr>pd_out := (pd_out s)\<lparr>po_done := Some d\<rparr>\<rparr>) out"
  using assms by (simp add: pdInv_def)

section \<open>Every event keeps the invariant\<close>

lemma pdStepOk_simps [simp]:
  "pdStepOk m sid leader out (Continue s o1) \<longleftrightarrow> pdInv m sid leader s (out @ o1)"
  "pdStepOk m sid leader out (Return r s o1) \<longleftrightarrow> pdInv m sid leader s (out @ o1) \<and> pdPost m leader r s"
  by (auto simp: pdStepOk_def)

lemma pdPost_fail [simp]: "pdPost m leader (Err e) s" "pdPost m leader Panic s"
  by (simp_all add: pdPost_def)

lemma pdStepOk_onOk:
  assumes "pdInv m sid leader s (out @ o1)" "\<And>x. v = Ok x \<Longrightarrow> pdStepOk m sid leader out (k x)"
  shows "pdStepOk m sid leader out (onOk v s o1 k)"
  using assms by (cases v) auto

lemma pdOnTimer_ok [inv_intros]:
  "pdInv m sid leader s out \<Longrightarrow> pdStepOk m sid leader out (pdOnTimer m sid leader s)"
  by (simp add: pdOnTimer_def Let_def pdStepOk_onOk)

lemma pdOnPull_ok [inv_intros]:
  "pdInv m sid leader s out \<Longrightarrow> pdStepOk m sid leader out (pdOnPull m sid leader s from msg)"
  by (simp add: pdOnPull_def Let_def pdStepOk_onOk)

lemma record_eta: "\<lparr>mb_Index = mb_Index b, mb_Siblings = mb_Siblings b\<rparr> = b"
  by simp

lemma pdOnStore_ok [inv_intros]:
  assumes "pdInv m sid leader s out"
  shows "pdStepOk m sid leader out (pdOnStore m sid leader s from msg)"
proof (cases "pds_SID msg \<noteq> sid \<or> from \<noteq> leader \<or> pd_seenStoreFromLeader s \<or>
    mb_Index (pds_Branch msg) \<noteq> cfg_ID (m_cfg m) \<or>
    \<not> verifyMerkle (pds_Stripe msg) (pds_Root msg) (pds_Branch msg)")
  case True
  then show ?thesis using assms by (auto simp: pdOnStore_def)
next
  case False
  define st where "st = \<lparr>rcs_SID = sid, rcs_Root = pds_Root msg, rcs_From = cfg_ID (m_cfg m),
    rcs_Stripe = pds_Stripe msg, rcs_Branch = pds_Branch msg\<rparr>"
  have "pdValidStore m sid st" using False by (simp add: st_def pdValidStore_def)
  with False assms have "pdInv m sid leader
      (s\<lparr>pd_seenStoreFromLeader := True, pd_out := (pd_out s)\<lparr>po_store := Some st\<rparr>,
         pd_rcStores := cacheRCStore (pd_rcStores s) (Some st)\<rparr>)
      (out @ [ASign ''PD_STORED'' (pdCertificateDigest ''PD_STORED'' sid leader (rcs_Root st))])"
    by (intro pdInv_store) auto
  moreover have "pds_Root msg = rcs_Root st" by (simp add: st_def)
  ultimately show ?thesis
    using False unfolding pdOnStore_def Let_def clone_simps record_eta st_def [symmetric]
    by (auto intro!: pdStepOk_onOk simp: pdPost_def simp del: cacheRCStore_Some)
qed

lemma pdOnLock_ok [inv_intros]:
  assumes "pdInv m sid leader s out"
  shows "pdStepOk m sid leader out (pdOnLock m sid leader s from msg)"
proof (cases "pdl_SID msg \<noteq> sid \<or> pdl_Leader msg \<noteq> leader \<or> from \<noteq> leader \<or>
    pd_seenLockFromLeader s \<or> \<not> verifyThresholdCertificate (m_signer m) ''PD_STORED''
      (pdCertificateDigest ''PD_STORED'' sid leader (pdl_Root msg)) (pdl_Certificate msg)
      (cfg_N (m_cfg m) - cfg_F (m_cfg m))")
  case True
  then show ?thesis using assms by (auto simp: pdOnLock_def Let_def)
next
  case False
  define l where "l = \<lparr>pdl_SID = sid, pdl_Leader = leader, pdl_Root = pdl_Root msg,
    pdl_Certificate = pdl_Certificate msg\<rparr>"
  have "pdValidLock m sid leader l" using False by (simp add: l_def pdValidLock_def)
  from pdInv_lock [OF assms _ this] show ?thesis
    using False
    by (simp add: pdOnLock_def Let_def l_def)
       (auto intro!: pdStepOk_onOk simp: pdPost_def)
qed

lemma pdOnStored_ok [inv_intros]:
  "pdInv m sid leader s out \<Longrightarrow> pdStepOk m sid leader out (pdOnStored m sid leader s from msg)"
  by (simp add: pdOnStored_def Let_def pdStepOk_onOk pdInv_stored)

lemma pdOnLocked_ok [inv_intros]:
  assumes "pdInv m sid leader s out"
  shows "pdStepOk m sid leader out (pdOnLocked m sid leader s from msg)"
proof -
  let ?dig = "pdCertificateDigest ''PD_LOCKED'' sid leader (pdld_Root msg)"
  define s1 where "s1 = s\<lparr>pd_seenLocked := from # pd_seenLocked s,
    pd_lockedShares := putShare from (pdld_Share msg) (pd_lockedShares s)\<rparr>"
  have s1: "pdInv m sid leader s1 out"
    if "sg_Verify (m_signer m) from ''PD_LOCKED'' ?dig (pdld_Share msg)"
    using pdInv_locked [OF assms that] by (simp add: s1_def)
  have don: "pdStepOk m sid leader out
      (let d = \<lparr>pdd_SID = sid, pdd_Leader = leader, pdd_Root = pdld_Root msg, pdd_Certificate = c\<rparr>;
           s2 = s1\<lparr>pd_out := (pd_out s1)\<lparr>po_done := Some d\<rparr>\<rparr>
       in Return (Ok (pd_out s2)) s2 (broadcastPD n leader (BpdDone d)))"
    if "sg_Verify (m_signer m) from ''PD_LOCKED'' ?dig (pdld_Share msg)" "cfg_ID (m_cfg m) = leader"
      "recoverThresholdCertificate (m_signer m) ''PD_LOCKED'' ?dig shares t = Ok c" for c shares t n
    using that recover_verified [OF that(3)]
    by (simp add: Let_def pdInv_done [OF s1] pdValidDone_def pdPost_def)
  show ?thesis
    using assms s1 don unfolding pdOnLocked_def Let_def s1_def [symmetric]
    by (auto intro!: pdStepOk_onOk)
qed

lemma pdHandle_ok:
  "pdInv m sid leader s out \<Longrightarrow> pdStepOk m sid leader out (pdHandle m sid leader s e)"
  by (simp add: pdHandle_def inv_intros split: event.split Body.split)

interpretation pd: loop_contract "pdHandle m sid leader" "pdInv m sid leader"
  "\<lambda>r s out. pdPost m leader r s" for m sid leader
proof unfold_locales
  fix s out e r s' out'
  assume "pdInv m sid leader s out"
  then have ok: "pdStepOk m sid leader out (pdHandle m sid leader s e)" by (rule pdHandle_ok)
  then show "pdInv m sid leader (stepState (pdHandle m sid leader s e))
      (out @ stepOut (pdHandle m sid leader s e))"
    by (simp add: pdStepOk_def)
  show "pdPost m leader r s'" if "pdHandle m sid leader s e = Return r s' out'"
    using ok that by simp
qed

lemma signsOf_mapR_sends:
  "mapR (\<lambda>i. bindR (g i) (\<lambda>st. Ok (sendPD leader i (h st)))) xs = Ok ys \<Longrightarrow> signsOf d ys = []"
  by (induction xs arbitrary: ys) auto

lemma pdInit_ok: "pdStepOk m sid leader [] (pdInit env m sid leader input)"
proof -
  have start: "pdInv m sid leader (pdStart env m) []"
    by (simp add: pdInv_def pdStoreInv_def pdLockInv_def pdStart_def shareInv_def)
  have "pdInv m sid leader s ys" if "pdInv m sid leader s []"
    "mapR (\<lambda>i. bindR (g i) (\<lambda>st. Ok (sendPD leader i (BpdStore st)))) xs = Ok ys" for s ys g xs
    using pdInv_unsigned [of ys m sid leader s "[]"] signsOf_mapR_sends [OF that(2)] that(1) by simp
  with start show ?thesis
    unfolding pdInit_def Let_def
    by (auto intro!: pdStepOk_onOk split: prod.split)
qed

lemma runPD_inv:
  "pdInv m sid leader (stepState (runPDInstance env m sid leader input es))
     (stepOut (runPDInstance env m sid leader input es))"
  unfolding runPDInstance_def
  using pdInit_ok [of m sid leader env input] by (intro pd.loop_inv) (simp add: pdStepOk_def)

lemma runPD_post:
  assumes "runPDInstance env m sid leader input es = Return r s out"
  shows "pdPost m leader r s"
proof (rule pd.loop_post [of m sid leader "pdInit env m sid leader input"])
  show "pdInv m sid leader (stepState (pdInit env m sid leader input))
      (stepOut (pdInit env m sid leader input))"
    using pdInit_ok [of m sid leader env input] by (simp add: pdStepOk_def)
  show "pdPost m leader r s" if "pdInit env m sid leader input = Return r s out" for r s out
    using pdInit_ok [of m sid leader env input] that by simp
  show "thenLoop (pdInit env m sid leader input) (pdHandle m sid leader) es = Return r s out"
    using assms by (simp add: runPDInstance_def)
qed

end
