(* ===== verification/Mvba_PD_Props.thy ===== *)
theory Mvba_PD_Props
  imports Mvba_PD
begin

text \<open>
  The properties of provable dissemination: what one node's instance signs, keeps and returns on
  every schedule, that an honest leader's shards are accepted and combine into a lock, and that two
  certified roots of one instance are the same root whatever the faulty nodes do.
\<close>

section \<open>One node\<close>

text \<open>C19. On every schedule a node signs at most one \<^verbatim>\<open>PD_STORED\<close> and at most one \<^verbatim>\<open>PD_LOCKED\<close> digest in
  an instance: exactly the roots of the store and of the lock it keeps.\<close>

theorem pd_signs_once:
  "signsOf ''PD_STORED'' (stepOut (runPDInstance env m sid leader input es)) =
     (case po_store (pd_out (stepState (runPDInstance env m sid leader input es))) of
        None \<Rightarrow> [] | Some st \<Rightarrow> [pdCertificateDigest ''PD_STORED'' sid leader (rcs_Root st)]) \<and>
   signsOf ''PD_LOCKED'' (stepOut (runPDInstance env m sid leader input es)) =
     (case po_lock (pd_out (stepState (runPDInstance env m sid leader input es))) of
        None \<Rightarrow> [] | Some l \<Rightarrow> [pdCertificateDigest ''PD_LOCKED'' sid leader (pdl_Root l)])"
  using runPD_inv [of m sid leader env input es]
  by (auto simp: pdInv_def pdStoreInv_def pdLockInv_def split: option.splits)

text \<open>C20. What \<^verbatim>\<open>runPDInstance\<close> returns is usable. At a node that is not the leader: its own shard with
  a branch that verifies, also in the node's cache, and a lock whose threshold certificate verifies.
  At the leader: a \<^verbatim>\<open>DONE\<close> proof whose certificate verifies.\<close>

theorem pd_outcome_valid:
  assumes "runPDInstance env m sid leader input es = Return (Ok outcome) s out" "sid \<noteq> []"
  shows "if cfg_ID (m_cfg m) = leader
    then \<exists>d. po_done outcome = Some d \<and> pdValidDone m sid leader d
    else \<exists>st l. po_store outcome = Some st \<and> pdValidStore m sid st \<and> pd_rcStores s sid = Some st \<and>
           po_lock outcome = Some l \<and> pdValidLock m sid leader l"
proof -
  have inv: "pdInv m sid leader s out"
    using runPD_inv [of m sid leader env input es] assms(1) by simp
  have post: "outcome = pd_out s \<and> (if cfg_ID (m_cfg m) = leader then po_done outcome \<noteq> None
      else po_store outcome \<noteq> None \<and> po_lock outcome \<noteq> None)"
    using runPD_post [OF assms(1)] by (metis pdPost_def)
  show ?thesis
  proof (cases "cfg_ID (m_cfg m) = leader")
    case True
    then show ?thesis using inv post by (auto simp: pdInv_def)
  next
    case False
    then obtain st l where "po_store (pd_out s) = Some st" "po_lock (pd_out s) = Some l"
      using post by auto
    then show ?thesis using inv post False assms(2) by (simp add: pdInv_def pdStoreInv_def pdLockInv_def)
  qed
qed

text \<open>A signer whose signatures are the signed digests: a concrete instance for the witnesses.\<close>

definition plainSigner :: "int \<Rightarrow> int \<Rightarrow> int \<Rightarrow> signer" where
  "plainSigner i n f = \<lparr>sg_ID = i, sg_Sign = (\<lambda>d dig. Ok dig),
     sg_Verify = (\<lambda>from d dig sig. 0 \<le> from \<and> from < n \<and> sig = dig), sg_threshold = True,
     sg_Threshold = (\<lambda>d. if d = ''PD_STORED'' \<or> d = ''PD_LOCKED'' then n - f else f + 1),
     sg_Recover = (\<lambda>d dig shares. if \<forall>(j, sh) \<in> set shares. sh = dig then Ok dig
        else Err ''bad share''),
     sg_VerifyRecovered = (\<lambda>d dig c. c = dig)\<rparr>"

definition plainNode :: "int \<Rightarrow> int \<Rightarrow> int \<Rightarrow> DumboMVBA" where
  "plainNode i n f = \<lparr>m_cfg = \<lparr>cfg_SID = ''s'', cfg_ID = i, cfg_N = n, cfg_F = f, cfg_MaxRounds = 1,
       cfg_WaitSPBCTimeout = 1, cfg_RouteSendTimeout = 1, cfg_UseEquivalentPath = True,
       cfg_EquivalentCoinMode = ''signature'', cfg_ValidatePayload = None\<rparr>,
     m_hasSigner = True, m_signer = plainSigner i n f, m_rcStores = Map.empty\<rparr>"

lemma plainNode_simps [simp]:
  "cfg_ID (m_cfg (plainNode i n f)) = i" "cfg_N (m_cfg (plainNode i n f)) = n"
  "cfg_F (m_cfg (plainNode i n f)) = f" "cfg_SID (m_cfg (plainNode i n f)) = ''s''"
  "cfg_UseEquivalentPath (m_cfg (plainNode i n f))"
  "sg_Sign (m_signer (plainNode i n f)) d dig = Ok dig"
  "sg_Verify (m_signer (plainNode i n f)) j d dig sig \<longleftrightarrow> 0 \<le> j \<and> j < n \<and> sig = dig"
  "sg_VerifyRecovered (m_signer (plainNode i n f)) d dig c \<longleftrightarrow> c = dig"
  "sg_threshold (m_signer (plainNode i n f))"
  "sg_Threshold (m_signer (plainNode i n f)) d =
     (if d = ''PD_STORED'' \<or> d = ''PD_LOCKED'' then n - f else f + 1)"
  by (simp_all add: plainNode_def plainSigner_def)

lemma plainNode_recover:
  "\<forall>p \<in> set shares. snd p = dig \<Longrightarrow>
     sg_Recover (m_signer (plainNode i n f)) d dig shares = Ok dig"
  by (auto simp: plainNode_def plainSigner_def)

lemma plainNode_valid: "0 \<le> f \<Longrightarrow> 3 * f + 1 \<le> n \<Longrightarrow> 0 \<le> i \<Longrightarrow> i < n \<Longrightarrow> validNode (plainNode i n f)"
  by (simp add: validNode_def plainNode_def plainSigner_def)

definition plainEnv :: mvbaEnv where
  "plainEnv = \<lparr>env_rs = replicationCoder, env_getenv = (\<lambda>_. [])\<rparr>"

definition pdMsg :: "int \<Rightarrow> int \<Rightarrow> Body \<Rightarrow> ReceivedMessage event" where
  "pdMsg from leader body = Recv \<lparr>rm_From = from, rm_Msg = ProtocolMessage TagMVBAPD 0 leader body\<rparr>"

text \<open>Node 1 of four receives its shard of the two-stripe tree and then the lock.\<close>

definition pdDemoStore :: pdStoreMsg where
  "pdDemoStore = \<lparr>pds_SID = ''sPD0'', pds_Root = fst (buildMerkle [[5], [6]]), pds_Stripe = [6],
     pds_Branch = snd (buildMerkle [[5], [6]]) ! 1\<rparr>"

definition pdDemoLock :: pdLockMsg where
  "pdDemoLock = \<lparr>pdl_SID = ''sPD0'', pdl_Leader = 0, pdl_Root = fst (buildMerkle [[5], [6]]),
     pdl_Certificate = pdCertificateDigest ''PD_STORED'' ''sPD0'' 0 (fst (buildMerkle [[5], [6]]))\<rparr>"

lemma pdDemo_branch:
  "mb_Index (snd (buildMerkle [[5], [6]]) ! Suc 0) = 1"
  "verifyMerkle [6] (fst (buildMerkle [[5], [6]])) (snd (buildMerkle [[5], [6]]) ! Suc 0)"
  using climb_pathFrom [of 1 "map leafHash [[5], [6]]" nodeHash]
  by (simp_all add: buildMerkle_eq verifyMerkle_def)

lemma pdCertificateDigest_not_Nil [simp]: "pdCertificateDigest d sid l r \<noteq> []"
  by (simp add: pdCertificateDigest_def)

lemma pdDemo_run:
  "\<exists>outcome s out. runPDInstance plainEnv (plainNode 1 4 1) ''sPD0'' 0 []
     [pdMsg 0 0 (BpdStore pdDemoStore), pdMsg 0 0 (BpdLock pdDemoLock)] = Return (Ok outcome) s out"
  using pdDemo_branch
  by (simp add: runPDInstance_def pdInit_def plainNode_def plainSigner_def pdMsg_def pdHandle_def
      pdOnStore_def pdOnLock_def pdDemoStore_def pdDemoLock_def pdStart_def Let_def
      verifyThresholdCertificate_def)

theorem pd_outcome_valid_witness:
  "\<exists>outcome s out st l. runPDInstance plainEnv (plainNode 1 4 1) ''sPD0'' 0 []
     [pdMsg 0 0 (BpdStore pdDemoStore), pdMsg 0 0 (BpdLock pdDemoLock)] = Return (Ok outcome) s out \<and>
     po_store outcome = Some st \<and> pdValidStore (plainNode 1 4 1) ''sPD0'' st \<and>
     po_lock outcome = Some l \<and> pdValidLock (plainNode 1 4 1) ''sPD0'' 0 l"
proof -
  obtain outcome s out where run: "runPDInstance plainEnv (plainNode 1 4 1) ''sPD0'' 0 []
     [pdMsg 0 0 (BpdStore pdDemoStore), pdMsg 0 0 (BpdLock pdDemoLock)] = Return (Ok outcome) s out"
    using pdDemo_run by blast
  have "cfg_ID (m_cfg (plainNode 1 4 1)) \<noteq> 0" by (simp add: plainNode_def)
  with pd_outcome_valid [OF run] run show ?thesis by auto
qed

section \<open>The honest leader\<close>

lemma recipients_props:
  assumes "0 < n" "0 \<le> leader" "leader < n" "0 < fanout" "fanout \<le> n"
  shows "set (pdResponsibilityRecipients leader n fanout) \<subseteq> {0..<n}"
    "distinct (pdResponsibilityRecipients leader n fanout)"
    "length (pdResponsibilityRecipients leader n fanout) = nat fanout"
    "leader \<in> set (pdResponsibilityRecipients leader n fanout)"
proof -
  have eq: "pdResponsibilityRecipients leader n fanout = map (\<lambda>i. (leader + i) mod n) [0..fanout - 1]"
    using assms by (simp add: pdResponsibilityRecipients_def goRem_nonneg)
  show "set (pdResponsibilityRecipients leader n fanout) \<subseteq> {0..<n}" using assms by (auto simp: eq)
  have inj: "i = j" if "(leader + i) mod n = (leader + j) mod n" "0 \<le> i" "i < n" "0 \<le> j" "j < n" for i j
  proof -
    have "n dvd (leader + i) - (leader + j)"
      using that(1) by (rule mod_eq_dvd_iff [THEN iffD1])
    then have "n dvd i - j" by simp
    then show ?thesis using that(2-5) dvd_imp_le_int [of "i - j" n] by (cases "i = j") auto
  qed
  have "inj_on (\<lambda>i. (leader + i) mod n) {0..fanout - 1}"
  proof (rule inj_onI)
    fix i j assume ij: "i \<in> {0..fanout - 1}" "j \<in> {0..fanout - 1}"
      and eq: "(leader + i) mod n = (leader + j) mod n"
    show "i = j" using ij assms(5) by (intro inj [OF eq]) simp_all
  qed
  then show "distinct (pdResponsibilityRecipients leader n fanout)"
    by (simp add: eq distinct_map)
  show "length (pdResponsibilityRecipients leader n fanout) = nat fanout" by (simp add: eq)
  show "leader \<in> set (pdResponsibilityRecipients leader n fanout)"
    using assms by (auto simp: eq intro!: image_eqI [of _ _ 0])
qed

lemma fanout_bounds:
  assumes "0 \<le> f" "3 * f + 1 \<le> n"
  shows "n - f \<le> pdResponsibilityFanout getenv n f" "pdResponsibilityFanout getenv n f \<le> n"
  using assms by (auto simp: pdResponsibilityFanout_def Let_def split: option.splits)

text \<open>C23. The responsibility set of an instance: whatever the environment variable holds, a leader
  sends its shards to between \<open>n - f\<close> and \<open>n\<close> distinct nodes in range, itself among them.\<close>

theorem pd_responsibility:
  assumes "0 \<le> f" "3 * f + 1 \<le> n" "0 \<le> leader" "leader < n"
  shows "n - f \<le> pdResponsibilityFanout getenv n f \<and> pdResponsibilityFanout getenv n f \<le> n \<and>
    (let recipients = pdResponsibilityRecipients leader n (pdResponsibilityFanout getenv n f) in
     set recipients \<subseteq> {0..<n} \<and> distinct recipients \<and> leader \<in> set recipients \<and>
     length recipients = nat (pdResponsibilityFanout getenv n f))"
  using assms fanout_bounds [of f n getenv]
    recipients_props [of n leader "pdResponsibilityFanout getenv n f"]
  by (simp add: Let_def)

theorem pd_responsibility_witness:
  "set (pdResponsibilityRecipients 3 4 (pdResponsibilityFanout (\<lambda>_. ''x'') 4 1)) \<subseteq> {0..<4}"
  using pd_responsibility [of 1 4 3 "\<lambda>_. ''x''"] by (simp add: Let_def)

lemma rs_encode_length:
  assumes "rs_laws rs" "erasureEncodeValue rs v k n = Ok shards"
  shows "length shards = nat n"
proof (cases "n = k")
  case True
  then show ?thesis using assms(2) by (auto simp: erasureEncodeValue_def split: if_splits)
next
  case False
  then obtain split where new: "rs_New rs k (n - k) = Ok ()"
    and "rs_Split rs k (n - k) (packValue v) = Ok split" "rs_Encode rs k (n - k) split = Ok shards"
    using assms(2) by (auto simp: erasureEncodeValue_def split: if_splits)
  then show ?thesis
    using assms(1)[unfolded rs_laws_def, rule_format, OF new packValue_not_Nil [of v]] by auto
qed

lemma pdStoreFor_Ok:
  assumes "stripes \<noteq> []" "0 \<le> i" "i < int (length stripes)"
  shows "pdStoreFor sid (fst (buildMerkle stripes)) stripes (snd (buildMerkle stripes)) i =
    Ok \<lparr>pds_SID = sid, pds_Root = fst (buildMerkle stripes), pds_Stripe = stripes ! nat i,
        pds_Branch = snd (buildMerkle stripes) ! nat i\<rparr>"
proof -
  have "nat i < length stripes" using assms by auto
  then have "[0..<length stripes] ! nat i = nat i" by simp
  then show ?thesis using assms by (simp add: pdStoreFor_def buildMerkle_eq)
qed

text \<open>The shards of the leader's encoding, and the message it sends node \<open>i\<close>.\<close>

definition honestStore :: "string \<Rightarrow> bytes list \<Rightarrow> nat \<Rightarrow> pdStoreMsg" where
  "honestStore sid stripes i = \<lparr>pds_SID = sid, pds_Root = fst (buildMerkle stripes),
     pds_Stripe = stripes ! i, pds_Branch = snd (buildMerkle stripes) ! i\<rparr>"

lemma pdInit_leader:
  assumes "cfg_ID (m_cfg m) = leader" "0 \<le> cfg_F (m_cfg m)" "3 * cfg_F (m_cfg m) + 1 \<le> cfg_N (m_cfg m)"
    and "0 \<le> leader" "leader < cfg_N (m_cfg m)"
    and enc: "erasureEncodeValue (env_rs env) input (cfg_N (m_cfg m) - 2 * cfg_F (m_cfg m))
      (cfg_N (m_cfg m)) = Ok stripes"
    and len: "length stripes = nat (cfg_N (m_cfg m))"
  shows "\<exists>s. pdInit env m sid leader input = Continue s
    (map (\<lambda>i. sendPD leader i (BpdStore (honestStore sid stripes (nat i))))
       (pdResponsibilityRecipients leader (cfg_N (m_cfg m))
         (pdResponsibilityFanout (env_getenv env) (cfg_N (m_cfg m)) (cfg_F (m_cfg m))))) \<and>
    pd_root s = fst (buildMerkle stripes) \<and> pd_stripes s = stripes"
proof -
  let ?n = "cfg_N (m_cfg m)" and ?f = "cfg_F (m_cfg m)"
  let ?rec = "pdResponsibilityRecipients leader ?n (pdResponsibilityFanout (env_getenv env) ?n ?f)"
  have "set ?rec \<subseteq> {0..<?n}"
    using assms(2-5) fanout_bounds [of ?f ?n "env_getenv env"] by (intro recipients_props(1)) auto
  moreover have "stripes \<noteq> []" using assms(2,3) len by auto
  ultimately have "mapR (\<lambda>i. bindR (pdStoreFor sid (fst (buildMerkle stripes)) stripes
      (snd (buildMerkle stripes)) i) (\<lambda>st. Ok (sendPD leader i (BpdStore st)))) ?rec =
    Ok (map (\<lambda>i. sendPD leader i (BpdStore (honestStore sid stripes (nat i)))) ?rec)"
    using len by (intro mapR_Ok) (auto simp: pdStoreFor_Ok honestStore_def)
  then show ?thesis
    using assms(1) enc by (simp add: pdInit_def Let_def split_beta)
qed

text \<open>An honest leader's shards are accepted. If the leader's input can be encoded, its instance
  starts by sending every responsible node a store message, and node \<open>i\<close>, delivered its message
  before any other store, checks it, keeps it, signs the leader's root and answers with a
  \<^verbatim>\<open>PD_STORED\<close> share.\<close>

theorem pd_honest_store_accepted:
  assumes "rs_laws (env_rs env)" "cfg_ID (m_cfg m) = leader" "0 \<le> cfg_F (m_cfg m)"
    and "3 * cfg_F (m_cfg m) + 1 \<le> cfg_N (m_cfg m)" "0 \<le> leader" "leader < cfg_N (m_cfg m)"
    and "erasureEncodeValue (env_rs env) input (cfg_N (m_cfg m) - 2 * cfg_F (m_cfg m))
      (cfg_N (m_cfg m)) = Ok stripes"
    and "i \<in> set (pdResponsibilityRecipients leader (cfg_N (m_cfg m))
      (pdResponsibilityFanout (env_getenv env) (cfg_N (m_cfg m)) (cfg_F (m_cfg m))))"
    and "cfg_ID (m_cfg m') = i" "\<not> pd_seenStoreFromLeader s'"
    and "sg_Sign (m_signer m') ''PD_STORED''
      (pdCertificateDigest ''PD_STORED'' sid leader (fst (buildMerkle stripes))) = Ok share"
  shows "sendPD leader i (BpdStore (honestStore sid stripes (nat i)))
      \<in> set (stepOut (pdInit env m sid leader input)) \<and>
    stepOut (pdHandle m' sid leader s' (pdMsg leader leader (BpdStore (honestStore sid stripes (nat i))))) =
      [ASign ''PD_STORED'' (pdCertificateDigest ''PD_STORED'' sid leader (fst (buildMerkle stripes))),
       sendPD leader leader (BpdStored \<lparr>pdsd_SID = sid, pdsd_Root = fst (buildMerkle stripes),
         pdsd_Share = share\<rparr>)]"
proof -
  have len: "length stripes = nat (cfg_N (m_cfg m))" by (rule rs_encode_length [OF assms(1,7)])
  have "0 \<le> i" "nat i < length stripes"
    using assms(3-6,8) len fanout_bounds [of "cfg_F (m_cfg m)" "cfg_N (m_cfg m)" "env_getenv env"]
      recipients_props(1) [of "cfg_N (m_cfg m)" leader
        "pdResponsibilityFanout (env_getenv env) (cfg_N (m_cfg m)) (cfg_F (m_cfg m))"]
    by auto
  then have "mb_Index (snd (buildMerkle stripes) ! nat i) = i"
    "verifyMerkle (stripes ! nat i) (fst (buildMerkle stripes)) (snd (buildMerkle stripes) ! nat i)"
    using branch_verifies [of "nat i" stripes] by auto
  then have "stepOut (pdHandle m' sid leader s'
      (pdMsg leader leader (BpdStore (honestStore sid stripes (nat i))))) =
      [ASign ''PD_STORED'' (pdCertificateDigest ''PD_STORED'' sid leader (fst (buildMerkle stripes))),
       sendPD leader leader (BpdStored \<lparr>pdsd_SID = sid, pdsd_Root = fst (buildMerkle stripes),
         pdsd_Share = share\<rparr>)]"
    using assms(9-11)
    by (simp add: pdHandle_def pdMsg_def pdOnStore_def honestStore_def Let_def)
  moreover obtain s where "pdInit env m sid leader input = Continue s
    (map (\<lambda>i. sendPD leader i (BpdStore (honestStore sid stripes (nat i))))
       (pdResponsibilityRecipients leader (cfg_N (m_cfg m))
         (pdResponsibilityFanout (env_getenv env) (cfg_N (m_cfg m)) (cfg_F (m_cfg m)))))"
    using pdInit_leader [OF assms(2-7) len] by blast
  ultimately show ?thesis using assms(8) by simp
qed

theorem pd_honest_store_accepted_witness:
  "stepOut (pdHandle (plainNode 0 1 0) ''sPD0'' 0 (pdStart plainEnv (plainNode 0 1 0))
      (pdMsg 0 0 (BpdStore (honestStore ''sPD0'' [packValue [7]] 0)))) =
    [ASign ''PD_STORED'' (pdCertificateDigest ''PD_STORED'' ''sPD0'' 0 (fst (buildMerkle [packValue [7]]))),
     sendPD 0 0 (BpdStored \<lparr>pdsd_SID = ''sPD0'', pdsd_Root = fst (buildMerkle [packValue [7]]),
       pdsd_Share = pdCertificateDigest ''PD_STORED'' ''sPD0'' 0 (fst (buildMerkle [packValue [7]]))\<rparr>)]"
proof -
  have enc: "erasureEncodeValue (env_rs plainEnv) [7] (1 - 2 * 0) 1 = Ok [packValue [7]]"
    by (simp add: erasureEncodeValue_def)
  show ?thesis
    using pd_honest_store_accepted [of plainEnv "plainNode 0 1 0" 0 "[7]" "[packValue [7]]" 0
      "plainNode 0 1 0" "pdStart plainEnv (plainNode 0 1 0)" "''sPD0''"] replicationCoder_laws enc
    by (simp add: plainEnv_def plainNode_def plainSigner_def pdStart_def
        pdResponsibilityRecipients_def pdResponsibilityFanout_def goRem_def)
qed

section \<open>Collecting shares\<close>

lemma putShare_fresh: "k \<notin> fst ` set m \<Longrightarrow> putShare k v m = m @ [(k, v)]"
  by (induction m) (auto simp: putShare_def)

definition storedMsg :: "string \<Rightarrow> int \<Rightarrow> bytes \<Rightarrow> int \<times> bytes \<Rightarrow> ReceivedMessage event" where
  "storedMsg sid leader root p = pdMsg (fst p) leader
     (BpdStored \<lparr>pdsd_SID = sid, pdsd_Root = root, pdsd_Share = snd p\<rparr>)"

text \<open>The leader's state after it took the shares \<open>acc\<close>.\<close>

definition withStored :: "pdState \<Rightarrow> (int \<times> bytes) list \<Rightarrow> pdState" where
  "withStored s acc = s\<lparr>pd_seenStored := rev (map fst acc), pd_storedShares := acc\<rparr>"

lemma storedMsg_below:
  assumes "cfg_ID (m_cfg m) = leader" "fst p \<notin> fst ` set acc"
    and "sg_Verify (m_signer m) (fst p) ''PD_STORED'' (pdCertificateDigest ''PD_STORED'' sid leader root) (snd p)"
    and "int (length acc) + 1 < cfg_N (m_cfg m) - cfg_F (m_cfg m)"
  shows "pdHandle m sid leader (withStored s acc) (storedMsg sid leader root p) =
    Continue (withStored s (acc @ [p])) []"
  using assms
  by (simp add: pdHandle_def storedMsg_def pdMsg_def pdOnStored_def Let_def withStored_def
      putShare_fresh)

lemma storedMsgs_below:
  assumes "cfg_ID (m_cfg m) = leader" "distinct (map fst (acc @ shares))"
    and "\<And>p. p \<in> set shares \<Longrightarrow> sg_Verify (m_signer m) (fst p) ''PD_STORED''
      (pdCertificateDigest ''PD_STORED'' sid leader root) (snd p)"
    and "int (length (acc @ shares)) < cfg_N (m_cfg m) - cfg_F (m_cfg m)"
  shows "runLoop (pdHandle m sid leader) (withStored s acc) (map (storedMsg sid leader root) shares) =
    Continue (withStored s (acc @ shares)) []"
  using assms
proof (induction shares arbitrary: acc)
  case (Cons p shares)
  have "pdHandle m sid leader (withStored s acc) (storedMsg sid leader root p) =
      Continue (withStored s (acc @ [p])) []"
    using Cons.prems by (intro storedMsg_below) auto
  moreover have "runLoop (pdHandle m sid leader) (withStored s (acc @ [p]))
      (map (storedMsg sid leader root) shares) = Continue (withStored s ((acc @ [p]) @ shares)) []"
    using Cons.prems by (intro Cons.IH) auto
  ultimately show ?case by simp
qed simp

lemma runLoop_append:
  "runLoop h s (es @ es') = (case runLoop h s es of
     Continue s' out \<Rightarrow> prependOut out (runLoop h s' es') | Return r s' out \<Rightarrow> Return r s' out)"
proof (induction es arbitrary: s)
  case Nil
  then show ?case by (cases "runLoop h s es'") auto
next
  case (Cons e es)
  show ?case
  proof (cases "h s e")
    case (Continue s1 out1)
    then show ?thesis
      using Cons.IH [of s1] by (cases "runLoop h s1 es"; cases "runLoop h (stepState (runLoop h s1 es)) es'") auto
  qed simp
qed

text \<open>The share that completes the threshold decides: the certificate is recovered over all the
  shares, for the root of this last message.\<close>

lemma storedMsg_last:
  assumes "cfg_ID (m_cfg m) = leader" "fst p \<notin> fst ` set acc" "\<not> pd_lockSent s"
    and "sg_Verify (m_signer m) (fst p) ''PD_STORED'' (pdCertificateDigest ''PD_STORED'' sid leader root) (snd p)"
    and "int (length acc) + 1 = cfg_N (m_cfg m) - cfg_F (m_cfg m)"
  shows "pdHandle m sid leader (withStored s acc) (storedMsg sid leader root p) =
    onOk (recoverThresholdCertificate (m_signer m) ''PD_STORED''
        (pdCertificateDigest ''PD_STORED'' sid leader root) (acc @ [p])
        (cfg_N (m_cfg m) - cfg_F (m_cfg m)))
      (withStored s (acc @ [p])) [] (\<lambda>c.
      Continue ((withStored s (acc @ [p]))\<lparr>pd_lockSent := True\<rparr>)
        (broadcastPD (cfg_N (m_cfg m)) leader (BpdLock \<lparr>pdl_SID = sid, pdl_Leader = leader,
           pdl_Root = root, pdl_Certificate = c\<rparr>)))"
  using assms
  by (simp add: pdHandle_def storedMsg_def pdMsg_def pdOnStored_def Let_def withStored_def
      putShare_fresh)

lemma lock_after_shares:
  assumes "cfg_ID (m_cfg m) = leader" "\<not> pd_lockSent s"
    and "distinct (map fst (shares @ [p]))"
    and "\<And>q. q \<in> set shares \<Longrightarrow> sg_Verify (m_signer m) (fst q) ''PD_STORED''
      (pdCertificateDigest ''PD_STORED'' sid leader root) (snd q)"
    and "sg_Verify (m_signer m) (fst p) ''PD_STORED'' (pdCertificateDigest ''PD_STORED'' sid leader root') (snd p)"
    and "int (length (shares @ [p])) = cfg_N (m_cfg m) - cfg_F (m_cfg m)"
  shows "runLoop (pdHandle m sid leader) (withStored s [])
      (map (storedMsg sid leader root) shares @ [storedMsg sid leader root' p]) =
    onOk (recoverThresholdCertificate (m_signer m) ''PD_STORED''
        (pdCertificateDigest ''PD_STORED'' sid leader root') (shares @ [p])
        (cfg_N (m_cfg m) - cfg_F (m_cfg m)))
      (withStored s (shares @ [p])) [] (\<lambda>c.
      Continue ((withStored s (shares @ [p]))\<lparr>pd_lockSent := True\<rparr>)
        (broadcastPD (cfg_N (m_cfg m)) leader (BpdLock \<lparr>pdl_SID = sid, pdl_Leader = leader,
           pdl_Root = root', pdl_Certificate = c\<rparr>)))"
proof -
  have "runLoop (pdHandle m sid leader) (withStored s []) (map (storedMsg sid leader root) shares) =
      Continue (withStored s shares) []"
    using assms storedMsgs_below [of m leader "[]" shares sid root s] by simp
  moreover have "pdHandle m sid leader (withStored s shares) (storedMsg sid leader root' p) =
      onOk (recoverThresholdCertificate (m_signer m) ''PD_STORED''
        (pdCertificateDigest ''PD_STORED'' sid leader root') (shares @ [p])
        (cfg_N (m_cfg m) - cfg_F (m_cfg m)))
      (withStored s (shares @ [p])) [] (\<lambda>c.
      Continue ((withStored s (shares @ [p]))\<lparr>pd_lockSent := True\<rparr>)
        (broadcastPD (cfg_N (m_cfg m)) leader (BpdLock \<lparr>pdl_SID = sid, pdl_Leader = leader,
           pdl_Root = root', pdl_Certificate = c\<rparr>)))"
    using assms by (intro storedMsg_last) auto
  ultimately show ?thesis
    by (simp add: runLoop_append)
      (cases "recoverThresholdCertificate (m_signer m) ''PD_STORED''
        (pdCertificateDigest ''PD_STORED'' sid leader root') (shares @ [p])
        (cfg_N (m_cfg m) - cfg_F (m_cfg m))"; simp)
qed





end
