(* ===== verification/Mvba_PD_Safety.thy ===== *)
theory Mvba_PD_Safety
  imports Mvba_PD_Props
begin

text \<open>
  Safety of provable dissemination over all nodes. Up to \<open>f\<close> of the \<open>n\<close> nodes are faulty and do
  anything; every other node runs \<^verbatim>\<open>runPDInstance\<close> for every leader, on any schedule. The security of
  the threshold signatures is the hypothesis \<open>unforgeable\<close>: a certificate of a domain that verifies
  needs as many signers as the domain's threshold, and the honest ones among them signed the digest.
\<close>

section \<open>Sessions of the instances\<close>

definition pdSid :: "string \<Rightarrow> int \<Rightarrow> string" where
  "pdSid sid leader = sid @ ''PD'' @ itoa leader"

lemma digits_no_zero: "list_all isDigit s \<Longrightarrow> 0 \<notin> set (bytes_of s)"
proof (induction s)
  case (Cons c s)
  have "(of_char c :: byte) \<noteq> 0"
  proof
    assume "(of_char c :: byte) = 0"
    then have "unat (of_char c :: byte) = 0" by simp
    then show False using Cons.prems by (simp add: isDigit_def)
  qed
  then show ?case using Cons by (simp add: bytes_of_Cons)
qed simp

lemma itoa_no_zero: "0 \<notin> set (bytes_of (itoa v))"
  using digits_no_zero [OF nat_digits_isDigit] by (simp add: itoa_def bytes_of_Cons)

lemma zero_split:
  "0 \<notin> set x \<Longrightarrow> 0 \<notin> set y \<Longrightarrow> x @ 0 # a = y @ 0 # b \<longleftrightarrow> x = y \<and> a = b" for x y :: bytes
proof (induction x arbitrary: y)
  case Nil
  then show ?case by (cases y) auto
next
  case (Cons c x)
  then show ?case by (cases y) auto
qed

text \<open>Different instances of one session never hash the same string for a certificate, even when the
  certificate names another leader than its session.\<close>

lemma pdDigestInput_inj:
  assumes "pdDigestInput d (pdSid sid l) x root = pdDigestInput d (pdSid sid j) j root'"
  shows "l = j \<and> root = root'"
proof -
  have "bytes_of (itoa l) @ 0 # put64 (word_of_int x) @ [0] @ root =
      bytes_of (itoa j) @ 0 # put64 (word_of_int j) @ [0] @ root'"
    using assms by (simp add: pdDigestInput_def pdSid_def bytes_of_Cons)
  then have "bytes_of (itoa l) = bytes_of (itoa j)"
    "put64 (word_of_int x) @ [0] @ root = put64 (word_of_int j) @ [0] @ root'"
    using zero_split [OF itoa_no_zero [of l] itoa_no_zero [of j]] by blast+
  then show ?thesis by (simp add: append_eq_same_length)
qed

lemma pdDigest_eq:
  assumes "pdCertificateDigest d (pdSid sid l) x root = pdCertificateDigest d (pdSid sid j) j root'"
    and "\<not> collision (pdDigestInput d (pdSid sid l) x root) (pdDigestInput d (pdSid sid j) j root')"
  shows "l = j \<and> root = root'"
proof (rule pdDigestInput_inj)
  have "sha256 (pdDigestInput d (pdSid sid l) x root) = sha256 (pdDigestInput d (pdSid sid j) j root')"
    using assms(1) by (simp add: pdCertificateDigest_def hashBytes_def pdDigestInput_def)
  then show "pdDigestInput d (pdSid sid l) x root = pdDigestInput d (pdSid sid j) j root'"
    using assms(2) unfolding collision_def by blast
qed

section \<open>Threshold signatures of many nodes\<close>

text \<open>\<open>D\<close> are the digests of the session at hand, \<open>signedBy p\<close> those that node \<open>p\<close> signed.\<close>

definition unforgeable ::
  "signer \<Rightarrow> string \<Rightarrow> bytes set \<Rightarrow> int \<Rightarrow> int set \<Rightarrow> (int \<Rightarrow> bytes set) \<Rightarrow> bool" where
  "unforgeable sg d D n faulty signedBy \<longleftrightarrow>
     (\<forall>dig \<in> D. \<forall>c. sg_VerifyRecovered sg d dig c \<longrightarrow>
        (\<exists>Q. Q \<subseteq> {0..<n} \<and> sg_Threshold sg d \<le> int (card Q) \<and> (\<forall>p \<in> Q - faulty. dig \<in> signedBy p)))"

definition certified ::
  "signer \<Rightarrow> string \<Rightarrow> bytes set \<Rightarrow> int \<Rightarrow> int \<Rightarrow> int set \<Rightarrow> (int \<Rightarrow> bytes set) \<Rightarrow> bool" where
  "certified sg d D n f faulty signedBy \<longleftrightarrow>
     0 \<le> f \<and> 3 * f + 1 \<le> n \<and> finite faulty \<and> int (card faulty) \<le> f \<and>
     unforgeable sg d D n faulty signedBy"

text \<open>A certificate is a quorum; two quorums share an honest signer.\<close>

lemma cert_quorum:
  assumes "certified sg d D n f faulty signedBy" "verifyThresholdCertificate sg d dig c t" "dig \<in> D"
  obtains Q where "Q \<subseteq> {0..<n}" "t \<le> int (card Q)" "\<And>p. p \<in> Q \<Longrightarrow> p \<notin> faulty \<Longrightarrow> dig \<in> signedBy p"
proof -
  have "\<exists>Q. Q \<subseteq> {0..<n} \<and> sg_Threshold sg d \<le> int (card Q) \<and> (\<forall>p \<in> Q - faulty. dig \<in> signedBy p)"
    using assms by (auto simp: certified_def unforgeable_def verifyThresholdCertificate_def)
  then show thesis using that assms by (auto simp: verifyThresholdCertificate_def)
qed

text \<open>Two certificates with threshold \<open>n - f\<close> in one domain have an honest signer in common.\<close>

lemma common_signer:
  assumes sys: "certified sg d D n f faulty signedBy"
    and "verifyThresholdCertificate sg d dig c (n - f)" "dig \<in> D"
    and "verifyThresholdCertificate sg d dig' c' (n - f)" "dig' \<in> D"
  obtains p where "0 \<le> p" "p < n" "p \<notin> faulty" "dig \<in> signedBy p" "dig' \<in> signedBy p"
proof -
  obtain Q where Q: "Q \<subseteq> {0..<n}" "n - f \<le> int (card Q)" "\<And>p. p \<in> Q \<Longrightarrow> p \<notin> faulty \<Longrightarrow> dig \<in> signedBy p"
    using cert_quorum [OF sys assms(2,3)] by blast
  obtain R where R: "R \<subseteq> {0..<n}" "n - f \<le> int (card R)" "\<And>p. p \<in> R \<Longrightarrow> p \<notin> faulty \<Longrightarrow> dig' \<in> signedBy p"
    using cert_quorum [OF sys assms(4,5)] by blast
  have "card {0..<n} + card faulty < card Q + card R"
    using Q(2) R(2) sys by (auto simp: certified_def)
  then obtain p where "p \<in> Q" "p \<in> R" "p \<notin> faulty"
    using quorum_honest_Int [of "{0..<n}" Q R faulty] Q(1) R(1) sys
    by (auto simp: certified_def)
  then show thesis using that [of p] Q(1) Q(3) [of p] R(3) [of p] by auto
qed

text \<open>A certificate with a threshold above \<open>f\<close> has an honest signer.\<close>

lemma honest_signer:
  assumes sys: "certified sg d D n f faulty signedBy"
    and "verifyThresholdCertificate sg d dig c t" "dig \<in> D" "f < t"
  obtains p where "0 \<le> p" "p < n" "p \<notin> faulty" "dig \<in> signedBy p"
proof -
  obtain Q where Q: "Q \<subseteq> {0..<n}" "t \<le> int (card Q)" "\<And>p. p \<in> Q \<Longrightarrow> p \<notin> faulty \<Longrightarrow> dig \<in> signedBy p"
    using cert_quorum [OF sys assms(2,3)] by blast
  have "\<not> Q \<subseteq> faulty"
  proof
    assume "Q \<subseteq> faulty"
    then have "card Q \<le> card faulty" using sys by (simp add: certified_def card_mono)
    then show False using Q(2) assms(4) sys by (simp add: certified_def)
  qed
  then obtain p where "p \<in> Q" "p \<notin> faulty" by blast
  then show thesis using that [of p] Q(1) Q(3) [of p] by auto
qed

text \<open>The certificate digests of a session.\<close>

definition sessionDigests :: "string \<Rightarrow> string \<Rightarrow> bytes set" where
  "sessionDigests d sid = {pdCertificateDigest d (pdSid sid l) x r | l x r. True}"

lemma sessionDigests_I [simp]: "pdCertificateDigest d (pdSid sid l) x r \<in> sessionDigests d sid"
  by (auto simp: sessionDigests_def)

section \<open>The instances of all nodes\<close>

text \<open>Node \<open>p\<close>'s run of the instance of leader \<open>j\<close>.\<close>

definition pdRun ::
  "mvbaEnv \<Rightarrow> (int \<Rightarrow> DumboMVBA) \<Rightarrow> string \<Rightarrow> (int \<Rightarrow> bytes) \<Rightarrow> (int \<Rightarrow> int \<Rightarrow> ReceivedMessage event list) \<Rightarrow>
   int \<Rightarrow> int \<Rightarrow> (pdState, action, pdOutcome) step" where
  "pdRun env node sid input sched p j = runPDInstance env (node p) (pdSid sid j) j (input p) (sched p j)"

definition pdSigned ::
  "mvbaEnv \<Rightarrow> (int \<Rightarrow> DumboMVBA) \<Rightarrow> string \<Rightarrow> (int \<Rightarrow> bytes) \<Rightarrow> (int \<Rightarrow> int \<Rightarrow> ReceivedMessage event list) \<Rightarrow>
   int \<Rightarrow> string \<Rightarrow> int \<Rightarrow> bytes set" where
  "pdSigned env node sid input sched n d p =
     (\<Union>j \<in> {0..<n}. set (signsOf d (stepOut (pdRun env node sid input sched p j))))"

text \<open>The strings node \<open>p\<close> hashed for its \<^verbatim>\<open>PD_STORED\<close> signatures.\<close>

definition pdStoredInputs ::
  "mvbaEnv \<Rightarrow> (int \<Rightarrow> DumboMVBA) \<Rightarrow> string \<Rightarrow> (int \<Rightarrow> bytes) \<Rightarrow> (int \<Rightarrow> int \<Rightarrow> ReceivedMessage event list) \<Rightarrow>
   int \<Rightarrow> int \<Rightarrow> bytes set" where
  "pdStoredInputs env node sid input sched n p =
     {pdDigestInput ''PD_STORED'' (pdSid sid j) j (rcs_Root st) | j st.
        j \<in> {0..<n} \<and> po_store (pd_out (stepState (pdRun env node sid input sched p j))) = Some st}"

lemma pdSigned_stored:
  assumes "dig \<in> pdSigned env node sid input sched n ''PD_STORED'' p"
  obtains j st where "0 \<le> j" "j < n"
    "po_store (pd_out (stepState (pdRun env node sid input sched p j))) = Some st"
    "dig = pdCertificateDigest ''PD_STORED'' (pdSid sid j) j (rcs_Root st)"
    "pdDigestInput ''PD_STORED'' (pdSid sid j) j (rcs_Root st) \<in> pdStoredInputs env node sid input sched n p"
proof -
  obtain j where j: "0 \<le> j" "j < n"
    "dig \<in> set (signsOf ''PD_STORED'' (stepOut (pdRun env node sid input sched p j)))"
    using assms by (auto simp: pdSigned_def)
  then obtain st where st: "po_store (pd_out (stepState (pdRun env node sid input sched p j))) = Some st"
    "dig = pdCertificateDigest ''PD_STORED'' (pdSid sid j) j (rcs_Root st)"
    using runPD_inv [of "node p" "pdSid sid j" j env "input p" "sched p j"]
    by (auto simp: pdRun_def pdInv_def pdStoreInv_def split: option.splits)
  then show thesis using that j by (auto simp: pdStoredInputs_def)
qed

lemma certified_root_eq:
  assumes "certified sg ''PD_STORED'' (sessionDigests ''PD_STORED'' sid) n f faulty
      (pdSigned env node sid input sched n ''PD_STORED'')"
    and "verifyThresholdCertificate sg ''PD_STORED''
      (pdCertificateDigest ''PD_STORED'' (pdSid sid l) x1 r1) c1 (n - f)"
    and "verifyThresholdCertificate sg ''PD_STORED''
      (pdCertificateDigest ''PD_STORED'' (pdSid sid l) x2 r2) c2 (n - f)"
    and nocoll: "\<And>p x. 0 \<le> p \<Longrightarrow> p < n \<Longrightarrow> p \<notin> faulty \<Longrightarrow> x \<in> pdStoredInputs env node sid input sched n p \<Longrightarrow>
      \<not> collision (pdDigestInput ''PD_STORED'' (pdSid sid l) x1 r1) x \<and>
      \<not> collision (pdDigestInput ''PD_STORED'' (pdSid sid l) x2 r2) x"
  shows "r1 = r2"
proof -
  obtain p where p: "0 \<le> p" "p < n" "p \<notin> faulty"
    "pdCertificateDigest ''PD_STORED'' (pdSid sid l) x1 r1
       \<in> pdSigned env node sid input sched n ''PD_STORED'' p"
    "pdCertificateDigest ''PD_STORED'' (pdSid sid l) x2 r2
       \<in> pdSigned env node sid input sched n ''PD_STORED'' p"
    using common_signer [OF assms(1,2) _ assms(3)] sessionDigests_I by metis
  have only: "\<exists>st. po_store (pd_out (stepState (pdRun env node sid input sched p l))) = Some st \<and>
      rcs_Root st = r"
    if signed: "pdCertificateDigest ''PD_STORED'' (pdSid sid l) x r
        \<in> pdSigned env node sid input sched n ''PD_STORED'' p"
      and no: "\<And>y. y \<in> pdStoredInputs env node sid input sched n p \<Longrightarrow>
        \<not> collision (pdDigestInput ''PD_STORED'' (pdSid sid l) x r) y" for x r
  proof -
    obtain j st where st: "po_store (pd_out (stepState (pdRun env node sid input sched p j))) = Some st"
      "pdCertificateDigest ''PD_STORED'' (pdSid sid l) x r =
        pdCertificateDigest ''PD_STORED'' (pdSid sid j) j (rcs_Root st)"
      "pdDigestInput ''PD_STORED'' (pdSid sid j) j (rcs_Root st) \<in> pdStoredInputs env node sid input sched n p"
      using pdSigned_stored [OF signed] by metis
    from pdDigest_eq [OF st(2) no [OF st(3)]] st(1) show ?thesis by auto
  qed
  show ?thesis using only [OF p(4)] only [OF p(5)] nocoll [OF p(1-3)] by auto
qed

section \<open>Properties\<close>

text \<open>C4. One instance, one root. Whatever up to \<open>f\<close> faulty nodes do and in whatever order messages
  arrive, two lock certificates that verify for the instance of one leader are for the same root, or
  one of the two digested strings collides under SHA-256 with a string that an honest node hashed to
  sign.\<close>

theorem pd_certified_root_unique:
  assumes "0 \<le> f" "3 * f + 1 \<le> n" "finite faulty" "int (card faulty) \<le> f"
    and "unforgeable sg ''PD_STORED'' (sessionDigests ''PD_STORED'' sid) n faulty
      (pdSigned env node sid input sched n ''PD_STORED'')"
    and "verifyThresholdCertificate sg ''PD_STORED''
      (pdCertificateDigest ''PD_STORED'' (pdSid sid leader) leader r1) c1 (n - f)"
    and "verifyThresholdCertificate sg ''PD_STORED''
      (pdCertificateDigest ''PD_STORED'' (pdSid sid leader) leader r2) c2 (n - f)"
  shows "r1 = r2 \<or> (\<exists>p \<in> {0..<n} - faulty. \<exists>x \<in> pdStoredInputs env node sid input sched n p.
      collision (pdDigestInput ''PD_STORED'' (pdSid sid leader) leader r1) x \<or>
      collision (pdDigestInput ''PD_STORED'' (pdSid sid leader) leader r2) x)"
proof (rule disjCI)
  assume *: "\<not> (\<exists>p \<in> {0..<n} - faulty. \<exists>x \<in> pdStoredInputs env node sid input sched n p.
      collision (pdDigestInput ''PD_STORED'' (pdSid sid leader) leader r1) x \<or>
      collision (pdDigestInput ''PD_STORED'' (pdSid sid leader) leader r2) x)"
  have "certified sg ''PD_STORED'' (sessionDigests ''PD_STORED'' sid) n f faulty
      (pdSigned env node sid input sched n ''PD_STORED'')"
    using assms by (simp add: certified_def)
  from certified_root_eq [OF this assms(6,7)] show "r1 = r2" using * by auto
qed

text \<open>A system of four nodes with a faulty leader 0 that sent its shards to the others.\<close>

definition demoStripes :: "bytes list" where
  "demoStripes = [[5], [6], [7], [8]]"

definition demoSched :: "int \<Rightarrow> int \<Rightarrow> ReceivedMessage event list" where
  "demoSched p j = (if j = 0 then [pdMsg 0 0 (BpdStore (honestStore (pdSid ''s'' 0) demoStripes (nat p)))] else [])"

definition demoDigest :: bytes where
  "demoDigest = pdCertificateDigest ''PD_STORED'' (pdSid ''s'' 0) 0 (fst (buildMerkle demoStripes))"

definition demoSigner :: signer where
  "demoSigner = (plainSigner 0 4 1)\<lparr>sg_VerifyRecovered :=
     (\<lambda>d dig c. d = ''PD_STORED'' \<and> dig = demoDigest \<and> c = demoDigest)\<rparr>"

lemma demo_signed:
  assumes "p \<in> {1, 2, 3}"
  shows "demoDigest \<in> pdSigned plainEnv (\<lambda>p. plainNode p 4 1) ''s'' (\<lambda>_. []) demoSched 4 ''PD_STORED'' p"
proof -
  have "nat p < length demoStripes" "0 < p" using assms by (auto simp: demoStripes_def)
  then have "mb_Index (snd (buildMerkle demoStripes) ! nat p) = p"
    "verifyMerkle (demoStripes ! nat p) (fst (buildMerkle demoStripes)) (snd (buildMerkle demoStripes) ! nat p)"
    using branch_verifies [of "nat p" demoStripes] by auto
  then have "demoDigest \<in> set (signsOf ''PD_STORED''
      (stepOut (pdRun plainEnv (\<lambda>p. plainNode p 4 1) ''s'' (\<lambda>_. []) demoSched p 0)))"
    using \<open>0 < p\<close>
    by (simp add: pdRun_def runPDInstance_def pdInit_def Let_def demoSched_def pdHandle_def pdMsg_def
        pdOnStore_def honestStore_def pdStart_def demoDigest_def)
  then show ?thesis by (force simp: pdSigned_def)
qed

lemma demo_unforgeable:
  "unforgeable demoSigner ''PD_STORED'' (sessionDigests ''PD_STORED'' ''s'') 4 {0}
     (pdSigned plainEnv (\<lambda>p. plainNode p 4 1) ''s'' (\<lambda>_. []) demoSched 4 ''PD_STORED'')"
  unfolding unforgeable_def
proof (intro ballI allI impI)
  fix dig c
  assume "sg_VerifyRecovered demoSigner ''PD_STORED'' dig c"
  then have "dig = demoDigest" by (auto simp: demoSigner_def)
  then show "\<exists>Q\<subseteq>{0..<4}. sg_Threshold demoSigner ''PD_STORED'' \<le> int (card Q) \<and> (\<forall>p \<in> Q - {0}.
      dig \<in> pdSigned plainEnv (\<lambda>p. plainNode p 4 1) ''s'' (\<lambda>_. []) demoSched 4 ''PD_STORED'' p)"
    using demo_signed by (intro exI [of _ "{1, 2, 3}"]) (auto simp: demoSigner_def plainSigner_def)
qed

lemma demo_cert: "verifyThresholdCertificate demoSigner ''PD_STORED'' demoDigest demoDigest 3"
  by (simp add: verifyThresholdCertificate_def demoSigner_def plainSigner_def demoDigest_def)

theorem pd_certified_root_unique_witness:
  "unforgeable demoSigner ''PD_STORED'' (sessionDigests ''PD_STORED'' ''s'') 4 {0}
     (pdSigned plainEnv (\<lambda>p. plainNode p 4 1) ''s'' (\<lambda>_. []) demoSched 4 ''PD_STORED'') \<and>
   verifyThresholdCertificate demoSigner ''PD_STORED'' demoDigest demoDigest 3 \<and>
   (fst (buildMerkle demoStripes) = fst (buildMerkle demoStripes) \<or>
    (\<exists>p \<in> {0..<4} - {0}. \<exists>x \<in> pdStoredInputs plainEnv (\<lambda>p. plainNode p 4 1) ''s'' (\<lambda>_. []) demoSched 4 p.
      collision (pdDigestInput ''PD_STORED'' (pdSid ''s'' 0) 0 (fst (buildMerkle demoStripes))) x \<or>
      collision (pdDigestInput ''PD_STORED'' (pdSid ''s'' 0) 0 (fst (buildMerkle demoStripes))) x))"
  using pd_certified_root_unique [OF _ _ _ _ demo_unforgeable, of 1 0 _ demoDigest _ demoDigest]
    demo_unforgeable demo_cert
  by (simp add: demoDigest_def)

end
