(* ===== verification/Mvba_Quit.thy ===== *)
theory Mvba_Quit
  imports Mvba_PD_Safety
begin

text \<open>
  Leaving the dissemination phase and preparing the recast (\<^verbatim>\<open>mvba_equivalent.go\<close>):
  \<^verbatim>\<open>runQuitPD\<close> waits for \<open>n - f\<close> proofs of completed instances, announces it with a threshold share
  and leaves on a certificate of \<open>f + 1\<close> such shares; \<^verbatim>\<open>runRCPrepare\<close> turns the locks that \<open>2f + 1\<close>
  nodes report for one leader into the node's input of the binary agreement.
\<close>

section \<open>Quitting\<close>

record quitState =
  q_provens :: int
  q_seenDone :: "int list"
  q_seenReady :: "int list"
  q_seenFinish :: "int list"
  q_readyShares :: "(int \<times> bytes) list"
  q_finishSent :: bool

definition quitStart :: quitState where
  "quitStart = \<lparr>q_provens = 0, q_seenDone = [], q_seenReady = [], q_seenFinish = [],
     q_readyShares = [], q_finishSent = False\<rparr>"

definition quitDigest :: "string \<Rightarrow> bytes" where
  "quitDigest sid = hashBytes [bytes_of ''PD_QUIT_READY'', bytes_of sid]"

definition quitSend :: "DumboMVBA \<Rightarrow> Body \<Rightarrow> action list" where
  "quitSend m body =
     map (\<lambda>i. ASend i (ProtocolMessage TagMVBAPDFinish 0 (cfg_ID (m_cfg m)) body)) [0..cfg_N (m_cfg m) - 1]"

definition sendFinish :: "DumboMVBA \<Rightarrow> string \<Rightarrow> bytes \<Rightarrow> action list" where
  "sendFinish m sid certificate = quitSend m (BquitFinish \<lparr>qf_SID = sid, qf_Certificate = certificate\<rparr>)"

definition sendReady :: "DumboMVBA \<Rightarrow> string \<Rightarrow> bytes \<Rightarrow> action list" where
  "sendReady m sid share = quitSend m (BquitReady \<lparr>qr_SID = sid, qr_Share = share\<rparr>)"

definition quitOnDone ::
  "DumboMVBA \<Rightarrow> string \<Rightarrow> quitState \<Rightarrow> pdDoneMsg \<Rightarrow> (quitState, action, int) step" where
  "quitOnDone m sid s msg =
    (let n = cfg_N (m_cfg m); f = cfg_F (m_cfg m); provenThreshold = n - f in
     if pdd_Leader msg < 0 \<or> pdd_Leader msg \<ge> n \<or> pdd_SID msg \<noteq> sid @ ''PD'' @ itoa (pdd_Leader msg)
     then Continue s []
     else if pdd_Leader msg \<in> set (q_seenDone s) then Continue s []
     else if \<not> verifyThresholdCertificate (m_signer m) ''PD_LOCKED''
         (pdCertificateDigest ''PD_LOCKED'' (pdd_SID msg) (pdd_Leader msg) (pdd_Root msg))
         (pdd_Certificate msg) provenThreshold
     then Continue s []
     else
       let s1 = s\<lparr>q_seenDone := pdd_Leader msg # q_seenDone s, q_provens := q_provens s + 1\<rparr> in
       if q_provens s1 = provenThreshold
       then onOk (sg_Sign (m_signer m) ''PD_QUIT_READY'' (quitDigest sid)) s1
              [ASign ''PD_QUIT_READY'' (quitDigest sid)] (\<lambda>share.
            Continue s1 (ASign ''PD_QUIT_READY'' (quitDigest sid) # sendReady m sid share))
       else Continue s1 [])"

definition quitOnReady ::
  "DumboMVBA \<Rightarrow> string \<Rightarrow> quitState \<Rightarrow> int \<Rightarrow> quitReadyMsg \<Rightarrow> (quitState, action, int) step" where
  "quitOnReady m sid s from msg =
    (let readyThreshold = cfg_F (m_cfg m) + 1; dig = quitDigest sid in
     if qr_SID msg \<noteq> sid then Continue s []
     else if from \<in> set (q_seenReady s) then Continue s []
     else if \<not> sg_Verify (m_signer m) from ''PD_QUIT_READY'' dig (qr_Share msg) then Continue s []
     else
       let s1 = s\<lparr>q_seenReady := from # q_seenReady s,
                  q_readyShares := putShare from (qr_Share msg) (q_readyShares s)\<rparr> in
       if int (length (q_readyShares s1)) \<ge> readyThreshold \<and> \<not> q_finishSent s1
       then onOk (recoverThresholdCertificate (m_signer m) ''PD_QUIT_READY'' dig (q_readyShares s1)
                    readyThreshold) s1 [] (\<lambda>certificate.
            Continue (s1\<lparr>q_finishSent := True\<rparr>) (sendFinish m sid certificate))
       else Continue s1 [])"

definition quitOnFinish ::
  "DumboMVBA \<Rightarrow> string \<Rightarrow> quitState \<Rightarrow> int \<Rightarrow> quitFinishMsg \<Rightarrow> (quitState, action, int) step" where
  "quitOnFinish m sid s from msg =
    (let readyThreshold = cfg_F (m_cfg m) + 1 in
     if qf_SID msg \<noteq> sid then Continue s []
     else if from \<in> set (q_seenFinish s) then Continue s []
     else
       let s1 = s\<lparr>q_seenFinish := from # q_seenFinish s\<rparr> in
       if \<not> verifyThresholdCertificate (m_signer m) ''PD_QUIT_READY'' (quitDigest sid)
           (qf_Certificate msg) readyThreshold
       then Continue s1 []
       else if q_finishSent s1 then Return (Ok from) s1 []
       else Return (Ok from) (s1\<lparr>q_finishSent := True\<rparr>) (sendFinish m sid (qf_Certificate msg)))"

definition quitHandle ::
  "DumboMVBA \<Rightarrow> string \<Rightarrow> quitState \<Rightarrow> ReceivedMessage event \<Rightarrow> (quitState, action, int) step" where
  "quitHandle m sid s e =
    (case e of
       CtxDone \<Rightarrow> Return (Err ''context done'') s []
     | TimerFired \<Rightarrow> Continue s []
     | RecvClosed \<Rightarrow> Continue s []
     | Recv inp \<Rightarrow>
        (case pm_Body (rm_Msg inp) of
           BpdDone msg \<Rightarrow> quitOnDone m sid s msg
         | BquitReady msg \<Rightarrow> quitOnReady m sid s (rm_From inp) msg
         | BquitFinish msg \<Rightarrow> quitOnFinish m sid s (rm_From inp) msg
         | _ \<Rightarrow> Continue s []))"

definition runQuitPD ::
  "DumboMVBA \<Rightarrow> string \<Rightarrow> ReceivedMessage event list \<Rightarrow> (quitState, action, int) step" where
  "runQuitPD m sid es = thenLoop (Continue quitStart []) (quitHandle m sid) es"

section \<open>Preparing the recast\<close>

record prepareState =
  rp_rcSeen :: "int list"
  rp_hasValidLock :: bool

definition prepareOnMsg ::
  "DumboMVBA \<Rightarrow> string \<Rightarrow> int \<Rightarrow> prepareState \<Rightarrow> int \<Rightarrow> rcPrepareMsg \<Rightarrow> (prepareState, action, int) step" where
  "prepareOnMsg m sid leader s from msg =
    (let n = cfg_N (m_cfg m); f = cfg_F (m_cfg m); threshold = 2 * f + 1 in
     if rcpr_Leader msg \<noteq> leader \<or> rcpr_SID msg \<noteq> sid @ ''RCprepare'' then Continue s []
     else if from \<in> set (rp_rcSeen s) then Continue s []
     else
       let valid = (case rcpr_Lock msg of
             None \<Rightarrow> False
           | Some l \<Rightarrow> pdl_Leader l = leader \<and>
               verifyThresholdCertificate (m_signer m) ''PD_STORED''
                 (pdCertificateDigest ''PD_STORED'' (sid @ ''PD'' @ itoa leader) leader (pdl_Root l))
                 (pdl_Certificate l) (n - f));
           s1 = s\<lparr>rp_rcSeen := from # rp_rcSeen s,
                  rp_hasValidLock := (if valid then True else rp_hasValidLock s)\<rparr> in
       if int (length (rp_rcSeen s1)) \<ge> threshold
       then Return (Ok (if rp_hasValidLock s1 then 1 else 0)) s1 []
       else Continue s1 [])"

definition prepareHandle ::
  "DumboMVBA \<Rightarrow> string \<Rightarrow> int \<Rightarrow> prepareState \<Rightarrow> ReceivedMessage event \<Rightarrow> (prepareState, action, int) step" where
  "prepareHandle m sid leader s e =
    (case e of
       CtxDone \<Rightarrow> Return (Err ''context done'') s []
     | TimerFired \<Rightarrow> Continue s []
     | RecvClosed \<Rightarrow> Continue s []
     | Recv inp \<Rightarrow>
        (case pm_Body (rm_Msg inp) of
           BrcPrepare msg \<Rightarrow> prepareOnMsg m sid leader s (rm_From inp) msg
         | _ \<Rightarrow> Continue s []))"

definition runRCPrepare ::
  "DumboMVBA \<Rightarrow> string \<Rightarrow> int \<Rightarrow> ReceivedMessage event list \<Rightarrow> (prepareState, action, int) step" where
  "runRCPrepare m sid leader es =
     thenLoop (Continue \<lparr>rp_rcSeen = [], rp_hasValidLock = False\<rparr> []) (prepareHandle m sid leader) es"

section \<open>The invariant of quitting\<close>

definition doneProof :: "DumboMVBA \<Rightarrow> string \<Rightarrow> int \<Rightarrow> bool" where
  "doneProof m sid leader \<longleftrightarrow>
     (\<exists>root c. verifyThresholdCertificate (m_signer m) ''PD_LOCKED''
        (pdCertificateDigest ''PD_LOCKED'' (pdSid sid leader) leader root) c
        (cfg_N (m_cfg m) - cfg_F (m_cfg m)))"

definition quitInv :: "DumboMVBA \<Rightarrow> string \<Rightarrow> quitState \<Rightarrow> action list \<Rightarrow> bool" where
  "quitInv m sid s out \<longleftrightarrow>
     distinct (q_seenDone s) \<and> q_provens s = int (length (q_seenDone s)) \<and>
     (\<forall>l \<in> set (q_seenDone s). 0 \<le> l \<and> l < cfg_N (m_cfg m) \<and> doneProof m sid l) \<and>
     signsOf ''PD_QUIT_READY'' out =
       (if 0 < cfg_N (m_cfg m) - cfg_F (m_cfg m) \<and> q_provens s \<ge> cfg_N (m_cfg m) - cfg_F (m_cfg m)
        then [quitDigest sid] else []) \<and>
     (q_finishSent s \<longrightarrow> (\<exists>c. sg_VerifyRecovered (m_signer m) ''PD_QUIT_READY'' (quitDigest sid) c \<and>
        set (sendFinish m sid c) \<subseteq> set out))"

definition quitPost :: "DumboMVBA \<Rightarrow> string \<Rightarrow> int res \<Rightarrow> quitState \<Rightarrow> bool" where
  "quitPost m sid r s \<longleftrightarrow>
     (is_Ok r \<longrightarrow> q_finishSent s \<and> (\<exists>c. verifyThresholdCertificate (m_signer m) ''PD_QUIT_READY''
        (quitDigest sid) c (cfg_F (m_cfg m) + 1)))"

definition quitStepOk ::
  "DumboMVBA \<Rightarrow> string \<Rightarrow> action list \<Rightarrow> (quitState, action, int) step \<Rightarrow> bool" where
  "quitStepOk m sid out st \<longleftrightarrow>
     quitInv m sid (stepState st) (out @ stepOut st) \<and>
     (\<forall>r. stepResult st = Some r \<longrightarrow> quitPost m sid r (stepState st))"

lemma quitStepOk_simps [simp]:
  "quitStepOk m sid out (Continue s o1) \<longleftrightarrow> quitInv m sid s (out @ o1)"
  "quitStepOk m sid out (Return r s o1) \<longleftrightarrow> quitInv m sid s (out @ o1) \<and> quitPost m sid r s"
  by (auto simp: quitStepOk_def)

lemma quitPost_fail [simp]: "quitPost m sid (Err e) s" "quitPost m sid Panic s"
  by (simp_all add: quitPost_def)

lemma quitStepOk_onOk:
  assumes "quitInv m sid s (out @ o1)" "\<And>x. v = Ok x \<Longrightarrow> quitStepOk m sid out (k x)"
  shows "quitStepOk m sid out (onOk v s o1 k)"
  using assms by (cases v) auto

lemma signsOf_quitSend [simp]:
  "signsOf d (quitSend m body) = []" "signsOf d (sendFinish m sid c) = []" "signsOf d (sendReady m sid c) = []"
  by (simp_all add: quitSend_def sendFinish_def sendReady_def)

lemma quitInv_done:
  assumes "quitInv m sid s out" "0 \<le> l" "l < cfg_N (m_cfg m)" "l \<notin> set (q_seenDone s)"
    and "doneProof m sid l" "0 < cfg_N (m_cfg m) - cfg_F (m_cfg m)"
    and "\<And>d. signsOf d o2 = []"
  defines "s1 \<equiv> s\<lparr>q_seenDone := l # q_seenDone s, q_provens := q_provens s + 1\<rparr>"
  shows "q_provens s + 1 = cfg_N (m_cfg m) - cfg_F (m_cfg m) \<Longrightarrow>
      quitInv m sid s1 (out @ ASign ''PD_QUIT_READY'' (quitDigest sid) # o2)"
    and "q_provens s + 1 \<noteq> cfg_N (m_cfg m) - cfg_F (m_cfg m) \<Longrightarrow> quitInv m sid s1 out"
  using assms by (auto simp: quitInv_def)

lemma quitOnDone_ok [inv_intros]:
  assumes "quitInv m sid s out"
  shows "quitStepOk m sid out (quitOnDone m sid s msg)"
proof (cases "pdd_Leader msg < 0 \<or> pdd_Leader msg \<ge> cfg_N (m_cfg m) \<or>
    pdd_SID msg \<noteq> sid @ ''PD'' @ itoa (pdd_Leader msg) \<or> pdd_Leader msg \<in> set (q_seenDone s) \<or>
    \<not> verifyThresholdCertificate (m_signer m) ''PD_LOCKED''
       (pdCertificateDigest ''PD_LOCKED'' (pdd_SID msg) (pdd_Leader msg) (pdd_Root msg))
       (pdd_Certificate msg) (cfg_N (m_cfg m) - cfg_F (m_cfg m))")
  case True
  then show ?thesis using assms by (auto simp: quitOnDone_def Let_def)
next
  case False
  then have "doneProof m sid (pdd_Leader msg)" "0 < cfg_N (m_cfg m) - cfg_F (m_cfg m)"
    unfolding doneProof_def pdSid_def verifyThresholdCertificate_def by auto
  note inv = quitInv_done [OF assms _ _ _ this]
  show ?thesis
    using False inv(1) [of "[]"] inv(1) [of "sendReady m sid x" for x] inv(2) [of "[]"]
    unfolding quitOnDone_def Let_def
    by (auto intro!: quitStepOk_onOk)
qed

lemma quitOnReady_ok [inv_intros]:
  assumes "quitInv m sid s out"
  shows "quitStepOk m sid out (quitOnReady m sid s from msg)"
proof -
  have s1: "quitInv m sid (s\<lparr>q_seenReady := a, q_readyShares := b\<rparr>) out" for a b
    using assms by (simp add: quitInv_def)
  have fin: "quitInv m sid (s\<lparr>q_seenReady := a, q_readyShares := b, q_finishSent := True\<rparr>)
      (out @ sendFinish m sid c)"
    if "recoverThresholdCertificate (m_signer m) ''PD_QUIT_READY'' (quitDigest sid) shares t = Ok c"
    for a b c shares t
    using assms recover_verified [OF that] by (auto simp: quitInv_def)
  show ?thesis
    using assms s1 fin unfolding quitOnReady_def Let_def by (auto intro!: quitStepOk_onOk)
qed

lemma quitOnFinish_ok [inv_intros]:
  assumes "quitInv m sid s out"
  shows "quitStepOk m sid out (quitOnFinish m sid s from msg)"
proof -
  have s1: "quitInv m sid (s\<lparr>q_seenFinish := a\<rparr>) out" for a
    using assms by (simp add: quitInv_def)
  have fin: "quitInv m sid (s\<lparr>q_seenFinish := a, q_finishSent := True\<rparr>) (out @ sendFinish m sid c)"
    if "verifyThresholdCertificate (m_signer m) ''PD_QUIT_READY'' (quitDigest sid) c t" for a c t
    using assms that by (auto simp: quitInv_def verifyThresholdCertificate_def)
  show ?thesis
    using assms s1 fin unfolding quitOnFinish_def Let_def by (auto simp: quitPost_def)
qed

lemma quitHandle_ok:
  "quitInv m sid s out \<Longrightarrow> quitStepOk m sid out (quitHandle m sid s e)"
  by (simp add: quitHandle_def inv_intros split: event.split Body.split)

interpretation quit: loop_contract "quitHandle m sid" "quitInv m sid"
  "\<lambda>r s out. quitPost m sid r s" for m sid
proof unfold_locales
  fix s out e r s' out'
  assume "quitInv m sid s out"
  then have ok: "quitStepOk m sid out (quitHandle m sid s e)" by (rule quitHandle_ok)
  then show "quitInv m sid (stepState (quitHandle m sid s e)) (out @ stepOut (quitHandle m sid s e))"
    by (simp add: quitStepOk_def)
  show "quitPost m sid r s'" if "quitHandle m sid s e = Return r s' out'" using ok that by simp
qed

lemma quitStart_inv: "quitInv m sid quitStart []"
  by (simp add: quitInv_def quitStart_def)

lemma runQuit_inv: "quitInv m sid (stepState (runQuitPD m sid es)) (stepOut (runQuitPD m sid es))"
  unfolding runQuitPD_def by (rule quit.loop_inv) (simp add: quitStart_inv)

lemma runQuit_post: "runQuitPD m sid es = Return r s out \<Longrightarrow> quitPost m sid r s"
  unfolding runQuitPD_def
  by (rule quit.loop_post [of m sid "Continue quitStart []"]) (simp_all add: quitStart_inv)

end
