(* ===== verification/Mvba_RC.thy ===== *)
theory Mvba_RC
  imports Mvba_PD
begin

text \<open>
  Recast (\<^verbatim>\<open>rc_equivalent.go\<close>): the nodes exchange their shards and the lock of the elected leader,
  and each returns the value whose re-encoding has the certified root. \<^verbatim>\<open>runRCSubprotocol\<close> is
  \<open>rcInit\<close> followed by \<open>rcHandle\<close>. A send that outlives the wait of \<^verbatim>\<open>broadcastEquivalent\<close> still
  finishes in its goroutine, so the sends of the model are all of them.
\<close>

section \<open>Responsibility and fan-out\<close>

definition rcResponsibilityFanout :: "(string \<Rightarrow> string) \<Rightarrow> int \<Rightarrow> int \<Rightarrow> int" where
  "rcResponsibilityFanout getenv n f =
     (let raw = getenv ''PRACTICAL_MVBA_RC_RESPONSIBILITY_FANOUT'' in
      if raw = [] then n
      else case atoi raw of
          None \<Rightarrow> n
        | Some v \<Rightarrow> if v \<le> 0 \<or> v > n then n else if v < n - f then n - f else v)"

definition rcResponsibilityRecipients :: "int \<Rightarrow> int \<Rightarrow> int \<Rightarrow> int list" where
  "rcResponsibilityRecipients sender n fanout =
     (if n \<le> 0 \<or> fanout \<le> 0 then []
      else map (\<lambda>offset. goRem (sender + offset) n) [0..(if fanout > n then n else fanout) - 1])"

definition broadcastEquivalent :: "int \<Rightarrow> ProtocolMessage \<Rightarrow> action list" where
  "broadcastEquivalent n msg = (if n \<le> 0 then [] else map (\<lambda>i. ASend i msg) [0..n - 1])"

definition broadcastEquivalentTo :: "int list \<Rightarrow> ProtocolMessage \<Rightarrow> action list" where
  "broadcastEquivalentTo recipients msg = map (\<lambda>recipient. ASend recipient msg) recipients"

definition countNonNilShards :: "bytes list \<Rightarrow> int" where
  "countNonNilShards shards = int (length (filter (\<lambda>s. s \<noteq> []) shards))"

section \<open>State\<close>

text \<open>\<open>rc_pullTimer\<close> says that the timer was created, \<open>rc_pullC\<close> is its channel with the delay it
  was set to.\<close>

record rcState =
  rc_commit :: "string \<rightharpoonup> bytes list"
  rc_seenStoreByRoot :: "string \<rightharpoonup> int list"
  rc_servedPull :: "int \<Rightarrow> int"
  rc_pullAttempts :: int
  rc_rebroadcastLock :: bool
  rc_certifiedRoot :: bytes
  rc_pullTimer :: bool
  rc_pullC :: "int option"
  rc_rcStores :: "string \<rightharpoonup> rcStoreMsg"

definition rcK :: "DumboMVBA \<Rightarrow> int" where
  "rcK m = (let k = cfg_N (m_cfg m) - 2 * cfg_F (m_cfg m) in if k \<le> 0 then 1 else k)"

definition rcSendWait :: "DumboMVBA \<Rightarrow> int" where
  "rcSendWait m = (if cfg_RouteSendTimeout (m_cfg m) \<le> 0 then 300000000 else cfg_RouteSendTimeout (m_cfg m))"

definition rcMessage :: "Body \<Rightarrow> ProtocolMessage" where
  "rcMessage body = ProtocolMessage TagMVBARC 0 0 body"

definition broadcastStore :: "mvbaEnv \<Rightarrow> DumboMVBA \<Rightarrow> rcStoreMsg \<Rightarrow> action list" where
  "broadcastStore env m body =
    (let n = cfg_N (m_cfg m); f = cfg_F (m_cfg m);
         storeFanout = rcResponsibilityFanout (env_getenv env) n f in
     if storeFanout \<ge> n then broadcastEquivalent n (rcMessage (BrcStore body))
     else broadcastEquivalentTo (rcResponsibilityRecipients (cfg_ID (m_cfg m)) n storeFanout)
            (rcMessage (BrcStore body)))"

definition rcInit ::
  "mvbaEnv \<Rightarrow> DumboMVBA \<Rightarrow> rcStoreMsg option \<Rightarrow> pdLockMsg option \<Rightarrow> (rcState, action, bytes) step" where
  "rcInit env m store lock =
     Continue \<lparr>rc_commit = Map.empty, rc_seenStoreByRoot = Map.empty, rc_servedPull = (\<lambda>_. 0),
         rc_pullAttempts = 0, rc_rebroadcastLock = False, rc_certifiedRoot = [], rc_pullTimer = False,
         rc_pullC = None, rc_rcStores = cacheRCStore (m_rcStores m) store\<rparr>
       ((case lock of None \<Rightarrow> [] | Some l \<Rightarrow> broadcastEquivalent (cfg_N (m_cfg m)) (rcMessage (BpdLock l))) @
        (case store of None \<Rightarrow> [] | Some st \<Rightarrow> broadcastStore env m st))"

section \<open>Decoding\<close>

text \<open>The value and \<^verbatim>\<open>true\<close> is \<open>Some\<close>; \<^verbatim>\<open>false\<close> is \<open>None\<close>.\<close>

definition tryDecode :: "rsCoder \<Rightarrow> int \<Rightarrow> int \<Rightarrow> (string \<rightharpoonup> bytes list) \<Rightarrow> bytes \<Rightarrow> bytes option res" where
  "tryDecode rs k n commit root =
    (let shards = (case commit (hexString root) of None \<Rightarrow> [] | Some shards \<Rightarrow> shards) in
     if countNonNilShards shards < k then Ok None
     else case erasureDecodeValue rs shards k n of
         Panic \<Rightarrow> Panic
       | Err _ \<Rightarrow> Ok None
       | Ok val \<Rightarrow>
          (case erasureEncodeValue rs val k n of
             Panic \<Rightarrow> Panic
           | Err _ \<Rightarrow> Ok None
           | Ok reencoded \<Rightarrow>
               Ok (if sameRoot (fst (buildMerkle reencoded)) root then Some val else None)))"

definition schedulePull :: "mvbaEnv \<Rightarrow> DumboMVBA \<Rightarrow> rcState \<Rightarrow> rcState" where
  "schedulePull env m s =
    (let n = cfg_N (m_cfg m); f = cfg_F (m_cfg m) in
     if rcResponsibilityFanout (env_getenv env) n f \<ge> n \<or> rc_pullTimer s then s
     else
       let raw = env_getenv env ''PRACTICAL_MVBA_RC_PULL_DELAY_MS'';
           delay = (if raw = [] then rcSendWait m
                    else case atoi raw of
                        None \<Rightarrow> rcSendWait m
                      | Some ms \<Rightarrow> if ms > 0 then ms * 1000000 else rcSendWait m);
           delay = (if delay < 100000000 then 100000000 else delay)
       in s\<lparr>rc_pullTimer := True, rc_pullC := Some delay\<rparr>)"

text \<open>\<^verbatim>\<open>if val, ok := tryDecode(root); ok { return val, nil }\<close>, then the rest of the case.\<close>

definition decodeOr ::
  "bytes option res \<Rightarrow> rcState \<Rightarrow> action list \<Rightarrow> (unit \<Rightarrow> (rcState, action, bytes) step) \<Rightarrow>
   (rcState, action, bytes) step" where
  "decodeOr d s out k =
    (case d of Panic \<Rightarrow> Return Panic s out
     | Err e \<Rightarrow> Return (Err e) s out
     | Ok (Some val) \<Rightarrow> Return (Ok val) s out
     | Ok None \<Rightarrow> k ())"

section \<open>The loop\<close>

definition rcOnTimer :: "mvbaEnv \<Rightarrow> DumboMVBA \<Rightarrow> string \<Rightarrow> rcState \<Rightarrow> (rcState, action, bytes) step" where
  "rcOnTimer env m sid s0 =
    (let n = cfg_N (m_cfg m); f = cfg_F (m_cfg m); s = s0\<lparr>rc_pullC := None\<rparr> in
     if rc_certifiedRoot s = [] then Continue s []
     else decodeOr (tryDecode (env_rs env) (rcK m) n (rc_commit s) (rc_certifiedRoot s)) s [] (\<lambda>_.
       let request = broadcastEquivalent n (ProtocolMessage TagMVBARCPull 0 0
             (BrcPull \<lparr>rcp_SID = sid, rcp_Root = rc_certifiedRoot s,
                       rcp_Requester = cfg_ID (m_cfg m)\<rparr>));
           attempts = rc_pullAttempts s + 1;
           s1 = s\<lparr>rc_pullAttempts := attempts\<rparr> in
       if attempts < f + 3
       then let delay = (attempts + 1) * rcSendWait m;
                delay = (if delay < 200000000 then 200000000 else delay)
            in Continue (s1\<lparr>rc_pullC := Some delay\<rparr>) request
       else Continue s1 request))"

definition rcOnLock ::
  "mvbaEnv \<Rightarrow> DumboMVBA \<Rightarrow> string \<Rightarrow> rcState \<Rightarrow> pdLockMsg \<Rightarrow> (rcState, action, bytes) step" where
  "rcOnLock env m sid s msg =
    (let n = cfg_N (m_cfg m); f = cfg_F (m_cfg m); threshold = n - f;
         dig = pdCertificateDigest ''PD_STORED'' sid (pdl_Leader msg) (pdl_Root msg) in
     if pdl_SID msg \<noteq> sid then Continue s []
     else if pdl_Leader msg < 0 \<or> pdl_Leader msg \<ge> n \<or>
        \<not> verifyThresholdCertificate (m_signer m) ''PD_STORED'' dig (pdl_Certificate msg) threshold
     then Continue s []
     else
       let out = (if rc_rebroadcastLock s then [] else broadcastEquivalent n (rcMessage (BpdLock msg)));
           s1 = s\<lparr>rc_rebroadcastLock := True, rc_certifiedRoot := pdl_Root msg\<rparr> in
       decodeOr (tryDecode (env_rs env) (rcK m) n (rc_commit s1) (rc_certifiedRoot s1)) s1 out (\<lambda>_.
         Continue (schedulePull env m s1) out))"

definition rcOnStore ::
  "mvbaEnv \<Rightarrow> DumboMVBA \<Rightarrow> string \<Rightarrow> rcState \<Rightarrow> int \<Rightarrow> rcStoreMsg \<Rightarrow> (rcState, action, bytes) step" where
  "rcOnStore env m sid s from msg =
    (let n = cfg_N (m_cfg m); rootKey = hexString (rcs_Root msg) in
     if rcs_SID msg \<noteq> sid \<or> rcs_From msg \<noteq> from \<or> rcs_From msg < 0 \<or> rcs_From msg \<ge> n \<or>
        mb_Index (rcs_Branch msg) \<noteq> rcs_From msg
     then Continue s []
     else
       let seen = (case rc_seenStoreByRoot s rootKey of None \<Rightarrow> [] | Some senders \<Rightarrow> senders);
           s1 = s\<lparr>rc_seenStoreByRoot := (rc_seenStoreByRoot s)(rootKey \<mapsto> seen)\<rparr> in
       if rcs_From msg \<in> set seen then Continue s1 []
       else if \<not> verifyMerkle (rcs_Stripe msg) (rcs_Root msg) (rcs_Branch msg) then Continue s1 []
       else
         let shards = (case rc_commit s rootKey of None \<Rightarrow> replicate (nat n) [] | Some shards \<Rightarrow> shards);
             s2 = s1\<lparr>rc_seenStoreByRoot := (rc_seenStoreByRoot s)(rootKey \<mapsto> rcs_From msg # seen),
                    rc_commit := (rc_commit s)(rootKey \<mapsto> shards[nat (rcs_From msg) := rcs_Stripe msg])\<rparr> in
         if sameRoot (rc_certifiedRoot s2) (rcs_Root msg)
         then decodeOr (tryDecode (env_rs env) (rcK m) n (rc_commit s2) (rc_certifiedRoot s2)) s2 [] (\<lambda>_.
                Continue s2 [])
         else Continue s2 [])"

definition rcOnPull ::
  "DumboMVBA \<Rightarrow> string \<Rightarrow> rcStoreMsg option \<Rightarrow> rcState \<Rightarrow> int \<Rightarrow> rcPullRequest \<Rightarrow> (rcState, action, bytes) step" where
  "rcOnPull m sid store s from msg =
    (let n = cfg_N (m_cfg m); f = cfg_F (m_cfg m);
         responseStore = (case store of None \<Rightarrow> cachedRCStore (rc_rcStores s) (rcp_SID msg) | Some st \<Rightarrow> Some st) in
     case responseStore of
       None \<Rightarrow> Continue s []
     | Some st \<Rightarrow>
        if rcp_SID msg \<noteq> sid \<or> rcp_Requester msg \<noteq> from \<or> rcp_Requester msg < 0 \<or>
           rcp_Requester msg \<ge> n \<or> rcs_SID st \<noteq> sid \<or> \<not> sameRoot (rcs_Root st) (rcp_Root msg)
        then Continue s []
        else if rc_servedPull s (rcp_Requester msg) \<ge> f + 3 then Continue s []
        else Continue (s\<lparr>rc_servedPull := (rc_servedPull s)(rcp_Requester msg :=
                 rc_servedPull s (rcp_Requester msg) + 1)\<rparr>)
               [ASend (rcp_Requester msg) (rcMessage (BrcStore st))])"

definition rcHandle ::
  "mvbaEnv \<Rightarrow> DumboMVBA \<Rightarrow> string \<Rightarrow> rcStoreMsg option \<Rightarrow> rcState \<Rightarrow> ReceivedMessage event \<Rightarrow>
   (rcState, action, bytes) step" where
  "rcHandle env m sid store s e =
    (case e of
       CtxDone \<Rightarrow> Return (Err ''context done'') s []
     | RecvClosed \<Rightarrow> Continue s []
     | TimerFired \<Rightarrow> if rc_pullC s = None then Continue s [] else rcOnTimer env m sid s
     | Recv inp \<Rightarrow>
        (case pm_Body (rm_Msg inp) of
           BpdLock msg \<Rightarrow> rcOnLock env m sid s msg
         | BrcStore msg \<Rightarrow> rcOnStore env m sid s (rm_From inp) msg
         | BrcPull msg \<Rightarrow> rcOnPull m sid store s (rm_From inp) msg
         | _ \<Rightarrow> Continue s []))"

definition runRCSubprotocol ::
  "mvbaEnv \<Rightarrow> DumboMVBA \<Rightarrow> string \<Rightarrow> rcStoreMsg option \<Rightarrow> pdLockMsg option \<Rightarrow>
   ReceivedMessage event list \<Rightarrow> (rcState, action, bytes) step" where
  "runRCSubprotocol env m sid store lock es =
     thenLoop (rcInit env m store lock) (rcHandle env m sid store) es"

section \<open>Invariant\<close>

definition certifiedFor :: "DumboMVBA \<Rightarrow> string \<Rightarrow> bytes \<Rightarrow> bool" where
  "certifiedFor m sid root \<longleftrightarrow>
     (\<exists>leader c. 0 \<le> leader \<and> leader < cfg_N (m_cfg m) \<and>
        verifyThresholdCertificate (m_signer m) ''PD_STORED''
          (pdCertificateDigest ''PD_STORED'' sid leader root) c (cfg_N (m_cfg m) - cfg_F (m_cfg m)))"

text \<open>The shards kept under a root: as many places as nodes, each empty or a stripe that was opened
  against that root at its own index, which was then recorded as seen.\<close>

definition shardsFor :: "int \<Rightarrow> bytes \<Rightarrow> bytes list \<Rightarrow> bool" where
  "shardsFor n root shards \<longleftrightarrow>
     length shards = nat n \<and>
     (\<forall>i < length shards. shards ! i = [] \<or>
        (\<exists>branch. mb_Index branch = int i \<and> verifyMerkle (shards ! i) root branch))"

definition rcInv :: "DumboMVBA \<Rightarrow> string \<Rightarrow> rcState \<Rightarrow> action list \<Rightarrow> bool" where
  "rcInv m sid s out \<longleftrightarrow>
     (rc_certifiedRoot s = [] \<or> certifiedFor m sid (rc_certifiedRoot s)) \<and>
     (\<forall>root shards. rc_commit s (hexString root) = Some shards \<longrightarrow>
        shardsFor (cfg_N (m_cfg m)) root shards) \<and>
     (\<forall>d. signsOf d out = [])"

definition rcPost :: "mvbaEnv \<Rightarrow> DumboMVBA \<Rightarrow> string \<Rightarrow> bytes res \<Rightarrow> bool" where
  "rcPost env m sid r \<longleftrightarrow>
     (\<forall>val. r = Ok val \<longrightarrow> length val \<le> maxAlloc \<and> (\<exists>shards.
        erasureEncodeValue (env_rs env) val (rcK m) (cfg_N (m_cfg m)) = Ok shards \<and>
        certifiedFor m sid (fst (buildMerkle shards))))"

definition rcStepOk ::
  "mvbaEnv \<Rightarrow> DumboMVBA \<Rightarrow> string \<Rightarrow> action list \<Rightarrow> (rcState, action, bytes) step \<Rightarrow> bool" where
  "rcStepOk env m sid out st \<longleftrightarrow>
     rcInv m sid (stepState st) (out @ stepOut st) \<and>
     (\<forall>r. stepResult st = Some r \<longrightarrow> rcPost env m sid r)"

lemma rcStepOk_simps [simp]:
  "rcStepOk env m sid out (Continue s o1) \<longleftrightarrow> rcInv m sid s (out @ o1)"
  "rcStepOk env m sid out (Return r s o1) \<longleftrightarrow> rcInv m sid s (out @ o1) \<and> rcPost env m sid r"
  by (auto simp: rcStepOk_def)

lemma rcPost_fail [simp]: "rcPost env m sid (Err e)" "rcPost env m sid Panic"
  by (simp_all add: rcPost_def)

lemma rcInv_frame [simp]:
  "rcInv m sid (s\<lparr>rc_pullC := c\<rparr>) out = rcInv m sid s out"
  "rcInv m sid (s\<lparr>rc_pullTimer := b\<rparr>) out = rcInv m sid s out"
  "rcInv m sid (s\<lparr>rc_pullAttempts := i\<rparr>) out = rcInv m sid s out"
  "rcInv m sid (s\<lparr>rc_servedPull := g\<rparr>) out = rcInv m sid s out"
  "rcInv m sid (s\<lparr>rc_seenStoreByRoot := h\<rparr>) out = rcInv m sid s out"
  by (simp_all add: rcInv_def)

lemma signsOf_broadcastEquivalent [simp]:
  "signsOf d (broadcastEquivalent n msg) = []" "signsOf d (broadcastEquivalentTo xs msg) = []"
  by (simp_all add: broadcastEquivalent_def broadcastEquivalentTo_def)

lemma rcInv_unsigned: "(\<And>d. signsOf d o2 = []) \<Longrightarrow> rcInv m sid s (out @ o2) = rcInv m sid s out"
  by (simp add: rcInv_def)

lemma rcInv_sends [simp]:
  "rcInv m sid s (out @ broadcastEquivalent n msg) = rcInv m sid s out"
  "rcInv m sid s (out @ [ASend p msg]) = rcInv m sid s out"
  "rcInv m sid s (out @ (if b then [] else broadcastEquivalent n msg)) = rcInv m sid s out"
  by (simp_all add: rcInv_unsigned)

lemma rcInv_schedulePull [simp]: "rcInv m sid (schedulePull env m s) out = rcInv m sid s out"
  by (simp add: schedulePull_def Let_def)

lemma unpackValue_length: "unpackValue v = Ok x \<Longrightarrow> length x \<le> maxAlloc"
  by (auto simp: unpackValue_def Let_def split: if_splits)

lemma erasureDecodeValue_length: "erasureDecodeValue rs shards k n = Ok x \<Longrightarrow> length x \<le> maxAlloc"
  by (auto simp: erasureDecodeValue_def unpackValue_length split: if_splits option.splits)

lemma tryDecode_Some:
  assumes "tryDecode rs k n commit root = Ok (Some val)"
  shows "length val \<le> maxAlloc"
    "\<exists>shards. erasureEncodeValue rs val k n = Ok shards \<and> fst (buildMerkle shards) = root"
  using assms
  by (auto simp: tryDecode_def Let_def dest: erasureDecodeValue_length split: if_splits res.splits)

lemma decode_post:
  assumes "rcInv m sid s out" "tryDecode (env_rs env) (rcK m) (cfg_N (m_cfg m)) commit (rc_certifiedRoot s) = Ok (Some val)"
  shows "rcPost env m sid (Ok val)"
proof -
  obtain shards where sh: "erasureEncodeValue (env_rs env) val (rcK m) (cfg_N (m_cfg m)) = Ok shards"
    "fst (buildMerkle shards) = rc_certifiedRoot s"
    using tryDecode_Some(2) [OF assms(2)] by blast
  moreover have "rc_certifiedRoot s \<noteq> []"
    using sh(2) length_buildMerkle_root [of shards] by auto
  ultimately show ?thesis
    using assms(1) tryDecode_Some(1) [OF assms(2)] by (auto simp: rcPost_def rcInv_def)
qed

lemma rcStepOk_decodeOr:
  assumes "rcInv m sid s (out @ o1)" "root = rc_certifiedRoot s" "rcStepOk env m sid out (k ())"
  shows "rcStepOk env m sid out
    (decodeOr (tryDecode (env_rs env) (rcK m) (cfg_N (m_cfg m)) commit root) s o1 k)"
  using assms decode_post [OF assms(1)]
  by (auto simp: decodeOr_def split: res.split option.split)

lemma rcInv_lock:
  assumes "rcInv m sid s out" "certifiedFor m sid root"
  shows "rcInv m sid (s\<lparr>rc_rebroadcastLock := b, rc_certifiedRoot := root\<rparr>) out"
  using assms by (simp add: rcInv_def)

lemma rcInv_commit:
  assumes "rcInv m sid s out" "shardsFor (cfg_N (m_cfg m)) root shards"
  shows "rcInv m sid (s\<lparr>rc_commit := (rc_commit s)(hexString root \<mapsto> shards)\<rparr>) out"
  using assms by (auto simp: rcInv_def hexString_inj)

lemma shardsFor_update:
  assumes "shardsFor n root shards" "verifyMerkle stripe root branch" "mb_Index branch = i" "0 \<le> i"
  shows "shardsFor n root (shards[nat i := stripe])"
proof -
  have "shards[nat i := stripe] ! j = [] \<or>
      (\<exists>b. mb_Index b = int j \<and> verifyMerkle (shards[nat i := stripe] ! j) root b)"
    if "j < length shards" for j
    using assms that by (cases "j = nat i") (auto simp: shardsFor_def)
  then show ?thesis using assms(1) by (simp add: shardsFor_def)
qed

lemma rcOnTimer_ok [inv_intros]:
  "rcInv m sid s out \<Longrightarrow> rcStepOk env m sid out (rcOnTimer env m sid s)"
  unfolding rcOnTimer_def Let_def by (auto intro!: rcStepOk_decodeOr)

lemma rcOnLock_ok [inv_intros]:
  assumes "rcInv m sid s out"
  shows "rcStepOk env m sid out (rcOnLock env m sid s msg)"
proof (cases "pdl_SID msg \<noteq> sid \<or> pdl_Leader msg < 0 \<or> pdl_Leader msg \<ge> cfg_N (m_cfg m) \<or>
    \<not> verifyThresholdCertificate (m_signer m) ''PD_STORED''
      (pdCertificateDigest ''PD_STORED'' sid (pdl_Leader msg) (pdl_Root msg)) (pdl_Certificate msg)
      (cfg_N (m_cfg m) - cfg_F (m_cfg m))")
  case True
  then show ?thesis using assms by (auto simp: rcOnLock_def Let_def)
next
  case False
  then have "certifiedFor m sid (pdl_Root msg)" unfolding certifiedFor_def by force
  then have "rcInv m sid (s\<lparr>rc_rebroadcastLock := True, rc_certifiedRoot := pdl_Root msg\<rparr>) out"
    by (rule rcInv_lock [OF assms])
  then show ?thesis
    using False unfolding rcOnLock_def Let_def by (auto intro!: rcStepOk_decodeOr)
qed

lemma rcOnStore_ok [inv_intros]:
  assumes "rcInv m sid s out"
  shows "rcStepOk env m sid out (rcOnStore env m sid s from msg)"
proof -
  define shards where "shards = (case rc_commit s (hexString (rcs_Root msg)) of
    None \<Rightarrow> replicate (nat (cfg_N (m_cfg m))) [] | Some shards \<Rightarrow> shards)"
  have "shardsFor (cfg_N (m_cfg m)) (rcs_Root msg) shards"
    using assms by (auto simp: shards_def rcInv_def shardsFor_def split: option.split)
  then have "shardsFor (cfg_N (m_cfg m)) (rcs_Root msg) (shards[nat (rcs_From msg) := rcs_Stripe msg])"
    if "verifyMerkle (rcs_Stripe msg) (rcs_Root msg) (rcs_Branch msg)"
      "mb_Index (rcs_Branch msg) = rcs_From msg" "0 \<le> rcs_From msg"
    using shardsFor_update that by blast
  from rcInv_commit [OF assms this] show ?thesis
    using assms unfolding rcOnStore_def Let_def shards_def [symmetric]
    by (auto intro!: rcStepOk_decodeOr simp: rcInv_def)
qed

lemma rcOnPull_ok [inv_intros]:
  "rcInv m sid s out \<Longrightarrow> rcStepOk env m sid out (rcOnPull m sid store s from msg)"
  by (auto simp: rcOnPull_def Let_def split: option.split)

lemma rcHandle_ok:
  "rcInv m sid s out \<Longrightarrow> rcStepOk env m sid out (rcHandle env m sid store s e)"
  by (simp add: rcHandle_def inv_intros split: event.split Body.split)

interpretation rc: loop_contract "rcHandle env m sid store" "rcInv m sid"
  "\<lambda>r s out. rcPost env m sid r" for env m sid store
proof unfold_locales
  fix s out e r s' out'
  assume "rcInv m sid s out"
  then have ok: "rcStepOk env m sid out (rcHandle env m sid store s e)" by (rule rcHandle_ok)
  then show "rcInv m sid (stepState (rcHandle env m sid store s e))
      (out @ stepOut (rcHandle env m sid store s e))"
    by (simp add: rcStepOk_def)
  show "rcPost env m sid r" if "rcHandle env m sid store s e = Return r s' out'"
    using ok that by simp
qed

lemma rcInit_inv: "rcInv m sid (stepState (rcInit env m store lock)) (stepOut (rcInit env m store lock))"
  by (auto simp: rcInit_def rcInv_def broadcastStore_def Let_def split: option.split)

lemma runRC_post:
  assumes "runRCSubprotocol env m sid store lock es = Return (Ok val) s out"
  obtains shards where "erasureEncodeValue (env_rs env) val (rcK m) (cfg_N (m_cfg m)) = Ok shards"
    "certifiedFor m sid (fst (buildMerkle shards))" "length val \<le> maxAlloc"
proof -
  have "rcPost env m sid (Ok val)"
  proof (rule rc.loop_post [of m sid "rcInit env m store lock" env store es "Ok val" s out])
    show "rcInv m sid (stepState (rcInit env m store lock)) (stepOut (rcInit env m store lock))"
      by (rule rcInit_inv)
    show "thenLoop (rcInit env m store lock) (rcHandle env m sid store) es = Return (Ok val) s out"
      using assms by (simp add: runRCSubprotocol_def)
  qed (simp add: rcInit_def)
  then show thesis using that by (auto simp: rcPost_def)
qed

end
