(* ===== verification/Mvba_RC_Props.thy ===== *)
theory Mvba_RC_Props
  imports Mvba_RC Mvba_PD_Safety
begin

text \<open>
  The properties of recast: what is returned is the value under the certified root, two honest nodes
  never return different values, and a node that gets the lock and \<open>n - 2f\<close> shards returns on every
  schedule of those and any other messages.
\<close>

section \<open>Honest shards\<close>

definition honestRcStore :: "string \<Rightarrow> bytes list \<Rightarrow> nat \<Rightarrow> rcStoreMsg" where
  "honestRcStore sid stripes i = \<lparr>rcs_SID = sid, rcs_Root = fst (buildMerkle stripes), rcs_From = int i,
     rcs_Stripe = stripes ! i, rcs_Branch = snd (buildMerkle stripes) ! i\<rparr>"

definition rcStoreEv :: "string \<Rightarrow> bytes list \<Rightarrow> nat \<Rightarrow> ReceivedMessage event" where
  "rcStoreEv sid stripes i =
     Recv \<lparr>rm_From = int i, rm_Msg = rcMessage (BrcStore (honestRcStore sid stripes i))\<rparr>"

definition validLockFor :: "DumboMVBA \<Rightarrow> string \<Rightarrow> pdLockMsg \<Rightarrow> bool" where
  "validLockFor m sid l \<longleftrightarrow> pdl_SID l = sid \<and> 0 \<le> pdl_Leader l \<and> pdl_Leader l < cfg_N (m_cfg m) \<and>
     verifyThresholdCertificate (m_signer m) ''PD_STORED''
       (pdCertificateDigest ''PD_STORED'' sid (pdl_Leader l) (pdl_Root l)) (pdl_Certificate l)
       (cfg_N (m_cfg m) - cfg_F (m_cfg m))"

definition rcLockEv :: "int \<Rightarrow> pdLockMsg \<Rightarrow> ReceivedMessage event" where
  "rcLockEv from l = Recv \<lparr>rm_From = from, rm_Msg = rcMessage (BpdLock l)\<rparr>"

text \<open>What a schedule may hold besides: anything but the end of the context, as long as a lock that
  verifies is for the root and a shard that opens at its sender's index is the committed one.\<close>

definition rcBenign :: "DumboMVBA \<Rightarrow> string \<Rightarrow> bytes list \<Rightarrow> ReceivedMessage event \<Rightarrow> bool" where
  "rcBenign m sid stripes e =
    (case e of
       CtxDone \<Rightarrow> False
     | TimerFired \<Rightarrow> True
     | RecvClosed \<Rightarrow> True
     | Recv inp \<Rightarrow>
        (case pm_Body (rm_Msg inp) of
           BpdLock l \<Rightarrow> validLockFor m sid l \<longrightarrow> pdl_Root l = fst (buildMerkle stripes)
         | BrcStore st \<Rightarrow>
             rcs_Root st = fst (buildMerkle stripes) \<and> 0 \<le> rcs_From st \<and> rcs_From st < int (length stripes) \<and>
             mb_Index (rcs_Branch st) = rcs_From st \<and>
             verifyMerkle (rcs_Stripe st) (rcs_Root st) (rcs_Branch st)
             \<longrightarrow> rcs_Stripe st = stripes ! nat (rcs_From st)
         | _ \<Rightarrow> True))"

section \<open>Progress\<close>

text \<open>The shards kept for the root of \<open>stripes\<close>.\<close>

definition rcShards :: "int \<Rightarrow> bytes list \<Rightarrow> rcState \<Rightarrow> bytes list" where
  "rcShards n stripes s = (case rc_commit s (hexString (fst (buildMerkle stripes))) of
     None \<Rightarrow> replicate (nat n) [] | Some shards \<Rightarrow> shards)"

definition rcSeen :: "bytes list \<Rightarrow> rcState \<Rightarrow> int list" where
  "rcSeen stripes s = (case rc_seenStoreByRoot s (hexString (fst (buildMerkle stripes))) of
     None \<Rightarrow> [] | Some senders \<Rightarrow> senders)"

text \<open>The shards are committed ones and those seen are present; a waiting node does not yet have both
  the certified root and enough shards.\<close>

definition rcShape :: "int \<Rightarrow> bytes list \<Rightarrow> rcState \<Rightarrow> bool" where
  "rcShape n stripes s \<longleftrightarrow>
     rc_certifiedRoot s \<in> {[], fst (buildMerkle stripes)} \<and>
     length (rcShards n stripes s) = length stripes \<and>
     (\<forall>i < length stripes. rcShards n stripes s ! i =
        (if int i \<in> set (rcSeen stripes s) then stripes ! i else []))"

definition rcReady :: "int \<Rightarrow> int \<Rightarrow> bytes list \<Rightarrow> rcState \<Rightarrow> bool" where
  "rcReady n k stripes s \<longleftrightarrow>
     rc_certifiedRoot s = fst (buildMerkle stripes) \<and> k \<le> countNonNilShards (rcShards n stripes s)"

definition rcGot :: "DumboMVBA \<Rightarrow> string \<Rightarrow> bytes list \<Rightarrow> rcState \<Rightarrow> ReceivedMessage event \<Rightarrow> bool" where
  "rcGot m sid stripes s e \<longleftrightarrow>
     (\<forall>i < length stripes. e = rcStoreEv sid stripes i \<longrightarrow> int i \<in> set (rcSeen stripes s)) \<and>
     (\<forall>from l. e = rcLockEv from l \<longrightarrow> validLockFor m sid l \<longrightarrow>
        pdl_Root l = fst (buildMerkle stripes) \<longrightarrow> rc_certifiedRoot s = fst (buildMerkle stripes))"

lemma root_not_Nil [simp]: "fst (buildMerkle stripes) \<noteq> []" "[] \<noteq> fst (buildMerkle stripes)"
  using length_buildMerkle_root [of stripes] by (metis list.size(3) zero_neq_numeral)+

lemma encode_nonempty:
  assumes "rs_laws rs" "erasureEncodeValue rs v k n = Ok stripes"
  shows "length stripes = nat n" "\<forall>s \<in> set stripes. s \<noteq> []"
proof -
  show "length stripes = nat n" by (rule rs_encode_length [OF assms])
  show "\<forall>s \<in> set stripes. s \<noteq> []"
  proof (cases "n = k")
    case True
    have "[] \<noteq> packValue v" using packValue_not_Nil [of v] by metis
    then show ?thesis using assms(2) True by (auto simp: erasureEncodeValue_def split: if_splits)
  next
    case False
    then obtain split where new: "rs_New rs k (n - k) = Ok ()"
      and "rs_Split rs k (n - k) (packValue v) = Ok split" "rs_Encode rs k (n - k) split = Ok stripes"
      using assms(2) by (auto simp: erasureEncodeValue_def split: if_splits)
    then show ?thesis
      using assms(1)[unfolded rs_laws_def, rule_format, OF new packValue_not_Nil [of v]] by auto
  qed
qed

text \<open>With enough committed shards under the root, decoding returns the value.\<close>

lemma tryDecode_complete:
  assumes laws: "rs_laws rs" and len: "length val \<le> maxAlloc"
    and enc: "erasureEncodeValue rs val k n = Ok stripes"
    and commit: "commit (hexString (fst (buildMerkle stripes))) = Some shards"
    and shards: "length shards = length stripes"
      "\<forall>i < length stripes. shards ! i = [] \<or> shards ! i = stripes ! i"
    and enough: "k \<le> countNonNilShards shards"
  shows "tryDecode rs k n commit (fst (buildMerkle stripes)) = Ok (Some val)"
proof -
  have "shardSubset (nat k) stripes shards"
    using shards enough by (auto simp: shardSubset_def countNonNilShards_def)
  from erasure_round_trip [OF laws len enc this] show ?thesis
    using commit enough enc by (simp add: tryDecode_def Let_def)
qed

text \<open>One recast for the value \<open>val\<close>, at a node with \<open>k\<close> of \<open>n\<close> coding.\<close>

definition rcSetup :: "mvbaEnv \<Rightarrow> DumboMVBA \<Rightarrow> bytes \<Rightarrow> bytes list \<Rightarrow> bool" where
  "rcSetup env m val stripes \<longleftrightarrow>
     rs_laws (env_rs env) \<and> length val \<le> maxAlloc \<and> 0 \<le> cfg_F (m_cfg m) \<and>
     3 * cfg_F (m_cfg m) + 1 \<le> cfg_N (m_cfg m) \<and>
     erasureEncodeValue (env_rs env) val (rcK m) (cfg_N (m_cfg m)) = Ok stripes"

lemma rcSetup_length: "rcSetup env m val stripes \<Longrightarrow> length stripes = nat (cfg_N (m_cfg m))"
  by (auto simp: rcSetup_def intro: encode_nonempty(1))

lemma rcK_pos: "0 < rcK m"
  by (simp add: rcK_def Let_def)

lemma decodeOr_ready:
  assumes "rcSetup env m val stripes" "rcShape (cfg_N (m_cfg m)) stripes s"
    and "rc_certifiedRoot s = fst (buildMerkle stripes)"
  shows "decodeOr (tryDecode (env_rs env) (rcK m) (cfg_N (m_cfg m)) (rc_commit s) (fst (buildMerkle stripes)))
      s out cont =
    (if rcReady (cfg_N (m_cfg m)) (rcK m) stripes s then Return (Ok val) s out else cont ())"
proof (cases "rc_commit s (hexString (fst (buildMerkle stripes)))")
  case None
  then show ?thesis
    using rcK_pos [of m]
    by (simp add: decodeOr_def tryDecode_def rcReady_def rcShards_def countNonNilShards_def)
next
  case (Some shards)
  then have sh: "rcShards (cfg_N (m_cfg m)) stripes s = shards" by (simp add: rcShards_def)
  show ?thesis
  proof (cases "rcK m \<le> countNonNilShards shards")
    case True
    have "tryDecode (env_rs env) (rcK m) (cfg_N (m_cfg m)) (rc_commit s) (fst (buildMerkle stripes)) =
        Ok (Some val)"
      using assms(1,2) Some sh True
      by (intro tryDecode_complete) (auto simp: rcSetup_def rcShape_def)
    then show ?thesis using assms(3) True sh by (simp add: decodeOr_def rcReady_def)
  next
    case False
    then show ?thesis using Some sh by (simp add: decodeOr_def tryDecode_def rcReady_def)
  qed
qed

text \<open>A step of a waiting node: it returns the value, or waits on and has taken what the event gave.\<close>

definition rcWaits :: "DumboMVBA \<Rightarrow> string \<Rightarrow> bytes list \<Rightarrow> rcState \<Rightarrow> ReceivedMessage event \<Rightarrow> rcState \<Rightarrow> bool" where
  "rcWaits m sid stripes s e s' \<longleftrightarrow>
     rcShape (cfg_N (m_cfg m)) stripes s' \<and> \<not> rcReady (cfg_N (m_cfg m)) (rcK m) stripes s' \<and>
     rcGot m sid stripes s' e \<and> set (rcSeen stripes s) \<subseteq> set (rcSeen stripes s') \<and>
     (rc_certifiedRoot s = fst (buildMerkle stripes) \<longrightarrow> rc_certifiedRoot s' = fst (buildMerkle stripes))"

definition rcAdvances ::
  "DumboMVBA \<Rightarrow> string \<Rightarrow> bytes \<Rightarrow> bytes list \<Rightarrow> rcState \<Rightarrow> ReceivedMessage event \<Rightarrow>
   (rcState, action, bytes) step \<Rightarrow> bool" where
  "rcAdvances m sid val stripes s e st =
     (case st of Return r s' out \<Rightarrow> r = Ok val | Continue s' out \<Rightarrow> rcWaits m sid stripes s e s')"

lemma rcShape_frame [simp]:
  "rcShape n stripes (s\<lparr>rc_pullC := c\<rparr>) = rcShape n stripes s"
  "rcShape n stripes (s\<lparr>rc_pullAttempts := a\<rparr>) = rcShape n stripes s"
  "rcShape n stripes (s\<lparr>rc_servedPull := v\<rparr>) = rcShape n stripes s"
  "rcShape n stripes (s\<lparr>rc_pullTimer := b\<rparr>) = rcShape n stripes s"
  "rcReady n k stripes (s\<lparr>rc_pullC := c\<rparr>) = rcReady n k stripes s"
  "rcReady n k stripes (s\<lparr>rc_pullAttempts := a\<rparr>) = rcReady n k stripes s"
  "rcReady n k stripes (s\<lparr>rc_servedPull := v\<rparr>) = rcReady n k stripes s"
  "rcReady n k stripes (s\<lparr>rc_pullTimer := b\<rparr>) = rcReady n k stripes s"
  "rcSeen stripes (s\<lparr>rc_pullC := c\<rparr>) = rcSeen stripes s"
  "rcSeen stripes (s\<lparr>rc_pullAttempts := a\<rparr>) = rcSeen stripes s"
  "rcSeen stripes (s\<lparr>rc_servedPull := v\<rparr>) = rcSeen stripes s"
  "rcSeen stripes (s\<lparr>rc_pullTimer := b\<rparr>) = rcSeen stripes s"
  by (simp_all add: rcShape_def rcReady_def rcSeen_def rcShards_def)

lemma rcGot_other:
  "(\<And>i. e \<noteq> rcStoreEv sid stripes i) \<Longrightarrow> (\<And>from l. e \<noteq> rcLockEv from l) \<Longrightarrow> rcGot m sid stripes s e"
  by (simp add: rcGot_def)

lemma rcOnTimer_advances:
  assumes "rcSetup env m val stripes" "rcShape (cfg_N (m_cfg m)) stripes s"
    and "\<not> rcReady (cfg_N (m_cfg m)) (rcK m) stripes s"
  shows "rcAdvances m sid val stripes s TimerFired (rcOnTimer env m sid s)"
proof (cases "rc_certifiedRoot s = []")
  case True
  then show ?thesis
    using assms
    by (simp add: rcOnTimer_def rcAdvances_def rcWaits_def rcGot_other rcStoreEv_def rcLockEv_def)
next
  case False
  then have root: "rc_certifiedRoot s = fst (buildMerkle stripes)"
    using assms(2) by (simp add: rcShape_def)
  have dec: "decodeOr (tryDecode (env_rs env) (rcK m) (cfg_N (m_cfg m)) (rc_commit s)
      (fst (buildMerkle stripes))) (s\<lparr>rc_pullC := None\<rparr>) out cont = cont ()" for out cont
    using decodeOr_ready [OF assms(1), of "s\<lparr>rc_pullC := None\<rparr>" out cont] assms(2,3) root by simp
  show ?thesis
    using assms(2,3) root False
    by (simp add: rcOnTimer_def Let_def dec rcAdvances_def rcWaits_def rcGot_other rcStoreEv_def rcLockEv_def)
qed

lemma rcOnLock_advances:
  assumes "rcSetup env m val stripes" "rcShape (cfg_N (m_cfg m)) stripes s"
    and "\<not> rcReady (cfg_N (m_cfg m)) (rcK m) stripes s"
    and e: "e = Recv inp" "pm_Body (rm_Msg inp) = BpdLock l" and benign: "rcBenign m sid stripes e"
  shows "rcAdvances m sid val stripes s e (rcOnLock env m sid s l)"
proof (cases "validLockFor m sid l")
  case False
  then have "rcOnLock env m sid s l = Continue s []"
    by (auto simp: rcOnLock_def Let_def validLockFor_def)
  then show ?thesis
    using assms(2,3) False e
    by (auto simp: rcAdvances_def rcWaits_def rcGot_def rcStoreEv_def rcLockEv_def rcMessage_def)
next
  case True
  then have root: "pdl_Root l = fst (buildMerkle stripes)" using benign e by (simp add: rcBenign_def)
  define s1 where "s1 = s\<lparr>rc_rebroadcastLock := True, rc_certifiedRoot := fst (buildMerkle stripes)\<rparr>"
  have s1: "rcShape (cfg_N (m_cfg m)) stripes s1" "rc_certifiedRoot s1 = fst (buildMerkle stripes)"
    "rcSeen stripes s1 = rcSeen stripes s"
    using assms(2) by (simp_all add: s1_def rcShape_def rcShards_def rcSeen_def)
  define out where "out = (if rc_rebroadcastLock s then [] else
    broadcastEquivalent (cfg_N (m_cfg m)) (rcMessage (BpdLock l)))"
  have "rcOnLock env m sid s l = decodeOr (tryDecode (env_rs env) (rcK m) (cfg_N (m_cfg m))
      (rc_commit s1) (fst (buildMerkle stripes))) s1 out (\<lambda>_. Continue (schedulePull env m s1) out)"
    using True root unfolding rcOnLock_def Let_def s1_def out_def by (auto simp: validLockFor_def)
  then show ?thesis
    using s1 e decodeOr_ready [OF assms(1) s1(1,2)]
    by (auto simp: rcAdvances_def rcWaits_def rcGot_def schedulePull_def Let_def rcStoreEv_def rcMessage_def)
qed

lemma verifyMerkle_root: "verifyMerkle stripe root branch \<Longrightarrow> length root = 32"
  using mt.climb_length32 [of "leafHash stripe" "mb_Index branch" "mb_Siblings branch"]
  by (auto simp: verifyMerkle_def)

lemma rcStoreEv_body:
  assumes "Recv inp = rcStoreEv sid stripes i" "pm_Body (rm_Msg inp) = BrcStore msg"
  shows "rm_From inp = int i" "msg = honestRcStore sid stripes i"
  using assms by (auto simp: rcStoreEv_def rcMessage_def)

text \<open>Taking a shard that opens against its root.\<close>

definition rcTake :: "DumboMVBA \<Rightarrow> rcState \<Rightarrow> rcStoreMsg \<Rightarrow> rcState" where
  "rcTake m s msg =
    (let rootKey = hexString (rcs_Root msg);
         seen = (case rc_seenStoreByRoot s rootKey of None \<Rightarrow> [] | Some senders \<Rightarrow> senders);
         shards = (case rc_commit s rootKey of None \<Rightarrow> replicate (nat (cfg_N (m_cfg m))) [] | Some shards \<Rightarrow> shards) in
     s\<lparr>rc_seenStoreByRoot := (rc_seenStoreByRoot s)(rootKey \<mapsto> rcs_From msg # seen),
       rc_commit := (rc_commit s)(rootKey \<mapsto> shards[nat (rcs_From msg) := rcs_Stripe msg])\<rparr>)"

lemma rcTake_other:
  assumes "rcs_Root msg \<noteq> fst (buildMerkle stripes)"
  shows "rcSeen stripes (rcTake m s msg) = rcSeen stripes s"
    "rcShards n stripes (rcTake m s msg) = rcShards n stripes s"
    "rc_certifiedRoot (rcTake m s msg) = rc_certifiedRoot s"
  using assms by (simp_all add: rcTake_def rcSeen_def rcShards_def Let_def hexString_inj)

lemma rcTake_same:
  assumes "rcs_Root msg = fst (buildMerkle stripes)"
  shows "rcSeen stripes (rcTake m s msg) = rcs_From msg # rcSeen stripes s"
    "rcShards (cfg_N (m_cfg m)) stripes (rcTake m s msg) =
       (rcShards (cfg_N (m_cfg m)) stripes s)[nat (rcs_From msg) := rcs_Stripe msg]"
    "rc_certifiedRoot (rcTake m s msg) = rc_certifiedRoot s"
  using assms by (simp_all add: rcTake_def rcSeen_def rcShards_def Let_def)

lemma rcTake_shape:
  assumes "rcShape (cfg_N (m_cfg m)) stripes s"
    and "rcs_Root msg = fst (buildMerkle stripes) \<Longrightarrow>
      0 \<le> rcs_From msg \<and> rcs_Stripe msg = stripes ! nat (rcs_From msg)"
  shows "rcShape (cfg_N (m_cfg m)) stripes (rcTake m s msg)"
proof (cases "rcs_Root msg = fst (buildMerkle stripes)")
  case True
  have "(rcShards (cfg_N (m_cfg m)) stripes s)[nat (rcs_From msg) := rcs_Stripe msg] ! i =
      (if int i \<in> insert (rcs_From msg) (set (rcSeen stripes s)) then stripes ! i else [])"
    if "i < length stripes" for i
    using assms(1) assms(2)[OF True] that
    by (cases "i = nat (rcs_From msg)") (auto simp: rcShape_def)
  then show ?thesis using assms(1) rcTake_same [OF True] by (simp add: rcShape_def)
next
  case False
  then show ?thesis using assms(1) rcTake_other [OF False] by (simp add: rcShape_def)
qed

lemma rcOnStore_advances:
  assumes "rcSetup env m val stripes" "rcShape (cfg_N (m_cfg m)) stripes s"
    and "\<not> rcReady (cfg_N (m_cfg m)) (rcK m) stripes s"
    and e: "e = Recv inp" "pm_Body (rm_Msg inp) = BrcStore msg" and benign: "rcBenign m sid stripes e"
  shows "rcAdvances m sid val stripes s e (rcOnStore env m sid s (rm_From inp) msg)"
proof -
  let ?n = "cfg_N (m_cfg m)" and ?R = "fst (buildMerkle stripes)"
  let ?key = "hexString (rcs_Root msg)"
  define guard where "guard \<longleftrightarrow> rcs_SID msg = sid \<and> rcs_From msg = rm_From inp \<and> 0 \<le> rcs_From msg \<and>
    rcs_From msg < ?n \<and> mb_Index (rcs_Branch msg) = rcs_From msg"
  define opens where "opens \<longleftrightarrow> verifyMerkle (rcs_Stripe msg) (rcs_Root msg) (rcs_Branch msg)"
  define seen where "seen = (case rc_seenStoreByRoot s ?key of None \<Rightarrow> [] | Some senders \<Rightarrow> senders)"
  define s1 where "s1 = s\<lparr>rc_seenStoreByRoot := (rc_seenStoreByRoot s)(?key \<mapsto> seen)\<rparr>"
  have len: "length stripes = nat ?n" by (rule rcSetup_length [OF assms(1)])
  have honest: "guard \<and> opens \<and> rcs_Root msg = ?R \<and> rcs_From msg = int i"
    if "e = rcStoreEv sid stripes i" "i < length stripes" for i
    using rcStoreEv_body [of inp sid stripes i msg] that e branch_verifies [of i stripes] len
    by (auto simp: guard_def opens_def honestRcStore_def)
  have noLock: "e \<noteq> rcLockEv p l" for p l using e by (auto simp: rcLockEv_def rcMessage_def)
  have s1: "rcSeen stripes s1 = rcSeen stripes s" "rcShards ?n stripes s1 = rcShards ?n stripes s"
    "rc_certifiedRoot s1 = rc_certifiedRoot s"
    by (auto simp: s1_def rcSeen_def rcShards_def seen_def hexString_inj split: option.split)
  have take: "s1\<lparr>rc_seenStoreByRoot := (rc_seenStoreByRoot s)(?key \<mapsto> rcs_From msg # seen),
      rc_commit := (rc_commit s)(?key \<mapsto> (case rc_commit s ?key of None \<Rightarrow> replicate (nat ?n) []
        | Some shards \<Rightarrow> shards)[nat (rcs_From msg) := rcs_Stripe msg])\<rparr> = rcTake m s msg"
    by (simp add: s1_def rcTake_def seen_def Let_def)
  consider (bad) "\<not> guard" | (again) "guard" "rcs_From msg \<in> set seen"
    | (closed) "guard" "rcs_From msg \<notin> set seen" "\<not> opens"
    | (taken) "guard" "rcs_From msg \<notin> set seen" "opens" by blast
  then show ?thesis
  proof cases
    case bad
    then have "rcOnStore env m sid s (rm_From inp) msg = Continue s []"
      by (auto simp: rcOnStore_def guard_def Let_def)
    then show ?thesis
      using assms(2,3) honest noLock bad by (auto simp: rcAdvances_def rcWaits_def rcGot_def)
  next
    case again
    then have "rcOnStore env m sid s (rm_From inp) msg = Continue s1 []"
      by (simp add: rcOnStore_def guard_def Let_def seen_def [symmetric] s1_def [symmetric])
    moreover have "rcs_From msg \<in> set (rcSeen stripes s)" if "rcs_Root msg = ?R"
      using again that by (simp add: seen_def rcSeen_def)
    ultimately show ?thesis
      using assms(2,3) honest noLock s1
      by (auto simp: rcAdvances_def rcWaits_def rcGot_def rcShape_def rcReady_def)
  next
    case closed
    then have "rcOnStore env m sid s (rm_From inp) msg = Continue s1 []"
      by (simp add: rcOnStore_def guard_def opens_def Let_def seen_def [symmetric] s1_def [symmetric])
    then show ?thesis
      using assms(2,3) honest noLock s1 closed
      by (auto simp: rcAdvances_def rcWaits_def rcGot_def rcShape_def rcReady_def)
  next
    case taken
    have handler: "rcOnStore env m sid s (rm_From inp) msg =
       (if rc_certifiedRoot s = rcs_Root msg
        then decodeOr (tryDecode (env_rs env) (rcK m) ?n (rc_commit (rcTake m s msg)) (rc_certifiedRoot s))
               (rcTake m s msg) [] (\<lambda>_. Continue (rcTake m s msg) [])
        else Continue (rcTake m s msg) [])"
      using taken take unfolding guard_def opens_def
      by (simp add: rcOnStore_def Let_def seen_def [symmetric] s1_def [symmetric] rcTake_other rcTake_same)
        (simp add: s1_def rcTake_def Let_def seen_def)
    have "rcs_Stripe msg = stripes ! nat (rcs_From msg)" if "rcs_Root msg = ?R"
      using benign e taken that len by (simp add: rcBenign_def guard_def opens_def)
    then have shape: "rcShape ?n stripes (rcTake m s msg)"
      using taken assms(2) by (intro rcTake_shape) (auto simp: guard_def)
    show ?thesis
    proof (cases "rcs_Root msg = ?R")
      case True
      note t = rcTake_same [OF True, of m s]
      show ?thesis
        using decodeOr_ready [OF assms(1) shape] handler t True shape honest noLock
        by (auto simp: rcAdvances_def rcWaits_def rcGot_def rcReady_def)
    next
      case False
      note t = rcTake_other [OF False]
      have "rc_certifiedRoot s \<noteq> rcs_Root msg"
        using assms(2) taken False verifyMerkle_root by (fastforce simp: rcShape_def opens_def)
      moreover have "rcGot m sid stripes (rcTake m s msg) e"
      proof -
        have "e \<noteq> rcStoreEv sid stripes i" if "i < length stripes" for i
          using honest that False by blast
        then show ?thesis using noLock by (simp add: rcGot_def)
      qed
      ultimately show ?thesis
        using handler t shape assms(3) by (simp add: rcAdvances_def rcWaits_def rcReady_def)
    qed
  qed
qed

lemma rcHandle_advances:
  assumes "rcSetup env m val stripes" "rcShape (cfg_N (m_cfg m)) stripes s"
    and "\<not> rcReady (cfg_N (m_cfg m)) (rcK m) stripes s" and benign: "rcBenign m sid stripes e"
  shows "rcAdvances m sid val stripes s e (rcHandle env m sid store s e)"
proof (cases e)
  case CtxDone
  then show ?thesis using benign by (simp add: rcBenign_def)
next
  case TimerFired
  then show ?thesis
    using rcOnTimer_advances [OF assms(1-3)] assms(2,3)
    by (simp add: rcHandle_def rcAdvances_def rcWaits_def rcGot_other rcStoreEv_def rcLockEv_def)
next
  case RecvClosed
  then show ?thesis
    using assms(2,3)
    by (simp add: rcHandle_def rcAdvances_def rcWaits_def rcGot_other rcStoreEv_def rcLockEv_def)
next
  case (Recv inp)
  have other: "rcWaits m sid stripes s e s" if "\<And>x. pm_Body (rm_Msg inp) \<noteq> BpdLock x"
    "\<And>x. pm_Body (rm_Msg inp) \<noteq> BrcStore x"
  proof -
    have "e \<noteq> rcStoreEv sid stripes i" "e \<noteq> rcLockEv p l" for i p l
      using that(2) [of "honestRcStore sid stripes i"] that(1) [of l] Recv
      by (auto simp: rcStoreEv_def rcLockEv_def rcMessage_def)
    then show ?thesis using assms(2,3) by (simp add: rcWaits_def rcGot_other)
  qed
  have pull: "rcAdvances m sid val stripes s e (rcOnPull m sid store s (rm_From inp) msg)"
    if "pm_Body (rm_Msg inp) = BrcPull msg" for msg
  proof -
    have "rcWaits m sid stripes s e (s\<lparr>rc_servedPull := g\<rparr>)" for g
      using other that by (simp add: rcWaits_def rcGot_def)
    then show ?thesis
      using other that by (auto simp: rcAdvances_def rcOnPull_def Let_def split: option.split)
  qed
  show ?thesis
    using rcOnLock_advances [OF assms(1-3) Recv _ benign] rcOnStore_advances [OF assms(1-3) Recv _ benign]
      pull other Recv
    by (cases "pm_Body (rm_Msg inp)") (simp_all add: rcHandle_def rcAdvances_def)
qed

lemma rc_run_advances:
  assumes "rcSetup env m val stripes" "rcShape (cfg_N (m_cfg m)) stripes s"
    and "\<not> rcReady (cfg_N (m_cfg m)) (rcK m) stripes s"
    and "\<forall>e \<in> set es. rcBenign m sid stripes e"
  shows "case runLoop (rcHandle env m sid store) s es of
      Return r s' out \<Rightarrow> r = Ok val
    | Continue s' out \<Rightarrow> rcShape (cfg_N (m_cfg m)) stripes s' \<and>
        \<not> rcReady (cfg_N (m_cfg m)) (rcK m) stripes s' \<and>
        set (rcSeen stripes s) \<subseteq> set (rcSeen stripes s') \<and>
        (rc_certifiedRoot s = fst (buildMerkle stripes) \<longrightarrow> rc_certifiedRoot s' = fst (buildMerkle stripes)) \<and>
        (\<forall>e \<in> set es. rcGot m sid stripes s' e)"
  using assms(2-4)
proof (induction es arbitrary: s)
  case (Cons e es)
  have adv: "rcAdvances m sid val stripes s e (rcHandle env m sid store s e)"
    using Cons.prems by (intro rcHandle_advances assms(1)) auto
  show ?case
  proof (cases "rcHandle env m sid store s e")
    case (Return r s1 out1)
    then show ?thesis using adv by (simp add: rcAdvances_def)
  next
    case (Continue s1 out1)
    then have w: "rcWaits m sid stripes s e s1" using adv by (simp add: rcAdvances_def)
    note ih = Cons.IH [of s1]
    show ?thesis
    proof (cases "runLoop (rcHandle env m sid store) s1 es")
      case (Return r s2 out2)
      then show ?thesis using ih w Cons.prems Continue by (simp add: rcWaits_def)
    next
      case (Continue s2 out2)
      then have "set (rcSeen stripes s1) \<subseteq> set (rcSeen stripes s2)"
        "rc_certifiedRoot s1 = fst (buildMerkle stripes) \<longrightarrow> rc_certifiedRoot s2 = fst (buildMerkle stripes)"
        using ih w Cons.prems by (auto simp: rcWaits_def)
      then have "rcGot m sid stripes s2 e" using w by (auto simp: rcWaits_def rcGot_def)
      then show ?thesis
        using ih w Cons.prems Continue \<open>rcHandle env m sid store s e = Continue s1 out1\<close>
        by (auto simp: rcWaits_def)
    qed
  qed
qed simp

text \<open>Shards seen are shards counted.\<close>

lemma count_seen:
  assumes "rcShape n stripes s" "\<forall>x \<in> set stripes. x \<noteq> []" "I \<subseteq> {..<length stripes}"
    and "\<And>i. i \<in> I \<Longrightarrow> int i \<in> set (rcSeen stripes s)"
  shows "int (card I) \<le> countNonNilShards (rcShards n stripes s)"
proof -
  let ?sh = "rcShards n stripes s"
  have "I \<subseteq> {i. i < length ?sh \<and> ?sh ! i \<noteq> []}"
    using assms by (auto simp: rcShape_def dest!: subsetD)
  then have "card I \<le> card {i. i < length ?sh \<and> ?sh ! i \<noteq> []}" by (intro card_mono) auto
  then show ?thesis by (simp add: countNonNilShards_def length_filter_conv_card)
qed

lemma rcInit_shape:
  assumes "rcSetup env m val stripes" "rcInit env m store lock = Continue s out"
  shows "rcShape (cfg_N (m_cfg m)) stripes s \<and> \<not> rcReady (cfg_N (m_cfg m)) (rcK m) stripes s"
proof -
  have "rc_certifiedRoot s = []" "rc_commit s = Map.empty" "rc_seenStoreByRoot s = Map.empty"
    using assms(2) by (auto simp: rcInit_def)
  then show ?thesis
    using rcSetup_length [OF assms(1)]
    by (simp add: rcShape_def rcReady_def rcSeen_def rcShards_def)
qed

lemma rc_live_lemma:
  assumes su: "rcSetup env m val stripes"
    and benign: "\<forall>e \<in> set es. rcBenign m sid stripes e"
    and lock: "rcLockEv src l \<in> set es" "validLockFor m sid l" "pdl_Root l = fst (buildMerkle stripes)"
    and stores: "I \<subseteq> {..<length stripes}" "rcK m \<le> int (card I)"
      "\<And>i. i \<in> I \<Longrightarrow> rcStoreEv sid stripes i \<in> set es"
  shows "stepResult (runRCSubprotocol env m sid store lck es) = Some (Ok val)"
proof -
  obtain s0 out0 where init: "rcInit env m store lck = Continue s0 out0" by (simp add: rcInit_def)
  note run = rc_run_advances [OF su _ _ benign, of s0 store]
  have "stepResult (runLoop (rcHandle env m sid store) s0 es) = Some (Ok val)"
  proof (cases "runLoop (rcHandle env m sid store) s0 es")
    case (Return r s1 out1)
    then show ?thesis using run rcInit_shape [OF su init] by simp
  next
    case (Continue s1 out1)
    then have s1: "rcShape (cfg_N (m_cfg m)) stripes s1" "\<not> rcReady (cfg_N (m_cfg m)) (rcK m) stripes s1"
      "\<forall>e \<in> set es. rcGot m sid stripes s1 e"
      using run rcInit_shape [OF su init] by auto
    have cert: "rc_certifiedRoot s1 = fst (buildMerkle stripes)"
      using s1(3) lock by (auto simp: rcGot_def)
    have "int i \<in> set (rcSeen stripes s1)" if "i \<in> I" for i
      using s1(3) stores(1) stores(3) [OF that] that by (auto simp: rcGot_def)
    moreover have "\<forall>x \<in> set stripes. x \<noteq> []"
      using su unfolding rcSetup_def by (elim conjE) (rule encode_nonempty(2))
    ultimately have "int (card I) \<le> countNonNilShards (rcShards (cfg_N (m_cfg m)) stripes s1)"
      using s1(1) stores(1) by (intro count_seen)
    then show ?thesis using cert s1(2) stores(2) by (simp add: rcReady_def)
  qed
  then show ?thesis by (simp add: runRCSubprotocol_def init)
qed

section \<open>Properties\<close>

text \<open>C18. What recast returns is the disseminated value: its re-encoding has a Merkle root for which a
  lock certificate of \<open>n - f\<close> nodes verifies in this session.\<close>

theorem rc_returns_certified:
  assumes "runRCSubprotocol env m sid store lock es = Return (Ok val) s out"
  shows "\<exists>shards leader c.
    erasureEncodeValue (env_rs env) val (rcK m) (cfg_N (m_cfg m)) = Ok shards \<and>
    0 \<le> leader \<and> leader < cfg_N (m_cfg m) \<and>
    verifyThresholdCertificate (m_signer m) ''PD_STORED''
      (pdCertificateDigest ''PD_STORED'' sid leader (fst (buildMerkle shards))) c
      (cfg_N (m_cfg m) - cfg_F (m_cfg m))"
  using runRC_post [OF assms] unfolding certifiedFor_def by metis

text \<open>A recast of one node: the lock and the node's own shard.\<close>

definition rcDemoStripes :: "bytes list" where
  "rcDemoStripes = [packValue [7]]"

definition rcDemoLock :: pdLockMsg where
  "rcDemoLock = \<lparr>pdl_SID = ''sPD0'', pdl_Leader = 0, pdl_Root = fst (buildMerkle rcDemoStripes),
     pdl_Certificate = pdCertificateDigest ''PD_STORED'' ''sPD0'' 0 (fst (buildMerkle rcDemoStripes))\<rparr>"

definition rcDemoEvents :: "ReceivedMessage event list" where
  "rcDemoEvents = [rcLockEv 0 rcDemoLock, TimerFired, rcStoreEv ''sPD0'' rcDemoStripes 0]"

text \<open>Its signer accepts one certificate only, the one over the digest the node signed.\<close>

definition rcDemoNode :: DumboMVBA where
  "rcDemoNode = (plainNode 0 1 0)\<lparr>m_signer := (plainSigner 0 1 0)\<lparr>sg_VerifyRecovered :=
     (\<lambda>d dig c. d = ''PD_STORED'' \<and> c = dig \<and>
        dig = pdCertificateDigest ''PD_STORED'' ''sPD0'' 0 (fst (buildMerkle rcDemoStripes)))\<rparr>\<rparr>"

lemma rcDemoNode_simps [simp]:
  "cfg_ID (m_cfg rcDemoNode) = 0" "cfg_N (m_cfg rcDemoNode) = 1" "cfg_F (m_cfg rcDemoNode) = 0"
  "sg_threshold (m_signer rcDemoNode)" "sg_Sign (m_signer rcDemoNode) d dig = Ok dig"
  "sg_VerifyRecovered (m_signer rcDemoNode) d dig c \<longleftrightarrow> d = ''PD_STORED'' \<and> c = dig \<and>
     dig = pdCertificateDigest ''PD_STORED'' ''sPD0'' 0 (fst (buildMerkle rcDemoStripes))"
  "sg_Threshold (m_signer rcDemoNode) d = 1"
  by (simp_all add: rcDemoNode_def plainSigner_def)

lemma rcDemo_setup: "rcSetup plainEnv rcDemoNode [7] rcDemoStripes"
  using replicationCoder_laws
  by (simp add: rcSetup_def plainEnv_def rcK_def erasureEncodeValue_def rcDemoStripes_def maxAlloc_def)

lemma rcDemo_lock: "validLockFor rcDemoNode ''sPD0'' rcDemoLock"
  by (simp add: validLockFor_def rcDemoLock_def verifyThresholdCertificate_def)

lemma rcDemo_benign: "\<forall>e \<in> set rcDemoEvents. rcBenign rcDemoNode ''sPD0'' rcDemoStripes e"
  by (simp add: rcDemoEvents_def rcBenign_def rcLockEv_def rcStoreEv_def rcMessage_def
      honestRcStore_def rcDemoLock_def)

lemma rcDemo_returns:
  "stepResult (runRCSubprotocol plainEnv rcDemoNode ''sPD0'' None None rcDemoEvents) = Some (Ok [7])"
  by (rule rc_live_lemma [OF rcDemo_setup rcDemo_benign _ rcDemo_lock, of 0 "{0}"])
    (auto simp: rcDemoEvents_def rcDemoLock_def rcDemoStripes_def rcK_def)

theorem rc_returns_certified_witness:
  "\<exists>shards leader c. erasureEncodeValue (env_rs plainEnv) [7] (rcK rcDemoNode) 1 = Ok shards \<and>
    verifyThresholdCertificate (m_signer rcDemoNode) ''PD_STORED''
      (pdCertificateDigest ''PD_STORED'' ''sPD0'' leader (fst (buildMerkle shards))) c 1"
proof -
  obtain s out where "runRCSubprotocol plainEnv rcDemoNode ''sPD0'' None None rcDemoEvents =
      Return (Ok [7]) s out"
    using rcDemo_returns
    by (cases "runRCSubprotocol plainEnv rcDemoNode ''sPD0'' None None rcDemoEvents") auto
  from rc_returns_certified [OF this] show ?thesis by auto
qed

text \<open>C17. Recast returns. On every schedule that delivers a valid lock for the root of the encoded value
  and the shards of \<open>n - 2f\<close> nodes, in any order and mixed with any other messages and timer events,
  the node returns the value, provided that no other root was certified and that no other stripe
  opens against the root (the schedule is benign).\<close>

theorem rc_live:
  assumes "rs_laws (env_rs env)" "length val \<le> maxAlloc" "0 \<le> cfg_F (m_cfg m)"
    and "3 * cfg_F (m_cfg m) + 1 \<le> cfg_N (m_cfg m)"
    and "erasureEncodeValue (env_rs env) val (cfg_N (m_cfg m) - 2 * cfg_F (m_cfg m)) (cfg_N (m_cfg m)) = Ok stripes"
    and "\<forall>e \<in> set es. rcBenign m sid stripes e"
    and "rcLockEv src l \<in> set es" "validLockFor m sid l" "pdl_Root l = fst (buildMerkle stripes)"
    and "I \<subseteq> {..<length stripes}" "cfg_N (m_cfg m) - 2 * cfg_F (m_cfg m) \<le> int (card I)"
    and "\<forall>i \<in> I. rcStoreEv sid stripes i \<in> set es"
  shows "stepResult (runRCSubprotocol env m sid store lock es) = Some (Ok val)"
proof -
  have "rcK m = cfg_N (m_cfg m) - 2 * cfg_F (m_cfg m)" using assms(3,4) by (simp add: rcK_def)
  then show ?thesis
    using assms by (intro rc_live_lemma [of env m val stripes es sid src l I]) (auto simp: rcSetup_def)
qed

theorem rc_live_witness:
  "stepResult (runRCSubprotocol plainEnv rcDemoNode ''sPD0'' None None rcDemoEvents) = Some (Ok [7])"
proof (rule rc_live [of plainEnv "[7]" rcDemoNode rcDemoStripes rcDemoEvents "''sPD0''" 0 rcDemoLock "{0}"])
  show "validLockFor rcDemoNode ''sPD0'' rcDemoLock" by (rule rcDemo_lock)
  show "\<forall>e \<in> set rcDemoEvents. rcBenign rcDemoNode ''sPD0'' rcDemoStripes e"
    by (rule rcDemo_benign)
  show "rs_laws (env_rs plainEnv)" using replicationCoder_laws by (simp add: plainEnv_def)
  show "erasureEncodeValue (env_rs plainEnv) [7] (cfg_N (m_cfg rcDemoNode) -
      2 * cfg_F (m_cfg rcDemoNode)) (cfg_N (m_cfg rcDemoNode)) = Ok rcDemoStripes"
    by (simp add: erasureEncodeValue_def rcDemoStripes_def)
qed (simp_all add: rcDemoEvents_def rcDemoLock_def rcDemoStripes_def maxAlloc_def)

section \<open>Agreement\<close>

text \<open>Signers of one key set: they accept the same certificates.\<close>

definition sameKeys :: "signer \<Rightarrow> signer \<Rightarrow> bool" where
  "sameKeys sg sg' \<longleftrightarrow> sg_threshold sg = sg_threshold sg' \<and> sg_Threshold sg = sg_Threshold sg' \<and>
     sg_VerifyRecovered sg = sg_VerifyRecovered sg'"

lemma sameKeys_verify:
  "sameKeys sg sg' \<Longrightarrow> verifyThresholdCertificate sg = verifyThresholdCertificate sg'"
  by (intro ext) (simp add: sameKeys_def verifyThresholdCertificate_def)

lemma encode_inj:
  assumes "rs_laws rs" "length v \<le> maxAlloc" "length w \<le> maxAlloc"
    and "erasureEncodeValue rs v k n = Ok shards" "erasureEncodeValue rs w k n = Ok shards"
  shows "v = w"
proof -
  have "filter (\<lambda>s. s \<noteq> []) shards = shards"
    using encode_nonempty(2) [OF assms(1,4)] by (simp add: filter_id_conv)
  moreover have "k \<le> n" using assms(4) by (auto simp: erasureEncodeValue_def split: if_splits)
  ultimately have "shardSubset (nat k) shards shards"
    using encode_nonempty(1) [OF assms(1,4)] by (simp add: shardSubset_def)
  from erasure_round_trip [OF assms(1,2,4) this] erasure_round_trip [OF assms(1,3,5) this]
  show ?thesis by simp
qed

text \<open>The strings hashed for a certificate of a value's root, whatever leader it names, and the shards
  of a value.\<close>

definition shardsOf :: "mvbaEnv \<Rightarrow> DumboMVBA \<Rightarrow> bytes \<Rightarrow> bytes list" where
  "shardsOf env m val =
     (case erasureEncodeValue (env_rs env) val (rcK m) (cfg_N (m_cfg m)) of Ok shards \<Rightarrow> shards | _ \<Rightarrow> [])"

definition rootInputs :: "mvbaEnv \<Rightarrow> DumboMVBA \<Rightarrow> string \<Rightarrow> bytes \<Rightarrow> bytes set" where
  "rootInputs env m sid val =
     (\<lambda>j. pdDigestInput ''PD_STORED'' sid j (fst (buildMerkle (shardsOf env m val)))) ` {0..<cfg_N (m_cfg m)}"

text \<open>C3. Recast agrees. Two nodes with keys of one set that return from the recast of one leader's
  session return the same value, whatever the faulty nodes do and in whatever order messages arrive:
  otherwise SHA-256 has a collision between strings the two nodes and the honest signers hashed.\<close>

theorem rc_agreement:
  assumes "rs_laws (env_rs env)" "0 \<le> f" "3 * f + 1 \<le> n" "finite faulty" "int (card faulty) \<le> f"
    and "unforgeable (m_signer m1) ''PD_STORED'' (sessionDigests ''PD_STORED'' sid) n faulty
      (pdSigned env node sid input sched n ''PD_STORED'')"
    and "sameKeys (m_signer m1) (m_signer m2)" "cfg_N (m_cfg m1) = n" "cfg_N (m_cfg m2) = n"
    and "cfg_F (m_cfg m1) = f" "cfg_F (m_cfg m2) = f"
    and "runRCSubprotocol env m1 (pdSid sid l) store1 lock1 es1 = Return (Ok v1) s1 out1"
    and "runRCSubprotocol env m2 (pdSid sid l) store2 lock2 es2 = Return (Ok v2) s2 out2"
  shows "v1 = v2 \<or>
    (\<exists>p \<in> {0..<n} - faulty. \<exists>x \<in> pdStoredInputs env node sid input sched n p.
      \<exists>y \<in> rootInputs env m1 (pdSid sid l) v1 \<union> rootInputs env m1 (pdSid sid l) v2. collision y x) \<or>
    (\<exists>x \<in> merkleInputs (shardsOf env m1 v1). \<exists>y \<in> branchInputs (shardsOf env m1 v2). collision x y)"
proof (rule disjCI)
  assume nocoll: "\<not> ((\<exists>p \<in> {0..<n} - faulty. \<exists>x \<in> pdStoredInputs env node sid input sched n p.
      \<exists>y \<in> rootInputs env m1 (pdSid sid l) v1 \<union> rootInputs env m1 (pdSid sid l) v2. collision y x) \<or>
    (\<exists>x \<in> merkleInputs (shardsOf env m1 v1). \<exists>y \<in> branchInputs (shardsOf env m1 v2). collision x y))"
  have nomerkle: "\<not> (\<exists>x \<in> merkleInputs (shardsOf env m1 v1). \<exists>y \<in> branchInputs (shardsOf env m1 v2). collision x y)"
    using nocoll by blast
  have nodigest: "\<not> (\<exists>p \<in> {0..<n} - faulty. \<exists>x \<in> pdStoredInputs env node sid input sched n p.
      \<exists>y \<in> rootInputs env m1 (pdSid sid l) v1 \<union> rootInputs env m1 (pdSid sid l) v2. collision y x)"
    using nocoll by blast
  have k: "rcK m2 = rcK m1" using assms(8-11) by (simp add: rcK_def)
  obtain sh1 where sh1: "erasureEncodeValue (env_rs env) v1 (rcK m1) n = Ok sh1" "length v1 \<le> maxAlloc"
    "certifiedFor m1 (pdSid sid l) (fst (buildMerkle sh1))"
    using runRC_post [OF assms(12)] assms(8) by metis
  obtain sh2 where sh2: "erasureEncodeValue (env_rs env) v2 (rcK m1) n = Ok sh2" "length v2 \<le> maxAlloc"
    "certifiedFor m2 (pdSid sid l) (fst (buildMerkle sh2))"
    using runRC_post [OF assms(13)] assms(9) k by metis
  have of1: "shardsOf env m1 v1 = sh1" and of2: "shardsOf env m1 v2 = sh2"
    using sh1(1) sh2(1) assms(8) by (simp_all add: shardsOf_def)
  have sys: "certified (m_signer m1) ''PD_STORED'' (sessionDigests ''PD_STORED'' sid) n f faulty
      (pdSigned env node sid input sched n ''PD_STORED'')"
    using assms(2-6) by (simp add: certified_def)
  obtain j1 c1 where c1: "0 \<le> j1" "j1 < n" "verifyThresholdCertificate (m_signer m1) ''PD_STORED''
      (pdCertificateDigest ''PD_STORED'' (pdSid sid l) j1 (fst (buildMerkle sh1))) c1 (n - f)"
    using sh1(3) assms(8,10) by (auto simp: certifiedFor_def)
  obtain j2 c2 where c2: "0 \<le> j2" "j2 < n" "verifyThresholdCertificate (m_signer m1) ''PD_STORED''
      (pdCertificateDigest ''PD_STORED'' (pdSid sid l) j2 (fst (buildMerkle sh2))) c2 (n - f)"
    using sh2(3) assms(9,11) sameKeys_verify [OF assms(7)] by (auto simp: certifiedFor_def)
  have "fst (buildMerkle sh1) = fst (buildMerkle sh2)"
  proof (rule certified_root_eq [OF sys c1(3) c2(3)])
    fix p x assume "0 \<le> p" "p < n" "p \<notin> faulty" "x \<in> pdStoredInputs env node sid input sched n p"
    then show "\<not> collision (pdDigestInput ''PD_STORED'' (pdSid sid l) j1 (fst (buildMerkle sh1))) x \<and>
        \<not> collision (pdDigestInput ''PD_STORED'' (pdSid sid l) j2 (fst (buildMerkle sh2))) x"
      using nodigest c1 c2 assms(8) of1 of2 by (auto simp: rootInputs_def)
  qed
  moreover have "length sh1 = length sh2"
    using encode_nonempty(1) [OF assms(1) sh1(1)] encode_nonempty(1) [OF assms(1) sh2(1)] by simp
  ultimately have "sh1 = sh2" using nomerkle of1 of2 by (intro root_binds) auto
  then show "v1 = v2" using encode_inj [OF assms(1) sh1(2) sh2(2) sh1(1)] sh2(1) by simp
qed

definition rcDemoSched :: "int \<Rightarrow> int \<Rightarrow> ReceivedMessage event list" where
  "rcDemoSched p j = [pdMsg 0 0 (BpdStore (honestStore ''sPD0'' rcDemoStripes 0))]"

lemma rcDemo_sid: "pdSid ''s'' 0 = ''sPD0''"
  by (simp add: pdSid_def itoa_def nat_digits.simps) code_simp

lemma rcDemo_unforgeable:
  "unforgeable (m_signer rcDemoNode) ''PD_STORED'' (sessionDigests ''PD_STORED'' ''s'') 1 {}
     (pdSigned plainEnv (\<lambda>_. rcDemoNode) ''s'' (\<lambda>_. [7]) rcDemoSched 1 ''PD_STORED'')"
proof -
  let ?D = "pdCertificateDigest ''PD_STORED'' ''sPD0'' 0 (fst (buildMerkle rcDemoStripes))"
  have "mb_Index (snd (buildMerkle rcDemoStripes) ! 0) = 0"
    "verifyMerkle (rcDemoStripes ! 0) (fst (buildMerkle rcDemoStripes)) (snd (buildMerkle rcDemoStripes) ! 0)"
    using branch_verifies [of 0 rcDemoStripes] by (auto simp: rcDemoStripes_def)
  moreover have "\<exists>s out. pdInit plainEnv rcDemoNode ''sPD0'' 0 [7] = Continue s out \<and> \<not> pd_seenStoreFromLeader s"
    using pdInit_leader [of rcDemoNode 0 plainEnv "[7]" rcDemoStripes "''sPD0''"]
      pdInit_ok [of rcDemoNode "''sPD0''" 0 plainEnv "[7]"] rcDemo_setup
    by (auto simp: rcSetup_def rcK_def rcDemoStripes_def pdInit_def Let_def pdStart_def split_beta
        split: onOk_split)
  ultimately have "?D \<in> set (signsOf ''PD_STORED''
      (stepOut (pdRun plainEnv (\<lambda>_. rcDemoNode) ''s'' (\<lambda>_. [7]) rcDemoSched 0 0)))"
    by (auto simp: pdRun_def runPDInstance_def rcDemo_sid rcDemoSched_def pdHandle_def pdMsg_def
        pdOnStore_def honestStore_def Let_def)
  then have "?D \<in> pdSigned plainEnv (\<lambda>_. rcDemoNode) ''s'' (\<lambda>_. [7]) rcDemoSched 1 ''PD_STORED'' 0"
    by (auto simp: pdSigned_def)
  then show ?thesis
    by (auto simp: unforgeable_def intro!: exI [of _ "{0}"])
qed

theorem rc_agreement_witness:
  "\<exists>s out. runRCSubprotocol plainEnv rcDemoNode (pdSid ''s'' 0) None None rcDemoEvents = Return (Ok [7]) s out \<and>
   unforgeable (m_signer rcDemoNode) ''PD_STORED'' (sessionDigests ''PD_STORED'' ''s'') 1 {}
     (pdSigned plainEnv (\<lambda>_. rcDemoNode) ''s'' (\<lambda>_. [7]) rcDemoSched 1 ''PD_STORED'') \<and>
   (([7] :: bytes) = [7] \<or>
    (\<exists>p \<in> {0..<1} - {}. \<exists>x \<in> pdStoredInputs plainEnv (\<lambda>_. rcDemoNode) ''s'' (\<lambda>_. [7]) rcDemoSched 1 p.
      \<exists>y \<in> rootInputs plainEnv rcDemoNode (pdSid ''s'' 0) [7] \<union> rootInputs plainEnv rcDemoNode (pdSid ''s'' 0) [7].
        collision y x) \<or>
    (\<exists>x \<in> merkleInputs (shardsOf plainEnv rcDemoNode [7]).
     \<exists>y \<in> branchInputs (shardsOf plainEnv rcDemoNode [7]). collision x y))"
proof -
  obtain s out where run: "runRCSubprotocol plainEnv rcDemoNode (pdSid ''s'' 0) None None rcDemoEvents =
      Return (Ok [7]) s out"
    using rcDemo_returns unfolding rcDemo_sid
    by (cases "runRCSubprotocol plainEnv rcDemoNode ''sPD0'' None None rcDemoEvents") auto
  have "rs_laws (env_rs plainEnv)" using replicationCoder_laws by (simp add: plainEnv_def)
  from rc_agreement [OF this _ _ _ _ rcDemo_unforgeable _ _ _ _ _ run run, of 0] run rcDemo_unforgeable
  show ?thesis by (simp add: sameKeys_def)
qed

end
