(* ===== verification/Mvba_Quit_Props.thy ===== *)
theory Mvba_Quit_Props
  imports Mvba_Quit Mvba_RC_Props
begin

text \<open>
  The properties of quitting and of the recast preparation: a node that leaves the dissemination
  phase knows that \<open>n - f\<close> leaders completed theirs and has passed the certificate on; a leader whose
  lock is held by enough honest nodes gets the input 1 of every honest node.
\<close>

section \<open>Quitting\<close>

lemma ready_done:
  assumes "quitDigest sid \<in> set (signsOf ''PD_QUIT_READY'' (stepOut (runQuitPD m sid es)))"
  shows "\<exists>L \<subseteq> {0..<cfg_N (m_cfg m)}. cfg_N (m_cfg m) - cfg_F (m_cfg m) \<le> int (card L) \<and>
    (\<forall>l \<in> L. doneProof m sid l)"
proof -
  let ?s = "stepState (runQuitPD m sid es)"
  have inv: "quitInv m sid ?s (stepOut (runQuitPD m sid es))" by (rule runQuit_inv)
  then have "cfg_N (m_cfg m) - cfg_F (m_cfg m) \<le> int (length (q_seenDone ?s))"
    using assms by (auto simp: quitInv_def split: if_splits)
  moreover have "card (set (q_seenDone ?s)) = length (q_seenDone ?s)"
    using inv by (simp add: quitInv_def distinct_card)
  ultimately show ?thesis
    using inv by (intro exI [of _ "set (q_seenDone ?s)"]) (auto simp: quitInv_def)
qed

lemma doneProof_sameKeys:
  assumes "sameKeys (m_signer m) (m_signer m')" "cfg_N (m_cfg m) = cfg_N (m_cfg m')"
    "cfg_F (m_cfg m) = cfg_F (m_cfg m')"
  shows "doneProof m sid l \<longleftrightarrow> doneProof m' sid l"
  using assms sameKeys_verify [OF assms(1)] by (simp add: doneProof_def)

text \<open>C24. Leaving the dissemination phase is justified. When \<^verbatim>\<open>runQuitPD\<close> returns at any node, there are
  \<open>n - f\<close> leaders whose instance is proved complete by a certificate that verifies there, and the
  node has sent every node a certificate that lets it leave too. (At least one of the \<open>f + 1\<close> nodes
  behind the certificate is honest, and it signed after checking \<open>n - f\<close> proofs.)\<close>

theorem quit_returns_sound:
  assumes "0 \<le> f" "3 * f + 1 \<le> n" "finite faulty" "int (card faulty) \<le> f"
    and "cfg_N (m_cfg m) = n" "cfg_F (m_cfg m) = f"
    and "unforgeable (m_signer m) ''PD_QUIT_READY'' {quitDigest sid} n faulty
      (\<lambda>p. set (signsOf ''PD_QUIT_READY'' (stepOut (runQuitPD (node p) sid (sched p)))))"
    and "\<forall>p \<in> {0..<n} - faulty. sameKeys (m_signer (node p)) (m_signer m) \<and>
      cfg_N (m_cfg (node p)) = n \<and> cfg_F (m_cfg (node p)) = f"
    and "runQuitPD m sid es = Return (Ok from) s out"
  shows "(\<exists>L \<subseteq> {0..<n}. n - f \<le> int (card L) \<and> (\<forall>l \<in> L. doneProof m sid l)) \<and>
    (\<exists>c. sg_VerifyRecovered (m_signer m) ''PD_QUIT_READY'' (quitDigest sid) c \<and>
       (\<forall>i \<in> {0..<n}. ASend i (ProtocolMessage TagMVBAPDFinish 0 (cfg_ID (m_cfg m))
          (BquitFinish \<lparr>qf_SID = sid, qf_Certificate = c\<rparr>)) \<in> set out))"
proof
  have post: "q_finishSent s" "\<exists>c. verifyThresholdCertificate (m_signer m) ''PD_QUIT_READY''
      (quitDigest sid) c (f + 1)"
    using runQuit_post [OF assms(9)] assms(6) by (auto simp: quitPost_def)
  have sys: "certified (m_signer m) ''PD_QUIT_READY'' {quitDigest sid} n f faulty
      (\<lambda>p. set (signsOf ''PD_QUIT_READY'' (stepOut (runQuitPD (node p) sid (sched p)))))"
    using assms(1-4,7) by (simp add: certified_def)
  obtain p where p: "p \<in> {0..<n} - faulty"
    "quitDigest sid \<in> set (signsOf ''PD_QUIT_READY'' (stepOut (runQuitPD (node p) sid (sched p))))"
    using post(2) honest_signer [OF sys, of "quitDigest sid" _ "f + 1"] by auto
  have keys: "sameKeys (m_signer (node p)) (m_signer m)" "cfg_N (m_cfg (node p)) = n"
    "cfg_F (m_cfg (node p)) = f"
    using assms(8) p(1) by auto
  show "\<exists>L \<subseteq> {0..<n}. n - f \<le> int (card L) \<and> (\<forall>l \<in> L. doneProof m sid l)"
    using ready_done [OF p(2)] keys(2,3) doneProof_sameKeys [OF keys(1)] assms(5,6) by auto
  have "quitInv m sid s out" using runQuit_inv [of m sid es] assms(9) by simp
  then obtain c where c: "sg_VerifyRecovered (m_signer m) ''PD_QUIT_READY'' (quitDigest sid) c"
    "set (sendFinish m sid c) \<subseteq> set out"
    using post(1) by (auto simp: quitInv_def)
  then show "\<exists>c. sg_VerifyRecovered (m_signer m) ''PD_QUIT_READY'' (quitDigest sid) c \<and>
       (\<forall>i \<in> {0..<n}. ASend i (ProtocolMessage TagMVBAPDFinish 0 (cfg_ID (m_cfg m))
          (BquitFinish \<lparr>qf_SID = sid, qf_Certificate = c\<rparr>)) \<in> set out)"
    using assms(5) by (intro exI [of _ c]) (auto simp: sendFinish_def quitSend_def)
qed

text \<open>One node, whose single instance is complete, quits alone.\<close>

definition quitDemoDone :: pdDoneMsg where
  "quitDemoDone = \<lparr>pdd_SID = ''s'' @ ''PD'' @ itoa 0, pdd_Leader = 0, pdd_Root = [1],
     pdd_Certificate = pdCertificateDigest ''PD_LOCKED'' (''s'' @ ''PD'' @ itoa 0) 0 [1]\<rparr>"

definition quitDemoEvents :: "ReceivedMessage event list" where
  "quitDemoEvents = map (\<lambda>body. Recv \<lparr>rm_From = 0, rm_Msg = ProtocolMessage TagMVBAPDFinish 0 0 body\<rparr>)
     [BpdDone quitDemoDone, BquitReady \<lparr>qr_SID = ''s'', qr_Share = quitDigest ''s''\<rparr>,
      BquitFinish \<lparr>qf_SID = ''s'', qf_Certificate = quitDigest ''s''\<rparr>]"

lemma quitDigest_not_Nil [simp]: "quitDigest sid \<noteq> []"
  by (simp add: quitDigest_def)

lemma quitDemo_run:
  "\<exists>s out. runQuitPD (plainNode 0 1 0) ''s'' quitDemoEvents = Return (Ok 0) s out \<and>
     quitDigest ''s'' \<in> set (signsOf ''PD_QUIT_READY'' out)"
  by (simp add: runQuitPD_def quitStart_def quitDemoEvents_def quitHandle_def quitOnDone_def
      quitDemoDone_def quitOnReady_def quitOnFinish_def Let_def verifyThresholdCertificate_def
      recoverThresholdCertificate_def plainNode_recover putShare_def)

theorem quit_returns_sound_witness:
  "\<exists>L \<subseteq> {0..<1}. 1 \<le> int (card L) \<and> (\<forall>l \<in> L. doneProof (plainNode 0 1 0) ''s'' l)"
proof -
  obtain s out where run: "runQuitPD (plainNode 0 1 0) ''s'' quitDemoEvents = Return (Ok 0) s out"
    "quitDigest ''s'' \<in> set (signsOf ''PD_QUIT_READY'' out)"
    using quitDemo_run by blast
  then have unf: "unforgeable (m_signer (plainNode 0 1 0)) ''PD_QUIT_READY'' {quitDigest ''s''} 1 {}
      (\<lambda>p. set (signsOf ''PD_QUIT_READY'' (stepOut (runQuitPD (plainNode 0 1 0) ''s'' quitDemoEvents))))"
    by (auto simp: unforgeable_def intro!: exI [of _ "{0}"])
  from quit_returns_sound [OF _ _ _ _ _ _ unf _ run(1), of 0] show ?thesis
    by (simp add: sameKeys_def)
qed

section \<open>The recast preparation\<close>

definition carriesLock :: "DumboMVBA \<Rightarrow> string \<Rightarrow> int \<Rightarrow> rcPrepareMsg \<Rightarrow> bool" where
  "carriesLock m sid leader msg \<longleftrightarrow>
     (\<exists>l. rcpr_Lock msg = Some l \<and> pdl_Leader l = leader \<and>
        verifyThresholdCertificate (m_signer m) ''PD_STORED''
          (pdCertificateDigest ''PD_STORED'' (pdSid sid leader) leader (pdl_Root l)) (pdl_Certificate l)
          (cfg_N (m_cfg m) - cfg_F (m_cfg m)))"

text \<open>Events whose senders are nodes, and whose preparations for the leader carry a valid lock when
  they come from a node of \<open>H\<close>.\<close>

definition prepareGood :: "DumboMVBA \<Rightarrow> string \<Rightarrow> int \<Rightarrow> int set \<Rightarrow> ReceivedMessage event \<Rightarrow> bool" where
  "prepareGood m sid leader H e =
    (case e of Recv inp \<Rightarrow> rm_From inp \<in> {0..<cfg_N (m_cfg m)} \<and>
       (case pm_Body (rm_Msg inp) of
          BrcPrepare msg \<Rightarrow> rcpr_Leader msg = leader \<and> rcpr_SID msg = sid @ ''RCprepare'' \<and> rm_From inp \<in> H
            \<longrightarrow> carriesLock m sid leader msg
        | _ \<Rightarrow> True)
     | _ \<Rightarrow> True)"

definition prepareInv :: "DumboMVBA \<Rightarrow> string \<Rightarrow> int \<Rightarrow> int set \<Rightarrow> prepareState \<Rightarrow> bool" where
  "prepareInv m sid leader H s \<longleftrightarrow>
     distinct (rp_rcSeen s) \<and> set (rp_rcSeen s) \<subseteq> {0..<cfg_N (m_cfg m)} \<and>
     (set (rp_rcSeen s) \<inter> H \<noteq> {} \<longrightarrow> rp_hasValidLock s) \<and>
     (rp_hasValidLock s \<longrightarrow> (\<exists>msg. carriesLock m sid leader msg))"

definition preparePost :: "DumboMVBA \<Rightarrow> int res \<Rightarrow> prepareState \<Rightarrow> bool" where
  "preparePost m r s \<longleftrightarrow>
     (\<forall>b. r = Ok b \<longrightarrow> b = (if rp_hasValidLock s then 1 else 0) \<and>
        2 * cfg_F (m_cfg m) + 1 \<le> int (length (rp_rcSeen s)))"

lemma carriesLock_alt:
  "(case rcpr_Lock msg of None \<Rightarrow> False
    | Some l \<Rightarrow> pdl_Leader l = leader \<and> verifyThresholdCertificate (m_signer m) ''PD_STORED''
        (pdCertificateDigest ''PD_STORED'' (sid @ ''PD'' @ itoa leader) leader (pdl_Root l))
        (pdl_Certificate l) (cfg_N (m_cfg m) - cfg_F (m_cfg m))) = carriesLock m sid leader msg"
  by (auto simp: carriesLock_def pdSid_def split: option.split)

lemma prepareHandle_ok:
  assumes "prepareGood m sid leader H e" "prepareInv m sid leader H s"
  shows "prepareInv m sid leader H (stepState (prepareHandle m sid leader s e)) \<and>
    (\<forall>r. stepResult (prepareHandle m sid leader s e) = Some r \<longrightarrow>
       preparePost m r (stepState (prepareHandle m sid leader s e)))"
proof (cases "\<exists>inp msg. e = Recv inp \<and> pm_Body (rm_Msg inp) = BrcPrepare msg")
  case True
  then obtain inp msg where e: "e = Recv inp" "pm_Body (rm_Msg inp) = BrcPrepare msg" by blast
  then have h: "prepareHandle m sid leader s e = prepareOnMsg m sid leader s (rm_From inp) msg"
    by (simp add: prepareHandle_def)
  show ?thesis
    using assms e unfolding h prepareOnMsg_def carriesLock_alt Let_def prepareGood_def
    by (auto simp: prepareInv_def preparePost_def)
next
  case False
  then have "stepState (prepareHandle m sid leader s e) = s"
    "\<And>r. stepResult (prepareHandle m sid leader s e) = Some r \<Longrightarrow> \<exists>e. r = Err e"
    by (auto simp: prepareHandle_def split: event.splits Body.splits)
  then show ?thesis using assms(2) by (auto simp: preparePost_def)
qed

interpretation prepare: guarded_loop "prepareHandle m sid leader" "prepareGood m sid leader H"
  "\<lambda>s out. prepareInv m sid leader H s" "\<lambda>r s out. preparePost m r s" for m sid leader H
  using prepareHandle_ok [of m sid leader H] by unfold_locales (blast, force)

lemma runRCPrepare_ok:
  assumes "\<forall>e \<in> set es. prepareGood m sid leader H e" "runRCPrepare m sid leader es = Return r s out"
  shows "prepareInv m sid leader H s" "preparePost m r s"
proof -
  let ?st = "Continue \<lparr>rp_rcSeen = [], rp_hasValidLock = False\<rparr> [] :: (prepareState, action, int) step"
  have start: "prepareInv m sid leader H (stepState ?st)" by (simp add: prepareInv_def)
  show "prepareInv m sid leader H s"
    using prepare.loop_inv [of m sid leader H ?st es] start assms by (simp add: runRCPrepare_def)
  show "preparePost m r s"
    using prepare.loop_post [of m sid leader H ?st es r s out] start assms by (simp add: runRCPrepare_def)
qed

lemma honest_lock_carried:
  assumes "runPDInstance env m' (pdSid sid leader) leader input pes = Return (Ok outcome) s out"
    and "cfg_ID (m_cfg m') \<noteq> leader" "sameKeys (m_signer m') (m_signer m)"
    and "cfg_N (m_cfg m') = cfg_N (m_cfg m)" "cfg_F (m_cfg m') = cfg_F (m_cfg m)"
    and "rcpr_Lock msg = cloneLock (po_lock outcome)"
  shows "carriesLock m sid leader msg"
proof -
  have inv: "pdInv m' (pdSid sid leader) leader s out"
    using runPD_inv [of m' "pdSid sid leader" leader env input pes] assms(1) by simp
  have "outcome = pd_out s" "po_lock outcome \<noteq> None"
    using runPD_post [OF assms(1)] assms(2) by (auto simp: pdPost_def)
  then obtain l where "po_lock (pd_out s) = Some l" "outcome = pd_out s" by auto
  then show ?thesis
    using inv assms(3-6) sameKeys_verify [OF assms(3)]
    by (auto simp: pdInv_def pdLockInv_def pdValidLock_def carriesLock_def)
qed

text \<open>C25. A completed leader gets the input 1. Let \<open>n - 2f\<close> nodes other than the leader have returned
  from the leader's instance and report the lock they returned with. Then a node that gets its
  \<open>2f + 1\<close> preparations for the leader from any nodes, with anything in them otherwise, returns 1.\<close>

theorem rcprepare_votes_one:
  assumes "cfg_N (m_cfg m) = n" "cfg_F (m_cfg m) = f" "H \<subseteq> {0..<n}" "n - 2 * f \<le> int (card H)"
    and "\<forall>p \<in> H. cfg_ID (m_cfg (node p)) \<noteq> leader \<and> sameKeys (m_signer (node p)) (m_signer m) \<and>
      cfg_N (m_cfg (node p)) = n \<and> cfg_F (m_cfg (node p)) = f \<and>
      runPDInstance env (node p) (pdSid sid leader) leader (input p) (sched p) =
        Return (Ok (outcome p)) (st p) (out p)"
    and "\<forall>inp. Recv inp \<in> set es \<longrightarrow> rm_From inp \<in> {0..<n}"
    and "\<forall>inp msg. Recv inp \<in> set es \<and> pm_Body (rm_Msg inp) = BrcPrepare msg \<and> rm_From inp \<in> H \<and>
      rcpr_Leader msg = leader \<and> rcpr_SID msg = sid @ ''RCprepare'' \<longrightarrow>
      rcpr_Lock msg = cloneLock (po_lock (outcome (rm_From inp)))"
    and "runRCPrepare m sid leader es = Return (Ok b) s' out'" and f0: "0 \<le> f"
  shows "b = 1"
proof -
  have "prepareGood m sid leader H e" if e: "e \<in> set es" for e
  proof (cases "\<exists>inp msg. e = Recv inp \<and> pm_Body (rm_Msg inp) = BrcPrepare msg \<and> rm_From inp \<in> H \<and>
      rcpr_Leader msg = leader \<and> rcpr_SID msg = sid @ ''RCprepare''")
    case True
    then obtain inp msg where i: "e = Recv inp" "pm_Body (rm_Msg inp) = BrcPrepare msg" "rm_From inp \<in> H"
      "rcpr_Leader msg = leader" "rcpr_SID msg = sid @ ''RCprepare''" by blast
    have lock: "rcpr_Lock msg = cloneLock (po_lock (outcome (rm_From inp)))" using assms(7) i e by blast
    have p: "cfg_ID (m_cfg (node (rm_From inp))) \<noteq> leader"
      "sameKeys (m_signer (node (rm_From inp))) (m_signer m)"
      "cfg_N (m_cfg (node (rm_From inp))) = cfg_N (m_cfg m)"
      "cfg_F (m_cfg (node (rm_From inp))) = cfg_F (m_cfg m)"
      "runPDInstance env (node (rm_From inp)) (pdSid sid leader) leader (input (rm_From inp)) (sched (rm_From inp)) =
        Return (Ok (outcome (rm_From inp))) (st (rm_From inp)) (out (rm_From inp))"
      using assms(1,2,5) i(3) by auto
    have "carriesLock m sid leader msg" by (rule honest_lock_carried [OF p(5,1,2,3,4) lock])
    then show ?thesis using i assms(1,6) e by (simp add: prepareGood_def)
  next
    case False
    then show ?thesis
      using assms(1,6) e by (auto simp: prepareGood_def split: event.split Body.split)
  qed
  then have good: "\<forall>e \<in> set es. prepareGood m sid leader H e" by blast
  note ok = runRCPrepare_ok [OF good assms(8)]
  have "card (set (rp_rcSeen s')) = length (rp_rcSeen s')"
    using ok(1) by (simp add: prepareInv_def distinct_card)
  moreover have "2 * f + 1 \<le> int (length (rp_rcSeen s'))"
    using ok(2) assms(2) by (simp add: preparePost_def)
  ultimately have "nat n < card (set (rp_rcSeen s')) + card H" using assms(4) f0 by linarith
  then have "card {0..<n} + card ({} :: int set) < card (set (rp_rcSeen s')) + card H" by simp
  then obtain p where "p \<in> set (rp_rcSeen s')" "p \<in> H"
    using quorum_honest_Int [of "{0..<n}" "set (rp_rcSeen s')" H "{}"] ok(1) assms(1,3)
    by (auto simp: prepareInv_def)
  then show ?thesis using ok by (auto simp: prepareInv_def preparePost_def)
qed

text \<open>An input 1 is justified: \<^verbatim>\<open>runRCPrepare\<close> returns 0 or 1, and 1 only when some node reported a lock
  for the leader whose threshold certificate verifies.\<close>

theorem rcprepare_one_certified:
  assumes "runRCPrepare m sid leader es = Return (Ok b) s out"
    and "\<forall>inp. Recv inp \<in> set es \<longrightarrow> rm_From inp \<in> {0..<cfg_N (m_cfg m)}"
  shows "b = 0 \<or> (b = 1 \<and> (\<exists>root c. verifyThresholdCertificate (m_signer m) ''PD_STORED''
    (pdCertificateDigest ''PD_STORED'' (pdSid sid leader) leader root) c
    (cfg_N (m_cfg m) - cfg_F (m_cfg m))))"
proof -
  have "\<forall>e \<in> set es. prepareGood m sid leader {} e"
    using assms(2) by (auto simp: prepareGood_def split: event.split Body.split)
  from runRCPrepare_ok [OF this assms(1)] show ?thesis
    by (auto simp: prepareInv_def preparePost_def carriesLock_def)
qed

text \<open>Three nodes report the lock that node 1 returned with.\<close>

definition prepareDemoEvents :: "pdOutcome \<Rightarrow> ReceivedMessage event list" where
  "prepareDemoEvents outcome = map (\<lambda>p. Recv \<lparr>rm_From = p, rm_Msg = ProtocolMessage TagMVBARCPrepare 0 0
     (BrcPrepare \<lparr>rcpr_SID = ''sRCprepare'', rcpr_Leader = 0,
        rcpr_Lock = (if p = 0 then None else cloneLock (po_lock outcome))\<rparr>)\<rparr>) [0, 1, 2]"

lemma prepareDemo_run:
  "\<exists>b s out. runRCPrepare (plainNode 3 4 1) ''s'' 0 (prepareDemoEvents outcome) = Return (Ok b) s out"
  by (simp add: runRCPrepare_def prepareDemoEvents_def prepareHandle_def prepareOnMsg_def Let_def)

definition prepareDemoSched :: "int \<Rightarrow> ReceivedMessage event list" where
  "prepareDemoSched p =
     [pdMsg 0 0 (BpdStore (honestStore (pdSid ''s'' 0) demoStripes (nat p))),
      pdMsg 0 0 (BpdLock \<lparr>pdl_SID = pdSid ''s'' 0, pdl_Leader = 0, pdl_Root = fst (buildMerkle demoStripes),
         pdl_Certificate = demoDigest\<rparr>)]"

lemma prepareDemo_pd:
  assumes "p \<in> {1, 2}"
  shows "\<exists>outcome s out. runPDInstance plainEnv (plainNode p 4 1) (pdSid ''s'' 0) 0 [] (prepareDemoSched p) =
    Return (Ok outcome) s out \<and> po_lock outcome = Some \<lparr>pdl_SID = pdSid ''s'' 0, pdl_Leader = 0,
      pdl_Root = fst (buildMerkle demoStripes), pdl_Certificate = demoDigest\<rparr>"
proof -
  have "nat p < length demoStripes" "0 < p" using assms by (auto simp: demoStripes_def)
  then have "mb_Index (snd (buildMerkle demoStripes) ! nat p) = p"
    "verifyMerkle (demoStripes ! nat p) (fst (buildMerkle demoStripes)) (snd (buildMerkle demoStripes) ! nat p)"
    using branch_verifies [of "nat p" demoStripes] by auto
  then show ?thesis
    using \<open>0 < p\<close>
    by (simp add: runPDInstance_def pdInit_def Let_def prepareDemoSched_def pdHandle_def pdMsg_def
        pdOnStore_def pdOnLock_def honestStore_def pdStart_def demoDigest_def
        verifyThresholdCertificate_def)
qed

lemma plainNode_keys: "sameKeys (m_signer (plainNode i n f)) (m_signer (plainNode j n f))"
  by (simp add: sameKeys_def plainNode_def plainSigner_def)

theorem rcprepare_votes_one_witness:
  "\<exists>outcome s out. runRCPrepare (plainNode 3 4 1) ''s'' 0 (prepareDemoEvents outcome) = Return (Ok 1) s out"
proof -
  obtain outcome st out where pd: "runPDInstance plainEnv (plainNode p 4 1) (pdSid ''s'' 0) 0 []
      (prepareDemoSched p) = Return (Ok (outcome p)) (st p) (out p)"
    "po_lock (outcome p) = Some \<lparr>pdl_SID = pdSid ''s'' 0, pdl_Leader = 0,
      pdl_Root = fst (buildMerkle demoStripes), pdl_Certificate = demoDigest\<rparr>" if "p \<in> {1, 2}" for p
    using prepareDemo_pd by metis
  obtain b s' out' where run: "runRCPrepare (plainNode 3 4 1) ''s'' 0 (prepareDemoEvents (outcome 1)) =
      Return (Ok b) s' out'"
    using prepareDemo_run by blast
  have lock: "po_lock (outcome 2) = po_lock (outcome 1)" using pd(2) [of 1] pd(2) [of 2] by simp
  have "b = 1"
  proof (rule rcprepare_votes_one [of "plainNode 3 4 1" 4 1 "{1, 2}" "\<lambda>p. plainNode p 4 1" 0 plainEnv
        "''s''" "\<lambda>_. []" prepareDemoSched outcome st out "prepareDemoEvents (outcome 1)" b s' out'])
    show "\<forall>inp msg. Recv inp \<in> set (prepareDemoEvents (outcome 1)) \<and> pm_Body (rm_Msg inp) = BrcPrepare msg \<and>
        rm_From inp \<in> {1, 2} \<and> rcpr_Leader msg = 0 \<and> rcpr_SID msg = ''s'' @ ''RCprepare'' \<longrightarrow>
        rcpr_Lock msg = cloneLock (po_lock (outcome (rm_From inp)))"
      using lock by (auto simp: prepareDemoEvents_def)
    show "\<forall>p \<in> {1, 2}. cfg_ID (m_cfg (plainNode p 4 1)) \<noteq> 0 \<and>
        sameKeys (m_signer (plainNode p 4 1)) (m_signer (plainNode 3 4 1)) \<and>
        cfg_N (m_cfg (plainNode p 4 1)) = 4 \<and> cfg_F (m_cfg (plainNode p 4 1)) = 1 \<and>
        runPDInstance plainEnv (plainNode p 4 1) (pdSid ''s'' 0) 0 [] (prepareDemoSched p) =
          Return (Ok (outcome p)) (st p) (out p)"
      using pd(1) plainNode_keys by auto
  qed (use run in \<open>auto simp: prepareDemoEvents_def\<close>)
  then show ?thesis using run by blast
qed

theorem rcprepare_one_certified_witness:
  "\<exists>b s out. runRCPrepare (plainNode 3 4 1) ''s'' 0
      (prepareDemoEvents \<lparr>po_store = None, po_lock = None, po_done = None\<rparr>) = Return (Ok b) s out \<and>
    (b = 0 \<or> (b = 1 \<and> (\<exists>root c. verifyThresholdCertificate (m_signer (plainNode 3 4 1)) ''PD_STORED''
      (pdCertificateDigest ''PD_STORED'' (pdSid ''s'' 0) 0 root) c 3)))"
proof -
  obtain b s out where run: "runRCPrepare (plainNode 3 4 1) ''s'' 0
      (prepareDemoEvents \<lparr>po_store = None, po_lock = None, po_done = None\<rparr>) = Return (Ok b) s out"
    using prepareDemo_run by blast
  from rcprepare_one_certified [OF run] run show ?thesis by (simp add: prepareDemoEvents_def)
qed

end
