(* ===== verification/Mvba_Coin.thy ===== *)
theory Mvba_Coin
  imports Mvba_RC_Props
begin

text \<open>
  The shared coin (\<^verbatim>\<open>coin_equivalent.go\<close>). \<^verbatim>\<open>makeSharedCoin\<close> returns a function of the nonce that
  signs, sends its share to every node and collects shares until the threshold of the signer is
  reached; the recovered signature is hashed to the coin.
\<close>

section \<open>The coin\<close>

definition coinNumber :: "bytes \<Rightarrow> int" where
  "coinNumber h = uint (get64 (take 8 h) AND 0x7fffffff)"

fun sharesBuffer :: "(int \<times> bytes) list \<Rightarrow> int list \<Rightarrow> bytes" where
  "sharesBuffer shares [] = []"
| "sharesBuffer shares (k # keys) =
     bytes_of (itoa k @ '':'') @ (case map_of shares k of None \<Rightarrow> [] | Some s \<Rightarrow> s) @ sharesBuffer shares keys"

definition deriveCoinValue :: "string \<Rightarrow> string \<Rightarrow> string \<Rightarrow> (int \<times> bytes) list \<Rightarrow> int" where
  "deriveCoinValue mode0 sid nonce shares =
    (let mode = (if mode0 = [] then ''signature'' else mode0) in
     if mode = ''deterministic''
     then coinNumber (hashBytes [bytes_of ''EQ_COIN_DET'', bytes_of sid, bytes_of nonce])
     else coinNumber (hashBytes [bytes_of ''EQ_COIN_SIG'', bytes_of sid, bytes_of nonce,
            sharesBuffer shares (sort (map fst shares))]))"

definition coinDigest :: "string \<Rightarrow> string \<Rightarrow> bytes" where
  "coinDigest sid nonce = hashBytes [bytes_of ''EQ_COIN'', bytes_of sid, [0], bytes_of nonce]"

definition coinThreshold :: "DumboMVBA \<Rightarrow> int" where
  "coinThreshold m =
     (if sg_threshold (m_signer m) then sg_Threshold (m_signer m) ''EQ_COIN_SHARE'' else cfg_F (m_cfg m) + 1)"

definition coinRecovered :: "string \<Rightarrow> string \<Rightarrow> bytes \<Rightarrow> int" where
  "coinRecovered sid nonce recovered =
     coinNumber (hashBytes [bytes_of ''EQ_COIN_REC'', bytes_of sid, bytes_of nonce, recovered])"

text \<open>The state of a running coin is its map of shares. \<open>coinTurn\<close> is the head of the loop.\<close>

definition coinTurn :: "DumboMVBA \<Rightarrow> string \<Rightarrow> string \<Rightarrow> (int \<times> bytes) list \<Rightarrow> action list \<Rightarrow>
    ((int \<times> bytes) list, action, int) step" where
  "coinTurn m sid nonce shares out =
    (let sg = m_signer m; dig = coinDigest sid nonce in
     if int (length shares) \<ge> coinThreshold m then
       if sg_threshold sg \<and> cfg_EquivalentCoinMode (m_cfg m) \<noteq> ''deterministic'' then
         onOk (reErr ''recover equivalent threshold coin'' (sg_Recover sg ''EQ_COIN_SHARE'' dig shares)) shares out
           (\<lambda>recovered.
             if \<not> sg_VerifyRecovered sg ''EQ_COIN_SHARE'' dig recovered
             then Return (Err ''verify recovered equivalent threshold coin'') shares out
             else Return (Ok (coinRecovered sid nonce recovered)) shares out)
       else Return (Ok (deriveCoinValue (cfg_EquivalentCoinMode (m_cfg m)) sid nonce shares)) shares out
     else Continue shares out)"

definition coinHandle :: "DumboMVBA \<Rightarrow> string \<Rightarrow> string \<Rightarrow> (int \<times> bytes) list \<Rightarrow> ReceivedMessage event \<Rightarrow>
    ((int \<times> bytes) list, action, int) step" where
  "coinHandle m sid nonce shares e =
    (case e of
       CtxDone \<Rightarrow> Return (Err ''context done'') shares []
     | Recv inp \<Rightarrow>
        (case pm_Body (rm_Msg inp) of
           BcoinShare msg \<Rightarrow>
             if cs_SID msg \<noteq> sid \<or> cs_Nonce msg \<noteq> nonce then Continue shares []
             else if map_of shares (rm_From inp) \<noteq> None then Continue shares []
             else if \<not> sg_Verify (m_signer m) (rm_From inp) ''EQ_COIN_SHARE'' (coinDigest sid nonce) (cs_Share msg)
             then Continue shares []
             else coinTurn m sid nonce (putShare (rm_From inp) (cs_Share msg) shares) []
         | _ \<Rightarrow> Continue shares [])
     | _ \<Rightarrow> Continue shares [])"

definition coinInit :: "DumboMVBA \<Rightarrow> string \<Rightarrow> ProtocolTag \<Rightarrow> int \<Rightarrow> string \<Rightarrow>
    ((int \<times> bytes) list, action, int) step" where
  "coinInit m sid tag round nonce =
    (let dig = coinDigest sid nonce; sign = ASign ''EQ_COIN_SHARE'' dig in
     onOk (sg_Sign (m_signer m) ''EQ_COIN_SHARE'' dig) [] [sign] (\<lambda>share.
       coinTurn m sid nonce [(cfg_ID (m_cfg m), share)]
         (sign # map (\<lambda>i. ASend i (ProtocolMessage tag round 0
            (BcoinShare \<lparr>cs_SID = sid, cs_Nonce = nonce, cs_Share = share\<rparr>))) [0..cfg_N (m_cfg m) - 1])))"

definition makeSharedCoin :: "DumboMVBA \<Rightarrow> string \<Rightarrow> ProtocolTag \<Rightarrow> int \<Rightarrow> string \<Rightarrow> ReceivedMessage event list \<Rightarrow>
    ((int \<times> bytes) list, action, int) step" where
  "makeSharedCoin m sid tag round nonce es =
     thenLoop (coinInit m sid tag round nonce) (coinHandle m sid nonce) es"

text \<open>The coin that \<^verbatim>\<open>runEquivalent\<close> passes to \<^verbatim>\<open>runABA\<close>: for each nonce a run of the shared coin on the
  messages of its channel. A coin that has not returned never lets the agreement go on; it counts as an
  error here.\<close>

definition coinResult :: "((int \<times> bytes) list, action, int) step \<Rightarrow> int res" where
  "coinResult st = (case st of Return r s out \<Rightarrow> r | Continue s out \<Rightarrow> Err ''pending'')"

lemma coinResult_Ok: "coinResult st = Ok c \<Longrightarrow> \<exists>s out. st = Return (Ok c) s out"
  by (cases st) (simp_all add: coinResult_def)

section \<open>What a coin is\<close>

text \<open>A returned coin comes from a signature of the digest that verifies, or is deterministic.\<close>

definition coinValid :: "DumboMVBA \<Rightarrow> string \<Rightarrow> string \<Rightarrow> int res \<Rightarrow> (int \<times> bytes) list \<Rightarrow> action list \<Rightarrow> bool" where
  "coinValid m sid nonce r shares out \<longleftrightarrow>
     (\<forall>v. r = Ok v \<longrightarrow>
        (if cfg_EquivalentCoinMode (m_cfg m) = ''deterministic''
         then v = deriveCoinValue ''deterministic'' sid nonce []
         else \<exists>c. sg_VerifyRecovered (m_signer m) ''EQ_COIN_SHARE'' (coinDigest sid nonce) c \<and>
           v = coinRecovered sid nonce c))"

lemma coinTurn_valid:
  assumes "sg_threshold (m_signer m)" "coinTurn m sid nonce shares out = Return r s out'"
  shows "coinValid m sid nonce r s o2"
proof (cases "cfg_EquivalentCoinMode (m_cfg m) = ''deterministic''")
  case True
  then show ?thesis using assms
    by (auto simp: coinTurn_def Let_def coinValid_def deriveCoinValue_def split: if_splits)
next
  case False
  then show ?thesis using assms
    by (cases "sg_Recover (m_signer m) ''EQ_COIN_SHARE'' (coinDigest sid nonce) shares")
      (auto simp: coinTurn_def Let_def coinValid_def split: if_splits)
qed

lemma coinHandle_valid:
  assumes "sg_threshold (m_signer m)" "coinHandle m sid nonce shares e = Return r s out'"
  shows "coinValid m sid nonce r s o2"
proof (cases e)
  case (Recv inp)
  then show ?thesis
    using assms coinTurn_valid [OF assms(1)]
    by (cases "pm_Body (rm_Msg inp)") (auto simp: coinHandle_def split: if_splits)
qed (use assms in \<open>auto simp: coinHandle_def coinValid_def\<close>)

interpretation coin_loop: loop_contract "coinHandle m sid nonce" "\<lambda>_ _. sg_threshold (m_signer m)" "coinValid m sid nonce"
  for m sid nonce
  by unfold_locales (auto intro: coinHandle_valid)

lemma coin_valid:
  assumes "sg_threshold (m_signer m)" "makeSharedCoin m sid tag round nonce es = Return r s out"
  shows "coinValid m sid nonce r s out"
proof (rule coin_loop.loop_post [of m "coinInit m sid tag round nonce"])
  show "thenLoop (coinInit m sid tag round nonce) (coinHandle m sid nonce) es = Return r s out"
    using assms(2) by (simp add: makeSharedCoin_def)
  show "coinValid m sid nonce r s out" if "coinInit m sid tag round nonce = Return r s out" for r s out
    using that coinTurn_valid [OF assms(1)]
    by (cases "sg_Sign (m_signer m) ''EQ_COIN_SHARE'' (coinDigest sid nonce)")
      (auto simp: coinInit_def Let_def coinValid_def)
qed (rule assms(1))

text \<open>Threshold signatures that are unique: one digest has one signature.\<close>

definition uniqueSignatures :: "signer \<Rightarrow> string \<Rightarrow> bool" where
  "uniqueSignatures sg d \<longleftrightarrow>
     (\<forall>dig c c'. sg_VerifyRecovered sg d dig c \<longrightarrow> sg_VerifyRecovered sg d dig c' \<longrightarrow> c = c')"

lemma coin_common_lemma:
  assumes "sg_threshold (m_signer m)" "sameKeys (m_signer m) (m_signer m')"
    and "uniqueSignatures (m_signer m) ''EQ_COIN_SHARE''"
    and "cfg_EquivalentCoinMode (m_cfg m) = cfg_EquivalentCoinMode (m_cfg m')"
    and "makeSharedCoin m sid tag round nonce es = Return (Ok v) s out"
    and "makeSharedCoin m' sid tag' round' nonce es' = Return (Ok w) s' out'"
  shows "v = w"
proof -
  have th: "sg_threshold (m_signer m')" using assms(1,2) by (simp add: sameKeys_def)
  show ?thesis
    using coin_valid [OF assms(1,5)] coin_valid [OF th assms(6)] assms(2-4)
    by (auto simp: coinValid_def uniqueSignatures_def sameKeys_def split: if_splits)
qed

section \<open>The coin returns\<close>

text \<open>What the code relies on of its threshold signer: signing succeeds with a share that verifies, and
  enough valid shares of different nodes are recovered to a signature that verifies.\<close>

definition coinSigner :: "signer \<Rightarrow> int \<Rightarrow> string \<Rightarrow> bool" where
  "coinSigner sg i d \<longleftrightarrow>
     (\<forall>dig. \<exists>sh. sg_Sign sg d dig = Ok sh \<and> sg_Verify sg i d dig sh) \<and>
     (\<forall>dig shares. distinct (map fst shares) \<longrightarrow> (\<forall>(j, sh) \<in> set shares. sg_Verify sg j d dig sh) \<longrightarrow>
        sg_Threshold sg d \<le> int (length shares) \<longrightarrow>
        (\<exists>c. sg_Recover sg d dig shares = Ok c \<and> sg_VerifyRecovered sg d dig c))"

definition validShares :: "DumboMVBA \<Rightarrow> string \<Rightarrow> string \<Rightarrow> (int \<times> bytes) list \<Rightarrow> bool" where
  "validShares m sid nonce shares \<longleftrightarrow> distinct (map fst shares) \<and>
     (\<forall>(j, sh) \<in> set shares. sg_Verify (m_signer m) j ''EQ_COIN_SHARE'' (coinDigest sid nonce) sh)"

fun coinFrom :: "DumboMVBA \<Rightarrow> string \<Rightarrow> string \<Rightarrow> ReceivedMessage event \<Rightarrow> int set" where
  "coinFrom m sid nonce (Recv inp) =
     (case pm_Body (rm_Msg inp) of
        BcoinShare msg \<Rightarrow>
          if cs_SID msg = sid \<and> cs_Nonce msg = nonce \<and>
             sg_Verify (m_signer m) (rm_From inp) ''EQ_COIN_SHARE'' (coinDigest sid nonce) (cs_Share msg)
          then {rm_From inp} else {}
      | _ \<Rightarrow> {})"
| "coinFrom m sid nonce _ = {}"

lemma coinTurn_ok:
  assumes "sg_threshold (m_signer m)" "coinSigner (m_signer m) i ''EQ_COIN_SHARE''" "validShares m sid nonce shares"
  shows "if coinThreshold m \<le> int (length shares)
    then \<exists>v. coinTurn m sid nonce shares out = Return (Ok v) shares out
    else coinTurn m sid nonce shares out = Continue shares out"
proof (cases "coinThreshold m \<le> int (length shares)")
  case True
  then have "sg_Threshold (m_signer m) ''EQ_COIN_SHARE'' \<le> int (length shares)"
    using assms(1) by (simp add: coinThreshold_def)
  then obtain c where "sg_Recover (m_signer m) ''EQ_COIN_SHARE'' (coinDigest sid nonce) shares = Ok c"
    "sg_VerifyRecovered (m_signer m) ''EQ_COIN_SHARE'' (coinDigest sid nonce) c"
    using assms(2,3) unfolding coinSigner_def validShares_def by blast
  then show ?thesis using True by (auto simp: coinTurn_def Let_def)
qed (simp add: coinTurn_def Let_def)

lemma validShares_put:
  "validShares m sid nonce shares \<Longrightarrow> sg_Verify (m_signer m) j ''EQ_COIN_SHARE'' (coinDigest sid nonce) sh \<Longrightarrow>
    validShares m sid nonce (putShare j sh shares)"
  by (auto simp: validShares_def set_putShare)

lemma coinHandle_ok:
  assumes m: "sg_threshold (m_signer m)" "coinSigner (m_signer m) i ''EQ_COIN_SHARE''"
    and sh: "validShares m sid nonce shares" and e: "e \<noteq> CtxDone"
  obtains (ret) v s out where "coinHandle m sid nonce shares e = Return (Ok v) s out"
  | (cont) s out where "coinHandle m sid nonce shares e = Continue s out" "validShares m sid nonce s"
      "fst ` set s = fst ` set shares \<union> coinFrom m sid nonce e" "s = shares \<or> int (length s) < coinThreshold m"
proof (cases "\<exists>inp msg. e = Recv inp \<and> pm_Body (rm_Msg inp) = BcoinShare msg \<and> cs_SID msg = sid \<and> cs_Nonce msg = nonce \<and>
    map_of shares (rm_From inp) = None \<and>
    sg_Verify (m_signer m) (rm_From inp) ''EQ_COIN_SHARE'' (coinDigest sid nonce) (cs_Share msg)")
  case True
  then obtain inp msg where e': "e = Recv inp" "pm_Body (rm_Msg inp) = BcoinShare msg" "cs_SID msg = sid"
    "cs_Nonce msg = nonce" "map_of shares (rm_From inp) = None"
    and v: "sg_Verify (m_signer m) (rm_From inp) ''EQ_COIN_SHARE'' (coinDigest sid nonce) (cs_Share msg)" by blast
  let ?s = "putShare (rm_From inp) (cs_Share msg) shares"
  have h: "coinHandle m sid nonce shares e = coinTurn m sid nonce ?s []" using e' v by (simp add: coinHandle_def)
  have s: "validShares m sid nonce ?s" using validShares_put [OF sh v] .
  show thesis
  proof (cases "coinThreshold m \<le> int (length ?s)")
    case True
    then show thesis using ret h coinTurn_ok [OF m s, of "[]"] by auto
  next
    case False
    then show thesis using cont [of ?s "[]"] h coinTurn_ok [OF m s, of "[]"] s e' v by auto
  qed
next
  case False
  have "coinHandle m sid nonce shares e = Continue shares [] \<and> coinFrom m sid nonce e \<subseteq> fst ` set shares"
  proof (cases e)
    case (Recv inp)
    show ?thesis
    proof (cases "\<exists>msg. pm_Body (rm_Msg inp) = BcoinShare msg")
      case True
      then obtain msg where "pm_Body (rm_Msg inp) = BcoinShare msg" by blast
      then show ?thesis using Recv False by (auto simp: coinHandle_def map_of_eq_None_iff)
    next
      case other: False
      then have "coinFrom m sid nonce e = {}" "coinHandle m sid nonce shares e = Continue shares []"
        using Recv by (simp_all add: coinHandle_def split: Body.split)
      then show ?thesis by simp
    qed
  qed (use e in \<open>simp_all add: coinHandle_def\<close>)
  then show thesis using cont [of shares "[]"] sh by blast
qed

lemma coin_run_ok:
  assumes m: "sg_threshold (m_signer m)" "coinSigner (m_signer m) i ''EQ_COIN_SHARE''"
  shows "validShares m sid nonce shares \<Longrightarrow> int (length shares) < coinThreshold m \<Longrightarrow> CtxDone \<notin> set es \<Longrightarrow>
    coinThreshold m \<le> int (card (fst ` set shares \<union> (\<Union>e \<in> set es. coinFrom m sid nonce e))) \<Longrightarrow>
    \<exists>v s out. runLoop (coinHandle m sid nonce) shares es = Return (Ok v) s out"
proof (induction es arbitrary: shares)
  case Nil
  then have "card (fst ` set shares) = length shares" by (simp add: validShares_def length_shares)
  then show ?case using Nil by simp
next
  case (Cons e es)
  have "e \<noteq> CtxDone" using Cons.prems(3) by auto
  with m Cons.prems(1) show ?case
  proof (cases rule: coinHandle_ok)
    case (ret v s out)
    then show ?thesis by simp
  next
    case (cont s out)
    have "\<exists>v s' out. runLoop (coinHandle m sid nonce) s es = Return (Ok v) s' out"
      using cont(2-4) Cons.prems by (intro Cons.IH) (auto simp: Un_assoc)
    then show ?thesis using cont(1) by auto
  qed
qed

lemma coin_live_lemma:
  assumes m: "validNode m" "cfg_UseEquivalentPath (m_cfg m)"
    and sg: "coinSigner (m_signer m) (cfg_ID (m_cfg m)) ''EQ_COIN_SHARE''"
    and es: "CtxDone \<notin> set es"
    and enough: "cfg_F (m_cfg m) + 1 \<le>
      int (card (insert (cfg_ID (m_cfg m)) (\<Union>e \<in> set es. coinFrom m sid nonce e)))"
  shows "\<exists>v s out. makeSharedCoin m sid tag round nonce es = Return (Ok v) s out"
proof -
  have th: "sg_threshold (m_signer m)" "coinThreshold m = cfg_F (m_cfg m) + 1"
    using m by (auto simp: validNode_def Let_def coinThreshold_def)
  obtain sh where sh: "sg_Sign (m_signer m) ''EQ_COIN_SHARE'' (coinDigest sid nonce) = Ok sh"
    "sg_Verify (m_signer m) (cfg_ID (m_cfg m)) ''EQ_COIN_SHARE'' (coinDigest sid nonce) sh"
    using sg unfolding coinSigner_def by blast
  let ?s = "[(cfg_ID (m_cfg m), sh)]"
  have s: "validShares m sid nonce ?s" using sh by (simp add: validShares_def)
  obtain out0 where i: "coinInit m sid tag round nonce = coinTurn m sid nonce ?s out0"
    using sh by (auto simp: coinInit_def Let_def)
  show ?thesis
  proof (cases "coinThreshold m \<le> 1")
    case True
    then show ?thesis using coinTurn_ok [OF th(1) sg s, of out0] i by (auto simp: makeSharedCoin_def)
  next
    case False
    then have "coinInit m sid tag round nonce = Continue ?s out0" using coinTurn_ok [OF th(1) sg s, of out0] i by auto
    moreover have "\<exists>v s out. runLoop (coinHandle m sid nonce) ?s es = Return (Ok v) s out"
      using coin_run_ok [OF th(1) sg s _ es] False enough th(2) by simp
    ultimately show ?thesis by (auto simp: makeSharedCoin_def)
  qed
qed

section \<open>Properties\<close>


text \<open>C33. The coin returns. On every schedule of a valid node that is not cancelled and brings valid shares
  so that, with its own, \<open>f + 1\<close> nodes have contributed, in any order and among any other messages, the
  shared coin returns a number.\<close>

theorem coin_live:
  assumes m: "validNode m" "cfg_UseEquivalentPath (m_cfg m)"
    and sg: "coinSigner (m_signer m) (cfg_ID (m_cfg m)) ''EQ_COIN_SHARE''"
    and es: "CtxDone \<notin> set es"
    and enough: "cfg_F (m_cfg m) + 1 \<le>
      int (card (insert (cfg_ID (m_cfg m)) (\<Union>e \<in> set es. coinFrom m sid nonce e)))"
  shows "\<exists>v s out. makeSharedCoin m sid tag round nonce es = Return (Ok v) s out"
  using assms by (rule coin_live_lemma)

text \<open>Node 0 of four, with the share of node 1 and a message that is not for it.\<close>

definition coinEv :: "int \<Rightarrow> ReceivedMessage event" where
  "coinEv i = Recv \<lparr>rm_From = i, rm_Msg = ProtocolMessage TagMVBACoin 0 0
     (BcoinShare \<lparr>cs_SID = ''sCOIN'', cs_Nonce = ''permutation'', cs_Share = coinDigest ''sCOIN'' ''permutation''\<rparr>)\<rparr>"

lemma plainNode_coin: "0 \<le> i \<Longrightarrow> i < n \<Longrightarrow> coinSigner (m_signer (plainNode i n f)) i ''EQ_COIN_SHARE''"
  by (auto simp: coinSigner_def plainNode_def plainSigner_def)

lemma plainNode_unique: "uniqueSignatures (m_signer (plainNode i n f)) d"
  by (simp add: uniqueSignatures_def)

lemma coinDemo_enough:
  "i \<noteq> j \<Longrightarrow> 0 \<le> j \<Longrightarrow> j < 4 \<Longrightarrow>
    cfg_F (m_cfg (plainNode i 4 1)) + 1 \<le> int (card (insert (cfg_ID (m_cfg (plainNode i 4 1)))
      (\<Union>e \<in> set [TimerFired, coinEv j]. coinFrom (plainNode i 4 1) ''sCOIN'' ''permutation'' e)))"
  by (simp add: coinEv_def)

theorem coin_live_witness:
  "\<exists>v s out. makeSharedCoin (plainNode 0 4 1) ''sCOIN'' TagMVBACoin 0 ''permutation'' [TimerFired, coinEv 1] =
     Return (Ok v) s out"
  by (rule coin_live) (auto simp: plainNode_valid plainNode_coin coinEv_def)


end
