(* ===== verification/Mvba_ABA.thy ===== *)
theory Mvba_ABA
  imports Mvba_Node
begin

text \<open>
  Binary agreement (\<^verbatim>\<open>aba_equivalent.go\<close>). \<^verbatim>\<open>runABA\<close> is a sequential program that blocks in
  \<^verbatim>\<open>nextMessage\<close>. Its state here is the point it waits at (one of the three inner loops) and its
  variables; \<open>abaInternal\<close> is one turn of the loop it is in, as far as it gets without a new message
  (leaving the loop, or taking a message it had kept for this round), \<open>abaReceive\<close> the blocking
  receive. \<open>abaSettle\<close> iterates the turns until the program blocks or returns. The coin is a function
  argument of the source.
\<close>

section \<open>Value sets\<close>

fun normalizeLoop :: "int list \<Rightarrow> bool \<Rightarrow> bool \<Rightarrow> (bool \<times> bool) option" where
  "normalizeLoop [] seen0 seen1 = Some (seen0, seen1)"
| "normalizeLoop (v # vs) seen0 seen1 =
     (if v < 0 \<or> v > 1 \<or> (v = 0 \<and> seen0) \<or> (v = 1 \<and> seen1) then None
      else normalizeLoop vs (seen0 \<or> v = 0) (seen1 \<or> v = 1))"

definition normalizeABAValues :: "int list \<Rightarrow> int list" where
  "normalizeABAValues values =
     (case normalizeLoop values False False of
        None \<Rightarrow> []
      | Some (seen0, seen1) \<Rightarrow> (if seen0 then [0] else []) @ (if seen1 then [1] else []))"

definition binValues :: "int list \<Rightarrow> int list" where
  "binValues values = filter (\<lambda>v. v \<in> set values) [0, 1]"

definition abaSingleValueKey :: "int \<Rightarrow> string" where
  "abaSingleValueKey v = (if v = 0 then ''0'' else ''1'')"

text \<open>The argument of \<^verbatim>\<open>abaValuesKey\<close> is a set or a slice.\<close>

datatype abaValuesArg = ValueSet "int list" | ValueSlice "int list"

definition abaValuesKey :: "abaValuesArg \<Rightarrow> string" where
  "abaValuesKey values =
     (let normalized = (case values of ValueSet v \<Rightarrow> binValues v | ValueSlice v \<Rightarrow> normalizeABAValues v) in
      if length normalized = 1 then abaSingleValueKey (normalized ! 0)
      else if length normalized = 2 then ''01'' else [])"

definition abaValuesSubset :: "int list \<Rightarrow> int list \<Rightarrow> bool" where
  "abaValuesSubset values bin \<longleftrightarrow> list_all (\<lambda>v. v \<in> set bin) values \<and> values \<noteq> []"

section \<open>State\<close>

datatype abaWait = WaitBin | WaitAux | WaitConf

text \<open>Sets of nodes and values are lists without repetitions; \<open>ab_pending\<close> is the map of kept
  messages by round, in order of arrival.\<close>

record abaState =
  ab_estimate :: int
  ab_decision :: int
  ab_round :: int
  ab_wait :: abaWait
  ab_est :: "int \<Rightarrow> int list"
  ab_estSent :: "int \<Rightarrow> bool"
  ab_bin :: "int list"
  ab_aux :: "int \<Rightarrow> int list"
  ab_conf :: "(string \<times> int list) list"
  ab_confValues :: "(string \<times> int list) list"
  ab_pending :: "(int \<times> ReceivedMessage) list"

definition abaBroadcast :: "DumboMVBA \<Rightarrow> int \<Rightarrow> abaPhaseMsg \<Rightarrow> action list" where
  "abaBroadcast m iter msg =
     map (\<lambda>peer. ASend peer (ProtocolMessage TagMVBAABA iter 0 (BabaPhase msg))) [0..cfg_N (m_cfg m) - 1]"

definition abaMsg :: "string \<Rightarrow> int \<Rightarrow> int \<Rightarrow> string \<Rightarrow> int \<Rightarrow> int list \<Rightarrow> abaPhaseMsg" where
  "abaMsg sid iter round phase value values =
     \<lparr>ap_SID = sid, ap_Iter = iter, ap_Round = round, ap_Phase = phase, ap_Value = value, ap_Values = values\<rparr>"

definition sendEST :: "DumboMVBA \<Rightarrow> string \<Rightarrow> int \<Rightarrow> abaState \<Rightarrow> int \<Rightarrow> abaState \<times> action list" where
  "sendEST m sid iter s v =
     (if (v \<noteq> 0 \<and> v \<noteq> 1) \<or> ab_estSent s v then (s, [])
      else (s\<lparr>ab_estSent := (ab_estSent s)(v := True),
              ab_est := (ab_est s)(v := List.insert (cfg_ID (m_cfg m)) (ab_est s v))\<rparr>,
            abaBroadcast m iter (abaMsg sid iter (ab_round s) abaPhaseEST v [])))"

text \<open>The variables at the start of a round, and \<^verbatim>\<open>sendEST(estimate)\<close>.\<close>

definition abaStartRound ::
  "DumboMVBA \<Rightarrow> string \<Rightarrow> int \<Rightarrow> int \<Rightarrow> int \<Rightarrow> int \<Rightarrow> (int \<times> ReceivedMessage) list \<Rightarrow> abaState \<times> action list" where
  "abaStartRound m sid iter round estimate decision pending =
     sendEST m sid iter
       \<lparr>ab_estimate = estimate, ab_decision = decision, ab_round = round, ab_wait = WaitBin,
        ab_est = (\<lambda>_. []), ab_estSent = (\<lambda>_. False), ab_bin = [], ab_aux = (\<lambda>_. []),
        ab_conf = [], ab_confValues = [], ab_pending = pending\<rparr> estimate"

definition confGet :: "string \<Rightarrow> (string \<times> int list) list \<Rightarrow> int list" where
  "confGet key conf = (case map_of conf key of None \<Rightarrow> [] | Some senders \<Rightarrow> senders)"

section \<open>Messages\<close>

definition abaAccept ::
  "DumboMVBA \<Rightarrow> string \<Rightarrow> int \<Rightarrow> abaState \<Rightarrow> ReceivedMessage \<Rightarrow> abaState \<times> action list" where
  "abaAccept m sid iter s inp =
    (let n = cfg_N (m_cfg m); f = cfg_F (m_cfg m); from = rm_From inp in
     case pm_Body (rm_Msg inp) of
       BabaPhase body \<Rightarrow>
        if ap_SID body \<noteq> sid \<or> ap_Iter body \<noteq> iter \<or> ap_Round body \<noteq> ab_round s \<or> from < 0 \<or> from \<ge> n
        then (s, [])
        else if ap_Phase body = abaPhaseEST then
          (let v = ap_Value body in
           if v < 0 \<or> v > 1 then (s, [])
           else if from \<in> set (ab_est s v) then (s, [])
           else
             let s1 = s\<lparr>ab_est := (ab_est s)(v := List.insert from (ab_est s v))\<rparr>;
                 (s2, out) = (if int (length (ab_est s1 v)) \<ge> f + 1 then sendEST m sid iter s1 v else (s1, []));
                 s3 = (if int (length (ab_est s2 v)) \<ge> 2 * f + 1
                       then s2\<lparr>ab_bin := List.insert v (ab_bin s2)\<rparr> else s2)
             in (s3, out))
        else if ap_Phase body = abaPhaseAUX then
          (let v = ap_Value body in
           if v \<ge> 0 \<and> v \<le> 1
           then (s\<lparr>ab_aux := (ab_aux s)(v := List.insert from (ab_aux s v))\<rparr>, []) else (s, []))
        else if ap_Phase body = abaPhaseCONF then
          (let values = normalizeABAValues (ap_Values body) in
           if values = [] then (s, [])
           else
             let key = abaValuesKey (ValueSlice values);
                 s1 = (if map_of (ab_conf s) key = None
                       then s\<lparr>ab_confValues := AList.update key values (ab_confValues s)\<rparr> else s)
             in (s1\<lparr>ab_conf := AList.update key (List.insert from (confGet key (ab_conf s))) (ab_conf s)\<rparr>, []))
        else (s, [])
     | _ \<Rightarrow> (s, []))"

definition pendingFor :: "int \<Rightarrow> (int \<times> ReceivedMessage) list \<Rightarrow> ReceivedMessage list" where
  "pendingFor round pending = map snd (filter (\<lambda>p. fst p = round) pending)"

fun dropFirst :: "int \<Rightarrow> (int \<times> ReceivedMessage) list \<Rightarrow> (int \<times> ReceivedMessage) list" where
  "dropFirst round [] = []"
| "dropFirst round (p # ps) = (if fst p = round then ps else p # dropFirst round ps)"

section \<open>Leaving the inner loops\<close>

definition auxChoice :: "abaState \<Rightarrow> int" where
  "auxChoice s = (if 0 \<in> set (ab_bin s) then 0 else 1)"

definition auxValues :: "DumboMVBA \<Rightarrow> abaState \<Rightarrow> int list" where
  "auxValues m s =
    (let quorum = cfg_N (m_cfg m) - cfg_F (m_cfg m) in
     if 1 \<in> set (ab_bin s) \<and> int (length (ab_aux s 1)) \<ge> quorum then [1]
     else if 0 \<in> set (ab_bin s) \<and> int (length (ab_aux s 0)) \<ge> quorum then [0]
     else
       let seen = remdups (concat (map (ab_aux s) (ab_bin s))) in
       if int (length seen) \<ge> quorum
       then (if 0 \<in> set (ab_bin s) then [0] else []) @ (if 1 \<in> set (ab_bin s) then [1] else [])
       else [])"

definition compatibleSenders :: "abaState \<Rightarrow> int list" where
  "compatibleSenders s =
     remdups (concat (map snd (filter (\<lambda>(key, senders).
       abaValuesSubset (confGet key (ab_confValues s)) (ab_bin s)) (ab_conf s))))"

definition decidedValues :: "DumboMVBA \<Rightarrow> abaState \<Rightarrow> int list" where
  "decidedValues m s =
    (let quorum = cfg_N (m_cfg m) - cfg_F (m_cfg m) in
     if 1 \<in> set (ab_bin s) \<and> int (length (confGet (abaSingleValueKey 1) (ab_conf s))) \<ge> quorum then [1]
     else if 0 \<in> set (ab_bin s) \<and> int (length (confGet (abaSingleValueKey 0) (ab_conf s))) \<ge> quorum then [0]
     else if int (length (compatibleSenders s)) \<ge> quorum then [0, 1] else [])"

definition abaNonce :: "int \<Rightarrow> string" where
  "abaNonce round = ''round-'' @ itoa round"

definition abaFinishRound ::
  "DumboMVBA \<Rightarrow> string \<Rightarrow> int \<Rightarrow> (string \<Rightarrow> int res) \<Rightarrow> abaState \<Rightarrow> int list \<Rightarrow> (abaState, action, int) step" where
  "abaFinishRound m sid iter coin s decided =
     onOk (coin (abaNonce (ab_round s))) s [] (\<lambda>coinValue0.
       let coinValue = coinValue0 AND 1 in
       if length decided = 1 then
         let v = decided ! 0 in
         if v = coinValue \<and> ab_decision s = v then Return (Ok v) s []
         else
           let (s', out) = abaStartRound m sid iter (ab_round s + 1) v
                 (if v = coinValue then v else ab_decision s) (ab_pending s)
           in Continue s' out
       else
         let (s', out) = abaStartRound m sid iter (ab_round s + 1) coinValue (ab_decision s) (ab_pending s)
         in Continue s' out)"

text \<open>The next message of the round when one was kept.\<close>

definition abaTakePending :: "DumboMVBA \<Rightarrow> string \<Rightarrow> int \<Rightarrow> abaState \<Rightarrow> (abaState \<times> action list) option" where
  "abaTakePending m sid iter s =
     (case pendingFor (ab_round s) (ab_pending s) of
        [] \<Rightarrow> None
      | inp # _ \<Rightarrow> Some (abaAccept m sid iter (s\<lparr>ab_pending := dropFirst (ab_round s) (ab_pending s)\<rparr>) inp))"

definition abaInternal ::
  "DumboMVBA \<Rightarrow> string \<Rightarrow> int \<Rightarrow> (string \<Rightarrow> int res) \<Rightarrow> abaState \<Rightarrow> (abaState, action, int) step option" where
  "abaInternal m sid iter coin s =
    (let me = cfg_ID (m_cfg m);
         blocked = map_option (\<lambda>(s', out). Continue s' out) (abaTakePending m sid iter s) in
     case ab_wait s of
       WaitBin \<Rightarrow>
        if ab_bin s = [] then blocked
        else
          let v = auxChoice s in
          Some (Continue (s\<lparr>ab_wait := WaitAux, ab_aux := (ab_aux s)(v := List.insert me (ab_aux s v))\<rparr>)
            (abaBroadcast m iter (abaMsg sid iter (ab_round s) abaPhaseAUX v [])))
     | WaitAux \<Rightarrow>
        let values = auxValues m s in
        if values = [] then blocked
        else
          let key = abaValuesKey (ValueSlice values) in
          Some (Continue (s\<lparr>ab_wait := WaitConf, ab_conf := AList.update key [me] (ab_conf s),
                            ab_confValues := AList.update key values (ab_confValues s)\<rparr>)
            (abaBroadcast m iter (abaMsg sid iter (ab_round s) abaPhaseCONF 0 values)))
     | WaitConf \<Rightarrow>
        let decided = decidedValues m s in
        if decided = [] then blocked else Some (abaFinishRound m sid iter coin s decided))"

section \<open>Termination of the turns\<close>

definition abaRank :: "abaState \<Rightarrow> nat" where
  "abaRank s = 4 * length (ab_pending s) +
     (case ab_wait s of WaitBin \<Rightarrow> if ab_bin s = [] then 0 else 3 | WaitAux \<Rightarrow> 2 | WaitConf \<Rightarrow> 1)"

lemma sendEST_frame:
  "ab_pending (fst (sendEST m sid iter s v)) = ab_pending s"
  "ab_wait (fst (sendEST m sid iter s v)) = ab_wait s"
  "ab_bin (fst (sendEST m sid iter s v)) = ab_bin s"
  "ab_round (fst (sendEST m sid iter s v)) = ab_round s"
  "ab_estimate (fst (sendEST m sid iter s v)) = ab_estimate s"
  "ab_decision (fst (sendEST m sid iter s v)) = ab_decision s"
  "ab_conf (fst (sendEST m sid iter s v)) = ab_conf s"
  "ab_confValues (fst (sendEST m sid iter s v)) = ab_confValues s"
  "ab_aux (fst (sendEST m sid iter s v)) = ab_aux s"
  by (simp_all add: sendEST_def)

lemma abaAccept_frame:
  "ab_pending (fst (abaAccept m sid iter s inp)) = ab_pending s"
  "ab_wait (fst (abaAccept m sid iter s inp)) = ab_wait s"
  "ab_round (fst (abaAccept m sid iter s inp)) = ab_round s"
  "ab_estimate (fst (abaAccept m sid iter s inp)) = ab_estimate s"
  "ab_decision (fst (abaAccept m sid iter s inp)) = ab_decision s"
  by (auto simp: abaAccept_def Let_def sendEST_frame split_beta split: Body.split)

lemma length_dropFirst:
  "pendingFor r ps \<noteq> [] \<Longrightarrow> length (dropFirst r ps) < length ps"
  by (induction ps) (auto simp: pendingFor_def)

lemma rank_less: "ab_pending s = ps \<Longrightarrow> length ps < k \<Longrightarrow> abaRank s < 4 * k"
  by (auto simp: abaRank_def split: abaWait.split)

lemma abaTakePending_rank:
  assumes "abaTakePending m sid iter s = Some (s', out)"
  shows "abaRank s' < abaRank s"
proof -
  obtain inp rest where p: "pendingFor (ab_round s) (ab_pending s) = inp # rest"
    and s': "s' = fst (abaAccept m sid iter (s\<lparr>ab_pending := dropFirst (ab_round s) (ab_pending s)\<rparr>) inp)"
    using assms by (auto simp: abaTakePending_def split: list.splits)
  have "length (ab_pending s') < length (ab_pending s)"
    using length_dropFirst [of "ab_round s" "ab_pending s"] p by (simp add: s' abaAccept_frame)
  then have "abaRank s' < 4 * length (ab_pending s)" by (intro rank_less) auto
  then show ?thesis by (simp add: abaRank_def)
qed

lemma abaStartRound_rank:
  "abaRank (fst (abaStartRound m sid iter r e d ps)) = 4 * length ps"
  by (simp add: abaStartRound_def abaRank_def sendEST_frame)

lemma abaFinishRound_continue:
  assumes "abaFinishRound m sid iter coin s decided = Continue s' out"
  obtains r e d where "s' = fst (abaStartRound m sid iter r e d (ab_pending s))"
  using assms
  by (cases "coin (abaNonce (ab_round s))")
    (auto simp: abaFinishRound_def Let_def split_beta split: if_splits)

lemma abaInternal_rank:
  assumes i: "abaInternal m sid iter coin s = Some (Continue s' out)"
  shows "abaRank s' < abaRank s"
proof (cases "abaTakePending m sid iter s = Some (s', out)")
  case True
  then show ?thesis by (rule abaTakePending_rank)
next
  case False
  then have nb: "map_option (\<lambda>(s', out). Continue s' out) (abaTakePending m sid iter s) \<noteq> Some (Continue s' out)"
    by (cases "abaTakePending m sid iter s") auto
  show ?thesis
  proof (cases "ab_wait s")
    case WaitBin
    then have "ab_bin s \<noteq> []" using i nb by (auto simp: abaInternal_def)
    then show ?thesis using i WaitBin by (auto simp: abaInternal_def Let_def abaRank_def)
  next
    case WaitAux
    then have "auxValues m s \<noteq> []" using i nb by (auto simp: abaInternal_def)
    then show ?thesis using i WaitAux by (auto simp: abaInternal_def Let_def abaRank_def)
  next
    case WaitConf
    then have "decidedValues m s \<noteq> []" using i nb by (auto simp: abaInternal_def)
    then have "abaFinishRound m sid iter coin s (decidedValues m s) = Continue s' out"
      using i WaitConf by (simp add: abaInternal_def)
    then obtain r e d where "s' = fst (abaStartRound m sid iter r e d (ab_pending s))"
      by (rule abaFinishRound_continue)
    then show ?thesis using WaitConf by (simp add: abaStartRound_rank) (simp add: abaRank_def)
  qed
qed

function abaSettle ::
  "DumboMVBA \<Rightarrow> string \<Rightarrow> int \<Rightarrow> (string \<Rightarrow> int res) \<Rightarrow> abaState \<Rightarrow> (abaState, action, int) step" where
  "abaSettle m sid iter coin s =
     (case abaInternal m sid iter coin s of
        None \<Rightarrow> Continue s []
      | Some (Return r s' out) \<Rightarrow> Return r s' out
      | Some (Continue s' out) \<Rightarrow> prependOut out (abaSettle m sid iter coin s'))"
  by pat_completeness auto
termination
  by (relation "measure (\<lambda>(m, sid, iter, coin, s). abaRank s)") (auto intro: abaInternal_rank)

declare abaSettle.simps [simp del]

section \<open>The program\<close>

definition abaReceive ::
  "DumboMVBA \<Rightarrow> string \<Rightarrow> int \<Rightarrow> abaState \<Rightarrow> ReceivedMessage event \<Rightarrow> (abaState, action, int) step" where
  "abaReceive m sid iter s e =
    (case e of
       CtxDone \<Rightarrow> Return (Err ''context done'') s []
     | RecvClosed \<Rightarrow> Return (Err ''ABA receive channel closed'') s []
     | TimerFired \<Rightarrow> Continue s []
     | Recv inp \<Rightarrow>
        (case pm_Body (rm_Msg inp) of
           BabaPhase body \<Rightarrow>
             if ap_SID body \<noteq> sid \<or> ap_Iter body \<noteq> iter then Continue s []
             else if ap_Round body \<noteq> ab_round s
             then (if ap_Round body > ab_round s
                   then Continue (s\<lparr>ab_pending := ab_pending s @ [(ap_Round body, inp)]\<rparr>) []
                   else Continue s [])
             else let (s', out) = abaAccept m sid iter s inp in Continue s' out
         | _ \<Rightarrow> Continue s []))"

definition abaHandle ::
  "DumboMVBA \<Rightarrow> string \<Rightarrow> int \<Rightarrow> (string \<Rightarrow> int res) \<Rightarrow> abaState \<Rightarrow> ReceivedMessage event \<Rightarrow>
   (abaState, action, int) step" where
  "abaHandle m sid iter coin s e =
     (case abaReceive m sid iter s e of
        Return r s' out \<Rightarrow> Return r s' out
      | Continue s' out \<Rightarrow> prependOut out (abaSettle m sid iter coin s'))"

definition abaInit ::
  "DumboMVBA \<Rightarrow> string \<Rightarrow> int \<Rightarrow> int \<Rightarrow> (string \<Rightarrow> int res) \<Rightarrow> (abaState, action, int) step" where
  "abaInit m sid iter input coin =
    (let n = cfg_N (m_cfg m); f = cfg_F (m_cfg m); (s, out) = abaStartRound m sid iter 0 input (- 1) [] in
     if n < 3 * f + 1 \<or> input < 0 \<or> input > 1 then Return (Err ''invalid ABA parameters'') s []
     else prependOut out (abaSettle m sid iter coin s))"

definition runABA ::
  "DumboMVBA \<Rightarrow> string \<Rightarrow> int \<Rightarrow> int \<Rightarrow> (string \<Rightarrow> int res) \<Rightarrow> ReceivedMessage event list \<Rightarrow>
   (abaState, action, int) step" where
  "runABA m sid iter input coin es = thenLoop (abaInit m sid iter input coin) (abaHandle m sid iter coin) es"

end
