(* ===== verification/Mvba_ABA_Net.thy ===== *)
theory Mvba_ABA_Net
  imports Mvba_ABA
begin

text \<open>
  Binary agreement over all nodes. \<open>abaNet\<close> is the set of configurations that the honest nodes reach
  when each runs \<^verbatim>\<open>runABA\<close> (\<open>abaInit\<close>, then \<open>abaHandle\<close> for every event of its channel): the network
  delivers any message of a faulty node at any time, and a message of an honest node only after it was
  sent. \<open>abaInv\<close> is the invariant of these configurations, with two ghost relations: \<open>E\<close>, the estimate
  each honest node started a round with, and \<open>D\<close>, the values a round ended with.
\<close>

section \<open>The system\<close>

record abaSys =
  sy_n :: int
  sy_f :: int
  sy_faulty :: "int set"
  sy_node :: "int \<Rightarrow> DumboMVBA"
  sy_sid :: string
  sy_iter :: int
  sy_input :: "int \<Rightarrow> int"
  sy_coin :: "int \<Rightarrow> string \<Rightarrow> int res"
  sy_bit :: "int \<Rightarrow> int"

definition honest :: "abaSys \<Rightarrow> int set" where
  "honest Y = {0..<sy_n Y} - sy_faulty Y"

text \<open>At most \<open>f\<close> faulty nodes; the coin shows every node the same bit for a round when it returns at
  all (\<open>sy_bit\<close>).\<close>

definition abaSystem :: "abaSys \<Rightarrow> bool" where
  "abaSystem Y \<longleftrightarrow>
     0 \<le> sy_f Y \<and> 3 * sy_f Y + 1 \<le> sy_n Y \<and> finite (sy_faulty Y) \<and> int (card (sy_faulty Y)) \<le> sy_f Y \<and>
     (\<forall>p \<in> honest Y. cfg_ID (m_cfg (sy_node Y p)) = p \<and> cfg_N (m_cfg (sy_node Y p)) = sy_n Y \<and>
        cfg_F (m_cfg (sy_node Y p)) = sy_f Y \<and>
        (\<forall>r c. sy_coin Y p (abaNonce r) = Ok c \<longrightarrow> c AND 1 = sy_bit Y r))"

datatype abaProc = Idle | Running abaState | Returned "int res"

type_synonym abaSent = "(int \<times> abaPhaseMsg) set"

definition phasesOf :: "int \<Rightarrow> action list \<Rightarrow> abaSent" where
  "phasesOf p out = {(p, b) |b. \<exists>peer tag r l. ASend peer (ProtocolMessage tag r l (BabaPhase b)) \<in> set out}"

fun procOf :: "(abaState, action, int) step \<Rightarrow> abaProc" where
  "procOf (Continue s out) = Running s"
| "procOf (Return r s out) = Returned r"

definition authentic :: "abaSys \<Rightarrow> abaSent \<Rightarrow> ReceivedMessage \<Rightarrow> bool" where
  "authentic Y S inp \<longleftrightarrow>
     (\<forall>b. rm_From inp \<in> honest Y \<longrightarrow> pm_Body (rm_Msg inp) = BabaPhase b \<longrightarrow>
        ap_SID b = sy_sid Y \<longrightarrow> ap_Iter b = sy_iter Y \<longrightarrow> (rm_From inp, b) \<in> S)"

fun authEvent :: "abaSys \<Rightarrow> abaSent \<Rightarrow> ReceivedMessage event \<Rightarrow> bool" where
  "authEvent Y S (Recv inp) = authentic Y S inp"
| "authEvent Y S _ = True"

inductive abaNet :: "abaSys \<Rightarrow> (int \<Rightarrow> abaProc) \<Rightarrow> abaSent \<Rightarrow> bool" for Y where
  net_init: "abaNet Y (\<lambda>_. Idle) {}"
| net_start: "abaNet Y \<sigma> S \<Longrightarrow> p \<in> honest Y \<Longrightarrow> \<sigma> p = Idle \<Longrightarrow>
    st = abaInit (sy_node Y p) (sy_sid Y) (sy_iter Y) (sy_input Y p) (sy_coin Y p) \<Longrightarrow>
    abaNet Y (\<sigma>(p := procOf st)) (S \<union> phasesOf p (stepOut st))"
| net_handle: "abaNet Y \<sigma> S \<Longrightarrow> p \<in> honest Y \<Longrightarrow> \<sigma> p = Running s \<Longrightarrow> authEvent Y S e \<Longrightarrow>
    st = abaHandle (sy_node Y p) (sy_sid Y) (sy_iter Y) (sy_coin Y p) s e \<Longrightarrow>
    abaNet Y (\<sigma>(p := procOf st)) (S \<union> phasesOf p (stepOut st))"

section \<open>The invariant\<close>

definition estBy :: "abaSent \<Rightarrow> int \<Rightarrow> int \<Rightarrow> int \<Rightarrow> bool" where
  "estBy S r v q \<longleftrightarrow> (\<exists>b. (q, b) \<in> S \<and> ap_Phase b = abaPhaseEST \<and> ap_Round b = r \<and> ap_Value b = v)"

definition confBy :: "abaSent \<Rightarrow> int \<Rightarrow> string \<Rightarrow> int \<Rightarrow> bool" where
  "confBy S r key q \<longleftrightarrow> (\<exists>b. (q, b) \<in> S \<and> ap_Phase b = abaPhaseCONF \<and> ap_Round b = r \<and>
     abaValuesKey (ValueSlice (normalizeABAValues (ap_Values b))) = key)"

definition senders :: "abaSys \<Rightarrow> (int \<Rightarrow> bool) \<Rightarrow> int list \<Rightarrow> bool" where
  "senders Y P qs \<longleftrightarrow> distinct qs \<and> (\<forall>q \<in> set qs. 0 \<le> q \<and> q < sy_n Y \<and> (q \<in> honest Y \<longrightarrow> P q))"

type_synonym abaEst = "(int \<times> int \<times> int) set"
type_synonym abaDec = "(int \<times> int \<times> int list) set"

definition confKeys :: "(string \<times> int list) set" where
  "confKeys = {(''0'', [0]), (''1'', [1]), (''01'', [0, 1])}"

definition confTable :: "abaSys \<Rightarrow> abaSent \<Rightarrow> int \<Rightarrow> (string \<times> int list) list \<Rightarrow> (string \<times> int list) list \<Rightarrow> bool" where
  "confTable Y S r conf confValues \<longleftrightarrow>
     distinct (map fst conf) \<and>
     (\<forall>key qs. map_of conf key = Some qs \<longrightarrow> senders Y (confBy S r key) qs \<and>
        (\<exists>vs. map_of confValues key = Some vs \<and> (key, vs) \<in> confKeys))"

definition localInv :: "abaSys \<Rightarrow> abaSent \<Rightarrow> abaEst \<Rightarrow> int \<Rightarrow> abaState \<Rightarrow> bool" where
  "localInv Y S E p s \<longleftrightarrow>
     0 \<le> ab_round s \<and> (p, ab_round s, ab_estimate s) \<in> E \<and>
     (\<forall>x \<in> set (ab_pending s). authentic Y S (snd x)) \<and>
     (\<forall>v. senders Y (estBy S (ab_round s) v) (ab_est s v)) \<and>
     (\<forall>v \<in> set (ab_bin s). (v = 0 \<or> v = 1) \<and> 2 * sy_f Y + 1 \<le> int (length (ab_est s v))) \<and>
     confTable Y S (ab_round s) (ab_conf s) (ab_confValues s) \<and>
     (\<forall>b. (p, b) \<in> S \<longrightarrow> ap_Phase b = abaPhaseCONF \<longrightarrow>
        ap_Round b < ab_round s \<or> (ap_Round b = ab_round s \<and> ab_wait s = WaitConf))"

definition estAt :: "abaEst \<Rightarrow> int \<Rightarrow> int \<Rightarrow> bool" where
  "estAt E r v \<longleftrightarrow> (\<exists>q. (q, r, v) \<in> E)"

definition confQuorum :: "abaSys \<Rightarrow> abaSent \<Rightarrow> int \<Rightarrow> int \<Rightarrow> bool" where
  "confQuorum Y S r v \<longleftrightarrow>
     (\<exists>qs. senders Y (confBy S r (abaSingleValueKey v)) qs \<and> sy_n Y - sy_f Y \<le> int (length qs))"

definition decJust :: "abaSys \<Rightarrow> abaSent \<Rightarrow> abaEst \<Rightarrow> int \<Rightarrow> int list \<Rightarrow> bool" where
  "decJust Y S E r d \<longleftrightarrow>
     (\<exists>v. d = [v] \<and> (v = 0 \<or> v = 1) \<and> confQuorum Y S r v \<and> estAt E r v) \<or>
     (d = [0, 1] \<and> estAt E r 0 \<and> estAt E r 1)"

definition nextEstimate :: "abaSys \<Rightarrow> int \<Rightarrow> int list \<Rightarrow> int" where
  "nextEstimate Y r d = (if length d = 1 then d ! 0 else sy_bit Y r)"

definition estJust :: "abaSys \<Rightarrow> abaDec \<Rightarrow> int \<Rightarrow> int \<Rightarrow> int \<Rightarrow> bool" where
  "estJust Y D q r e \<longleftrightarrow> q \<in> honest Y \<and> (e = 0 \<or> e = 1) \<and>
     (r = 0 \<and> e = sy_input Y q \<or> 0 < r \<and> (\<exists>d. (q, r - 1, d) \<in> D \<and> e = nextEstimate Y (r - 1) d))"

definition confUnique :: "abaSent \<Rightarrow> bool" where
  "confUnique S \<longleftrightarrow>
     (\<forall>q b b'. (q, b) \<in> S \<longrightarrow> (q, b') \<in> S \<longrightarrow> ap_Phase b = abaPhaseCONF \<longrightarrow> ap_Phase b' = abaPhaseCONF \<longrightarrow>
        ap_Round b = ap_Round b' \<longrightarrow> ap_Values b = ap_Values b')"

definition globalInv :: "abaSys \<Rightarrow> abaSent \<Rightarrow> abaEst \<Rightarrow> abaDec \<Rightarrow> bool" where
  "globalInv Y S E D \<longleftrightarrow>
     (\<forall>(q, b) \<in> S. ap_Phase b = abaPhaseEST \<longrightarrow> estAt E (ap_Round b) (ap_Value b)) \<and>
     confUnique S \<and>
     (\<forall>(q, r, d) \<in> D. decJust Y S E r d) \<and>
     (\<forall>(q, r, e) \<in> E. estJust Y D q r e)"

definition returnJust :: "abaSys \<Rightarrow> abaDec \<Rightarrow> int \<Rightarrow> int res \<Rightarrow> bool" where
  "returnJust Y D p res \<longleftrightarrow> (\<forall>v. res = Ok v \<longrightarrow> (\<exists>r. 0 \<le> r \<and> (p, r, [v]) \<in> D \<and> sy_bit Y r = v))"

fun procInv :: "abaSys \<Rightarrow> abaSent \<Rightarrow> abaEst \<Rightarrow> abaDec \<Rightarrow> int \<Rightarrow> abaProc \<Rightarrow> bool" where
  "procInv Y S E D p Idle = (\<forall>b. (p, b) \<notin> S)"
| "procInv Y S E D p (Running s) = localInv Y S E p s"
| "procInv Y S E D p (Returned r) = returnJust Y D p r"

definition abaInv :: "abaSys \<Rightarrow> (int \<Rightarrow> abaProc) \<Rightarrow> abaSent \<Rightarrow> abaEst \<Rightarrow> abaDec \<Rightarrow> bool" where
  "abaInv Y \<sigma> S E D \<longleftrightarrow> (\<forall>p. procInv Y S E D p (\<sigma> p)) \<and> globalInv Y S E D"

section \<open>Monotonicity\<close>

lemma estBy_mono: "estBy S r v q \<Longrightarrow> S \<subseteq> S' \<Longrightarrow> estBy S' r v q"
  by (auto simp: estBy_def)

lemma confBy_mono: "confBy S r k q \<Longrightarrow> S \<subseteq> S' \<Longrightarrow> confBy S' r k q"
  by (auto simp: confBy_def)

lemma senders_mono: "senders Y P qs \<Longrightarrow> (\<And>q. P q \<Longrightarrow> P' q) \<Longrightarrow> senders Y P' qs"
  by (auto simp: senders_def)

lemma authentic_mono: "authentic Y S inp \<Longrightarrow> S \<subseteq> S' \<Longrightarrow> authentic Y S' inp"
  by (auto simp: authentic_def)

lemma confTable_mono: "confTable Y S r conf vals \<Longrightarrow> S \<subseteq> S' \<Longrightarrow> confTable Y S' r conf vals"
  unfolding confTable_def by (fastforce elim: senders_mono intro: confBy_mono)

lemma localInv_mono:
  assumes "localInv Y S E p s" "S \<subseteq> S'" "E \<subseteq> E'" "\<And>b. (p, b) \<in> S' \<Longrightarrow> (p, b) \<in> S"
  shows "localInv Y S' E' p s"
  using assms(1,3,4)
  unfolding localInv_def
  by (auto intro: authentic_mono [OF _ assms(2)] senders_mono estBy_mono [OF _ assms(2)] confTable_mono [OF _ assms(2)])

lemma estAt_mono: "estAt E r v \<Longrightarrow> E \<subseteq> E' \<Longrightarrow> estAt E' r v"
  by (auto simp: estAt_def)

lemma confQuorum_mono: "confQuorum Y S r v \<Longrightarrow> S \<subseteq> S' \<Longrightarrow> confQuorum Y S' r v"
  unfolding confQuorum_def using senders_mono confBy_mono by metis

lemma decJust_mono: "decJust Y S E r d \<Longrightarrow> S \<subseteq> S' \<Longrightarrow> E \<subseteq> E' \<Longrightarrow> decJust Y S' E' r d"
  unfolding decJust_def using confQuorum_mono estAt_mono by blast

lemma decsJust_mono:
  assumes "\<forall>(q, r, d) \<in> D. decJust Y S E r d" "S \<subseteq> S'" "E \<subseteq> E'"
  shows "\<forall>(q, r, d) \<in> D. decJust Y S' E' r d"
proof clarify
  fix q r d
  assume "(q, r, d) \<in> D"
  then have "decJust Y S E r d" using assms(1) by auto
  then show "decJust Y S' E' r d" using assms(2,3) by (rule decJust_mono)
qed

lemma returnJust_mono: "returnJust Y D p res \<Longrightarrow> D \<subseteq> D' \<Longrightarrow> returnJust Y D' p res"
  unfolding returnJust_def by blast

lemma procInv_mono:
  assumes "procInv Y S E D p pr" "S \<subseteq> S'" "E \<subseteq> E'" "D \<subseteq> D'" "\<And>b. (p, b) \<in> S' \<Longrightarrow> (p, b) \<in> S"
  shows "procInv Y S' E' D' p pr"
proof (cases pr)
  case (Running s)
  then show ?thesis using assms localInv_mono by auto
next
  case (Returned r)
  then show ?thesis using assms(1,4) returnJust_mono by auto
qed (use assms in auto)

lemma phasesOf_simps [simp]:
  "phasesOf p [] = {}"
  "phasesOf p (xs @ ys) = phasesOf p xs \<union> phasesOf p ys"
  unfolding phasesOf_def set_append Un_iff by (simp, blast)

lemma phasesOf_broadcast:
  "0 < cfg_N (m_cfg m) \<Longrightarrow> phasesOf p (abaBroadcast m iter b) = {(p, b)}"
  by (force simp: phasesOf_def abaBroadcast_def)

lemma phasesOf_self: "(q, b) \<in> phasesOf p out \<Longrightarrow> q = p"
  by (auto simp: phasesOf_def)

section \<open>Quorums of senders\<close>

lemma senders_card: "senders Y P qs \<Longrightarrow> card (set qs) = length qs \<and> set qs \<subseteq> {0..<sy_n Y}"
  by (auto simp: senders_def distinct_card)

lemma senders_insert:
  "senders Y P qs \<Longrightarrow> 0 \<le> q \<Longrightarrow> q < sy_n Y \<Longrightarrow> (q \<in> honest Y \<Longrightarrow> P q) \<Longrightarrow> senders Y P (List.insert q qs)"
  by (auto simp: senders_def)

lemma senders_honest:
  assumes "abaSystem Y" "senders Y P qs" "sy_f Y < int (length qs)"
  obtains q where "q \<in> set qs" "q \<in> honest Y" "P q"
proof -
  have "card (sy_faulty Y) < card (set qs)" "finite (sy_faulty Y)"
    using assms senders_card by (auto simp: abaSystem_def)
  then have "\<not> set qs \<subseteq> sy_faulty Y" using card_mono leD by blast
  then obtain q where "q \<in> set qs" "q \<notin> sy_faulty Y" by auto
  then show thesis using that assms(2) by (auto simp: senders_def honest_def)
qed

lemma senders_common:
  assumes "abaSystem Y" "senders Y P qs" "senders Y P' qs'"
    and "sy_n Y - sy_f Y \<le> int (length qs)" "sy_n Y - sy_f Y \<le> int (length qs')"
  obtains q where "q \<in> honest Y" "P q" "P' q"
proof -
  have "card {0..<sy_n Y} + card (sy_faulty Y) < card (set qs) + card (set qs')" "finite (sy_faulty Y)"
    using assms senders_card [OF assms(2)] senders_card [OF assms(3)] by (auto simp: abaSystem_def)
  then obtain q where "q \<in> set qs" "q \<in> set qs'" "q \<notin> sy_faulty Y"
    using senders_card [OF assms(2)] senders_card [OF assms(3)]
    by (elim quorum_honest_Int [rotated 4]) auto
  then show thesis using that assms(2,3) by (auto simp: senders_def honest_def)
qed

section \<open>Preservation\<close>

text \<open>One action of an honest node \<open>p\<close>: what its state and the network become.\<close>

definition nodeInv :: "abaSys \<Rightarrow> abaSent \<Rightarrow> abaEst \<Rightarrow> abaDec \<Rightarrow> int \<Rightarrow> abaState \<Rightarrow> bool" where
  "nodeInv Y S E D p s \<longleftrightarrow> localInv Y S E p s \<and> globalInv Y S E D"

abbreviation nodeOf :: "abaSys \<Rightarrow> int \<Rightarrow> DumboMVBA" where
  "nodeOf Y p \<equiv> sy_node Y p"

lemma system_node:
  "abaSystem Y \<Longrightarrow> p \<in> honest Y \<Longrightarrow>
    cfg_ID (m_cfg (nodeOf Y p)) = p \<and> cfg_N (m_cfg (nodeOf Y p)) = sy_n Y \<and> cfg_F (m_cfg (nodeOf Y p)) = sy_f Y \<and>
    0 < sy_n Y \<and> 0 \<le> p \<and> p < sy_n Y"
  by (auto simp: abaSystem_def honest_def)

lemma phase_neq [simp]:
  "abaPhaseEST \<noteq> abaPhaseAUX" "abaPhaseEST \<noteq> abaPhaseCONF" "abaPhaseAUX \<noteq> abaPhaseCONF"
  "abaPhaseAUX \<noteq> abaPhaseEST" "abaPhaseCONF \<noteq> abaPhaseEST" "abaPhaseCONF \<noteq> abaPhaseAUX"
  by (simp_all add: abaPhaseEST_def abaPhaseAUX_def abaPhaseCONF_def)

lemma abaMsg_simps [simp]:
  "ap_Phase (abaMsg sid iter r ph v vs) = ph" "ap_Round (abaMsg sid iter r ph v vs) = r"
  "ap_Value (abaMsg sid iter r ph v vs) = v" "ap_Values (abaMsg sid iter r ph v vs) = vs"
  by (simp_all add: abaMsg_def)

text \<open>Sending a message that is not a \<open>CONF\<close>.\<close>

lemma globalInv_send:
  assumes "globalInv Y S E D" "ap_Phase b \<noteq> abaPhaseCONF"
    and "ap_Phase b = abaPhaseEST \<Longrightarrow> estAt E (ap_Round b) (ap_Value b)"
  shows "globalInv Y (insert (p, b) S) E D"
proof -
  have "\<forall>(q, r, d) \<in> D. decJust Y (insert (p, b) S) E r d"
    by (rule decsJust_mono [of D Y S E]) (use assms(1) in \<open>auto simp: globalInv_def\<close>)
  moreover have "confUnique (insert (p, b) S)"
  proof -
    have u: "confUnique S" using assms(1) by (simp add: globalInv_def)
    have "(q, c) \<in> S" if "(q, c) \<in> insert (p, b) S" "ap_Phase c = abaPhaseCONF" for q c
      using that assms(2) by auto
    then show ?thesis using u unfolding confUnique_def by blast
  qed
  ultimately show ?thesis using assms unfolding globalInv_def by simp
qed

lemma localInv_send:
  assumes "localInv Y S E p s" "ap_Phase b \<noteq> abaPhaseCONF"
  shows "localInv Y (insert (p, b) S) E p s"
  using assms unfolding localInv_def
  by (auto intro: authentic_mono senders_mono estBy_mono confTable_mono)

lemma nodeInv_send:
  assumes "nodeInv Y S E D p s" "ap_Phase b \<noteq> abaPhaseCONF"
    and "ap_Phase b = abaPhaseEST \<Longrightarrow> estAt E (ap_Round b) (ap_Value b)"
  shows "nodeInv Y (insert (p, b) S) E D p s"
  using assms globalInv_send localInv_send by (simp add: nodeInv_def)

lemma length_insert_ge: "int (length xs) \<le> int (length (List.insert x xs))"
  by (simp add: List.insert_def)

lemma localInv_est:
  assumes "localInv Y S E p s" "0 \<le> q" "q < sy_n Y" "q \<in> honest Y \<Longrightarrow> estBy S (ab_round s) v q"
  shows "localInv Y S E p (s\<lparr>ab_est := (ab_est s)(v := List.insert q (ab_est s v))\<rparr>)"
  using assms unfolding localInv_def
  by (auto simp: senders_insert intro: order_trans [OF _ length_insert_ge])

lemma localInv_estSent: "localInv Y S E p s \<Longrightarrow> localInv Y S E p (s\<lparr>ab_estSent := x\<rparr>)"
  by (simp add: localInv_def)

lemma sendEST_inv:
  assumes Y: "abaSystem Y" "p \<in> honest Y" and inv: "nodeInv Y S E D p s"
    and est: "estAt E (ab_round s) v" and r: "sendEST (nodeOf Y p) sid iter s v = (s', out)"
  shows "nodeInv Y (S \<union> phasesOf p out) E D p s'"
proof (cases "(v \<noteq> 0 \<and> v \<noteq> 1) \<or> ab_estSent s v")
  case True
  then show ?thesis using inv r by (auto simp: sendEST_def)
next
  case False
  let ?b = "abaMsg sid iter (ab_round s) abaPhaseEST v []"
  let ?S = "insert (p, ?b) S"
  have s': "s' = s\<lparr>ab_estSent := (ab_estSent s)(v := True), ab_est := (ab_est s)(v := List.insert p (ab_est s v))\<rparr>"
    and out: "out = abaBroadcast (nodeOf Y p) iter ?b"
    using False r system_node [OF Y] by (auto simp: sendEST_def)
  have "estBy ?S (ab_round s) v p" by (auto simp: estBy_def intro: exI [of _ ?b])
  moreover have "nodeInv Y ?S E D p s" using inv est by (intro nodeInv_send) simp_all
  ultimately have "nodeInv Y ?S E D p s'"
    using system_node [OF Y] localInv_est [of Y ?S E p "s\<lparr>ab_estSent := (ab_estSent s)(v := True)\<rparr>" p v]
    by (simp add: nodeInv_def s' localInv_estSent)
  then show ?thesis using system_node [OF Y] by (simp add: out phasesOf_broadcast)
qed

text \<open>Receiving.\<close>

lemma estBy_bin:
  assumes Y: "abaSystem Y" and inv: "nodeInv Y S E D p s" and len: "sy_f Y < int (length (ab_est s v))"
  shows "estAt E (ab_round s) v"
proof -
  have "senders Y (estBy S (ab_round s) v) (ab_est s v)" using inv by (simp add: nodeInv_def localInv_def)
  then obtain q where "estBy S (ab_round s) v q" using senders_honest [OF Y _ len] by metis
  then show ?thesis using inv by (fastforce simp: nodeInv_def globalInv_def estBy_def)
qed

lemma localInv_bin:
  "localInv Y S E p s \<Longrightarrow> v = 0 \<or> v = 1 \<Longrightarrow> 2 * sy_f Y + 1 \<le> int (length (ab_est s v)) \<Longrightarrow>
    localInv Y S E p (s\<lparr>ab_bin := List.insert v (ab_bin s)\<rparr>)"
  by (auto simp: localInv_def)

lemma localInv_aux: "localInv Y S E p s \<Longrightarrow> localInv Y S E p (s\<lparr>ab_aux := x\<rparr>)"
  by (simp add: localInv_def)

lemma localInv_conf:
  "localInv Y S E p s \<Longrightarrow> confTable Y S (ab_round s) conf vals \<Longrightarrow>
    localInv Y S E p (s\<lparr>ab_confValues := vals, ab_conf := conf\<rparr>)"
  by (simp add: localInv_def)

lemma normalize_confKeys:
  assumes "vals = normalizeABAValues vs" "vals \<noteq> []"
  shows "(abaValuesKey (ValueSlice vals), vals) \<in> confKeys"
proof -
  have "vals = [0] \<or> vals = [1] \<or> vals = [0, 1]"
    using assms by (auto simp: normalizeABAValues_def split: option.splits if_splits)
  then show ?thesis
    by (auto simp: confKeys_def abaValuesKey_def normalizeABAValues_def abaSingleValueKey_def)
qed

lemma normalize_idem: "normalizeABAValues (normalizeABAValues vs) = normalizeABAValues vs"
  by (auto simp: normalizeABAValues_def split: option.split prod.split)

lemma confTable_put:
  assumes t: "confTable Y S r conf vals" and q: "senders Y (confBy S r key) qs"
    and k: "map_of vals' key = Some vs" "(key, vs) \<in> confKeys"
    and same: "\<And>k. k \<noteq> key \<Longrightarrow> map_of vals' k = map_of vals k"
  shows "confTable Y S r (AList.update key qs conf) vals'"
  using assms unfolding confTable_def by (simp add: distinct_update update_conv')

lemma confGet_senders:
  "confTable Y S r conf vals \<Longrightarrow> senders Y (confBy S r key) (confGet key conf)"
  by (auto simp: confTable_def confGet_def senders_def split: option.split)

lemma abaAccept_cases:
  assumes "abaAccept m sid iter s inp = (s', out)"
  obtains (keep) "s' = s" "out = []"
  | (est) b s1 s2 where "pm_Body (rm_Msg inp) = BabaPhase b" "ap_SID b = sid" "ap_Iter b = iter"
      "ap_Round b = ab_round s" "0 \<le> rm_From inp" "rm_From inp < cfg_N (m_cfg m)"
      "ap_Phase b = abaPhaseEST" "ap_Value b = 0 \<or> ap_Value b = 1"
      "s1 = s\<lparr>ab_est := (ab_est s)(ap_Value b := List.insert (rm_From inp) (ab_est s (ap_Value b)))\<rparr>"
      "(s2, out) = (if int (length (ab_est s1 (ap_Value b))) \<ge> cfg_F (m_cfg m) + 1
        then sendEST m sid iter s1 (ap_Value b) else (s1, []))"
      "s' = (if int (length (ab_est s2 (ap_Value b))) \<ge> 2 * cfg_F (m_cfg m) + 1
        then s2\<lparr>ab_bin := List.insert (ap_Value b) (ab_bin s2)\<rparr> else s2)"
  | (aux) x where "s' = s\<lparr>ab_aux := x\<rparr>" "out = []"
  | (conf) b vals key where "pm_Body (rm_Msg inp) = BabaPhase b" "ap_SID b = sid" "ap_Iter b = iter"
      "ap_Round b = ab_round s" "0 \<le> rm_From inp" "rm_From inp < cfg_N (m_cfg m)"
      "ap_Phase b = abaPhaseCONF" "vals = normalizeABAValues (ap_Values b)" "vals \<noteq> []"
      "key = abaValuesKey (ValueSlice vals)"
      "s' = s\<lparr>ab_confValues := (if map_of (ab_conf s) key = None
              then AList.update key vals (ab_confValues s) else ab_confValues s),
            ab_conf := AList.update key (List.insert (rm_From inp) (confGet key (ab_conf s))) (ab_conf s)\<rparr>"
      "out = []"
proof (cases "\<exists>b. pm_Body (rm_Msg inp) = BabaPhase b")
  case True
  then obtain b where BabaPhase: "pm_Body (rm_Msg inp) = BabaPhase b" ..
  show thesis
  proof (cases "ap_SID b \<noteq> sid \<or> ap_Iter b \<noteq> iter \<or> ap_Round b \<noteq> ab_round s \<or> rm_From inp < 0 \<or>
      rm_From inp \<ge> cfg_N (m_cfg m)")
    case True
    then show thesis using assms BabaPhase keep by (simp add: abaAccept_def)
  next
    case False
    consider "ap_Phase b = abaPhaseEST" | "ap_Phase b = abaPhaseAUX" | "ap_Phase b = abaPhaseCONF"
      | "ap_Phase b \<notin> {abaPhaseEST, abaPhaseAUX, abaPhaseCONF}" by blast
    then show thesis
    proof cases
      case 1
      show thesis
      proof (cases "ap_Value b < 0 \<or> ap_Value b > 1 \<or> rm_From inp \<in> set (ab_est s (ap_Value b))")
        case True
        then show thesis using assms BabaPhase 1 False keep
          by (auto simp: abaAccept_def Let_def split: if_splits)
      next
        case v: False
        let ?s = "s\<lparr>ab_est := (ab_est s)(ap_Value b := List.insert (rm_From inp) (ab_est s (ap_Value b)))\<rparr>"
        obtain s2 o2 where o2: "(if int (length (ab_est ?s (ap_Value b))) \<ge> cfg_F (m_cfg m) + 1
            then sendEST m sid iter ?s (ap_Value b) else (?s, [])) = (s2, o2)" by fastforce
        have "abaAccept m sid iter s inp =
            ((if int (length (ab_est s2 (ap_Value b))) \<ge> 2 * cfg_F (m_cfg m) + 1
              then s2\<lparr>ab_bin := List.insert (ap_Value b) (ab_bin s2)\<rparr> else s2), o2)"
          using v False 1 BabaPhase o2 by (cases "int (length (ab_est ?s (ap_Value b))) \<ge> cfg_F (m_cfg m) + 1")
            (auto simp: abaAccept_def Let_def)
        then show thesis using assms BabaPhase 1 False v o2 by (intro est [of b ?s s2]) auto
      qed
    next
      case 2
      then show thesis using assms BabaPhase False keep aux
        by (auto simp: abaAccept_def Let_def split: if_splits)
    next
      case 3
      show thesis
      proof (cases "normalizeABAValues (ap_Values b) = []")
        case True
        then show thesis using assms BabaPhase 3 False keep by (simp add: abaAccept_def)
      next
        case v: False
        then show thesis using assms BabaPhase 3 False
          by (intro conf) (auto simp: abaAccept_def Let_def)
      qed
    next
      case 4
      then show thesis using assms BabaPhase False keep by (simp add: abaAccept_def)
    qed
  qed
next
  case False
  then have "abaAccept m sid iter s inp = (s, [])" unfolding abaAccept_def Let_def by (simp split: Body.split)
  then show thesis using assms keep by simp
qed

lemma abaAccept_inv:
  assumes Y: "abaSystem Y" "p \<in> honest Y" and inv: "nodeInv Y S E D p s" and auth: "authentic Y S inp"
    and acc: "abaAccept (nodeOf Y p) (sy_sid Y) (sy_iter Y) s inp = (s', out)"
  shows "nodeInv Y (S \<union> phasesOf p out) E D p s'"
  using acc
proof (cases rule: abaAccept_cases)
  case keep
  then show ?thesis using inv by simp
next
  case (est b s1 s2)
  let ?v = "ap_Value b"
  have N: "cfg_N (m_cfg (nodeOf Y p)) = sy_n Y" "cfg_F (m_cfg (nodeOf Y p)) = sy_f Y"
    using system_node [OF Y] by auto
  have "estBy S (ab_round s) ?v (rm_From inp)" if "rm_From inp \<in> honest Y"
    using that auth est(1-4,7) by (auto simp: authentic_def estBy_def)
  then have s1: "nodeInv Y S E D p s1"
    using inv est(5,6) N unfolding est(9) nodeInv_def by (intro conjI localInv_est) auto
  have "nodeInv Y (S \<union> phasesOf p out) E D p s2"
  proof (cases "int (length (ab_est s1 ?v)) \<ge> sy_f Y + 1")
    case True
    then have "estAt E (ab_round s1) ?v" using estBy_bin [OF Y(1) s1] by simp
    then show ?thesis
      using sendEST_inv [OF Y s1, of ?v "sy_sid Y" "sy_iter Y" s2 out] True est(10) N by simp
  next
    case False
    then show ?thesis using s1 est(10) N by simp
  qed
  then show ?thesis using est(8,11) N by (auto simp: nodeInv_def localInv_bin)
next
  case (aux x)
  then show ?thesis using inv by (simp add: nodeInv_def localInv_aux)
next
  case (conf b vals key)
  have N: "cfg_N (m_cfg (nodeOf Y p)) = sy_n Y" using system_node [OF Y] by auto
  have t: "confTable Y S (ab_round s) (ab_conf s) (ab_confValues s)"
    using inv by (simp add: nodeInv_def localInv_def)
  have "confBy S (ab_round s) key (rm_From inp)" if "rm_From inp \<in> honest Y"
    using that auth conf(1-4,7,8,10) by (auto simp: authentic_def confBy_def)
  then have q: "senders Y (confBy S (ab_round s) key) (List.insert (rm_From inp) (confGet key (ab_conf s)))"
    using conf(5,6) N by (intro senders_insert confGet_senders [OF t]) auto
  have k: "(key, vals) \<in> confKeys" using normalize_confKeys conf(8-10) by simp
  have "confTable Y S (ab_round s)
      (AList.update key (List.insert (rm_From inp) (confGet key (ab_conf s))) (ab_conf s))
      (if map_of (ab_conf s) key = None then AList.update key vals (ab_confValues s) else ab_confValues s)"
  proof (cases "map_of (ab_conf s) key")
    case None
    then show ?thesis using confTable_put [OF t q _ k] by (simp add: update_conv')
  next
    case (Some qs)
    then obtain vs where "map_of (ab_confValues s) key = Some vs" "(key, vs) \<in> confKeys"
      using t unfolding confTable_def by blast
    then show ?thesis using confTable_put [OF t q] Some by simp
  qed
  then show ?thesis using inv unfolding conf(11,12) by (simp add: nodeInv_def localInv_conf)
qed

lemma abaReceive_inv:
  assumes Y: "abaSystem Y" "p \<in> honest Y" and inv: "nodeInv Y S E D p s" and auth: "authEvent Y S e"
    and rec: "abaReceive (nodeOf Y p) (sy_sid Y) (sy_iter Y) s e = Continue s' out"
  shows "nodeInv Y (S \<union> phasesOf p out) E D p s'"
proof (cases e)
  case (Recv inp)
  have a: "authentic Y S inp" using auth Recv by simp
  then have pend: "nodeInv Y S E D p (s\<lparr>ab_pending := ab_pending s @ [(r, inp)]\<rparr>)" for r
    using inv by (auto simp: nodeInv_def localInv_def)
  have acc: "nodeInv Y (S \<union> phasesOf p (snd r)) E D p (fst r)"
    if "r = abaAccept (nodeOf Y p) (sy_sid Y) (sy_iter Y) s inp" for r
    using abaAccept_inv [OF Y inv a, of "fst r" "snd r"] that by simp
  show ?thesis
    using rec Recv inv pend acc
    by (auto simp: abaReceive_def split_beta split: Body.splits if_splits)
qed (use rec inv in \<open>simp_all add: abaReceive_def\<close>)

text \<open>Leaving the inner loops.\<close>

lemma abaTakePending_inv:
  assumes Y: "abaSystem Y" "p \<in> honest Y" and inv: "nodeInv Y S E D p s"
    and tp: "abaTakePending (nodeOf Y p) (sy_sid Y) (sy_iter Y) s = Some (s', out)"
  shows "nodeInv Y (S \<union> phasesOf p out) E D p s'"
proof -
  let ?s = "s\<lparr>ab_pending := dropFirst (ab_round s) (ab_pending s)\<rparr>"
  have sub: "set (dropFirst r ps) \<subseteq> set ps" for r ps by (induction ps) auto
  obtain inp rest where p: "pendingFor (ab_round s) (ab_pending s) = inp # rest"
    and acc: "abaAccept (nodeOf Y p) (sy_sid Y) (sy_iter Y) ?s inp = (s', out)"
    using tp by (auto simp: abaTakePending_def split: list.splits)
  have "inp \<in> set (pendingFor (ab_round s) (ab_pending s))" by (simp add: p)
  then have "authentic Y S inp" using inv by (auto simp: pendingFor_def nodeInv_def localInv_def)
  moreover have "nodeInv Y S E D p ?s" using inv sub by (auto simp: nodeInv_def localInv_def)
  ultimately show ?thesis using abaAccept_inv [OF Y _ _ acc] by blast
qed

lemma auxValues_shape:
  "auxValues m s \<noteq> [] \<Longrightarrow> auxValues m s = [0] \<or> auxValues m s = [1] \<or> auxValues m s = [0, 1]"
  by (simp add: auxValues_def Let_def split: if_splits)

lemma confUnique_insert:
  assumes "confUnique S" "\<And>c. (p, c) \<in> S \<Longrightarrow> ap_Phase c = abaPhaseCONF \<Longrightarrow> ap_Round c \<noteq> ap_Round b"
  shows "confUnique (insert (p, b) S)"
  unfolding confUnique_def
proof (intro allI impI)
  fix q c c'
  assume m: "(q, c) \<in> insert (p, b) S" "(q, c') \<in> insert (p, b) S"
    and ph: "ap_Phase c = abaPhaseCONF" "ap_Phase c' = abaPhaseCONF" and r: "ap_Round c = ap_Round c'"
  consider "(q, c) \<in> S" "(q, c') \<in> S" | "c = c'" | "(p, c) \<in> S" "c' = b" | "(p, c') \<in> S" "c = b"
    using m by auto
  then show "ap_Values c = ap_Values c'"
  proof cases
    case 1
    then show ?thesis using assms(1) ph r unfolding confUnique_def by blast
  qed (use assms(2) [of c] assms(2) [of c'] ph r in auto)
qed

lemma sendCONF_inv:
  assumes Y: "abaSystem Y" "p \<in> honest Y" and inv: "nodeInv Y S E D p s" and w: "ab_wait s = WaitAux"
    and v: "vals = [0] \<or> vals = [1] \<or> vals = [0, 1]" and key: "key = abaValuesKey (ValueSlice vals)"
    and b: "b = abaMsg (sy_sid Y) (sy_iter Y) (ab_round s) abaPhaseCONF 0 vals"
  shows "nodeInv Y (insert (p, b) S) E D p
    (s\<lparr>ab_wait := WaitConf, ab_conf := AList.update key [p] (ab_conf s),
       ab_confValues := AList.update key vals (ab_confValues s)\<rparr>)"
proof -
  let ?S = "insert (p, b) S"
  have fresh: "ap_Round c < ab_round s" if "(p, c) \<in> S" "ap_Phase c = abaPhaseCONF" for c
    using inv that w by (auto simp: nodeInv_def localInv_def)
  have norm: "normalizeABAValues vals = vals" using v by (auto simp: normalizeABAValues_def)
  have u: "confUnique ?S"
    using inv b by (intro confUnique_insert) (auto simp: nodeInv_def globalInv_def dest!: fresh)
  have dj: "\<forall>(q, r, d) \<in> D. decJust Y ?S E r d"
    by (rule decsJust_mono [of D Y S E]) (use inv in \<open>auto simp: nodeInv_def globalInv_def\<close>)
  have g: "globalInv Y ?S E D"
    using inv u dj b unfolding nodeInv_def globalInv_def by simp
  have "confTable Y ?S (ab_round s) (AList.update key [p] (ab_conf s)) (AList.update key vals (ab_confValues s))"
  proof (rule confTable_put)
    show "confTable Y ?S (ab_round s) (ab_conf s) (ab_confValues s)"
      using inv by (auto simp: nodeInv_def localInv_def intro: confTable_mono)
    have "confBy ?S (ab_round s) key p" unfolding confBy_def by (rule exI [of _ b]) (simp add: b key norm)
    then show "senders Y (confBy ?S (ab_round s) key) [p]" using system_node [OF Y] by (simp add: senders_def)
    show "(key, vals) \<in> confKeys"
      using v key by (auto simp: confKeys_def abaValuesKey_def abaSingleValueKey_def norm)
  qed (simp_all add: update_conv')
  moreover have "localInv Y ?S E p (s\<lparr>ab_wait := WaitConf, ab_conf := [], ab_confValues := []\<rparr>)"
    using inv fresh b unfolding nodeInv_def localInv_def
    by (auto simp: confTable_def intro: authentic_mono senders_mono estBy_mono order.strict_implies_order)
  ultimately show ?thesis using g by (simp add: nodeInv_def localInv_def)
qed

lemma confKeys_single: "(key, vals) \<in> confKeys \<Longrightarrow> set vals \<subseteq> {v} \<Longrightarrow> v = 0 \<or> v = 1 \<Longrightarrow>
  key = abaSingleValueKey v \<and> vals = [v]"
  by (auto simp: confKeys_def abaSingleValueKey_def)

text \<open>Both values are in \<open>bin\<close> when no single one has a quorum but the compatible senders do.\<close>

lemma compatible_both:
  assumes t: "confTable Y S r (ab_conf s) (ab_confValues s)" and v: "v = 0 \<or> v = 1" "set (ab_bin s) \<subseteq> {v}"
    and q: "0 < q" "q \<le> int (length (compatibleSenders s))"
  shows "v \<in> set (ab_bin s) \<and> q \<le> int (length (confGet (abaSingleValueKey v) (ab_conf s)))"
proof -
  let ?K = "abaSingleValueKey v"
  have only: "key = ?K \<and> v \<in> set (ab_bin s) \<and> qs = confGet ?K (ab_conf s)"
    if m: "(key, qs) \<in> set (ab_conf s)" and sub: "abaValuesSubset (confGet key (ab_confValues s)) (ab_bin s)" for key qs
  proof -
    have "map_of (ab_conf s) key = Some qs" using t m by (simp add: confTable_def)
    then obtain vs where vs: "map_of (ab_confValues s) key = Some vs" "(key, vs) \<in> confKeys"
      using t unfolding confTable_def by blast
    then have bin: "set vs \<subseteq> set (ab_bin s)"
      using sub by (auto simp: abaValuesSubset_def confGet_def list_all_iff)
    then have "set vs \<subseteq> {v}" using v(2) by blast
    then have "key = ?K \<and> vs = [v]" using confKeys_single [OF vs(2)] v(1) by blast
    moreover have "v \<in> set (ab_bin s)" using bin calculation by simp
    ultimately have "key = ?K" "v \<in> set (ab_bin s)" by simp_all
    then show ?thesis using \<open>map_of (ab_conf s) key = Some qs\<close> by (simp add: confGet_def)
  qed
  then have sub: "set (compatibleSenders s) \<subseteq> set (confGet ?K (ab_conf s))"
    unfolding compatibleSenders_def by fastforce
  have d: "distinct (compatibleSenders s)" by (simp add: compatibleSenders_def)
  have "compatibleSenders s \<noteq> []" using q by auto
  then obtain x where "x \<in> set (compatibleSenders s)" by (meson list.set_sel(1))
  then obtain key qs where "(key, qs) \<in> set (ab_conf s)" "abaValuesSubset (confGet key (ab_confValues s)) (ab_bin s)"
    by (auto simp: compatibleSenders_def)
  then have "v \<in> set (ab_bin s)" using only by blast
  moreover have "length (compatibleSenders s) \<le> length (confGet ?K (ab_conf s))"
    using distinct_card [OF d] card_mono [OF _ sub] card_length [of "confGet ?K (ab_conf s)"] by simp
  ultimately show ?thesis using q by auto
qed

lemma decidedValues_cases:
  assumes "decidedValues m s \<noteq> []" and q: "q = cfg_N (m_cfg m) - cfg_F (m_cfg m)"
  obtains (one) v where "v = 0 \<or> v = 1" "decidedValues m s = [v]" "v \<in> set (ab_bin s)"
      "q \<le> int (length (confGet (abaSingleValueKey v) (ab_conf s)))"
  | (both) "decidedValues m s = [0, 1]" "q \<le> int (length (compatibleSenders s))"
      "\<And>v. v = 0 \<or> v = 1 \<Longrightarrow>
        \<not> (v \<in> set (ab_bin s) \<and> q \<le> int (length (confGet (abaSingleValueKey v) (ab_conf s))))"
  using assms unfolding decidedValues_def Let_def by (auto split: if_splits)

lemma decided_just:
  assumes Y: "abaSystem Y" "p \<in> honest Y" and inv: "nodeInv Y S E D p s"
    and d: "decidedValues (nodeOf Y p) s \<noteq> []"
  shows "decJust Y S E (ab_round s) (decidedValues (nodeOf Y p) s)"
proof -
  have t: "confTable Y S (ab_round s) (ab_conf s) (ab_confValues s)"
    and b: "\<forall>v \<in> set (ab_bin s). (v = 0 \<or> v = 1) \<and> 2 * sy_f Y + 1 \<le> int (length (ab_est s v))"
    using inv by (auto simp: nodeInv_def localInv_def)
  have N: "sy_n Y - sy_f Y = cfg_N (m_cfg (nodeOf Y p)) - cfg_F (m_cfg (nodeOf Y p))" "0 < sy_n Y - sy_f Y" "0 \<le> sy_f Y"
    using system_node [OF Y] Y(1) by (auto simp: abaSystem_def)
  have at: "estAt E (ab_round s) v" if "v \<in> set (ab_bin s)" for v
    using estBy_bin [OF Y(1) inv, of v] b that N(3) by auto
  show ?thesis
    using d N(1)
  proof (cases rule: decidedValues_cases)
    case (one v)
    then show ?thesis using at confGet_senders [OF t] unfolding decJust_def confQuorum_def by blast
  next
    case both
    have "v \<in> set (ab_bin s)" if "v = 0 \<or> v = 1" for v
    proof (rule ccontr)
      assume "v \<notin> set (ab_bin s)"
      then have "set (ab_bin s) \<subseteq> {1 - v}" using b that by auto
      then show False using compatible_both [OF t _ _ N(2) both(2), of "1 - v"] both(3) [of "1 - v"] that by auto
    qed
    then show ?thesis using both at by (simp add: decJust_def)
  qed
qed

text \<open>A round ends: \<open>D\<close> records its values, \<open>E\<close> the next estimate.\<close>

lemma globalInv_grow:
  assumes g: "globalInv Y S E D" and d: "decJust Y S E r d" and p: "p \<in> honest Y" "0 \<le> r"
    and e: "e = nextEstimate Y r d" "e = 0 \<or> e = 1"
  shows "globalInv Y S (insert (p, r + 1, e) E) (insert (p, r, d) D)"
proof -
  let ?E = "insert (p, r + 1, e) E"
  let ?D = "insert (p, r, d) D"
  have "\<forall>(q, r, d) \<in> ?D. decJust Y S ?E r d"
    by (rule decsJust_mono [of ?D Y S E]) (use g d in \<open>auto simp: globalInv_def\<close>)
  moreover have "\<forall>(q, r, e) \<in> ?E. estJust Y ?D q r e"
    using g p e unfolding globalInv_def estJust_def by auto
  moreover have "\<forall>(q, b) \<in> S. ap_Phase b = abaPhaseEST \<longrightarrow> estAt ?E (ap_Round b) (ap_Value b)"
    using g unfolding globalInv_def estAt_def by blast
  ultimately show ?thesis using g by (simp add: globalInv_def)
qed

lemma globalInv_end:
  assumes g: "globalInv Y S E D" and d: "decJust Y S E r d"
  shows "globalInv Y S E (insert (p, r, d) D)"
  using assms unfolding globalInv_def estJust_def by auto

lemma startRound_inv:
  assumes Y: "abaSystem Y" "p \<in> honest Y" and g: "globalInv Y S E D"
    and r: "0 \<le> r" "(p, r, e) \<in> E" and auth: "\<forall>x \<in> set ps. authentic Y S (snd x)"
    and fresh: "\<forall>b. (p, b) \<in> S \<longrightarrow> ap_Phase b = abaPhaseCONF \<longrightarrow> ap_Round b < r"
    and st: "abaStartRound (nodeOf Y p) (sy_sid Y) (sy_iter Y) r e d ps = (s', out)"
  shows "nodeInv Y (S \<union> phasesOf p out) E D p s'"
proof (rule sendEST_inv [OF Y])
  let ?s = "\<lparr>ab_estimate = e, ab_decision = d, ab_round = r, ab_wait = WaitBin,
    ab_est = (\<lambda>_. []), ab_estSent = (\<lambda>_. False), ab_bin = [], ab_aux = (\<lambda>_. []),
    ab_conf = [], ab_confValues = [], ab_pending = ps\<rparr>"
  show "sendEST (nodeOf Y p) (sy_sid Y) (sy_iter Y) ?s e = (s', out)"
    using st by (simp add: abaStartRound_def)
  show "estAt E (ab_round ?s) e" using r by (auto simp: estAt_def)
  show "nodeInv Y S E D p ?s"
    using g r auth fresh by (simp add: nodeInv_def localInv_def senders_def confTable_def)
qed

lemma decJust_cases: "decJust Y S E r d \<Longrightarrow> (\<exists>v. d = [v] \<and> (v = 0 \<or> v = 1)) \<or> d = [0, 1]"
  by (auto simp: decJust_def)

lemma and_1_cases: "x AND 1 = 0 \<or> x AND 1 = (1 :: int)"
  by (simp add: and_one_eq mod2_eq_if)

definition stepInv :: "abaSys \<Rightarrow> abaSent \<Rightarrow> abaEst \<Rightarrow> abaDec \<Rightarrow> int \<Rightarrow> (abaState, action, int) step \<Rightarrow> bool" where
  "stepInv Y S E D p st \<longleftrightarrow>
     (\<exists>E' D'. E \<subseteq> E' \<and> D \<subseteq> D' \<and> globalInv Y (S \<union> phasesOf p (stepOut st)) E' D' \<and>
        procInv Y (S \<union> phasesOf p (stepOut st)) E' D' p (procOf st))"

lemma stepInv_continue:
  "nodeInv Y (S \<union> phasesOf p out) E' D' p s' \<Longrightarrow> E \<subseteq> E' \<Longrightarrow> D \<subseteq> D' \<Longrightarrow> stepInv Y S E D p (Continue s' out)"
  by (auto simp: stepInv_def nodeInv_def)

lemma finishRound_inv:
  assumes Y: "abaSystem Y" "p \<in> honest Y" and inv: "nodeInv Y S E D p s"
    and dj: "decJust Y S E (ab_round s) d"
  shows "stepInv Y S E D p (abaFinishRound (nodeOf Y p) (sy_sid Y) (sy_iter Y) (sy_coin Y p) s d)"
proof (cases "sy_coin Y p (abaNonce (ab_round s))")
  case (Ok c)
  let ?r = "ab_round s"
  have bit: "c AND 1 = sy_bit Y ?r" using Ok Y by (auto simp: abaSystem_def)
  have g: "globalInv Y S E D" and r: "0 \<le> ?r" and auth: "\<forall>x \<in> set (ab_pending s). authentic Y S (snd x)"
    and fresh: "\<forall>b. (p, b) \<in> S \<longrightarrow> ap_Phase b = abaPhaseCONF \<longrightarrow> ap_Round b < ?r + 1"
    using inv by (auto simp: nodeInv_def localInv_def)
  let ?e = "nextEstimate Y ?r d"
  let ?E = "insert (p, ?r + 1, ?e) E" and ?D = "insert (p, ?r, d) D"
  have "?e = 0 \<or> ?e = 1" using decJust_cases [OF dj] and_1_cases [of c] bit by (auto simp: nextEstimate_def)
  then have g': "globalInv Y S ?E ?D" using globalInv_grow [OF g dj Y(2) r] by simp
  have go: "stepInv Y S E D p (Continue (fst st) (snd st))"
    if "st = abaStartRound (nodeOf Y p) (sy_sid Y) (sy_iter Y) (?r + 1) ?e dec (ab_pending s)" for dec st
    using startRound_inv [OF Y g' _ _ auth fresh, of ?e dec "fst st" "snd st"] that r
    by (intro stepInv_continue [of _ _ _ _ ?E ?D]) auto
  have ret: "stepInv Y S E D p (Return (Ok v) s [])" if "d = [v]" "v = c AND 1" for v
    using globalInv_end [OF g dj, of p] that r bit
    by (auto simp: stepInv_def returnJust_def intro!: exI [of _ E] exI [of _ ?D])
  show ?thesis
    using go [OF refl] ret bit Ok unfolding abaFinishRound_def
    by (cases d) (auto simp: Let_def split_beta nextEstimate_def)
qed (use inv in \<open>auto simp: abaFinishRound_def stepInv_def returnJust_def nodeInv_def\<close>)

lemma abaInternal_inv:
  assumes Y: "abaSystem Y" "p \<in> honest Y" and inv: "nodeInv Y S E D p s"
    and i: "abaInternal (nodeOf Y p) (sy_sid Y) (sy_iter Y) (sy_coin Y p) s = Some st"
  shows "stepInv Y S E D p st"
proof (cases "\<exists>s' out. abaTakePending (nodeOf Y p) (sy_sid Y) (sy_iter Y) s = Some (s', out) \<and> st = Continue s' out")
  case True
  then show ?thesis using abaTakePending_inv [OF Y inv] stepInv_continue by blast
next
  case False
  then have nb: "map_option (\<lambda>(s', out). Continue s' out) (abaTakePending (nodeOf Y p) (sy_sid Y) (sy_iter Y) s) \<noteq> Some st"
    by (cases "abaTakePending (nodeOf Y p) (sy_sid Y) (sy_iter Y) s") auto
  have N: "cfg_ID (m_cfg (nodeOf Y p)) = p" "0 < cfg_N (m_cfg (nodeOf Y p))" using system_node [OF Y] by auto
  show ?thesis
  proof (cases "ab_wait s")
    case WaitBin
    let ?v = "auxChoice s"
    let ?b = "abaMsg (sy_sid Y) (sy_iter Y) (ab_round s) abaPhaseAUX ?v []"
    have st: "st = Continue (s\<lparr>ab_wait := WaitAux, ab_aux := (ab_aux s)(?v := List.insert p (ab_aux s ?v))\<rparr>)
        (abaBroadcast (nodeOf Y p) (sy_iter Y) ?b)"
      using i nb WaitBin N by (auto simp: abaInternal_def Let_def split: if_splits)
    have "nodeInv Y (insert (p, ?b) S) E D p s" using inv by (intro nodeInv_send) simp_all
    then have "nodeInv Y (S \<union> phasesOf p (abaBroadcast (nodeOf Y p) (sy_iter Y) ?b)) E D p
        (s\<lparr>ab_wait := WaitAux, ab_aux := (ab_aux s)(?v := List.insert p (ab_aux s ?v))\<rparr>)"
      using N WaitBin by (auto simp: phasesOf_broadcast nodeInv_def localInv_def)
    then show ?thesis unfolding st by (rule stepInv_continue) auto
  next
    case WaitAux
    let ?vs = "auxValues (nodeOf Y p) s"
    let ?b = "abaMsg (sy_sid Y) (sy_iter Y) (ab_round s) abaPhaseCONF 0 ?vs"
    have ne: "?vs \<noteq> []" using i nb WaitAux by (auto simp: abaInternal_def)
    then have st: "st = Continue (s\<lparr>ab_wait := WaitConf,
          ab_conf := AList.update (abaValuesKey (ValueSlice ?vs)) [p] (ab_conf s),
          ab_confValues := AList.update (abaValuesKey (ValueSlice ?vs)) ?vs (ab_confValues s)\<rparr>)
        (abaBroadcast (nodeOf Y p) (sy_iter Y) ?b)"
      using i WaitAux N by (simp add: abaInternal_def Let_def)
    show ?thesis
      unfolding st using sendCONF_inv [OF Y inv WaitAux auxValues_shape [OF ne] refl refl] N
      by (intro stepInv_continue [of _ _ _ _ E D]) (simp_all add: phasesOf_broadcast)
  next
    case WaitConf
    have ne: "decidedValues (nodeOf Y p) s \<noteq> []" using i nb WaitConf by (auto simp: abaInternal_def)
    then have "st = abaFinishRound (nodeOf Y p) (sy_sid Y) (sy_iter Y) (sy_coin Y p) s (decidedValues (nodeOf Y p) s)"
      using i WaitConf by (simp add: abaInternal_def)
    then show ?thesis using finishRound_inv [OF Y inv decided_just [OF Y inv ne]] by simp
  qed
qed

section \<open>Whole handlers\<close>

lemma stepInv_trans:
  assumes "stepInv Y S E D p (Continue s out)"
    and "\<And>E' D'. nodeInv Y (S \<union> phasesOf p out) E' D' p s \<Longrightarrow> stepInv Y (S \<union> phasesOf p out) E' D' p st"
  shows "stepInv Y S E D p (prependOut out st)"
proof -
  obtain E' D' where 1: "E \<subseteq> E'" "D \<subseteq> D'" "nodeInv Y (S \<union> phasesOf p out) E' D' p s"
    using assms(1) by (auto simp: stepInv_def nodeInv_def)
  have "procOf (prependOut out st) = procOf st" by (cases st) auto
  then show ?thesis using assms(2) [OF 1(3)] 1(1,2) unfolding stepInv_def by (simp add: Un_assoc) blast
qed

lemma abaSettle_inv:
  assumes Y: "abaSystem Y" "p \<in> honest Y"
  shows "nodeInv Y S E D p s \<Longrightarrow> stepInv Y S E D p (abaSettle (nodeOf Y p) (sy_sid Y) (sy_iter Y) (sy_coin Y p) s)"
proof (induction "abaRank s" arbitrary: s S E D rule: less_induct)
  case less
  let ?i = "abaInternal (nodeOf Y p) (sy_sid Y) (sy_iter Y) (sy_coin Y p) s"
  show ?case
  proof (cases ?i)
    case None
    then show ?thesis using less.prems
      by (subst abaSettle.simps) (auto intro: stepInv_continue [of _ _ _ _ E D])
  next
    case (Some st)
    note inv = abaInternal_inv [OF Y less.prems Some]
    show ?thesis
    proof (cases st)
      case (Continue s' out)
      have "stepInv Y S E D p (prependOut out (abaSettle (nodeOf Y p) (sy_sid Y) (sy_iter Y) (sy_coin Y p) s'))"
        using inv less.hyps [OF abaInternal_rank] Some unfolding Continue by (intro stepInv_trans) auto
      then show ?thesis using Some Continue by (subst abaSettle.simps) simp
    next
      case (Return r s' out)
      then show ?thesis using inv Some by (subst abaSettle.simps) simp
    qed
  qed
qed

lemma abaHandle_inv:
  assumes Y: "abaSystem Y" "p \<in> honest Y" and inv: "nodeInv Y S E D p s" and auth: "authEvent Y S e"
  shows "stepInv Y S E D p (abaHandle (nodeOf Y p) (sy_sid Y) (sy_iter Y) (sy_coin Y p) s e)"
proof (cases "abaReceive (nodeOf Y p) (sy_sid Y) (sy_iter Y) s e")
  case (Continue s' out)
  then have "stepInv Y S E D p (Continue s' out)"
    using abaReceive_inv [OF Y inv auth Continue] by (rule_tac stepInv_continue) auto
  then show ?thesis using Continue abaSettle_inv [OF Y] by (auto simp: abaHandle_def intro: stepInv_trans)
next
  case (Return r s' out)
  then have "\<forall>v. r \<noteq> Ok v" "out = []"
    by (auto simp: abaReceive_def Let_def split_beta split: event.splits Body.splits if_splits)
  then show ?thesis using Return inv by (auto simp: abaHandle_def stepInv_def returnJust_def nodeInv_def)
qed

lemma abaInit_inv:
  assumes Y: "abaSystem Y" "p \<in> honest Y" and g: "globalInv Y S E D" and idle: "\<forall>b. (p, b) \<notin> S"
  shows "stepInv Y S E D p (abaInit (nodeOf Y p) (sy_sid Y) (sy_iter Y) (sy_input Y p) (sy_coin Y p))"
proof (cases "sy_input Y p = 0 \<or> sy_input Y p = 1")
  case True
  let ?E = "insert (p, 0, sy_input Y p) E"
  have "\<forall>(q, r, d) \<in> D. decJust Y S ?E r d"
    by (rule decsJust_mono [of D Y S E]) (use g in \<open>auto simp: globalInv_def\<close>)
  moreover have "\<forall>(q, r, e) \<in> ?E. estJust Y D q r e"
    using g Y True unfolding globalInv_def estJust_def by auto
  moreover have "\<forall>(q, b) \<in> S. ap_Phase b = abaPhaseEST \<longrightarrow> estAt ?E (ap_Round b) (ap_Value b)"
    using g unfolding globalInv_def estAt_def by blast
  ultimately have g': "globalInv Y S ?E D" using g by (simp add: globalInv_def)
  obtain s out where st: "abaStartRound (nodeOf Y p) (sy_sid Y) (sy_iter Y) 0 (sy_input Y p) (- 1) [] = (s, out)"
    by fastforce
  have "nodeInv Y (S \<union> phasesOf p out) ?E D p s"
    using startRound_inv [OF Y g' _ _ _ _ st] idle by simp
  then have "stepInv Y S E D p (Continue s out)" by (rule stepInv_continue) auto
  then have "stepInv Y S E D p (prependOut out (abaSettle (nodeOf Y p) (sy_sid Y) (sy_iter Y) (sy_coin Y p) s))"
    using abaSettle_inv [OF Y] by (auto intro: stepInv_trans)
  then show ?thesis using st True system_node [OF Y] Y(1) by (auto simp: abaInit_def abaSystem_def)
next
  case False
  then show ?thesis using g
    by (auto simp: abaInit_def stepInv_def returnJust_def split_beta)
qed

lemma abaInv_step:
  assumes "stepInv Y S E D p st" "abaInv Y \<sigma> S E D"
  shows "\<exists>E D. abaInv Y (\<sigma>(p := procOf st)) (S \<union> phasesOf p (stepOut st)) E D"
proof -
  let ?S = "S \<union> phasesOf p (stepOut st)"
  obtain E' D' where 1: "E \<subseteq> E'" "D \<subseteq> D'" "globalInv Y ?S E' D'" "procInv Y ?S E' D' p (procOf st)"
    using assms(1) unfolding stepInv_def by blast
  have "procInv Y ?S E' D' q (\<sigma> q)" if "q \<noteq> p" for q
  proof (rule procInv_mono [OF _ _ 1(1,2)])
    show "procInv Y S E D q (\<sigma> q)" using assms(2) by (simp add: abaInv_def)
    show "(q, b) \<in> S" if "(q, b) \<in> ?S" for b using that \<open>q \<noteq> p\<close> phasesOf_self [of q b p] by blast
  qed simp
  then have "abaInv Y (\<sigma>(p := procOf st)) ?S E' D'" using 1 by (simp add: abaInv_def)
  then show ?thesis by blast
qed

theorem abaNet_inv:
  assumes Y: "abaSystem Y" and net: "abaNet Y \<sigma> S"
  shows "\<exists>E D. abaInv Y \<sigma> S E D"
  using net
proof induction
  case net_init
  have "abaInv Y (\<lambda>_. Idle) {} {} {}" by (simp add: abaInv_def globalInv_def confUnique_def)
  then show ?case by blast
next
  case (net_start \<sigma> S p st)
  then obtain E D where inv: "abaInv Y \<sigma> S E D" by blast
  then have "procInv Y S E D p (\<sigma> p)" "globalInv Y S E D" by (simp_all add: abaInv_def)
  then have "stepInv Y S E D p st"
    using abaInit_inv [OF Y net_start.hyps(2)] net_start.hyps(3,4) by simp
  then show ?case using inv by (rule abaInv_step)
next
  case (net_handle \<sigma> S p s e st)
  then obtain E D where inv: "abaInv Y \<sigma> S E D" by blast
  then have "procInv Y S E D p (\<sigma> p)" "globalInv Y S E D" by (simp_all add: abaInv_def)
  then have "nodeInv Y S E D p s" using net_handle.hyps(3) by (simp add: nodeInv_def)
  then have "stepInv Y S E D p st" using abaHandle_inv [OF Y] net_handle.hyps by blast
  then show ?case using inv by (rule abaInv_step)
qed

end
