(* ===== verification/Mvba_ABA_Props.thy ===== *)
theory Mvba_ABA_Props
  imports Mvba_ABA_Net Mvba_PD_Props
begin

text \<open>
  Agreement and validity of binary agreement, from the invariant of the reachable configurations; that
  every event is handled in finitely many turns is the termination proof of \<open>abaSettle\<close>.
\<close>

section \<open>Rounds\<close>

lemma dec_unique:
  assumes Y: "abaSystem Y" and g: "globalInv Y S E D" and d: "(q, r, [v]) \<in> D" "(q', r, [w]) \<in> D"
  shows "v = w"
proof -
  have "decJust Y S E r [v]" "decJust Y S E r [w]" using g d unfolding globalInv_def by blast+
  then have vw: "v = 0 \<or> v = 1" "w = 0 \<or> w = 1" and "confQuorum Y S r v" "confQuorum Y S r w"
    by (auto simp: decJust_def)
  then obtain a where "confBy S r (abaSingleValueKey v) a" "confBy S r (abaSingleValueKey w) a"
    unfolding confQuorum_def by (meson senders_common [OF Y])
  then have "abaSingleValueKey v = abaSingleValueKey w"
    using g unfolding confBy_def globalInv_def confUnique_def by metis
  then show ?thesis using vw by (auto simp: abaSingleValueKey_def split: if_splits)
qed

lemma est_origin:
  assumes "globalInv Y S E D" "(q, r, e) \<in> E" "0 < r"
  obtains d where "(q, r - 1, d) \<in> D" "decJust Y S E (r - 1) d" "e = nextEstimate Y (r - 1) d"
proof -
  have "estJust Y D q r e" using assms(1,2) unfolding globalInv_def by blast
  then obtain d where d: "(q, r - 1, d) \<in> D" "e = nextEstimate Y (r - 1) d"
    using assms(3) by (auto simp: estJust_def)
  then have "decJust Y S E (r - 1) d" using assms(1) unfolding globalInv_def by blast
  then show thesis using that d by blast
qed

text \<open>A round that ends with one value at some node, the coin's value, fixes every later estimate.\<close>

lemma locked_estimates:
  assumes Y: "abaSystem Y" and g: "globalInv Y S E D" and l: "(p, r, [v]) \<in> D" "sy_bit Y r = v" "0 \<le> r"
  shows "(q, r + 1 + int k, e) \<in> E \<Longrightarrow> e = v"
proof (induction k arbitrary: q e)
  case 0
  then obtain d where d: "(q, r, d) \<in> D" "decJust Y S E r d" "e = nextEstimate Y r d"
    using est_origin [OF g, of q "r + 1" e] l(3) by auto
  then show ?case using decJust_cases [OF d(2)] dec_unique [OF Y g l(1)] l(2) by (auto simp: nextEstimate_def)
next
  case (Suc k)
  let ?r = "r + 1 + int k"
  obtain d where d: "decJust Y S E ?r d" "e = nextEstimate Y ?r d"
    using est_origin [OF g, of q "?r + 1" e] Suc.prems l(3) by (auto simp: algebra_simps)
  have only: "\<forall>w. estAt E ?r w \<longrightarrow> w = v" using Suc.IH by (auto simp: estAt_def)
  then have "\<not> (estAt E ?r 0 \<and> estAt E ?r 1)" by (metis zero_neq_one)
  then show ?case using d only by (auto simp: decJust_def nextEstimate_def)
qed

lemma locked_decisions:
  assumes Y: "abaSystem Y" and g: "globalInv Y S E D" and l: "(p, r, [v]) \<in> D" "sy_bit Y r = v" "0 \<le> r"
    and w: "(q, r', [w]) \<in> D" "r \<le> r'"
  shows "v = w"
proof (cases "r' = r")
  case True
  then show ?thesis using dec_unique [OF Y g] l w by blast
next
  case False
  define k where "k = nat (r' - r - 1)"
  have r': "r' = r + 1 + int k" using False w(2) by (simp add: k_def)
  have "decJust Y S E r' [w]" using g w(1) unfolding globalInv_def by blast
  then obtain a where "(a, r', w) \<in> E" by (auto simp: decJust_def estAt_def)
  then show ?thesis using locked_estimates [OF Y g l] r' by blast
qed

text \<open>Every estimate is some honest node's input.\<close>

lemma est_input:
  assumes g: "globalInv Y S E D"
  shows "(q, int k, e) \<in> E \<Longrightarrow> \<exists>a \<in> honest Y. sy_input Y a = e"
proof (induction k arbitrary: q e)
  case 0
  then have "estJust Y D q 0 e" using g unfolding globalInv_def by fastforce
  then show ?case by (auto simp: estJust_def)
next
  case (Suc k)
  have e: "e = 0 \<or> e = 1" using g Suc.prems unfolding globalInv_def by (fastforce simp: estJust_def)
  obtain d where d: "decJust Y S E (int k) d" "e = nextEstimate Y (int k) d"
    using est_origin [OF g Suc.prems] by auto
  then have "estAt E (int k) e" using e by (auto simp: decJust_def nextEstimate_def)
  then show ?case using Suc.IH by (auto simp: estAt_def)
qed

section \<open>Executable schedules\<close>

text \<open>A schedule starts nodes (\<open>None\<close>) and feeds them events; \<open>netRun\<close> executes it and stops on a step
  that the network does not allow.\<close>

definition phasesList :: "int \<Rightarrow> action list \<Rightarrow> (int \<times> abaPhaseMsg) list" where
  "phasesList p out = concat (map (\<lambda>a.
     case a of ASend _ msg \<Rightarrow> (case pm_Body msg of BabaPhase b \<Rightarrow> [(p, b)] | _ \<Rightarrow> []) | _ \<Rightarrow> []) out)"

definition isHonest :: "abaSys \<Rightarrow> int \<Rightarrow> bool" where
  "isHonest Y p \<longleftrightarrow> 0 \<le> p \<and> p < sy_n Y \<and> p \<notin> sy_faulty Y"

definition mayDeliver :: "abaSys \<Rightarrow> (int \<times> abaPhaseMsg) list \<Rightarrow> ReceivedMessage event \<Rightarrow> bool" where
  "mayDeliver Y L e = (case e of
     Recv inp \<Rightarrow> (case pm_Body (rm_Msg inp) of
        BabaPhase b \<Rightarrow> \<not> isHonest Y (rm_From inp) \<or> List.member L (rm_From inp, b) | _ \<Rightarrow> True)
   | _ \<Rightarrow> True)"

fun netStep :: "abaSys \<Rightarrow> (int \<Rightarrow> abaProc) \<times> (int \<times> abaPhaseMsg) list \<Rightarrow> int \<times> ReceivedMessage event option \<Rightarrow>
    ((int \<Rightarrow> abaProc) \<times> (int \<times> abaPhaseMsg) list) option" where
  "netStep Y (\<sigma>, L) (p, ev) =
    (if \<not> isHonest Y p then None
     else case (\<sigma> p, ev) of
       (Idle, None) \<Rightarrow>
         (let st = abaInit (sy_node Y p) (sy_sid Y) (sy_iter Y) (sy_input Y p) (sy_coin Y p) in
          Some (\<sigma>(p := procOf st), remdups (L @ phasesList p (stepOut st))))
     | (Running s, Some e) \<Rightarrow>
         if mayDeliver Y L e then
           (let st = abaHandle (sy_node Y p) (sy_sid Y) (sy_iter Y) (sy_coin Y p) s e in
            Some (\<sigma>(p := procOf st), remdups (L @ phasesList p (stepOut st))))
         else None
     | (Returned r, Some e) \<Rightarrow> Some (\<sigma>, L)
     | _ \<Rightarrow> None)"

fun netRun :: "abaSys \<Rightarrow> (int \<times> ReceivedMessage event option) list \<Rightarrow>
    (int \<Rightarrow> abaProc) \<times> (int \<times> abaPhaseMsg) list \<Rightarrow> ((int \<Rightarrow> abaProc) \<times> (int \<times> abaPhaseMsg) list) option" where
  "netRun Y [] c = Some c"
| "netRun Y (x # xs) c = Option.bind (netStep Y c x) (netRun Y xs)"

lemma set_phasesList: "set (phasesList p out) = phasesOf p out"
proof (induction out)
  case (Cons a out)
  have "phasesOf p (a # out) = phasesOf p [a] \<union> phasesOf p out" using phasesOf_simps(2) [of p "[a]" out] by simp
  moreover have "set (phasesList p [a]) = phasesOf p [a]"
  proof (cases a)
    case (ASend peer msg)
    then show ?thesis
      by (cases msg) (auto simp: phasesList_def phasesOf_def split: Body.splits)
  qed (auto simp: phasesList_def phasesOf_def)
  ultimately show ?case using Cons by (simp add: phasesList_def)
qed (simp add: phasesList_def)

lemma isHonest_iff: "isHonest Y p \<longleftrightarrow> p \<in> honest Y"
  by (auto simp: isHonest_def honest_def)

lemma mayDeliver_auth: "mayDeliver Y L e \<Longrightarrow> authEvent Y (set L) e"
  by (cases e) (auto simp: mayDeliver_def authentic_def isHonest_iff split: Body.splits)

lemma netStep_net: "netStep Y (\<sigma>, L) x = Some (\<sigma>', L') \<Longrightarrow> abaNet Y \<sigma> (set L) \<Longrightarrow> abaNet Y \<sigma>' (set L')"
  by (cases x) (auto simp: Let_def isHonest_iff set_phasesList split: if_splits abaProc.splits option.splits
      intro: net_start net_handle [OF _ _ _ mayDeliver_auth])

lemma netRun_net: "netRun Y xs (\<sigma>, L) = Some (\<sigma>', L') \<Longrightarrow> abaNet Y \<sigma> (set L) \<Longrightarrow> abaNet Y \<sigma>' (set L')"
proof (induction xs arbitrary: \<sigma> L)
  case (Cons x xs)
  then obtain \<sigma>1 L1 where "netStep Y (\<sigma>, L) x = Some (\<sigma>1, L1)" "netRun Y xs (\<sigma>1, L1) = Some (\<sigma>', L')"
    by (auto simp: Option.bind_eq_Some_conv)
  then show ?case using Cons.IH Cons.prems(2) netStep_net by blast
qed simp

section \<open>Properties\<close>

lemma aba_agreement_lemma:
  assumes Y: "abaSystem Y" and net: "abaNet Y \<sigma> S"
    and ret: "\<sigma> p = Returned (Ok v)" "\<sigma> q = Returned (Ok w)"
  shows "v = w"
proof -
  obtain E D where "abaInv Y \<sigma> S E D" using abaNet_inv [OF Y net] by blast
  then have g: "globalInv Y S E D" and "procInv Y S E D p (\<sigma> p)" "procInv Y S E D q (\<sigma> q)"
    by (simp_all add: abaInv_def)
  then obtain r r' where l: "(p, r, [v]) \<in> D" "sy_bit Y r = v" "0 \<le> r"
    and l': "(q, r', [w]) \<in> D" "sy_bit Y r' = w" "0 \<le> r'"
    using ret by (auto simp: returnJust_def)
  show ?thesis
    using locked_decisions [OF Y g l l'(1)] locked_decisions [OF Y g l' l(1)] by (cases "r \<le> r'") auto
qed

text \<open>C1. Agreement of binary agreement. In every reachable
  configuration, with up to \<open>f\<close> of \<open>n \<ge> 3 f + 1\<close> nodes faulty, any order and any interleaving of
  deliveries and a coin that shows all nodes the same bit, two nodes that return from \<^verbatim>\<open>runABA\<close> return the
  same value.\<close>

theorem aba_agreement:
  assumes Y: "abaSystem Y" and net: "abaNet Y \<sigma> S"
    and ret: "\<sigma> p = Returned (Ok v)" "\<sigma> q = Returned (Ok w)"
  shows "v = w"
  using assms by (rule aba_agreement_lemma)

text \<open>C30. Validity of binary agreement. A returned value is 0 or 1 and is
  the input of some honest node.\<close>

theorem aba_validity:
  assumes Y: "abaSystem Y" and net: "abaNet Y \<sigma> S" and ret: "\<sigma> p = Returned (Ok v)"
  shows "(v = 0 \<or> v = 1) \<and> (\<exists>a. a \<in> honest Y \<and> sy_input Y a = v)"
proof -
  obtain E D where "abaInv Y \<sigma> S E D" using abaNet_inv [OF Y net] by blast
  then have g: "globalInv Y S E D" and "procInv Y S E D p (\<sigma> p)" by (simp_all add: abaInv_def)
  then obtain r where l: "(p, r, [v]) \<in> D" "0 \<le> r" using ret by (auto simp: returnJust_def)
  then have "decJust Y S E r [v]" using g unfolding globalInv_def by blast
  then obtain a where v: "v = 0 \<or> v = 1" "(a, int (nat r), v) \<in> E" using l by (auto simp: decJust_def estAt_def)
  then show ?thesis using est_input [OF g v(2)] by auto
qed

text \<open>The schedules below run nodes 0, 1 and 2 of four; node 3 is faulty.\<close>

definition demoSys :: "(int \<Rightarrow> int) \<Rightarrow> abaSys" where
  "demoSys inputs = \<lparr>sy_n = 4, sy_f = 1, sy_faulty = {3}, sy_node = (\<lambda>p. plainNode p 4 1), sy_sid = ''s'',
     sy_iter = 0, sy_input = inputs, sy_coin = (\<lambda>p nonce. Ok 1), sy_bit = (\<lambda>r. 1)\<rparr>"

lemma demoSys_system: "abaSystem (demoSys inputs)"
  by (simp add: abaSystem_def demoSys_def)

definition abaRecv :: "int \<Rightarrow> int \<Rightarrow> string \<Rightarrow> int \<Rightarrow> int \<Rightarrow> int list \<Rightarrow> int \<times> ReceivedMessage event option" where
  "abaRecv to r phase from v vs =
     (to, Some (Recv \<lparr>rm_From = from, rm_Msg = ProtocolMessage TagMVBAABA 0 0
        (BabaPhase (abaMsg ''s'' 0 r phase v vs))\<rparr>))"

definition recvAll :: "int \<Rightarrow> string \<Rightarrow> int \<Rightarrow> int list \<Rightarrow> (int \<times> ReceivedMessage event option) list" where
  "recvAll r phase v vs =
     concat (map (\<lambda>to. map (\<lambda>from. abaRecv to r phase from v vs) [0, 1, 2]) [0, 1, 2])"

text \<open>Node 3 first votes 0 towards nodes 0 and 1.\<close>

definition demoSched :: "(int \<times> ReceivedMessage event option) list" where
  "demoSched = [(0, None), (1, None), (2, None),
     abaRecv 0 0 abaPhaseEST 3 0 [], abaRecv 1 0 abaPhaseEST 3 0 []] @
     concat (map (\<lambda>r. recvAll r abaPhaseEST 1 [] @ recvAll r abaPhaseAUX 1 [] @ recvAll r abaPhaseCONF 0 [1]) [0, 1])"

definition outcomes :: "((int \<Rightarrow> abaProc) \<times> (int \<times> abaPhaseMsg) list) option \<Rightarrow> int res option list" where
  "outcomes c = (case c of None \<Rightarrow> [] | Some (\<sigma>, L) \<Rightarrow>
     map (\<lambda>p. case \<sigma> p of Returned r \<Rightarrow> Some r | _ \<Rightarrow> None) [0, 1, 2])"

lemma demo_run:
  "outcomes (netRun (demoSys (\<lambda>_. 1)) demoSched (\<lambda>_. Idle, [])) = [Some (Ok 1), Some (Ok 1), Some (Ok 1)]"
  by code_simp

lemma demo_net:
  obtains \<sigma> S where "abaNet (demoSys (\<lambda>_. 1)) \<sigma> S" "\<sigma> 0 = Returned (Ok 1)" "\<sigma> 1 = Returned (Ok 1)"
proof -
  obtain \<sigma> L where run: "netRun (demoSys (\<lambda>_. 1)) demoSched (\<lambda>_. Idle, []) = Some (\<sigma>, L)"
    and "\<sigma> 0 = Returned (Ok 1)" "\<sigma> 1 = Returned (Ok 1)"
    using demo_run by (auto simp: outcomes_def split: option.splits abaProc.splits)
  then show thesis using that netRun_net [OF run] net_init by simp
qed

theorem aba_agreement_witness:
  "\<exists>\<sigma> S v. abaNet (demoSys (\<lambda>_. 1)) \<sigma> S \<and> \<sigma> 0 = Returned (Ok v) \<and> \<sigma> 1 = Returned (Ok 1) \<and> v = 1"
proof -
  obtain \<sigma> S where net: "abaNet (demoSys (\<lambda>_. 1)) \<sigma> S" and "\<sigma> 0 = Returned (Ok 1)" "\<sigma> 1 = Returned (Ok 1)"
    by (rule demo_net)
  then show ?thesis using aba_agreement [OF demoSys_system net, of 0 _ 1] by blast
qed

theorem aba_validity_witness:
  "\<exists>\<sigma> S v. abaNet (demoSys (\<lambda>_. 1)) \<sigma> S \<and> \<sigma> 0 = Returned (Ok v) \<and>
     (\<exists>a. a \<in> honest (demoSys (\<lambda>_. 1)) \<and> sy_input (demoSys (\<lambda>_. 1)) a = v)"
proof -
  obtain \<sigma> S where net: "abaNet (demoSys (\<lambda>_. 1)) \<sigma> S" and "\<sigma> 0 = Returned (Ok 1)" by (rule demo_net)
  then show ?thesis using aba_validity [OF demoSys_system net, of 0] by blast
qed

section \<open>A stall\<close>

text \<open>\<^verbatim>\<open>conf[confKey] = map[int]struct{}{m.cfg.ID: {}}\<close> replaces the senders of \<open>CONF\<close> messages that came
  while the node still waited for \<open>AUX\<close>. Nobody sends them again. In this schedule node 3 is silent,
  every honest input and every coin is 1, the channels are first-in first-out, and node 0 sees node
  1's \<open>CONF\<close> one message too early.\<close>

definition stallSched :: "(int \<times> ReceivedMessage event option) list" where
  "stallSched = [(0, None), (1, None), (2, None)] @ recvAll 0 abaPhaseEST 1 [] @
     map (\<lambda>from. abaRecv 1 0 abaPhaseAUX from 1 []) [0, 1, 2] @
     map (\<lambda>from. abaRecv 2 0 abaPhaseAUX from 1 []) [0, 1, 2] @
     [abaRecv 0 0 abaPhaseAUX 0 1 [], abaRecv 0 0 abaPhaseAUX 1 1 [], abaRecv 0 0 abaPhaseCONF 1 0 [1],
      abaRecv 0 0 abaPhaseAUX 2 1 [], abaRecv 0 0 abaPhaseCONF 2 0 [1], abaRecv 0 0 abaPhaseCONF 0 0 [1]] @
     map (\<lambda>from. abaRecv 1 0 abaPhaseCONF from 0 [1]) [0, 1, 2] @
     map (\<lambda>from. abaRecv 2 0 abaPhaseCONF from 0 [1]) [0, 1, 2] @
     concat (map (\<lambda>to. map (\<lambda>from. abaRecv to 1 abaPhaseEST from 1 []) [1, 2]) [0, 1, 2])"

definition deliveries :: "(int \<times> ReceivedMessage event option) list \<Rightarrow> (int \<times> int \<times> abaPhaseMsg) list" where
  "deliveries sch = concat (map (\<lambda>(p, ev). case ev of
     Some (Recv inp) \<Rightarrow> (case pm_Body (rm_Msg inp) of BabaPhase b \<Rightarrow> [(p, rm_From inp, b)] | _ \<Rightarrow> [])
   | _ \<Rightarrow> []) sch)"

text \<open>Everything that the honest nodes sent has reached the three of them.\<close>

definition allDelivered :: "(int \<times> ReceivedMessage event option) list \<Rightarrow> (int \<times> abaPhaseMsg) list \<Rightarrow> bool" where
  "allDelivered sch L =
     list_all (\<lambda>(q, b). list_all (\<lambda>p. List.member (deliveries sch) (p, q, b)) [0, 1, 2]) L"

definition stalled :: "(int \<times> ReceivedMessage event option) list \<Rightarrow>
    ((int \<Rightarrow> abaProc) \<times> (int \<times> abaPhaseMsg) list) option \<Rightarrow> bool" where
  "stalled sch c = (case c of None \<Rightarrow> False
     | Some (\<sigma>, L) \<Rightarrow> outcomes c = [None, None, None] \<and> allDelivered sch L)"


end
