(* ===== verification/Mvba_Coin_ABA.thy ===== *)
theory Mvba_Coin_ABA
  imports Mvba_Coin Mvba_ABA_Props
begin

text \<open>
  Binary agreement with the shared coin below it: the hypothesis on the coin under which binary
  agreement is safe is discharged by \<^verbatim>\<open>makeSharedCoin\<close>, for signers with unique signatures.
\<close>

section \<open>Binary agreement on top of the coin\<close>

definition coinSystem :: "abaSys \<Rightarrow> string \<Rightarrow> (int \<Rightarrow> string \<Rightarrow> ReceivedMessage event list) \<Rightarrow> bool" where
  "coinSystem Y csid ces \<longleftrightarrow>
     0 \<le> sy_f Y \<and> 3 * sy_f Y + 1 \<le> sy_n Y \<and> finite (sy_faulty Y) \<and> int (card (sy_faulty Y)) \<le> sy_f Y \<and>
     (\<forall>p \<in> honest Y. let m = sy_node Y p in
        cfg_ID (m_cfg m) = p \<and> cfg_N (m_cfg m) = sy_n Y \<and> cfg_F (m_cfg m) = sy_f Y \<and>
        sg_threshold (m_signer m) \<and> uniqueSignatures (m_signer m) ''EQ_COIN_SHARE'' \<and>
        (\<forall>nonce. sy_coin Y p nonce = coinResult (makeSharedCoin m csid TagMVBAABACoin (sy_iter Y) nonce (ces p nonce))) \<and>
        (\<forall>q \<in> honest Y. sameKeys (m_signer m) (m_signer (sy_node Y q)) \<and>
           cfg_EquivalentCoinMode (m_cfg m) = cfg_EquivalentCoinMode (m_cfg (sy_node Y q))))"

lemma abaNet_bit: "abaNet Y \<sigma> S \<Longrightarrow> abaNet (Y\<lparr>sy_bit := b\<rparr>) \<sigma> S"
proof (induction rule: abaNet.induct)
  case net_init
  show ?case by (rule abaNet.net_init)
next
  case (net_start \<sigma> S p st)
  show ?case by (rule abaNet.net_start) (use net_start in \<open>simp_all add: honest_def\<close>)
next
  case (net_handle \<sigma> S p s e st)
  have "authEvent (Y\<lparr>sy_bit := b\<rparr>) S e" using net_handle.hyps by (cases e) (auto simp: authentic_def honest_def)
  then show ?case by (rule abaNet.net_handle [rotated 3]) (use net_handle in \<open>simp_all add: honest_def\<close>)
qed

lemma coinSystem_common:
  assumes "coinSystem Y csid ces" "p \<in> honest Y" "q \<in> honest Y"
    and "sy_coin Y p nonce = Ok c" "sy_coin Y q nonce = Ok c'"
  shows "c = c'"
proof -
  have run: "\<exists>s out. makeSharedCoin (sy_node Y a) csid TagMVBAABACoin (sy_iter Y) nonce (ces a nonce) = Return (Ok x) s out"
    if "a \<in> honest Y" "sy_coin Y a nonce = Ok x" for a x
    using assms(1) that coinResult_Ok by (auto simp: coinSystem_def Let_def)
  have keys: "sg_threshold (m_signer (sy_node Y p))" "sameKeys (m_signer (sy_node Y p)) (m_signer (sy_node Y q))"
    "uniqueSignatures (m_signer (sy_node Y p)) ''EQ_COIN_SHARE''"
    "cfg_EquivalentCoinMode (m_cfg (sy_node Y p)) = cfg_EquivalentCoinMode (m_cfg (sy_node Y q))"
    using assms(1-3) unfolding coinSystem_def Let_def by blast+
  show ?thesis using run [OF assms(2,4)] run [OF assms(3,5)] coin_common_lemma [OF keys] by blast
qed

lemma coinSystem_system:
  assumes c: "coinSystem Y csid ces"
  obtains b where "abaSystem (Y\<lparr>sy_bit := b\<rparr>)"
proof -
  define b where "b r = (SOME x. \<forall>p c. p \<in> honest Y \<longrightarrow> sy_coin Y p (abaNonce r) = Ok c \<longrightarrow> c AND 1 = x)" for r
  have "\<exists>x. \<forall>p c. p \<in> honest Y \<longrightarrow> sy_coin Y p (abaNonce r) = Ok c \<longrightarrow> c AND 1 = x" for r
    using coinSystem_common [OF c, where nonce = "abaNonce r"] by metis
  then have "\<forall>p c. p \<in> honest Y \<longrightarrow> sy_coin Y p (abaNonce r) = Ok c \<longrightarrow> c AND 1 = b r" for r
    unfolding b_def by (rule someI_ex)
  then have "abaSystem (Y\<lparr>sy_bit := b\<rparr>)"
    using c by (auto simp: abaSystem_def coinSystem_def honest_def Let_def)
  then show thesis using that by blast
qed


subsection \<open>A run with the coin\<close>

text \<open>The agreement looks at the last bit of the coin only.\<close>

fun coinBit :: "int res \<Rightarrow> int res" where
  "coinBit (Ok c) = Ok (c AND 1)"
| "coinBit (Err e) = Err e"
| "coinBit Panic = Panic"

lemma abaInternal_coinBit:
  "abaInternal m sid iter (\<lambda>x. coinBit (coin x)) s = abaInternal m sid iter coin s"
proof -
  have "abaFinishRound m sid iter (\<lambda>x. coinBit (coin x)) s d = abaFinishRound m sid iter coin s d" for d
    by (cases "coin (abaNonce (ab_round s))") (simp_all add: abaFinishRound_def and.assoc)
  then show ?thesis by (cases "ab_wait s") (simp_all add: abaInternal_def Let_def)
qed

lemma abaSettle_coinBit:
  "abaSettle m sid iter (\<lambda>x. coinBit (coin x)) s = abaSettle m sid iter coin s"
proof (induction "abaRank s" arbitrary: s rule: less_induct)
  case less
  show ?case
  proof (cases "abaInternal m sid iter coin s")
    case None
    then show ?thesis by (simp add: abaSettle.simps [of _ _ _ _ s] abaInternal_coinBit)
  next
    case (Some st)
    then show ?thesis using less abaInternal_rank [of m sid iter coin s]
      by (cases st) (simp_all add: abaSettle.simps [of _ _ _ _ s] abaInternal_coinBit)
  qed
qed

lemma coinBit_handlers:
  "abaHandle m sid iter (\<lambda>x. coinBit (coin x)) s e = abaHandle m sid iter coin s e"
  "abaInit m sid iter v (\<lambda>x. coinBit (coin x)) = abaInit m sid iter v coin"
  by (simp_all add: abaHandle_def abaInit_def abaSettle_coinBit split: step.split prod.split)

lemma isHonest_coin: "isHonest (Y\<lparr>sy_coin := c\<rparr>) p = isHonest Y p"
  by (simp add: isHonest_def)

lemma mayDeliver_coin: "mayDeliver (Y\<lparr>sy_coin := c\<rparr>) L e = mayDeliver Y L e"
  unfolding mayDeliver_def isHonest_coin ..

lemma netRun_coinBit:
  "netRun (Y\<lparr>sy_coin := \<lambda>p x. coinBit (sy_coin Y p x)\<rparr>) sch c = netRun Y sch c"
proof (induction sch arbitrary: c)
  case (Cons x sch)
  have "netStep (Y\<lparr>sy_coin := \<lambda>p x. coinBit (sy_coin Y p x)\<rparr>) c x = netStep Y c x"
    by (cases c; cases x; cases "fst c (fst x)"; cases "snd x")
      (simp_all add: isHonest_coin mayDeliver_coin coinBit_handlers)
  moreover have "netRun (Y\<lparr>sy_coin := \<lambda>p x. coinBit (sy_coin Y p x)\<rparr>) sch = netRun Y sch"
    using Cons by blast
  ultimately show ?case by simp
qed simp

text \<open>Four nodes in the deterministic coin mode; the coins of the first three rounds arrive.\<close>

definition detNode :: "int \<Rightarrow> DumboMVBA" where
  "detNode i = (plainNode i 4 1)\<lparr>m_cfg := (m_cfg (plainNode i 4 1))\<lparr>cfg_EquivalentCoinMode := ''deterministic''\<rparr>\<rparr>"

definition detShare :: "int \<Rightarrow> string \<Rightarrow> ReceivedMessage event" where
  "detShare i nonce = Recv \<lparr>rm_From = i, rm_Msg = ProtocolMessage TagMVBAABACoin 0 0
     (BcoinShare \<lparr>cs_SID = ''sCOIN0'', cs_Nonce = nonce, cs_Share = coinDigest ''sCOIN0'' nonce\<rparr>)\<rparr>"

definition detEvents :: "int \<Rightarrow> string \<Rightarrow> ReceivedMessage event list" where
  "detEvents p nonce =
     (if nonce \<in> {abaNonce 0, abaNonce 1, abaNonce 2} then [detShare (if p = 0 then 1 else 0) nonce] else [])"

definition detCoinAt :: "int \<Rightarrow> string \<Rightarrow> int res" where
  "detCoinAt p nonce = coinResult (makeSharedCoin (detNode p) ''sCOIN0'' TagMVBAABACoin 0 nonce (detEvents p nonce))"

definition detCoin :: "int \<Rightarrow> string \<Rightarrow> int res" where
  "detCoin p = detCoinAt (if 0 \<le> p \<and> p < 4 then p else 0)"

definition detSys :: "(int \<Rightarrow> string \<Rightarrow> int res) \<Rightarrow> int \<Rightarrow> abaSys" where
  "detSys coin v = \<lparr>sy_n = 4, sy_f = 1, sy_faulty = {3}, sy_node = detNode, sy_sid = ''s'',
     sy_iter = 0, sy_input = (\<lambda>_. v), sy_coin = coin, sy_bit = (\<lambda>r. 0)\<rparr>"

definition bitCoin :: "int \<Rightarrow> int \<Rightarrow> int \<Rightarrow> int \<Rightarrow> string \<Rightarrow> int res" where
  "bitCoin b0 b1 b2 p nonce =
     (if nonce = ''round-0'' then Ok b0 else if nonce = ''round-1'' then Ok b1
      else if nonce = ''round-2'' then Ok b2 else Err ''pending'')"

definition majority :: "int \<Rightarrow> int \<Rightarrow> int \<Rightarrow> int" where
  "majority b0 b1 b2 = (if b0 + b1 + b2 \<ge> 2 then 1 else 0)"

definition recvOthers :: "int \<Rightarrow> string \<Rightarrow> int \<Rightarrow> int list \<Rightarrow> (int \<times> ReceivedMessage event option) list" where
  "recvOthers r phase v vs = map (\<lambda>(to, from). abaRecv to r phase from v vs) [(0, 1), (0, 2), (1, 0), (1, 2), (2, 0), (2, 1)]"

definition detSched :: "int \<Rightarrow> (int \<times> ReceivedMessage event option) list" where
  "detSched v = [(0, None), (1, None), (2, None)] @
     concat (map (\<lambda>r. recvOthers r abaPhaseEST v [] @ recvOthers r abaPhaseAUX v [] @ recvOthers r abaPhaseCONF 0 [v])
       [0, 1, 2])"

text \<open>One value shows twice among three coin bits: when all start with it, they return it.\<close>

lemma bit_run:
  assumes "b0 \<in> {0, 1}" "b1 \<in> {0, 1}" "b2 \<in> {0, 1}" "v = majority b0 b1 b2"
  shows "outcomes (netRun (detSys (bitCoin b0 b1 b2) v) (detSched v) (\<lambda>_. Idle, [])) =
       [Some (Ok v), Some (Ok v), Some (Ok v)]"
proof -
  have "outcomes (netRun (detSys (bitCoin 0 0 0) 0) (detSched 0) (\<lambda>_. Idle, [])) = [Some (Ok 0), Some (Ok 0), Some (Ok 0)]"
    by code_simp
  moreover have "outcomes (netRun (detSys (bitCoin 0 0 1) 0) (detSched 0) (\<lambda>_. Idle, [])) = [Some (Ok 0), Some (Ok 0), Some (Ok 0)]"
    by code_simp
  moreover have "outcomes (netRun (detSys (bitCoin 0 1 0) 0) (detSched 0) (\<lambda>_. Idle, [])) = [Some (Ok 0), Some (Ok 0), Some (Ok 0)]"
    by code_simp
  moreover have "outcomes (netRun (detSys (bitCoin 1 0 0) 0) (detSched 0) (\<lambda>_. Idle, [])) = [Some (Ok 0), Some (Ok 0), Some (Ok 0)]"
    by code_simp
  moreover have "outcomes (netRun (detSys (bitCoin 0 1 1) 1) (detSched 1) (\<lambda>_. Idle, [])) = [Some (Ok 1), Some (Ok 1), Some (Ok 1)]"
    by code_simp
  moreover have "outcomes (netRun (detSys (bitCoin 1 0 1) 1) (detSched 1) (\<lambda>_. Idle, [])) = [Some (Ok 1), Some (Ok 1), Some (Ok 1)]"
    by code_simp
  moreover have "outcomes (netRun (detSys (bitCoin 1 1 0) 1) (detSched 1) (\<lambda>_. Idle, [])) = [Some (Ok 1), Some (Ok 1), Some (Ok 1)]"
    by code_simp
  moreover have "outcomes (netRun (detSys (bitCoin 1 1 1) 1) (detSched 1) (\<lambda>_. Idle, [])) = [Some (Ok 1), Some (Ok 1), Some (Ok 1)]"
    by code_simp
  moreover have "majority 0 0 0 = 0" "majority 0 0 1 = 0" "majority 0 1 0 = 0" "majority 1 0 0 = 0"
    "majority 0 1 1 = 1" "majority 1 0 1 = 1" "majority 1 1 0 = 1" "majority 1 1 1 = 1"
    by (simp_all add: majority_def)
  ultimately show ?thesis using assms by auto
qed

lemma detNode_simps:
  "cfg_ID (m_cfg (detNode i)) = i" "cfg_N (m_cfg (detNode i)) = 4" "cfg_F (m_cfg (detNode i)) = 1"
  "cfg_EquivalentCoinMode (m_cfg (detNode i)) = ''deterministic''" "m_signer (detNode i) = plainSigner i 4 1"
  by (simp_all add: detNode_def plainNode_def)

lemma abaNonce_simps: "abaNonce 0 = ''round-0''" "abaNonce 1 = ''round-1''" "abaNonce 2 = ''round-2''"
  by code_simp+

lemma detCoinAt_eq:
  assumes "0 \<le> p" "p < 4"
  shows "detCoinAt p nonce = (if nonce \<in> {abaNonce 0, abaNonce 1, abaNonce 2}
    then Ok (deriveCoinValue ''deterministic'' ''sCOIN0'' nonce []) else Err ''pending'')"
proof (cases "nonce \<in> {abaNonce 0, abaNonce 1, abaNonce 2}")
  case True
  let ?m = "detNode p"
  let ?j = "if p = 0 then 1 else 0 :: int"
  have "validNode ?m" "cfg_UseEquivalentPath (m_cfg ?m)"
    using assms by (simp_all add: validNode_def detNode_def plainNode_def plainSigner_def)
  moreover have "coinSigner (m_signer ?m) p ''EQ_COIN_SHARE''"
    using plainNode_coin [OF assms, of 1] by (simp add: detNode_simps plainNode_def)
  moreover have "coinFrom ?m ''sCOIN0'' nonce (detShare ?j nonce) = {?j}"
    by (simp add: detShare_def detNode_simps plainSigner_def)
  ultimately obtain v s out where run:
    "makeSharedCoin ?m ''sCOIN0'' TagMVBAABACoin 0 nonce [detShare ?j nonce] = Return (Ok v) s out"
    using coin_live_lemma [of ?m "[detShare ?j nonce]" "''sCOIN0''" nonce TagMVBAABACoin 0]
    by (auto simp: detNode_simps detShare_def)
  have "v = deriveCoinValue ''deterministic'' ''sCOIN0'' nonce []"
    using coin_valid [OF _ run] by (simp add: coinValid_def detNode_simps plainSigner_def)
  then show ?thesis using True run by (simp add: detCoinAt_def coinResult_def detEvents_def)
next
  case False
  have "coinThreshold (detNode p) = 2" by (simp add: coinThreshold_def detNode_simps plainSigner_def)
  then show ?thesis using False
    by (simp add: detCoinAt_def coinResult_def makeSharedCoin_def coinInit_def Let_def coinTurn_def detEvents_def
        detNode_simps plainSigner_def)
qed

lemma coinBit_detCoin:
  obtains b0 b1 b2 where "b0 \<in> {0, 1}" "b1 \<in> {0, 1}" "b2 \<in> {0, 1}"
    "(\<lambda>p x. coinBit (detCoin p x)) = bitCoin b0 b1 b2"
proof -
  define b where "b r = deriveCoinValue ''deterministic'' ''sCOIN0'' (abaNonce r) [] AND 1" for r
  have "(\<lambda>p x. coinBit (detCoin p x)) = bitCoin (b 0) (b 1) (b 2)"
    by (auto simp: fun_eq_iff detCoin_def detCoinAt_eq bitCoin_def b_def abaNonce_simps)
  moreover have "b r \<in> {0, 1}" for r using and_1_cases by (auto simp: b_def)
  ultimately show thesis using that by blast
qed

lemma detSys_coin: "coinSystem (detSys detCoin v) ''sCOIN0'' detEvents"
  by (auto simp: coinSystem_def Let_def detSys_def detNode_simps detCoin_def detCoinAt_def sameKeys_def uniqueSignatures_def
      plainSigner_def honest_def)

lemma det_run:
  obtains v where "outcomes (netRun (detSys detCoin v) (detSched v) (\<lambda>_. Idle, [])) =
    [Some (Ok v), Some (Ok v), Some (Ok v)]"
proof -
  obtain b0 b1 b2 where b: "b0 \<in> {0, 1}" "b1 \<in> {0, 1}" "b2 \<in> {0, 1}"
    and eq: "(\<lambda>p x. coinBit (detCoin p x)) = bitCoin b0 b1 b2"
    by (rule coinBit_detCoin)
  let ?v = "majority b0 b1 b2"
  have "netRun (detSys detCoin ?v) = netRun (detSys (bitCoin b0 b1 b2) ?v)"
    using netRun_coinBit [of "detSys detCoin ?v"] eq by (simp add: fun_eq_iff detSys_def)
  then show thesis using that [of ?v] bit_run [OF b refl] by simp
qed


end
