(* ===== verification/Mvba_Run.thy ===== *)
theory Mvba_Run
  imports Mvba_Quit_Props Mvba_Coin Mvba_ABA
begin

text \<open>
  The whole MVBA of the equivalent path (\<^verbatim>\<open>runEquivalent\<close>, \<^verbatim>\<open>routeEquivalentMessages\<close>,
  \<^verbatim>\<open>trySend\<close> of \<^verbatim>\<open>mvba_equivalent.go\<close>). The goroutines of a node share nothing but the store
  cache and the channels the router fills, so a run is given by what each channel delivers to its reader
  (\<open>runSchedule\<close>) and \<open>runEquivalent\<close> composes the components in the order of the source.
  \<open>None\<close> is a run that still waits on one of its channels.
\<close>

section \<open>Routing\<close>

datatype channel =
  ChPD int | ChCoin | ChPDFinish | ChRC | ChRCPrepare | ChABA int | ChABACoin int

definition maxABABuffers :: "DumboMVBA \<Rightarrow> int" where
  "maxABABuffers m =
    (let b = cfg_MaxRounds (m_cfg m) * 4 + 8; n = cfg_N (m_cfg m) in if b < n + 2 then n + 2 else b)"

text \<open>The channels a received message goes to, in order. \<^verbatim>\<open>trySend\<close> waits for room in the channel and
  gives up only when the context ends: it drops nothing.\<close>

definition routeEquivalentMessages :: "DumboMVBA \<Rightarrow> ReceivedMessage \<Rightarrow> channel list" where
  "routeEquivalentMessages m inp =
    (let n = cfg_N (m_cfg m); buffers = maxABABuffers m; msg = rm_Msg inp in
     case pm_Tag msg of
       TagMVBAPD \<Rightarrow>
         (if pm_Leader msg \<ge> 0 \<and> pm_Leader msg < n then [ChPD (pm_Leader msg)] else []) @
         (case pm_Body msg of BpdDone _ \<Rightarrow> [ChPDFinish] | _ \<Rightarrow> [])
     | TagMVBACoin \<Rightarrow> [ChCoin]
     | TagMVBAPDFinish \<Rightarrow> [ChPDFinish]
     | TagMVBARC \<Rightarrow> [ChRC]
     | TagMVBARCPull \<Rightarrow> [ChRC]
     | TagMVBARCPrepare \<Rightarrow> [ChRCPrepare]
     | TagMVBAABA \<Rightarrow> if pm_Round msg \<ge> 0 \<and> pm_Round msg < buffers then [ChABA (pm_Round msg)] else []
     | TagMVBAABADecision \<Rightarrow> if pm_Round msg \<ge> 0 \<and> pm_Round msg < buffers then [ChABA (pm_Round msg)] else []
     | TagMVBAABACoin \<Rightarrow> if pm_Round msg \<ge> 0 \<and> pm_Round msg < buffers then [ChABACoin (pm_Round msg)] else []
     | _ \<Rightarrow> [])"

datatype trySendResult = Sent | CtxEnded | Waiting

text \<open>One \<^verbatim>\<open>trySend\<close> on a channel with its buffered messages; \<open>pickCtx\<close> is the choice of \<^verbatim>\<open>select\<close> when both
  of its cases are ready.\<close>

definition trySend :: "bool \<Rightarrow> bool \<Rightarrow> nat \<Rightarrow> 'a list \<Rightarrow> 'a \<Rightarrow> 'a list \<times> trySendResult" where
  "trySend ctxDone pickCtx capacity ch x =
     (if length ch < capacity \<and> \<not> (ctxDone \<and> pickCtx) then (ch @ [x], Sent)
      else if ctxDone then (ch, CtxEnded)
      else (ch, Waiting))"

section \<open>The composition\<close>

record runSchedule =
  es_pd :: "int \<Rightarrow> ReceivedMessage event list"
  es_quit :: "ReceivedMessage event list"
  es_coin :: "ReceivedMessage event list"
  es_prepare :: "int \<Rightarrow> ReceivedMessage event list"
  es_aba :: "int \<Rightarrow> ReceivedMessage event list"
  es_abaCoin :: "int \<Rightarrow> string \<Rightarrow> ReceivedMessage event list"
  es_rc :: "int \<Rightarrow> ReceivedMessage event list"

text \<open>The instance of a leader; \<^verbatim>\<open>cancelPD\<close> ends it when it has not returned before.\<close>

definition pdWorker :: "mvbaEnv \<Rightarrow> DumboMVBA \<Rightarrow> ProposalValue \<Rightarrow> runSchedule \<Rightarrow> int \<Rightarrow>
    (pdState, action, pdOutcome) step" where
  "pdWorker env m input S leader =
     runPDInstance env m (cfg_SID (m_cfg m) @ ''PD'' @ itoa leader) leader
       (if leader = cfg_ID (m_cfg m) then pv_Payload input else []) (es_pd S leader @ [CtxDone])"

text \<open>What the collector keeps of an instance.\<close>

definition pdCollected :: "mvbaEnv \<Rightarrow> DumboMVBA \<Rightarrow> ProposalValue \<Rightarrow> runSchedule \<Rightarrow> int \<Rightarrow>
    rcStoreMsg option \<times> pdLockMsg option" where
  "pdCollected env m input S leader =
     (case stepResult (pdWorker env m input S leader) of
        Some (Ok out) \<Rightarrow> (po_store out, po_lock out) | _ \<Rightarrow> (None, None))"

text \<open>The cache after the instances: each writes the entry of its own session.\<close>

definition pdStores :: "mvbaEnv \<Rightarrow> DumboMVBA \<Rightarrow> ProposalValue \<Rightarrow> runSchedule \<Rightarrow> (string \<rightharpoonup> rcStoreMsg)" where
  "pdStores env m input S =
     fold (\<lambda>l stores. let k = cfg_SID (m_cfg m) @ ''PD'' @ itoa l in
        stores(k := pd_rcStores (stepState (pdWorker env m input S l)) k)) [0..cfg_N (m_cfg m) - 1] (m_rcStores m)"

definition prepareSends :: "DumboMVBA \<Rightarrow> int \<Rightarrow> int \<Rightarrow> pdLockMsg option \<Rightarrow> action list" where
  "prepareSends m r l lock =
     map (\<lambda>i. ASend i (ProtocolMessage TagMVBARCPrepare r l
       (BrcPrepare \<lparr>rcpr_SID = cfg_SID (m_cfg m) @ ''RCprepare'', rcpr_Leader = l, rcpr_Lock = cloneLock lock\<rparr>)))
       [0..cfg_N (m_cfg m) - 1]"

definition abaCoin :: "DumboMVBA \<Rightarrow> runSchedule \<Rightarrow> int \<Rightarrow> string \<Rightarrow> int res" where
  "abaCoin m S r nonce =
     coinResult (makeSharedCoin m (cfg_SID (m_cfg m) @ ''COIN'' @ itoa r) TagMVBAABACoin r nonce (es_abaCoin S r nonce))"

text \<open>One leader of the permutation: preparation, binary agreement and, on 1, recast. \<open>Some None\<close> moves on
  to the next leader.\<close>

definition abaOf :: "DumboMVBA \<Rightarrow> runSchedule \<Rightarrow> int \<Rightarrow> int \<Rightarrow> (abaState, action, int) step" where
  "abaOf m S r ballot =
     runABA m (cfg_SID (m_cfg m) @ ''ABA'' @ itoa r) r ballot (abaCoin m S r) (es_aba S r)"

definition rcOf :: "mvbaEnv \<Rightarrow> DumboMVBA \<Rightarrow> runSchedule \<Rightarrow> int \<Rightarrow> int \<Rightarrow>
    rcStoreMsg option \<times> pdLockMsg option \<Rightarrow> (rcState, action, bytes) step" where
  "rcOf env m S r l kept =
     runRCSubprotocol env m (cfg_SID (m_cfg m) @ ''PD'' @ itoa l) (fst kept) (snd kept) (es_rc S r)"

datatype leaderStep = Blocked | NextLeader | Finished "ProposalValue res"

definition tryLeader :: "mvbaEnv \<Rightarrow> DumboMVBA \<Rightarrow> runSchedule \<Rightarrow> int \<Rightarrow> int \<Rightarrow>
    rcStoreMsg option \<times> pdLockMsg option \<Rightarrow> leaderStep" where
  "tryLeader env m S r l kept =
    (case stepResult (runRCPrepare m (cfg_SID (m_cfg m)) l (es_prepare S r)) of
       None \<Rightarrow> Blocked
     | Some Panic \<Rightarrow> Finished Panic
     | Some (Err e) \<Rightarrow> Finished (Err (''rc-prepare leader='' @ itoa l @ '' failed: '' @ e))
     | Some (Ok rcBallot) \<Rightarrow>
        (case stepResult (abaOf m S r rcBallot) of
           None \<Rightarrow> Blocked
         | Some Panic \<Rightarrow> Finished Panic
         | Some (Err e) \<Rightarrow> if e = ''pending'' then Blocked else Finished (Err (''aba['' @ itoa r @ ''] failed: '' @ e))
         | Some (Ok abaOut) \<Rightarrow>
            if abaOut = 1 then
              (case stepResult (rcOf env m S r l kept) of
                 None \<Rightarrow> Blocked
               | Some Panic \<Rightarrow> Finished Panic
               | Some (Err e) \<Rightarrow> Finished (Err (''rc-subprotocol leader='' @ itoa l @ '' failed: '' @ e))
               | Some (Ok dec) \<Rightarrow>
                   if \<not> payloadValid m dec then NextLeader
                   else Finished (Ok \<lparr>pv_Payload = dec, pv_Round = r, pv_Hint = ''equivalent'', pv_Proof = []\<rparr>))
            else NextLeader))"

fun leaderLoop :: "mvbaEnv \<Rightarrow> DumboMVBA \<Rightarrow> runSchedule \<Rightarrow> (int \<Rightarrow> rcStoreMsg option \<times> pdLockMsg option) \<Rightarrow>
    int \<Rightarrow> int list \<Rightarrow> ProposalValue res option" where
  "leaderLoop env m S kept r [] = Some (Err ''mvba equivalent exhausted permutation without decision'')"
| "leaderLoop env m S kept r (l # ls) =
     (case tryLeader env m S r l (kept l) of
        Blocked \<Rightarrow> None
      | Finished res \<Rightarrow> Some res
      | NextLeader \<Rightarrow> leaderLoop env m S kept (r + 1) ls)"

text \<open>\<open>perm\<close> is \<^verbatim>\<open>rand.New(rand.NewSource(seed)).Perm(n)\<close>.\<close>

definition runEquivalent :: "mvbaEnv \<Rightarrow> (int \<Rightarrow> int \<Rightarrow> int list) \<Rightarrow> DumboMVBA \<Rightarrow> ProposalValue \<Rightarrow> runSchedule \<Rightarrow>
    ProposalValue res option" where
  "runEquivalent env perm m input S =
    (let sid = cfg_SID (m_cfg m) in
     case stepResult (runQuitPD m sid (es_quit S)) of
       None \<Rightarrow> None
     | Some Panic \<Rightarrow> Some Panic
     | Some (Err e) \<Rightarrow> Some (Err (''quitpd failed: '' @ e))
     | Some (Ok _) \<Rightarrow>
        (let m' = m\<lparr>m_rcStores := pdStores env m input S\<rparr> in
         case stepResult (makeSharedCoin m' (sid @ ''COIN'') TagMVBACoin 0 ''permutation'' (es_coin S)) of
           None \<Rightarrow> None
         | Some Panic \<Rightarrow> Some Panic
         | Some (Err e) \<Rightarrow> Some (Err (''permutation coin failed: '' @ e))
         | Some (Ok seed) \<Rightarrow>
             leaderLoop env m' S (pdCollected env m input S) 0 (perm seed (cfg_N (m_cfg m)))))"

text \<open>What a node sends in its round with a leader besides the messages of the components.\<close>

fun leaderSends :: "mvbaEnv \<Rightarrow> DumboMVBA \<Rightarrow> runSchedule \<Rightarrow> (int \<Rightarrow> rcStoreMsg option \<times> pdLockMsg option) \<Rightarrow>
    int \<Rightarrow> int list \<Rightarrow> action list" where
  "leaderSends env m S kept r [] = []"
| "leaderSends env m S kept r (l # ls) =
     prepareSends m r l (snd (kept l)) @
     (if tryLeader env m S r l (kept l) = NextLeader then leaderSends env m S kept (r + 1) ls else [])"

end
