(* ===== verification/Mvba_Legacy.thy ===== *)
theory Mvba_Legacy
  imports Mvba_Run
begin

text \<open>
  \<^verbatim>\<open>Run\<close> of \<^verbatim>\<open>mvba.go\<close>: the entry of both paths, and the rounds of the older path, in which a
  strongly provable broadcast (an interface of the library, here what its channels deliver) is followed
  by one exchange of votes and coin shares (\<^verbatim>\<open>runCoinABA\<close>).
\<close>

section \<open>Broadcast results (types.go)\<close>

record RoutedSPBCMessage =
  rt_From :: int
  rt_Body :: Body

record SPBCS1Result =
  s1_Leader :: int
  s1_Value :: ProposalValue
  s1_S1Proof :: "SigShare list"
  s1_OK :: bool

record SPBCFinalResult =
  fin_Leader :: int
  fin_Value :: ProposalValue
  fin_FinalProof :: "SigShare list"
  fin_OK :: bool

section \<open>One broadcast round\<close>

definition roundLeaderInput :: "int \<Rightarrow> int \<Rightarrow> ProposalValue \<Rightarrow> ProposalValue option" where
  "roundLeaderInput i leader inp = (if i \<noteq> leader then None else Some (cloneProposal inp))"

text \<open>\<open>perm\<close> is \<^verbatim>\<open>rand.New(rand.NewSource(seed)).Perm(n)\<close>.\<close>

definition leaderSeed :: "string \<Rightarrow> int \<Rightarrow> int" where
  "leaderSeed sid round = sint (get64 (take 8 (sha256 (bytes_of (sid @ ''|'' @ itoa round)))))"

definition leaderOrder :: "(int \<Rightarrow> int \<Rightarrow> int list) \<Rightarrow> string \<Rightarrow> int \<Rightarrow> int \<Rightarrow> int list" where
  "leaderOrder perm sid n round = perm (leaderSeed sid round) n"

text \<open>What the router offers to the broadcast; the broadcast takes it, or it is dropped after
  \<^verbatim>\<open>RouteSendTimeout\<close>.\<close>

definition routeSPBCMessage :: "int \<Rightarrow> int \<Rightarrow> ReceivedMessage \<Rightarrow> RoutedSPBCMessage list" where
  "routeSPBCMessage round leader inp =
     (if pm_Tag (rm_Msg inp) \<noteq> TagSPBC \<or> pm_Round (rm_Msg inp) \<noteq> round \<or> pm_Leader (rm_Msg inp) \<noteq> leader then []
      else [\<lparr>rt_From = rm_From inp, rt_Body = pm_Body (rm_Msg inp)\<rparr>])"

datatype roundEvent =
  RDeadline | RCancelled | RFinal SPBCFinalResult | RFinalClosed | RRecv ReceivedMessage | RRecvClosed

definition roundHandle :: "int \<Rightarrow> int \<Rightarrow> unit \<Rightarrow> roundEvent \<Rightarrow> (unit, RoutedSPBCMessage, ProposalValue) step" where
  "roundHandle round leader s e =
    (let here = ''round '' @ itoa round @ '' leader '' @ itoa leader in
     case e of
       RDeadline \<Rightarrow> Return (Err (here @ '' timeout'')) s []
     | RCancelled \<Rightarrow> Return (Err ''context canceled'') s []
     | RFinalClosed \<Rightarrow> Return (Err (here @ '' final channel closed'')) s []
     | RFinal out \<Rightarrow>
         if fin_OK out \<and> fin_Leader out = leader then Return (Ok (cloneProposal (fin_Value out))) s []
         else Continue s []
     | RRecvClosed \<Rightarrow> Return (Err ''mvba receive channel closed'') s []
     | RRecv inp \<Rightarrow> Continue s (routeSPBCMessage round leader inp))"

definition runRound :: "int \<Rightarrow> int \<Rightarrow> roundEvent list \<Rightarrow> (unit, RoutedSPBCMessage, ProposalValue) step" where
  "runRound round leader es = runLoop (roundHandle round leader) () es"

section \<open>Votes and coin\<close>

record coinABAState =
  ca_voteByNode :: "(int \<times> mvbaABAVoteMsg) list"
  ca_coinShares :: "(int \<times> bytes) list"

definition nonEqDigest :: "DumboMVBA \<Rightarrow> int \<Rightarrow> bytes" where
  "nonEqDigest m round =
     hashBytes [bytes_of ''MVBA_NON_EQ_COIN'', bytes_of (cfg_SID (m_cfg m)), bytes_of (''|round='' @ itoa round)]"

definition coinABAThreshold :: "DumboMVBA \<Rightarrow> int" where
  "coinABAThreshold m = (let t = cfg_N (m_cfg m) - cfg_F (m_cfg m) in if t \<le> 0 then 1 else t)"

fun coinMaterial :: "(int \<times> bytes) list \<Rightarrow> int list \<Rightarrow> bytes" where
  "coinMaterial shares [] = []"
| "coinMaterial shares (k # keys) =
     (case map_of shares k of None \<Rightarrow> [] | Some s \<Rightarrow> s) @ coinMaterial shares keys"

definition nonEqBit :: "(int \<times> bytes) list \<Rightarrow> int" where
  "nonEqBit shares =
     uint ((hashBytes [bytes_of ''MVBA_NON_EQ_BIT'', coinMaterial shares (sort (map fst shares))] ! 0) AND 1)"

text \<open>The end of \<^verbatim>\<open>runCoinABA\<close>, when enough votes and shares are there.\<close>

definition coinABAResult :: "DumboMVBA \<Rightarrow> int \<Rightarrow> bool \<Rightarrow> ProposalValue \<Rightarrow> coinABAState \<Rightarrow> bool \<times> ProposalValue" where
  "coinABAResult m round localHasValue localValue s =
    (let threshold = coinABAThreshold m; votes = map snd (ca_voteByNode s);
         coinBit = nonEqBit (ca_coinShares s);
         candidates = filter (\<lambda>v. av_Bit v = 1) votes;
         ones = int (length candidates); zeros = int (length (filter (\<lambda>v. av_Bit v \<noteq> 1) votes)) in
     if ones \<ge> threshold \<and> coinBit = 1
     then (True, \<lparr>pv_Payload = av_Payload (sort_key av_Node candidates ! 0), pv_Round = round,
                  pv_Hint = ''non-equivalent-coin-aba'', pv_Proof = []\<rparr>)
     else if zeros \<ge> threshold \<and> coinBit = 0 then (False, zeroProposal)
     else if localHasValue \<and> coinBit = 1 then (True, localValue)
     else (False, zeroProposal))"

definition coinABATurn :: "DumboMVBA \<Rightarrow> int \<Rightarrow> bool \<Rightarrow> ProposalValue \<Rightarrow> coinABAState \<Rightarrow> action list \<Rightarrow>
    (coinABAState, action, bool \<times> ProposalValue) step" where
  "coinABATurn m round localHasValue localValue s out =
    (let threshold = coinABAThreshold m in
     if int (length (ca_voteByNode s)) \<ge> threshold \<and> int (length (ca_coinShares s)) \<ge> threshold
     then Return (Ok (coinABAResult m round localHasValue localValue s)) s out
     else Continue s out)"

definition coinABAVote :: "int \<Rightarrow> coinABAState \<Rightarrow> ReceivedMessage \<Rightarrow> coinABAState" where
  "coinABAVote round s inp =
    (case pm_Body (rm_Msg inp) of
       BmvbaABAVote msg \<Rightarrow>
         if av_Node msg \<noteq> rm_From inp \<or> (av_Bit msg \<noteq> 0 \<and> av_Bit msg \<noteq> 1) then s
         else if map_of (ca_voteByNode s) (av_Node msg) \<noteq> None then s
         else s\<lparr>ca_voteByNode := putShare (av_Node msg) msg (ca_voteByNode s)\<rparr>
     | _ \<Rightarrow> s)"

definition coinABAShare :: "DumboMVBA \<Rightarrow> int \<Rightarrow> coinABAState \<Rightarrow> ReceivedMessage \<Rightarrow> coinABAState" where
  "coinABAShare m round s inp =
    (case pm_Body (rm_Msg inp) of
       BmvbaABACoin msg \<Rightarrow>
         if ac_Node msg \<noteq> rm_From inp then s
         else if map_of (ca_coinShares s) (ac_Node msg) \<noteq> None then s
         else if \<not> sg_Verify (m_signer m) (ac_Node msg) ''MVBA_NON_EQ_COIN'' (nonEqDigest m round) (ac_Share msg) then s
         else s\<lparr>ca_coinShares := putShare (ac_Node msg) (ac_Share msg) (ca_coinShares s)\<rparr>
     | _ \<Rightarrow> s)"

definition coinABAReceive :: "DumboMVBA \<Rightarrow> int \<Rightarrow> coinABAState \<Rightarrow> ReceivedMessage \<Rightarrow> coinABAState" where
  "coinABAReceive m round s inp =
     (if pm_Tag (rm_Msg inp) = TagMVBAABA then
        (if pm_Round (rm_Msg inp) \<noteq> round then s else coinABAVote round s inp)
      else if pm_Tag (rm_Msg inp) = TagMVBAABACoin then
        (if pm_Round (rm_Msg inp) \<noteq> round then s else coinABAShare m round s inp)
      else s)"

definition coinABAHandle :: "DumboMVBA \<Rightarrow> int \<Rightarrow> bool \<Rightarrow> ProposalValue \<Rightarrow> coinABAState \<Rightarrow> ReceivedMessage event \<Rightarrow>
    (coinABAState, action, bool \<times> ProposalValue) step" where
  "coinABAHandle m round localHasValue localValue s e =
    (case e of
       CtxDone \<Rightarrow> Return (Err ''context done'') s []
     | TimerFired \<Rightarrow> Return (Err (''coin/aba round '' @ itoa round @ '' timeout'')) s []
     | RecvClosed \<Rightarrow> Return (Err ''mvba receive channel closed'') s []
     | Recv inp \<Rightarrow> coinABATurn m round localHasValue localValue (coinABAReceive m round s inp) [])"

text \<open>The two broadcasts may fail: \<open>bc\<close> are their errors.\<close>

definition coinABAInit :: "DumboMVBA \<Rightarrow> int \<Rightarrow> bool \<Rightarrow> ProposalValue \<Rightarrow> string option \<times> string option \<Rightarrow>
    (coinABAState, action, bool \<times> ProposalValue) step" where
  "coinABAInit m round localHasValue localValue bc =
    (let me = cfg_ID (m_cfg m); dig = nonEqDigest m round;
         vote = \<lparr>av_Round = round, av_Node = me, av_Bit = (if localHasValue then 1 else 0),
                 av_Payload = (if localHasValue then pv_Payload localValue else [])\<rparr>;
         out1 = [ABroadcast (ProtocolMessage TagMVBAABA round (- 1) (BmvbaABAVote vote))];
         s0 = \<lparr>ca_voteByNode = [(me, vote)], ca_coinShares = []\<rparr> in
     case fst bc of
       Some e \<Rightarrow> Return (Err e) s0 out1
     | None \<Rightarrow>
        if \<not> m_hasSigner m then Return Panic s0 out1
        else onOk (sg_Sign (m_signer m) ''MVBA_NON_EQ_COIN'' dig) s0 (out1 @ [ASign ''MVBA_NON_EQ_COIN'' dig]) (\<lambda>coinShare.
          let out2 = out1 @ [ASign ''MVBA_NON_EQ_COIN'' dig,
                ABroadcast (ProtocolMessage TagMVBAABACoin round (- 1)
                  (BmvbaABACoin \<lparr>ac_Round = round, ac_Node = me, ac_Share = coinShare\<rparr>))] in
          (case snd bc of
             Some e \<Rightarrow> Return (Err e) s0 out2
           | None \<Rightarrow> coinABATurn m round localHasValue localValue (s0\<lparr>ca_coinShares := [(me, coinShare)]\<rparr>) out2)))"

definition runCoinABA :: "DumboMVBA \<Rightarrow> int \<Rightarrow> bool \<Rightarrow> ProposalValue \<Rightarrow> string option \<times> string option \<Rightarrow>
    ReceivedMessage event list \<Rightarrow> (coinABAState, action, bool \<times> ProposalValue) step" where
  "runCoinABA m round localHasValue localValue bc es =
     thenLoop (coinABAInit m round localHasValue localValue bc) (coinABAHandle m round localHasValue localValue) es"

section \<open>Run\<close>

text \<open>What one round meets: the error of \<^verbatim>\<open>spbc.Start\<close>, the events of the broadcast, the errors of the two
  network broadcasts and the events of the vote.\<close>

record roundInputs =
  ri_start :: "string option"
  ri_round :: "roundEvent list"
  ri_bc :: "string option \<times> string option"
  ri_aba :: "ReceivedMessage event list"

datatype roundOutcome = RoundBlocked | RoundReturn "ProposalValue res" | RoundError string

definition returnValid :: "DumboMVBA \<Rightarrow> ProposalValue \<Rightarrow> roundOutcome" where
  "returnValid m v =
     (if payloadValid m (pv_Payload v) then RoundReturn (Ok v)
      else RoundReturn (Err ''mvba decided payload rejected by payload predicate''))"

definition finishedWithout :: "int \<Rightarrow> string" where
  "finishedWithout round = ''round '' @ itoa round @ '' finished without decision''"

text \<open>The part after the broadcast, with its value or its error.\<close>

definition afterRound :: "DumboMVBA \<Rightarrow> int \<Rightarrow> roundInputs \<Rightarrow> ProposalValue res \<Rightarrow> roundOutcome" where
  "afterRound m round x r =
    (if \<not> m_hasSigner m then
       (case r of Err e \<Rightarrow> RoundError e | Ok decided \<Rightarrow> returnValid m decided | Panic \<Rightarrow> RoundReturn Panic)
     else
       let ok = is_Ok r; decided = (case r of Ok v \<Rightarrow> v | _ \<Rightarrow> zeroProposal) in
       case stepResult (runCoinABA m round ok decided (ri_bc x) (ri_aba x)) of
         None \<Rightarrow> RoundBlocked
       | Some Panic \<Rightarrow> RoundReturn Panic
       | Some (Err abaErr) \<Rightarrow>
           if ok then returnValid m decided
           else (case r of Err runErr \<Rightarrow> RoundError (runErr @ ''; '' @ abaErr) | _ \<Rightarrow> RoundError abaErr)
       | Some (Ok (accepted, out)) \<Rightarrow>
           if accepted then returnValid m out
           else if ok then returnValid m decided
           else RoundError (finishedWithout round))"

definition oneRound :: "(int \<Rightarrow> int \<Rightarrow> int list) \<Rightarrow> DumboMVBA \<Rightarrow> int \<Rightarrow> roundInputs \<Rightarrow> roundOutcome" where
  "oneRound perm m round x =
    (let leader = leaderOrder perm (cfg_SID (m_cfg m)) (cfg_N (m_cfg m)) round ! 0 in
     case ri_start x of
       Some e \<Rightarrow> RoundError (''start spbc round '' @ itoa round @ '' leader '' @ itoa leader @ '': '' @ e)
     | None \<Rightarrow>
        (case stepResult (runRound round leader (ri_round x)) of
           None \<Rightarrow> RoundBlocked
         | Some r \<Rightarrow> afterRound m round x r))"

fun runRounds :: "(int \<Rightarrow> int \<Rightarrow> int list) \<Rightarrow> DumboMVBA \<Rightarrow> (int \<Rightarrow> roundInputs) \<Rightarrow> int list \<Rightarrow> string option \<Rightarrow>
    ProposalValue res option" where
  "runRounds perm m X [] lastErr =
     Some (Err (case lastErr of None \<Rightarrow> ''mvba exhausted rounds without decision'' | Some e \<Rightarrow> e))"
| "runRounds perm m X (round # rounds) lastErr =
     (case oneRound perm m round (X round) of
        RoundBlocked \<Rightarrow> None
      | RoundReturn r \<Rightarrow> Some r
      | RoundError e \<Rightarrow> runRounds perm m X rounds (Some e))"

definition Run :: "mvbaEnv \<Rightarrow> (int \<Rightarrow> int \<Rightarrow> int list) \<Rightarrow> DumboMVBA \<Rightarrow> ProposalValue \<Rightarrow> runSchedule \<Rightarrow>
    (int \<Rightarrow> roundInputs) \<Rightarrow> ProposalValue res option" where
  "Run env perm m input S X =
    (if \<not> payloadValid m (pv_Payload input) then Some (Err ''mvba local input rejected by payload predicate'')
     else if cfg_UseEquivalentPath (m_cfg m) then
       (case runEquivalent env perm m input S of
          None \<Rightarrow> None
        | Some Panic \<Rightarrow> Some Panic
        | Some (Err e) \<Rightarrow> Some (Err e)
        | Some (Ok out) \<Rightarrow>
            if \<not> payloadValid m (pv_Payload out)
            then Some (Err ''mvba decided payload rejected by payload predicate'') else Some (Ok out))
     else runRounds perm m X [0..cfg_MaxRounds (m_cfg m) - 1] None)"

section \<open>Properties\<close>

lemma returnValid_Ok: "returnValid m v = RoundReturn (Ok u) \<Longrightarrow> payloadValid m (pv_Payload u)"
  by (auto simp: returnValid_def split: if_splits)

lemma afterRound_Ok: "afterRound m round x r = RoundReturn (Ok u) \<Longrightarrow> payloadValid m (pv_Payload u)"
  by (auto simp: afterRound_def Let_def returnValid_Ok split: if_splits res.splits option.splits)

lemma runRounds_Ok: "runRounds perm m X rounds le = Some (Ok u) \<Longrightarrow> payloadValid m (pv_Payload u)"
  by (induction rounds arbitrary: le)
    (auto simp: oneRound_def Let_def afterRound_Ok split: roundOutcome.splits option.splits)

lemma tryLeader_Ok:
  assumes "tryLeader env m S r l kept = Finished (Ok u)"
  shows "payloadValid m (pv_Payload u) \<and> pv_Round u = r \<and>
    stepResult (rcOf env m S r l kept) = Some (Ok (pv_Payload u))"
  using assms by (auto simp: tryLeader_def split: option.splits res.splits if_splits)

lemma leaderLoop_Ok:
  assumes "leaderLoop env m S kept r ls = Some (Ok u)"
  obtains i where "i < length ls" "pv_Round u = r + int i" "payloadValid m (pv_Payload u)"
    "stepResult (rcOf env m S (r + int i) (ls ! i) (kept (ls ! i))) = Some (Ok (pv_Payload u))"
  using assms
proof (induction ls arbitrary: r thesis)
  case (Cons l ls)
  show thesis
  proof (cases "tryLeader env m S r l (kept l)")
    case NextLeader
    then have "leaderLoop env m S kept (r + 1) ls = Some (Ok u)" using Cons.prems(2) by simp
    then obtain i where "i < length ls" "pv_Round u = r + 1 + int i" "payloadValid m (pv_Payload u)"
      "stepResult (rcOf env m S (r + 1 + int i) (ls ! i) (kept (ls ! i))) = Some (Ok (pv_Payload u))"
      using Cons.IH by blast
    then show thesis using Cons.prems(1) [of "Suc i"] by (simp add: algebra_simps)
  next
    case (Finished res)
    then have "tryLeader env m S r l (kept l) = Finished (Ok u)" using Cons.prems(2) by simp
    then show thesis using Cons.prems(1) [of 0] tryLeader_Ok by auto
  qed (use Cons.prems in simp)
qed simp

text \<open>C34. External validity. Whatever \<^verbatim>\<open>Run\<close> returns, on either path, satisfies the application's payload
  predicate; an input that does not is refused before anything is sent.\<close>

theorem run_payload_valid:
  assumes "Run env perm m input S X = Some (Ok v)"
  shows "payloadValid m (pv_Payload v) \<and> payloadValid m (pv_Payload input)"
  using assms runRounds_Ok by (auto simp: Run_def split: if_splits option.splits res.splits)

text \<open>A node without signer on the older path, whose broadcast delivers a value.\<close>

definition legacyNode :: DumboMVBA where
  "legacyNode = (plainNode 0 4 1)\<lparr>m_hasSigner := False,
     m_cfg := (m_cfg (plainNode 0 4 1))\<lparr>cfg_UseEquivalentPath := False, cfg_ValidatePayload := Some (\<lambda>p. p \<noteq> [])\<rparr>\<rparr>"

definition legacyValue :: ProposalValue where
  "legacyValue = \<lparr>pv_Payload = [1], pv_Round = 0, pv_Hint = [], pv_Proof = []\<rparr>"

definition legacyInputs :: "int \<Rightarrow> roundInputs" where
  "legacyInputs round = \<lparr>ri_start = None,
     ri_round = [RFinal \<lparr>fin_Leader = 1, fin_Value = legacyValue, fin_FinalProof = [], fin_OK = True\<rparr>],
     ri_bc = (None, None), ri_aba = []\<rparr>"

theorem run_payload_valid_witness:
  "\<exists>S. Run plainEnv (\<lambda>_ _. [1, 0, 2, 3]) legacyNode legacyValue S legacyInputs = Some (Ok legacyValue) \<and>
     payloadValid legacyNode (pv_Payload legacyValue)"
proof -
  have run: "Run plainEnv (\<lambda>_ _. [1, 0, 2, 3]) legacyNode legacyValue S legacyInputs = Some (Ok legacyValue)" for S
    by (simp add: Run_def legacyNode_def plainNode_def payloadValid_def legacyValue_def legacyInputs_def oneRound_def
        leaderOrder_def runRound_def roundHandle_def afterRound_def returnValid_def Let_def)
  then show ?thesis using run_payload_valid by blast
qed

text \<open>The vote of one round.\<close>

definition coinABAInv :: "DumboMVBA \<Rightarrow> int \<Rightarrow> coinABAState \<Rightarrow> bool" where
  "coinABAInv m round s \<longleftrightarrow>
     distinct (map fst (ca_voteByNode s)) \<and> distinct (map fst (ca_coinShares s)) \<and>
     (\<forall>(j, v) \<in> set (ca_voteByNode s). av_Node v = j \<and> (av_Bit v = 0 \<or> av_Bit v = 1)) \<and>
     (\<forall>(j, sh) \<in> set (ca_coinShares s). j = cfg_ID (m_cfg m) \<or>
        sg_Verify (m_signer m) j ''MVBA_NON_EQ_COIN'' (nonEqDigest m round) sh)"

lemma coinABAReceive_inv:
  assumes "coinABAInv m round s"
  shows "coinABAInv m round (coinABAReceive m round s inp)"
proof -
  have v: "coinABAInv m round (coinABAVote round s inp)"
  proof (cases "\<exists>msg. pm_Body (rm_Msg inp) = BmvbaABAVote msg")
    case True
    then obtain msg where "pm_Body (rm_Msg inp) = BmvbaABAVote msg" by blast
    then show ?thesis using assms by (auto simp: coinABAVote_def coinABAInv_def set_putShare)
  next
    case False
    then have "coinABAVote round s inp = s" by (simp add: coinABAVote_def split: Body.split)
    then show ?thesis using assms by simp
  qed
  have c: "coinABAInv m round (coinABAShare m round s inp)"
  proof (cases "\<exists>msg. pm_Body (rm_Msg inp) = BmvbaABACoin msg")
    case True
    then obtain msg where "pm_Body (rm_Msg inp) = BmvbaABACoin msg" by blast
    then show ?thesis using assms by (auto simp: coinABAShare_def coinABAInv_def set_putShare)
  next
    case False
    then have "coinABAShare m round s inp = s" by (simp add: coinABAShare_def split: Body.split)
    then show ?thesis using assms by simp
  qed
  show ?thesis using v c assms by (simp add: coinABAReceive_def)
qed

text \<open>What a decision of the vote rests on.\<close>

definition voteQuorum :: "DumboMVBA \<Rightarrow> int \<Rightarrow> coinABAState \<Rightarrow> bool" where
  "voteQuorum m round s \<longleftrightarrow> coinABAInv m round s \<and>
     coinABAThreshold m \<le> int (card (fst ` set (ca_voteByNode s))) \<and>
     coinABAThreshold m \<le> int (card (fst ` set (ca_coinShares s)))"

definition coinABAPost :: "DumboMVBA \<Rightarrow> int \<Rightarrow> bool \<Rightarrow> ProposalValue \<Rightarrow> (bool \<times> ProposalValue) res \<Rightarrow> coinABAState \<Rightarrow>
    action list \<Rightarrow> bool" where
  "coinABAPost m round hv lv r s out \<longleftrightarrow>
     (\<forall>x. r = Ok x \<longrightarrow> voteQuorum m round s \<and> x = coinABAResult m round hv lv s)"

lemma coinABATurn_post:
  assumes "coinABAInv m round s" "coinABATurn m round hv lv s out = Return r s' out'"
  shows "coinABAPost m round hv lv r s' o2"
  using assms
  by (auto simp: coinABATurn_def Let_def coinABAPost_def voteQuorum_def coinABAInv_def length_shares split: if_splits)

lemma coinABATurn_state: "stepState (coinABATurn m round hv lv s out) = s"
  by (simp add: coinABATurn_def Let_def)

interpretation coin_aba: loop_contract "coinABAHandle m round hv lv" "\<lambda>s out. coinABAInv m round s"
  "coinABAPost m round hv lv" for m round hv lv
proof
  show "coinABAInv m round s \<Longrightarrow> coinABAInv m round (stepState (coinABAHandle m round hv lv s e))" for s e
    by (cases e) (simp_all add: coinABAHandle_def coinABATurn_state coinABAReceive_inv)
  show "coinABAInv m round s \<Longrightarrow> coinABAHandle m round hv lv s e = Return r s' out' \<Longrightarrow>
      coinABAPost m round hv lv r s' (out @ out')" for s e r s' out out'
    using coinABATurn_post [OF coinABAReceive_inv]
    by (cases e) (auto simp: coinABAHandle_def coinABAPost_def)
qed

lemma coinABAInit_post:
  "coinABAInv m round (stepState (coinABAInit m round hv lv bc)) \<and>
   (\<forall>r s out. coinABAInit m round hv lv bc = Return r s out \<longrightarrow> coinABAPost m round hv lv r s out)"
proof (cases "fst bc = None \<and> snd bc = None \<and> m_hasSigner m")
  case True
  let ?vote = "\<lparr>av_Round = round, av_Node = cfg_ID (m_cfg m), av_Bit = (if hv then 1 else 0),
    av_Payload = (if hv then pv_Payload lv else [])\<rparr>"
  show ?thesis
  proof (cases "sg_Sign (m_signer m) ''MVBA_NON_EQ_COIN'' (nonEqDigest m round)")
    case (Ok share)
    let ?s = "\<lparr>ca_voteByNode = [(cfg_ID (m_cfg m), ?vote)], ca_coinShares = [(cfg_ID (m_cfg m), share)]\<rparr>"
    have inv: "coinABAInv m round ?s" by (simp add: coinABAInv_def)
    obtain out where "coinABAInit m round hv lv bc = coinABATurn m round hv lv ?s out"
      using True Ok by (simp add: coinABAInit_def Let_def)
    then show ?thesis using inv coinABATurn_post [OF inv] by (auto simp: coinABATurn_state)
  qed (use True in \<open>auto simp: coinABAInit_def Let_def coinABAInv_def coinABAPost_def\<close>)
next
  case False
  then show ?thesis
    by (cases "sg_Sign (m_signer m) ''MVBA_NON_EQ_COIN'' (nonEqDigest m round)")
      (auto simp: coinABAInit_def Let_def coinABAInv_def coinABAPost_def split: option.split)
qed

lemma ones_card:
  assumes "coinABAInv m round s"
  shows "length (filter (\<lambda>v. av_Bit v = 1) (map snd (ca_voteByNode s))) =
    card {j. \<exists>w. (j, w) \<in> set (ca_voteByNode s) \<and> av_Bit w = 1}"
proof -
  let ?L = "filter (\<lambda>x. av_Bit (snd x) = 1) (ca_voteByNode s)"
  have "distinct (map fst ?L)" using assms by (auto simp: coinABAInv_def distinct_map_filter)
  then have "card (fst ` set ?L) = length ?L" by (rule length_shares)
  moreover have "fst ` set ?L = {j. \<exists>w. (j, w) \<in> set (ca_voteByNode s) \<and> av_Bit w = 1}" by force
  ultimately show ?thesis by (simp add: filter_map comp_def)
qed

lemma lowest_candidate:
  assumes "cs \<noteq> []"
  shows "sort_key key cs ! 0 \<in> set cs \<and> (\<forall>c \<in> set cs. key (sort_key key cs ! 0) \<le> (key c :: 'a :: linorder))"
proof -
  have "sort_key key cs ! 0 \<in> set (sort_key key cs)" using assms by (intro nth_mem) simp
  moreover have "key (sort_key key cs ! 0) \<le> key (sort_key key cs ! i)" if "i < length cs" for i
    using sorted_sort_key [of key cs] that by (simp add: sorted_iff_nth_mono)
  ultimately show ?thesis by (metis in_set_conv_nth length_sort set_sort)
qed

text \<open>The vote of the older path. When \<^verbatim>\<open>runCoinABA\<close> decides, at least \<open>n - f\<close> different nodes have voted under
  their own identity and as many have given a coin share that verifies (its own apart). When it accepts,
  the coin is 1 and the value is the one the node had or the payload of the lowest node that voted 1,
  with at least \<open>n - f\<close> votes 1.\<close>

theorem coinABA_sound:
  assumes "runCoinABA m round hv lv bc es = Return (Ok (accepted, v)) s out"
  shows "voteQuorum m round s \<and>
    (accepted \<longrightarrow> nonEqBit (ca_coinShares s) = 1 \<and>
       (hv \<and> v = lv \<or>
        coinABAThreshold m \<le> int (card {j. \<exists>w. (j, w) \<in> set (ca_voteByNode s) \<and> av_Bit w = 1}) \<and>
        (\<exists>j w. (j, w) \<in> set (ca_voteByNode s) \<and> av_Bit w = 1 \<and> pv_Payload v = av_Payload w \<and>
           (\<forall>j' w'. (j', w') \<in> set (ca_voteByNode s) \<longrightarrow> av_Bit w' = 1 \<longrightarrow> j \<le> j'))))"
proof -
  have post: "coinABAPost m round hv lv (Ok (accepted, v)) s out"
    by (rule coin_aba.loop_post [of m round "coinABAInit m round hv lv bc" hv lv es])
      (use coinABAInit_post assms in \<open>auto simp: runCoinABA_def\<close>)
  then have q: "voteQuorum m round s" and r: "(accepted, v) = coinABAResult m round hv lv s"
    by (auto simp: coinABAPost_def)
  then have inv: "coinABAInv m round s" by (simp add: voteQuorum_def)
  let ?C = "filter (\<lambda>v. av_Bit v = 1) (map snd (ca_voteByNode s))"
  show ?thesis
  proof (cases "coinABAThreshold m \<le> int (length ?C) \<and> nonEqBit (ca_coinShares s) = 1")
    case True
    moreover have "0 < coinABAThreshold m" by (simp add: coinABAThreshold_def Let_def)
    ultimately have "length ?C \<noteq> 0" by linarith
    then have "?C \<noteq> []" unfolding length_0_conv .
    from lowest_candidate [OF this, of av_Node] obtain w where
      w: "w = sort_key av_Node ?C ! 0" "w \<in> set ?C" "\<forall>c \<in> set ?C. av_Node w \<le> av_Node c" by blast
    then have "pv_Payload v = av_Payload w" using True r by (simp add: coinABAResult_def Let_def)
    moreover have "(av_Node w, w) \<in> set (ca_voteByNode s)" using w(2) inv by (auto simp: coinABAInv_def)
    moreover have "av_Node w \<le> j'" if "(j', w') \<in> set (ca_voteByNode s)" "av_Bit w' = 1" for j' w'
    proof -
      have "w' \<in> set ?C" using that by force
      moreover have "av_Node w' = j'" using that inv by (auto simp: coinABAInv_def)
      ultimately show ?thesis using w(3) by blast
    qed
    ultimately show ?thesis using q True ones_card [OF inv] w(2) by auto
  next
    case False
    then show ?thesis using q r by (auto simp: coinABAResult_def Let_def split: if_splits)
  qed
qed

text \<open>Node 0 of four with the votes and shares of nodes 1 and 2.\<close>

definition voteEv :: "int \<Rightarrow> ReceivedMessage event" where
  "voteEv i = Recv \<lparr>rm_From = i, rm_Msg = ProtocolMessage TagMVBAABA 0 (- 1)
     (BmvbaABAVote \<lparr>av_Round = 0, av_Node = i, av_Bit = 1, av_Payload = [1]\<rparr>)\<rparr>"

definition shareEv :: "int \<Rightarrow> ReceivedMessage event" where
  "shareEv i = Recv \<lparr>rm_From = i, rm_Msg = ProtocolMessage TagMVBAABACoin 0 (- 1)
     (BmvbaABACoin \<lparr>ac_Round = 0, ac_Node = i, ac_Share = nonEqDigest (plainNode 0 4 1) 0\<rparr>)\<rparr>"

theorem coinABA_sound_witness:
  "\<exists>accepted v s out. runCoinABA (plainNode 0 4 1) 0 True legacyValue (None, None) [voteEv 1, shareEv 1, voteEv 2, shareEv 2] =
     Return (Ok (accepted, v)) s out \<and> voteQuorum (plainNode 0 4 1) 0 s"
proof -
  have "m_hasSigner (plainNode 0 4 1)" by (simp add: plainNode_def)
  then obtain accepted v s out where
    "runCoinABA (plainNode 0 4 1) 0 True legacyValue (None, None) [voteEv 1, shareEv 1, voteEv 2, shareEv 2] =
       Return (Ok (accepted, v)) s out"
    by (simp add: runCoinABA_def coinABAInit_def coinABATurn_def coinABAThreshold_def coinABAHandle_def
        coinABAReceive_def coinABAVote_def coinABAShare_def voteEv_def shareEv_def putShare_def Let_def)
      (metis surj_pair)
  then show ?thesis using coinABA_sound by blast
qed

end
