(* ===== verification/Mvba_ACS.thy ===== *)
theory Mvba_ACS
  imports Mvba_Legacy
begin

text \<open>
  Validated common subset over MVBA (\<^verbatim>\<open>acs_vacs.go\<close>): every node diffuses its signed value, collects
  \<open>n - f\<close> of them into a vector and runs MVBA on the encoded vector with the validity of vectors as
  the payload predicate. \<^verbatim>\<open>encoding/json\<close> is a parameter.
\<close>

section \<open>Encoding\<close>

text \<open>What a second \<^verbatim>\<open>Decode\<close> finds behind the vector.\<close>

datatype jsonTail = TailEOF | TailValue | TailError

record jsonLib =
  js_Marshal :: "acsVectorEntry option list \<Rightarrow> bytes res"
  js_Decode :: "bytes \<Rightarrow> (acsVectorEntry option list \<times> jsonTail) res"

definition ensureJSONEOF :: "jsonTail \<Rightarrow> unit res" where
  "ensureJSONEOF tail =
    (case tail of
       TailEOF \<Rightarrow> Ok ()
     | TailValue \<Rightarrow> Err ''decode ACS vector: trailing JSON value''
     | TailError \<Rightarrow> Err ''decode ACS vector trailing data'')"

definition hashACSValue :: "string \<Rightarrow> ProposalValue \<Rightarrow> bytes" where
  "hashACSValue sid v =
     hashBytes [bytes_of ''ACS_DIFFUSE'', bytes_of sid, bytes_of (pv_Hint v), pv_Payload v, bytes_of (itoa (pv_Round v))]"

definition predicateOf :: "(int \<Rightarrow> ProposalValue \<Rightarrow> bool) option \<Rightarrow> int \<Rightarrow> ProposalValue \<Rightarrow> bool" where
  "predicateOf predicate = (case predicate of None \<Rightarrow> (\<lambda>_ _. True) | Some p \<Rightarrow> p)"

section \<open>Vectors\<close>

fun checkEntries :: "signer \<Rightarrow> string \<Rightarrow> (int \<Rightarrow> ProposalValue \<Rightarrow> bool) \<Rightarrow> int \<Rightarrow> acsVectorEntry option list \<Rightarrow> int \<Rightarrow> int res" where
  "checkEntries sg sid predicate slot [] count = Ok count"
| "checkEntries sg sid predicate slot (None # entries) count =
     checkEntries sg sid predicate (slot + 1) entries count"
| "checkEntries sg sid predicate slot (Some entry # entries) count =
     (if ae_From entry \<noteq> slot then Err ''ACS vector slot has another proposer''
      else if \<not> predicate (ae_From entry) (ae_Value entry) then Err ''ACS vector proposer rejected by predicate''
      else if \<not> sg_Verify sg (ae_From entry) ''ACS_DIFFUSE'' (hashACSValue sid (ae_Value entry)) (ae_Sig entry)
      then Err ''ACS vector proposer has invalid diffuse signature''
      else checkEntries sg sid predicate (slot + 1) entries (count + 1))"

definition validateACSVectorPayload :: "jsonLib \<Rightarrow> bytes \<Rightarrow> Config \<Rightarrow> bool \<Rightarrow> signer \<Rightarrow>
    (int \<Rightarrow> ProposalValue \<Rightarrow> bool) option \<Rightarrow> acsVectorEntry option list res" where
  "validateACSVectorPayload js payload cfg hasSigner sg predicate =
     (if cfg_N cfg \<le> 0 \<or> cfg_F cfg < 0 \<or> cfg_N cfg < 3 * cfg_F cfg + 1 \<or> \<not> hasSigner
      then Err ''invalid ACS vector validation config''
      else
        bindR (reErr ''decode ACS vector'' (js_Decode js payload)) (\<lambda>(entries, tail).
        bindR (ensureJSONEOF tail) (\<lambda>_.
          if int (length entries) \<noteq> cfg_N cfg then Err ''ACS vector length''
          else bindR (checkEntries sg (cfg_SID cfg @ ''VACS'') (predicateOf predicate) 0 entries 0) (\<lambda>count.
            if count < cfg_N cfg - cfg_F cfg then Err ''ACS vector entries'' else Ok entries))))"

section \<open>Messages\<close>

text \<open>\<^verbatim>\<open>acsMVBANet\<close>: the messages of the inner MVBA travel inside a message of their own tag.\<close>

definition acsWrap :: "ProtocolMessage \<Rightarrow> ProtocolMessage" where
  "acsWrap msg = ProtocolMessage TagACSMVBA (pm_Round msg) (pm_Leader msg) (BProtocol msg)"

definition acsMVBANet_Send :: "int \<Rightarrow> ProtocolMessage \<Rightarrow> action" where
  "acsMVBANet_Send to msg = ASend to (acsWrap msg)"

definition acsMVBANet_Broadcast :: "ProtocolMessage \<Rightarrow> action" where
  "acsMVBANet_Broadcast msg = ABroadcast (acsWrap msg)"

datatype acsChannel = ChDiffuse ReceivedMessage | ChMVBA ReceivedMessage

definition routeACS :: "ReceivedMessage \<Rightarrow> acsChannel list" where
  "routeACS inp =
    (case pm_Tag (rm_Msg inp) of
       TagACSDiffuse \<Rightarrow> [ChDiffuse inp]
     | TagACSMVBA \<Rightarrow>
         (case pm_Body (rm_Msg inp) of BProtocol body \<Rightarrow> [ChMVBA \<lparr>rm_From = rm_From inp, rm_Msg = body\<rparr>] | _ \<Rightarrow> [])
     | _ \<Rightarrow> [])"

section \<open>Diffusion\<close>

record acsState =
  as_seenSenders :: "int list"
  as_values :: "acsVectorEntry option list"

definition acsTurn :: "Config \<Rightarrow> acsState \<Rightarrow> action list \<Rightarrow> (acsState, action, acsVectorEntry option list) step" where
  "acsTurn cfg s out =
     (if int (length (as_seenSenders s)) < cfg_N cfg - cfg_F cfg then Continue s out
      else Return (Ok (as_values s)) s out)"

definition acsOnDiffuse :: "Config \<Rightarrow> signer \<Rightarrow> string \<Rightarrow> (int \<Rightarrow> ProposalValue \<Rightarrow> bool) \<Rightarrow> acsState \<Rightarrow> int \<Rightarrow>
    acsDiffuseMsg \<Rightarrow> (acsState, action, acsVectorEntry option list) step" where
  "acsOnDiffuse cfg sg sid predicate s from msg =
     (if ad_SID msg \<noteq> sid then Continue s []
      else if from \<in> set (as_seenSenders s) then Continue s []
      else if \<not> predicate from (ad_Value msg) then Continue s []
      else if \<not> sg_Verify sg from ''ACS_DIFFUSE'' (hashACSValue sid (ad_Value msg)) (ad_Sig msg) then Continue s []
      else if from < 0 \<or> from \<ge> int (length (as_values s)) then Return Panic s []
      else acsTurn cfg
        (s\<lparr>as_seenSenders := from # as_seenSenders s,
           as_values := (as_values s)[nat from :=
             Some \<lparr>ae_From = from, ae_Value = cloneProposal (ad_Value msg), ae_Sig = ad_Sig msg\<rparr>]\<rparr>) [])"

definition acsHandle :: "Config \<Rightarrow> signer \<Rightarrow> string \<Rightarrow> (int \<Rightarrow> ProposalValue \<Rightarrow> bool) \<Rightarrow> acsState \<Rightarrow>
    ReceivedMessage event \<Rightarrow> (acsState, action, acsVectorEntry option list) step" where
  "acsHandle cfg sg sid predicate s e =
    (case e of
       CtxDone \<Rightarrow> Return (Err ''context done'') s []
     | Recv inp \<Rightarrow>
        (case pm_Body (rm_Msg inp) of
           BacsDiffuse msg \<Rightarrow> acsOnDiffuse cfg sg sid predicate s (rm_From inp) msg
         | _ \<Rightarrow> Continue s [])
     | _ \<Rightarrow> Continue s [])"

definition acsInit :: "Config \<Rightarrow> signer \<Rightarrow> string \<Rightarrow> ProposalValue \<Rightarrow> (acsState, action, acsVectorEntry option list) step" where
  "acsInit cfg sg sid input =
    (let dig = hashACSValue sid input;
         s = \<lparr>as_seenSenders = [], as_values = replicate (nat (cfg_N cfg)) None\<rparr> in
     onOk (sg_Sign sg ''ACS_DIFFUSE'' dig) s [ASign ''ACS_DIFFUSE'' dig] (\<lambda>sig.
       if cfg_N cfg < 0 then Return Panic s [ASign ''ACS_DIFFUSE'' dig]
       else acsTurn cfg s (ASign ''ACS_DIFFUSE'' dig #
         map (\<lambda>i. ASend i (ProtocolMessage TagACSDiffuse 0 0
           (BacsDiffuse \<lparr>ad_SID = sid, ad_Value = cloneProposal input, ad_Sig = sig\<rparr>))) [0..cfg_N cfg - 1])))"

definition acsDiffuse :: "Config \<Rightarrow> signer \<Rightarrow> string \<Rightarrow> (int \<Rightarrow> ProposalValue \<Rightarrow> bool) \<Rightarrow> ProposalValue \<Rightarrow>
    ReceivedMessage event list \<Rightarrow> (acsState, action, acsVectorEntry option list) step" where
  "acsDiffuse cfg sg sid predicate input es =
     thenLoop (acsInit cfg sg sid input) (acsHandle cfg sg sid predicate) es"

section \<open>The common subset\<close>

definition acsMVBAConfig :: "jsonLib \<Rightarrow> Config \<Rightarrow> signer \<Rightarrow> (int \<Rightarrow> ProposalValue \<Rightarrow> bool) option \<Rightarrow> Config" where
  "acsMVBAConfig js cfg sg predicate =
     cfg\<lparr>cfg_SID := cfg_SID cfg @ ''VACS'' @ ''MVBA'', cfg_UseEquivalentPath := True,
         cfg_ValidatePayload := Some (\<lambda>payload. is_Ok (validateACSVectorPayload js payload cfg True sg predicate))\<rparr>"

definition acsResult :: "int \<Rightarrow> acsVectorEntry option list \<Rightarrow> ProposalValue option list" where
  "acsResult n out =
     map (\<lambda>i. if i < length out then map_option (\<lambda>e. cloneProposal (ae_Value e)) (out ! i) else None) [0..<nat n]"

text \<open>\<open>es\<close>, \<open>S\<close> and \<open>X\<close> are what the two channels of the router deliver.\<close>

definition RunMVBACCommonSubset :: "mvbaEnv \<Rightarrow> (int \<Rightarrow> int \<Rightarrow> int list) \<Rightarrow> jsonLib \<Rightarrow> Config \<Rightarrow> signer \<Rightarrow> ProposalValue \<Rightarrow>
    (int \<Rightarrow> ProposalValue \<Rightarrow> bool) option \<Rightarrow> ReceivedMessage event list \<Rightarrow> runSchedule \<Rightarrow> (int \<Rightarrow> roundInputs) \<Rightarrow>
    ProposalValue option list res option" where
  "RunMVBACCommonSubset env perm js cfg sg input predicate es S X =
    (let pred = predicateOf predicate; sid = cfg_SID cfg @ ''VACS'' in
     if \<not> pred (cfg_ID cfg) input then Some (Err ''local input rejected by predicate'')
     else case stepResult (acsDiffuse cfg sg sid pred input es) of
         None \<Rightarrow> None
       | Some Panic \<Rightarrow> Some Panic
       | Some (Err e) \<Rightarrow> Some (Err e)
       | Some (Ok entries) \<Rightarrow>
          (case js_Marshal js entries of
             Panic \<Rightarrow> Some Panic
           | Err e \<Rightarrow> Some (Err e)
           | Ok vecBytes \<Rightarrow>
              (case NewDumboMVBA (acsMVBAConfig js cfg sg predicate) False True sg True False of
                 Panic \<Rightarrow> Some Panic
               | Err e \<Rightarrow> Some (Err e)
               | Ok m \<Rightarrow>
                  (case Run env perm m \<lparr>pv_Payload = vecBytes, pv_Round = 0, pv_Hint = ''acs-vacs'', pv_Proof = []\<rparr> S X of
                     None \<Rightarrow> None
                   | Some Panic \<Rightarrow> Some Panic
                   | Some (Err e) \<Rightarrow> Some (Err e)
                   | Some (Ok dec) \<Rightarrow>
                      (case validateACSVectorPayload js (pv_Payload dec) cfg True sg predicate of
                         Panic \<Rightarrow> Some Panic
                       | Err e \<Rightarrow> Some (Err e)
                       | Ok out \<Rightarrow> Some (Ok (acsResult (cfg_N cfg) out)))))))"

section \<open>Valid vectors\<close>

definition goodEntry :: "signer \<Rightarrow> string \<Rightarrow> (int \<Rightarrow> ProposalValue \<Rightarrow> bool) \<Rightarrow> int \<Rightarrow> acsVectorEntry \<Rightarrow> bool" where
  "goodEntry sg sid predicate slot e \<longleftrightarrow> ae_From e = slot \<and> predicate slot (ae_Value e) \<and>
     sg_Verify sg slot ''ACS_DIFFUSE'' (hashACSValue sid (ae_Value e)) (ae_Sig e)"

definition goodVector :: "signer \<Rightarrow> string \<Rightarrow> (int \<Rightarrow> ProposalValue \<Rightarrow> bool) \<Rightarrow> acsVectorEntry option list \<Rightarrow> bool" where
  "goodVector sg sid predicate entries \<longleftrightarrow>
     (\<forall>i e. i < length entries \<longrightarrow> entries ! i = Some e \<longrightarrow> goodEntry sg sid predicate (int i) e)"

definition entryCount :: "'a option list \<Rightarrow> int" where
  "entryCount entries = int (length (filter (\<lambda>e. e \<noteq> None) entries))"

lemma all_slots_Cons:
  "(\<forall>i e. i < length (x # xs) \<longrightarrow> (x # xs) ! i = Some e \<longrightarrow> P (k + int i) e) \<longleftrightarrow>
     (\<forall>e. x = Some e \<longrightarrow> P k e) \<and> (\<forall>i e. i < length xs \<longrightarrow> xs ! i = Some e \<longrightarrow> P (k + 1 + int i) e)"
  (is "?L \<longleftrightarrow> ?H \<and> ?T")
proof
  assume l: ?L
  have "P k e" if "x = Some e" for e using spec [OF spec [OF l, of 0], of e] that by simp
  moreover have "P (k + 1 + int i) e" if "i < length xs" "xs ! i = Some e" for i e
    using spec [OF spec [OF l, of "Suc i"], of e] that by (simp add: add.assoc)
  ultimately show "?H \<and> ?T" by blast
next
  assume r: "?H \<and> ?T"
  show ?L
  proof (intro allI impI)
    fix i e assume "i < length (x # xs)" "(x # xs) ! i = Some e"
    then show "P (k + int i) e" using r by (cases i) (simp_all add: add.assoc)
  qed
qed

lemma checkEntries_iff:
  "checkEntries sg sid predicate slot entries count = Ok k \<longleftrightarrow>
     (\<forall>i e. i < length entries \<longrightarrow> entries ! i = Some e \<longrightarrow> goodEntry sg sid predicate (slot + int i) e) \<and>
     k = count + entryCount entries"
proof (induction sg sid predicate slot entries count rule: checkEntries.induct)
  case (1 sg sid predicate slot count)
  then show ?case by (auto simp: entryCount_def)
next
  case (2 sg sid predicate slot entries count)
  then show ?case unfolding all_slots_Cons by (simp add: entryCount_def)
next
  case (3 sg sid predicate slot entry entries count)
  show ?case
  proof (cases "goodEntry sg sid predicate slot entry")
    case True
    then have g: "ae_From entry = slot" "predicate (ae_From entry) (ae_Value entry)"
      "sg_Verify sg (ae_From entry) ''ACS_DIFFUSE'' (hashACSValue sid (ae_Value entry)) (ae_Sig entry)"
      by (simp_all add: goodEntry_def)
    then have "checkEntries sg sid predicate slot (Some entry # entries) count =
        checkEntries sg sid predicate (slot + 1) entries (count + 1)"
      by simp
    moreover have "entryCount (Some entry # entries) = entryCount entries + 1" by (simp add: entryCount_def)
    ultimately show ?thesis using 3 g True unfolding all_slots_Cons by (simp add: algebra_simps)
  next
    case False
    then have "checkEntries sg sid predicate slot (Some entry # entries) count \<noteq> Ok k"
      by (auto simp: goodEntry_def)
    then show ?thesis using False unfolding all_slots_Cons by simp
  qed
qed

lemma validate_iff:
  "validateACSVectorPayload js payload cfg True sg predicate = Ok entries \<longleftrightarrow>
     0 < cfg_N cfg \<and> 0 \<le> cfg_F cfg \<and> 3 * cfg_F cfg + 1 \<le> cfg_N cfg \<and> js_Decode js payload = Ok (entries, TailEOF) \<and>
     int (length entries) = cfg_N cfg \<and> goodVector sg (cfg_SID cfg @ ''VACS'') (predicateOf predicate) entries \<and>
     cfg_N cfg - cfg_F cfg \<le> entryCount entries"
proof (cases "js_Decode js payload")
  case (Ok et)
  obtain en tail where et: "et = (en, tail)" by fastforce
  show ?thesis
    using Ok et by (cases tail) (auto simp: validateACSVectorPayload_def ensureJSONEOF_def checkEntries_iff goodVector_def)
qed (simp_all add: validateACSVectorPayload_def)

section \<open>Collected vectors\<close>

definition acsInv :: "Config \<Rightarrow> signer \<Rightarrow> string \<Rightarrow> (int \<Rightarrow> ProposalValue \<Rightarrow> bool) \<Rightarrow> acsState \<Rightarrow> bool" where
  "acsInv cfg sg sid predicate s \<longleftrightarrow>
     length (as_values s) = nat (cfg_N cfg) \<and> goodVector sg sid predicate (as_values s) \<and>
     distinct (as_seenSenders s) \<and>
     (\<forall>i. i \<in> set (as_seenSenders s) \<longleftrightarrow> 0 \<le> i \<and> i < cfg_N cfg \<and> as_values s ! nat i \<noteq> None)"

lemma entryCount_card: "entryCount xs = int (card {i. i < length xs \<and> xs ! i \<noteq> None})"
  by (simp add: entryCount_def length_filter_conv_card)

lemma acsInv_count:
  assumes "acsInv cfg sg sid predicate s"
  shows "entryCount (as_values s) = int (length (as_seenSenders s))"
proof -
  let ?I = "{i. i < length (as_values s) \<and> as_values s ! i \<noteq> None}"
  have "set (as_seenSenders s) = int ` ?I"
  proof (rule set_eqI)
    fix x
    have "x \<in> set (as_seenSenders s) \<longleftrightarrow> 0 \<le> x \<and> x < cfg_N cfg \<and> as_values s ! nat x \<noteq> None"
      and len: "length (as_values s) = nat (cfg_N cfg)"
      using assms by (auto simp: acsInv_def)
    then show "x \<in> set (as_seenSenders s) \<longleftrightarrow> x \<in> int ` ?I"
      by (cases "0 \<le> x") (auto simp: image_iff len intro!: exI [of _ "nat x"])
  qed
  then have "card (set (as_seenSenders s)) = card ?I" by (simp add: card_image)
  then show ?thesis using assms by (simp add: entryCount_card acsInv_def distinct_card)
qed

lemma acsOnDiffuse_inv:
  assumes inv: "acsInv cfg sg sid predicate s"
  shows "acsInv cfg sg sid predicate (stepState (acsOnDiffuse cfg sg sid predicate s from msg))"
proof (cases "acsOnDiffuse cfg sg sid predicate s from msg = Continue s [] \<or>
    acsOnDiffuse cfg sg sid predicate s from msg = Return Panic s []")
  case True
  then show ?thesis using inv by auto
next
  case False
  then have new: "from \<notin> set (as_seenSenders s)" "predicate from (ad_Value msg)"
    "sg_Verify sg from ''ACS_DIFFUSE'' (hashACSValue sid (ad_Value msg)) (ad_Sig msg)"
    "0 \<le> from" "from < int (length (as_values s))"
    by (auto simp: acsOnDiffuse_def split: if_splits)
  let ?e = "\<lparr>ae_From = from, ae_Value = ad_Value msg, ae_Sig = ad_Sig msg\<rparr>"
  let ?s = "s\<lparr>as_seenSenders := from # as_seenSenders s, as_values := (as_values s)[nat from := Some ?e]\<rparr>"
  have st: "stepState (acsOnDiffuse cfg sg sid predicate s from msg) = ?s"
    using False new by (auto simp: acsOnDiffuse_def acsTurn_def split: if_splits)
  have "goodVector sg sid predicate ((as_values s)[nat from := Some ?e])"
    using inv new by (auto simp: acsInv_def goodVector_def nth_list_update goodEntry_def split: if_splits)
  moreover have "i \<in> set (from # as_seenSenders s) \<longleftrightarrow>
      0 \<le> i \<and> i < cfg_N cfg \<and> (as_values s)[nat from := Some ?e] ! nat i \<noteq> None" for i
  proof (cases "i = from")
    case True
    have "length (as_values s) = nat (cfg_N cfg)" using inv by (simp add: acsInv_def)
    then have "from < cfg_N cfg" "nat from < length (as_values s)" using new(4,5) by linarith+
    then show ?thesis using True new(4) by simp
  next
    case False
    have "i \<in> set (as_seenSenders s) \<longleftrightarrow> 0 \<le> i \<and> i < cfg_N cfg \<and> as_values s ! nat i \<noteq> None"
      using inv by (simp add: acsInv_def)
    then show ?thesis using False new(4) by (cases "0 \<le> i") (auto simp: nth_list_update_neq nat_eq_iff)
  qed
  moreover have "length (as_values s) = nat (cfg_N cfg)" "distinct (as_seenSenders s)"
    using inv by (simp_all add: acsInv_def)
  ultimately show ?thesis unfolding st using new(1) by (simp add: acsInv_def)
qed

definition acsPost :: "Config \<Rightarrow> signer \<Rightarrow> string \<Rightarrow> (int \<Rightarrow> ProposalValue \<Rightarrow> bool) \<Rightarrow> acsVectorEntry option list res \<Rightarrow>
    acsState \<Rightarrow> action list \<Rightarrow> bool" where
  "acsPost cfg sg sid predicate r s out \<longleftrightarrow>
     (\<forall>entries. r = Ok entries \<longrightarrow> length entries = nat (cfg_N cfg) \<and> goodVector sg sid predicate entries \<and>
        cfg_N cfg - cfg_F cfg \<le> entryCount entries)"

lemma acsTurn_post:
  "acsInv cfg sg sid predicate s \<Longrightarrow> acsTurn cfg s out = Return r s' out' \<Longrightarrow> acsPost cfg sg sid predicate r s' o2"
  using acsInv_count [of cfg sg sid predicate s] by (auto simp: acsTurn_def acsPost_def acsInv_def split: if_splits)

lemma acsOnDiffuse_post:
  assumes inv: "acsInv cfg sg sid predicate s" and r: "acsOnDiffuse cfg sg sid predicate s from msg = Return r s' out"
  shows "acsPost cfg sg sid predicate r s' out'"
proof (cases "r = Panic")
  case False
  let ?s = "s\<lparr>as_seenSenders := from # as_seenSenders s, as_values := (as_values s)[nat from :=
      Some \<lparr>ae_From = from, ae_Value = cloneProposal (ad_Value msg), ae_Sig = ad_Sig msg\<rparr>]\<rparr>"
  have t: "acsTurn cfg ?s [] = Return r s' out"
    using r False by (auto simp: acsOnDiffuse_def split: if_splits)
  have "stepState (acsOnDiffuse cfg sg sid predicate s from msg) = ?s"
    using r t by (auto simp: acsTurn_def split: if_splits)
  then have "acsInv cfg sg sid predicate ?s" using acsOnDiffuse_inv [OF inv, of "from" msg] by simp
  then show ?thesis using t acsTurn_post by blast
qed (simp add: acsPost_def)

lemma acsHandle_cases:
  "acsHandle cfg sg sid predicate s e = Continue s [] \<or>
   acsHandle cfg sg sid predicate s e = Return (Err ''context done'') s [] \<or>
   (\<exists>from msg. acsHandle cfg sg sid predicate s e = acsOnDiffuse cfg sg sid predicate s from msg)"
proof (cases e)
  case (Recv inp)
  show ?thesis
  proof (cases "\<exists>msg. pm_Body (rm_Msg inp) = BacsDiffuse msg")
    case True
    then obtain msg where "pm_Body (rm_Msg inp) = BacsDiffuse msg" by blast
    then have "acsHandle cfg sg sid predicate s e = acsOnDiffuse cfg sg sid predicate s (rm_From inp) msg"
      using Recv by (simp add: acsHandle_def)
    then show ?thesis by blast
  next
    case False
    then show ?thesis using Recv by (simp add: acsHandle_def split: Body.split)
  qed
qed (simp_all add: acsHandle_def)

interpretation acs_loop: loop_contract "acsHandle cfg sg sid predicate" "\<lambda>s out. acsInv cfg sg sid predicate s"
    "acsPost cfg sg sid predicate"
  for cfg sg sid predicate
proof
  fix s out e
  assume "acsInv cfg sg sid predicate s"
  then show "acsInv cfg sg sid predicate (stepState (acsHandle cfg sg sid predicate s e))"
    using acsHandle_cases [of cfg sg sid predicate s e] acsOnDiffuse_inv by fastforce
next
  fix s out e r s' out'
  assume inv: "acsInv cfg sg sid predicate s" and r: "acsHandle cfg sg sid predicate s e = Return r s' out'"
  from acsHandle_cases [of cfg sg sid predicate s e] show "acsPost cfg sg sid predicate r s' (out @ out')"
  proof (elim disjE exE)
    fix j msg assume "acsHandle cfg sg sid predicate s e = acsOnDiffuse cfg sg sid predicate s j msg"
    then show ?thesis using r acsOnDiffuse_post [OF inv, of j msg r s' out'] by simp
  qed (use r in \<open>auto simp: acsPost_def\<close>)
qed

lemma acsInit_state:
  "acsInv cfg sg sid predicate (stepState (acsInit cfg sg sid input))"
  by (cases "sg_Sign sg ''ACS_DIFFUSE'' (hashACSValue sid input)")
    (auto simp: acsInit_def acsTurn_def acsInv_def goodVector_def Let_def)

lemma acsInit_post:
  assumes "acsInit cfg sg sid input = Return r s out"
  shows "acsPost cfg sg sid predicate r s out"
proof (cases "\<exists>sig. sg_Sign sg ''ACS_DIFFUSE'' (hashACSValue sid input) = Ok sig \<and> 0 \<le> cfg_N cfg")
  case True
  moreover have "acsInv cfg sg sid predicate \<lparr>as_seenSenders = [], as_values = replicate (nat (cfg_N cfg)) None\<rparr>"
    by (auto simp: acsInv_def goodVector_def)
  ultimately show ?thesis using assms acsTurn_post by (fastforce simp: acsInit_def Let_def)
next
  case False
  then show ?thesis using assms
    by (cases "sg_Sign sg ''ACS_DIFFUSE'' (hashACSValue sid input)") (auto simp: acsInit_def Let_def acsPost_def)
qed

lemma acsDiffuse_vector:
  assumes "acsDiffuse cfg sg sid predicate input es = Return (Ok entries) s out"
  shows "length entries = nat (cfg_N cfg) \<and> goodVector sg sid predicate entries \<and>
    cfg_N cfg - cfg_F cfg \<le> entryCount entries"
proof -
  have "acsPost cfg sg sid predicate (Ok entries) s out"
    by (rule acs_loop.loop_post [of cfg sg sid predicate "acsInit cfg sg sid input" es])
      (use acsInit_state acsInit_post assms in \<open>auto simp: acsDiffuse_def\<close>)
  then show ?thesis by (simp add: acsPost_def)
qed

section \<open>Properties\<close>

text \<open>A node's own input to the agreement passes its validity predicate: a vector the diffusion
  phase collects, encoded and decoded by a JSON library that reads back what it wrote, is accepted by
  the validation that every node runs on a decided payload.\<close>

theorem acs_own_vector_accepted:
  assumes "acsDiffuse cfg sg (cfg_SID cfg @ ''VACS'') (predicateOf predicate) input es = Return (Ok entries) s out"
    and "0 < cfg_N cfg" "0 \<le> cfg_F cfg" "3 * cfg_F cfg + 1 \<le> cfg_N cfg"
    and "js_Marshal js entries = Ok payload"
    and "\<And>v b. js_Marshal js v = Ok b \<Longrightarrow> js_Decode js b = Ok (v, TailEOF)"
  shows "validateACSVectorPayload js payload cfg True sg predicate = Ok entries"
  using acsDiffuse_vector [OF assms(1)] assms(2-) by (simp add: validate_iff)

definition acsCfg :: Config where
  "acsCfg = m_cfg (plainNode 0 4 1)"

definition acsValue :: ProposalValue where
  "acsValue = \<lparr>pv_Payload = [7], pv_Round = 0, pv_Hint = ''h'', pv_Proof = []\<rparr>"

definition acsSigner :: signer where
  "acsSigner = (plainSigner 0 4 1)\<lparr>sg_Sign := \<lambda>domain dig. Ok dig, sg_Verify := \<lambda>i domain dig sig. sig = dig\<rparr>"

definition acsEv :: "int \<Rightarrow> ReceivedMessage event" where
  "acsEv i = Recv \<lparr>rm_From = i, rm_Msg = ProtocolMessage TagACSDiffuse 0 0 (BacsDiffuse
     \<lparr>ad_SID = cfg_SID acsCfg @ ''VACS'', ad_Value = acsValue,
      ad_Sig = hashACSValue (cfg_SID acsCfg @ ''VACS'') acsValue\<rparr>)\<rparr>"

definition acsEntry :: "int \<Rightarrow> acsVectorEntry option" where
  "acsEntry i = Some \<lparr>ae_From = i, ae_Value = acsValue, ae_Sig = hashACSValue (cfg_SID acsCfg @ ''VACS'') acsValue\<rparr>"

text \<open>A library that knows one vector.\<close>

definition acsJson :: jsonLib where
  "acsJson = \<lparr>js_Marshal = \<lambda>v. if v = [acsEntry 0, acsEntry 1, None, acsEntry 3] then Ok [1] else Err ''unsupported'',
     js_Decode = \<lambda>b. Ok ([acsEntry 0, acsEntry 1, None, acsEntry 3], TailEOF)\<rparr>"

lemma acsCfg_simps [simp]: "cfg_N acsCfg = 4" "cfg_F acsCfg = 1"
  by (simp_all add: acsCfg_def plainNode_def)

lemma acsDiffuse_demo:
  "\<exists>s out. acsDiffuse acsCfg acsSigner (cfg_SID acsCfg @ ''VACS'') (predicateOf None) acsValue [acsEv 0, acsEv 1, acsEv 3] =
     Return (Ok [acsEntry 0, acsEntry 1, None, acsEntry 3]) s out"
  by (simp add: acsDiffuse_def acsInit_def acsTurn_def acsHandle_def acsOnDiffuse_def acsEv_def acsEntry_def
      acsSigner_def predicateOf_def Let_def numeral_eq_Suc)

theorem acs_own_vector_accepted_witness:
  "validateACSVectorPayload acsJson [1] acsCfg True acsSigner None = Ok [acsEntry 0, acsEntry 1, None, acsEntry 3]"
proof -
  obtain s out where "acsDiffuse acsCfg acsSigner (cfg_SID acsCfg @ ''VACS'') (predicateOf None) acsValue
      [acsEv 0, acsEv 1, acsEv 3] = Return (Ok [acsEntry 0, acsEntry 1, None, acsEntry 3]) s out"
    using acsDiffuse_demo by blast
  then show ?thesis
    by (rule acs_own_vector_accepted) (auto simp: acsJson_def split: if_splits)
qed

lemma acsResult_map: "int (length out) = n \<Longrightarrow> acsResult n out = map (map_option ae_Value) out"
  by (intro nth_equalityI) (auto simp: acsResult_def)

lemma entryCount_map: "entryCount (map (map_option g) xs) = entryCount xs"
  by (simp add: entryCount_def filter_map o_def)



lemma RunMVBACCommonSubset_sound:
  assumes "RunMVBACCommonSubset env perm js cfg sg input predicate es S X = Some (Ok result)"
  shows "\<exists>payload out. validateACSVectorPayload js payload cfg True sg predicate = Ok out \<and>
    result = acsResult (cfg_N cfg) out"
  using assms by (auto simp: RunMVBACCommonSubset_def Let_def split: if_splits option.splits res.splits)

text \<open>The diffuse signature does not bind the borders between a value's fields: hint and payload are
  hashed one after the other, so the entry with bytes moved from the end of the hint to the front of the
  payload passes validation with the same signature, for every signer. A vector with a value its
  proposer never signed is accepted.\<close>

theorem acs_signature_malleable:
  "checkEntries sg sid (predicateOf None) slot
     (Some \<lparr>ae_From = j, ae_Value = \<lparr>pv_Payload = bytes_of h2 @ p, pv_Round = r, pv_Hint = h1, pv_Proof = pr\<rparr>, ae_Sig = sig\<rparr> # es) k =
   checkEntries sg sid (predicateOf None) slot
     (Some \<lparr>ae_From = j, ae_Value = \<lparr>pv_Payload = p, pv_Round = r, pv_Hint = h1 @ h2, pv_Proof = pr\<rparr>, ae_Sig = sig\<rparr> # es) k"
  by (simp add: hashACSValue_def hashBytes_def bytes_of_def predicateOf_def)

end
