(* ===== verification/Lagrange.thy ===== *)
theory Lagrange
  imports Complex_Main
begin

text \<open>
  Lagrange interpolation over a field, for the threshold schemes of the repository: a polynomial
  function is determined by as many values as it has coefficients.
\<close>

section \<open>Polynomial functions\<close>

definition polyfn :: "nat \<Rightarrow> ('a \<Rightarrow> 'a :: field) \<Rightarrow> bool" where
  "polyfn m g \<longleftrightarrow> (\<exists>c. \<forall>z. g z = (\<Sum>i<m. c i * z ^ i))"

lemma polyfnI: "(\<And>z. g z = (\<Sum>i<m. c i * z ^ i)) \<Longrightarrow> polyfn m g"
  by (auto simp: polyfn_def)

lemma polyfn_add:
  assumes "polyfn m g" "polyfn m h"
  shows "polyfn m (\<lambda>z. g z + h z)"
proof -
  obtain c d where "\<And>z. g z = (\<Sum>i<m. c i * z ^ i)" "\<And>z. h z = (\<Sum>i<m. d i * z ^ i)"
    using assms by (auto simp: polyfn_def)
  then show ?thesis by (intro polyfnI [where c = "\<lambda>i. c i + d i"]) (simp add: distrib_right sum.distrib)
qed

lemma polyfn_scale:
  assumes "polyfn m g"
  shows "polyfn m (\<lambda>z. a * g z)"
proof -
  obtain c where "\<And>z. g z = (\<Sum>i<m. c i * z ^ i)" using assms by (auto simp: polyfn_def)
  then show ?thesis by (intro polyfnI [where c = "\<lambda>i. a * c i"]) (simp add: sum_distrib_left mult.assoc)
qed

lemma polyfn_diff:
  assumes "polyfn m g" "polyfn m h"
  shows "polyfn m (\<lambda>z. g z - h z)"
  using polyfn_add [OF assms(1) polyfn_scale [OF assms(2), of "- 1"]] by simp

lemma polyfn_sum:
  "finite I \<Longrightarrow> (\<And>i. i \<in> I \<Longrightarrow> polyfn m (g i)) \<Longrightarrow> polyfn m (\<lambda>z. \<Sum>i\<in>I. g i z)"
proof (induction I rule: finite_induct)
  case empty
  show ?case by (rule polyfnI [where c = "\<lambda>_. 0"]) simp
next
  case (insert x F)
  then show ?case using polyfn_add [of m "g x" "\<lambda>z. \<Sum>i\<in>F. g i z"] by simp
qed

lemma polyfn_mono: "polyfn m g \<Longrightarrow> m \<le> k \<Longrightarrow> polyfn k g"
proof -
  assume "polyfn m g" "m \<le> k"
  then obtain c where c: "\<And>z. g z = (\<Sum>i<m. c i * z ^ i)" by (auto simp: polyfn_def)
  have "(\<Sum>i<k. (if i < m then c i else 0) * z ^ i) = (\<Sum>i<m. c i * z ^ i)" for z :: 'a
    using \<open>m \<le> k\<close> by (intro sum.mono_neutral_cong_right) auto
  then show ?thesis using c by (intro polyfnI [where c = "\<lambda>i. if i < m then c i else 0"]) simp
qed

lemma polyfn_shift:
  assumes "polyfn m g"
  shows "polyfn (Suc m) (\<lambda>z. z * g z)"
proof -
  obtain c where c: "\<And>z. g z = (\<Sum>i<m. c i * z ^ i)" using assms by (auto simp: polyfn_def)
  have "z * g z = (\<Sum>i<Suc m. (case i of 0 \<Rightarrow> 0 | Suc j \<Rightarrow> c j) * z ^ i)" for z
    by (subst sum.lessThan_Suc_shift) (simp add: c sum_distrib_left mult.left_commute)
  then show ?thesis by (rule polyfnI)
qed

lemma polyfn_linear:
  assumes "polyfn m g"
  shows "polyfn (Suc m) (\<lambda>z. (z - a) * g z)"
proof -
  have "polyfn (Suc m) (\<lambda>z. z * g z - a * g z)"
    by (intro polyfn_diff polyfn_shift assms polyfn_mono [OF polyfn_scale [OF assms]]) simp
  then show ?thesis by (simp add: left_diff_distrib)
qed

lemma polyfn_prod: "finite J \<Longrightarrow> polyfn (Suc (card J)) (\<lambda>z. \<Prod>j\<in>J. z - x j)"
proof (induction J rule: finite_induct)
  case empty
  show ?case by (rule polyfnI [where c = "\<lambda>_. 1"]) simp
next
  case (insert j J)
  then show ?case using polyfn_linear [OF insert.IH, of "x j"] by simp
qed

section \<open>Uniqueness and interpolation\<close>

lemma polyfn_zero:
  "finite A \<Longrightarrow> m \<le> card A \<Longrightarrow> polyfn m g \<Longrightarrow> (\<And>z. z \<in> A \<Longrightarrow> g z = 0) \<Longrightarrow> g w = 0"
proof (induction m arbitrary: A g)
  case 0
  then show ?case by (simp add: polyfn_def)
next
  case (Suc m)
  then obtain c where c: "\<And>z. g z = (\<Sum>i\<le>m. c i * z ^ i)" by (auto simp: polyfn_def lessThan_Suc_atMost)
  obtain a where a: "a \<in> A" using Suc.prems(2) by fastforce
  then have "(\<Sum>i\<le>m. c i * a ^ i) = 0" using Suc.prems(4) c by metis
  then obtain b where b: "\<And>z. g z = (z - a) * (\<Sum>i<m. b i * z ^ i)"
    using polyfun_linear_factor_root [of c a m] c by metis
  have "(\<Sum>i<m. b i * w ^ i) = 0"
  proof (rule Suc.IH [of "A - {a}" "\<lambda>z. \<Sum>i<m. b i * z ^ i"])
    show "m \<le> card (A - {a})" using Suc.prems(1,2) a by simp
    show "(\<Sum>i<m. b i * z ^ i) = 0" if "z \<in> A - {a}" for z using Suc.prems(4) [of z] b that by auto
  qed (use Suc.prems in \<open>auto intro: polyfnI\<close>)
  then show ?case using b by simp
qed

definition lagrangeBasis :: "('i \<Rightarrow> 'a :: field) \<Rightarrow> 'i set \<Rightarrow> 'i \<Rightarrow> 'a \<Rightarrow> 'a" where
  "lagrangeBasis x I i z = (\<Prod>j\<in>I - {i}. (z - x j) / (x i - x j))"

lemma lagrangeBasis_node:
  assumes "finite I" "inj_on x I" "i \<in> I" "k \<in> I"
  shows "lagrangeBasis x I i (x k) = (if k = i then 1 else 0)"
proof (cases "k = i")
  case True
  have "(x i - x j) / (x i - x j) = 1" if "j \<in> I - {i}" for j
    using that assms(2,3) by (auto simp: inj_on_def)
  then show ?thesis using True by (simp add: lagrangeBasis_def)
next
  case False
  then show ?thesis using assms by (auto simp: lagrangeBasis_def intro!: prod_zero)
qed

lemma lagrangeBasis_poly:
  assumes "finite I" "i \<in> I"
  shows "polyfn (card I) (lagrangeBasis x I i)"
proof -
  have "lagrangeBasis x I i z = inverse (\<Prod>j\<in>I - {i}. x i - x j) * (\<Prod>j\<in>I - {i}. z - x j)" for z
    unfolding lagrangeBasis_def prod_dividef by (simp add: divide_inverse mult.commute)
  moreover have "polyfn (card I) (\<lambda>z. inverse (\<Prod>j\<in>I - {i}. x i - x j) * (\<Prod>j\<in>I - {i}. z - x j))"
    using polyfn_scale [OF polyfn_prod [of "I - {i}" x]] card_Suc_Diff1 [OF assms] assms(1) by simp
  ultimately show ?thesis by (simp add: polyfn_def)
qed

theorem lagrange_interpolation:
  assumes I: "finite I" "inj_on x I" and p: "polyfn m p" "m \<le> card I"
  shows "p z = (\<Sum>i\<in>I. p (x i) * lagrangeBasis x I i z)"
proof -
  let ?d = "\<lambda>z. p z - (\<Sum>i\<in>I. p (x i) * lagrangeBasis x I i z)"
  have "?d z = 0"
  proof (rule polyfn_zero [of "x ` I" "card I" ?d z])
    show "polyfn (card I) ?d"
      by (intro polyfn_diff polyfn_sum polyfn_scale lagrangeBasis_poly polyfn_mono [OF p] I)
    show "?d y = 0" if y: "y \<in> x ` I" for y
    proof -
      obtain k where k: "k \<in> I" "y = x k" using y by blast
      have "(\<Sum>i\<in>I. p (x i) * lagrangeBasis x I i (x k)) = (\<Sum>i\<in>I. if i = k then p (x k) else 0)"
        using lagrangeBasis_node [OF I _ k(1)] by (intro sum.cong) auto
      then show ?thesis using k I(1) by simp
    qed
  qed (use I in \<open>auto simp: card_image\<close>)
  then show ?thesis by simp
qed

end
