(* ===== verification/Mvba_Signers.thy ===== *)
theory Mvba_Signers
  imports Mvba_Node Lagrange "HOL-Library.Countable"
begin

text \<open>
  The signers of the library: \<^verbatim>\<open>signer_tbls.go\<close>, \<^verbatim>\<open>signer_ed25519.go\<close> and
  \<^verbatim>\<open>signer_bls12381.go\<close>. The cryptographic packages are parameters (records of the functions the
  source calls); what the source adds, key selection per domain, domain separation, range checks, the
  order of shares and Lagrange interpolation, is modelled.
\<close>

section \<open>Domain separation\<close>

definition domainDigest :: "string \<Rightarrow> bytes \<Rightarrow> bytes" where
  "domainDigest domain digest = sha256 (bytes_of domain @ [0] @ digest)"

text \<open>\<^verbatim>\<open>strings.ToUpper\<close> on ASCII.\<close>

definition toUpperChar :: "char \<Rightarrow> char" where
  "toUpperChar c = (let k = of_char c :: nat in if 97 \<le> k \<and> k \<le> 122 then char_of (k - 32) else c)"

definition toUpper :: "string \<Rightarrow> string" where
  "toUpper s = map toUpperChar s"

section \<open>Threshold BLS (kyber)\<close>

record ('pub, 'sh) tblsKeyset =
  ks_t :: int
  ks_n :: int
  ks_pubPoly :: 'pub
  ks_shares :: "'sh list"

record ('pub, 'sh) TBLSKeyBundle =
  tb_low :: "('pub, 'sh) tblsKeyset"
  tb_high :: "('pub, 'sh) tblsKeyset"

record ('pub, 'sh) TBLSSigner =
  ts_id :: int
  ts_low :: "('pub, 'sh) tblsKeyset"
  ts_high :: "('pub, 'sh) tblsKeyset"

text \<open>The functions of kyber: a key set of a threshold and a size, and the calls of \<^verbatim>\<open>tbls\<close> and
  \<^verbatim>\<open>bls\<close>.\<close>

record ('pub, 'sh) tblsLib =
  tl_keyset :: "int \<Rightarrow> int \<Rightarrow> 'pub \<times> 'sh list"
  tl_Sign :: "'sh \<Rightarrow> bytes \<Rightarrow> bytes res"
  tl_Index :: "bytes \<Rightarrow> int option"
  tl_Verify :: "'pub \<Rightarrow> bytes \<Rightarrow> bytes \<Rightarrow> bool"
  tl_Recover :: "'pub \<Rightarrow> bytes \<Rightarrow> bytes list \<Rightarrow> int \<Rightarrow> int \<Rightarrow> bytes res"
  tl_VerifyRecovered :: "'pub \<Rightarrow> bytes \<Rightarrow> bytes \<Rightarrow> bool"

definition genTBLSKeyset :: "('pub, 'sh) tblsLib \<Rightarrow> int \<Rightarrow> int \<Rightarrow> ('pub, 'sh) tblsKeyset res" where
  "genTBLSKeyset lib n threshold =
     (if threshold \<le> 0 \<or> threshold > n then Err ''invalid threshold''
      else let (pub, shares) = tl_keyset lib n threshold in
        Ok \<lparr>ks_t = threshold, ks_n = n, ks_pubPoly = pub, ks_shares = shares\<rparr>)"

definition GenerateTBLSKeyBundle :: "('pub, 'sh) tblsLib \<Rightarrow> int \<Rightarrow> int \<Rightarrow> ('pub, 'sh) TBLSKeyBundle res" where
  "GenerateTBLSKeyBundle lib n f =
     (if n \<le> 0 then Err ''invalid n''
      else if f < 0 \<or> n < 3 * f + 1 then Err ''invalid f''
      else bindR (genTBLSKeyset lib n (f + 1)) (\<lambda>low.
           bindR (genTBLSKeyset lib n (n - f)) (\<lambda>high.
           Ok \<lparr>tb_low = low, tb_high = high\<rparr>)))"

definition NewTBLSSigner :: "int \<Rightarrow> ('pub, 'sh) TBLSKeyBundle option \<Rightarrow> ('pub, 'sh) TBLSSigner res" where
  "NewTBLSSigner i bundle =
    (case bundle of
       None \<Rightarrow> Err ''invalid config: nil tbls bundle''
     | Some b \<Rightarrow>
        if i < 0 \<or> i \<ge> ks_n (tb_low b) then Err ''invalid config: signer id out of range''
        else Ok \<lparr>ts_id = i, ts_low = tb_low b, ts_high = tb_high b\<rparr>)"

definition selectKey :: "('pub, 'sh) TBLSSigner \<Rightarrow> string \<Rightarrow> ('pub, 'sh) tblsKeyset" where
  "selectKey s domain =
    (let d = toUpper domain in
     if d = ''PD_STORED'' \<or> d = ''PD_LOCKED'' \<or> d = ''SPBC_ECHO'' \<or> d = ''ACS_DIFFUSE'' then ts_high s else ts_low s)"

definition TBLS_Sign :: "('pub, 'sh) tblsLib \<Rightarrow> ('pub, 'sh) TBLSSigner \<Rightarrow> string \<Rightarrow> bytes \<Rightarrow> bytes res" where
  "TBLS_Sign lib s domain digest =
    (let key = selectKey s domain in
     bindR (indexR (ks_shares key) (ts_id s)) (\<lambda>sh. tl_Sign lib sh (domainDigest domain digest)))"

definition TBLS_Verify :: "('pub, 'sh) tblsLib \<Rightarrow> ('pub, 'sh) TBLSSigner \<Rightarrow> int \<Rightarrow> string \<Rightarrow> bytes \<Rightarrow> bytes \<Rightarrow> bool" where
  "TBLS_Verify lib s from domain digest sig =
    (let key = selectKey s domain in
     if from < 0 \<or> from \<ge> ks_n key then False
     else case tl_Index lib sig of
         None \<Rightarrow> False
       | Some idx \<Rightarrow> if idx \<noteq> from then False
           else tl_Verify lib (ks_pubPoly key) (domainDigest domain digest) sig)"

definition sharesInOrder :: "(int \<times> 'a) list \<Rightarrow> 'a list" where
  "sharesInOrder shares = map (\<lambda>k. the (map_of shares k)) (sort (map fst shares))"

definition TBLS_Recover :: "('pub, 'sh) tblsLib \<Rightarrow> ('pub, 'sh) TBLSSigner \<Rightarrow> string \<Rightarrow> bytes \<Rightarrow> (int \<times> bytes) list \<Rightarrow> bytes res" where
  "TBLS_Recover lib s domain digest shares =
    (let key = selectKey s domain in
     if int (length shares) < ks_t key then Err ''insufficient shares''
     else tl_Recover lib (ks_pubPoly key) (domainDigest domain digest) (sharesInOrder shares) (ks_t key) (ks_n key))"

definition TBLS_VerifyRecovered :: "('pub, 'sh) tblsLib \<Rightarrow> ('pub, 'sh) TBLSSigner \<Rightarrow> string \<Rightarrow> bytes \<Rightarrow> bytes \<Rightarrow> bool" where
  "TBLS_VerifyRecovered lib s domain digest sig =
     tl_VerifyRecovered lib (ks_pubPoly (selectKey s domain)) (domainDigest domain digest) sig"

text \<open>The signer as the value of the interface type.\<close>

definition tblsSigner :: "('pub, 'sh) tblsLib \<Rightarrow> ('pub, 'sh) TBLSSigner \<Rightarrow> signer" where
  "tblsSigner lib s = \<lparr>sg_ID = ts_id s, sg_Sign = TBLS_Sign lib s, sg_Verify = TBLS_Verify lib s,
     sg_threshold = True, sg_Threshold = (\<lambda>d. ks_t (selectKey s d)),
     sg_Recover = TBLS_Recover lib s, sg_VerifyRecovered = TBLS_VerifyRecovered lib s\<rparr>"

section \<open>Ed25519\<close>

record Ed25519Signer =
  ed_id :: int
  ed_priv :: bytes
  ed_pubs :: "bytes list"

record edLib =
  el_Sign :: "bytes \<Rightarrow> bytes \<Rightarrow> bytes"
  el_Verify :: "bytes \<Rightarrow> bytes \<Rightarrow> bytes \<Rightarrow> bool"

definition NewEd25519Signer :: "int \<Rightarrow> bytes \<Rightarrow> bytes list \<Rightarrow> Ed25519Signer res" where
  "NewEd25519Signer i priv pubs =
     (if i < 0 \<or> i \<ge> int (length pubs) then Err ''invalid config: signer id out of range''
      else if length priv \<noteq> 64 then Err ''invalid config: invalid private key size''
      else if length pubs = 0 then Err ''invalid config: empty public keys''
      else if \<not> list_all (\<lambda>p. length p = 32) pubs then Err ''invalid config: invalid public key size''
      else Ok \<lparr>ed_id = i, ed_priv = priv, ed_pubs = pubs\<rparr>)"

definition Ed25519_Sign :: "edLib \<Rightarrow> Ed25519Signer \<Rightarrow> string \<Rightarrow> bytes \<Rightarrow> bytes res" where
  "Ed25519_Sign lib s domain digest =
     (if length (ed_priv s) \<noteq> 64 then Err ''missing private key''
      else Ok (el_Sign lib (ed_priv s) (domainDigest domain digest)))"

definition Ed25519_Verify :: "edLib \<Rightarrow> Ed25519Signer \<Rightarrow> int \<Rightarrow> string \<Rightarrow> bytes \<Rightarrow> bytes \<Rightarrow> bool" where
  "Ed25519_Verify lib s from domain digest sig =
     (if from < 0 \<or> from \<ge> int (length (ed_pubs s)) then False
      else if length sig \<noteq> 64 then False
      else
        let pub = ed_pubs s ! nat from in
        if length pub \<noteq> 32 then False else el_Verify lib pub (domainDigest domain digest) sig)"

section \<open>Threshold BLS over BLS12-381 (gnark)\<close>

text \<open>The scalar field is a type of the class of fields (gnark's inverse of 0 is 0, as here), G1 an additive
  group; \<open>bl_check s h k\<close> is the pairing check of \<open>(s, G2)\<close> against \<open>(h, k)\<close>.\<close>

record ('f, 'g, 'k) blsLib =
  bl_HashToG1 :: "bytes \<Rightarrow> string \<Rightarrow> 'g res"
  bl_smul :: "'f \<Rightarrow> 'g \<Rightarrow> 'g"
  bl_Marshal :: "'g \<Rightarrow> bytes"
  bl_Unmarshal :: "bytes \<Rightarrow> 'g res"
  bl_g2 :: "'f \<Rightarrow> 'k"
  bl_check :: "'g \<Rightarrow> 'g \<Rightarrow> 'k \<Rightarrow> bool"

record ('f, 'k) blsSigner =
  bs_id :: int
  bs_n :: int
  bs_threshold :: int
  bs_share :: 'f
  bs_pubKey :: 'k
  bs_pubKeyShares :: "'k list"

definition NewBLS12381Signer :: "int \<Rightarrow> 'f \<Rightarrow> 'k \<Rightarrow> 'k list \<Rightarrow> int \<Rightarrow> int \<Rightarrow> ('f, 'k) blsSigner" where
  "NewBLS12381Signer i share pubKey pubKeyShares n threshold =
     \<lparr>bs_id = i, bs_n = n, bs_threshold = threshold, bs_share = share, bs_pubKey = pubKey,
      bs_pubKeyShares = pubKeyShares\<rparr>"

definition bls_Sign :: "('f, 'g, 'k) blsLib \<Rightarrow> ('f, 'k) blsSigner \<Rightarrow> string \<Rightarrow> bytes \<Rightarrow> bytes res" where
  "bls_Sign lib s domain digest =
     bindR (bl_HashToG1 lib (domainDigest domain digest) domain) (\<lambda>h. Ok (bl_Marshal lib (bl_smul lib (bs_share s) h)))"

definition bls_Verify :: "('f, 'g, 'k) blsLib \<Rightarrow> ('f, 'k) blsSigner \<Rightarrow> int \<Rightarrow> string \<Rightarrow> bytes \<Rightarrow> bytes \<Rightarrow> bool" where
  "bls_Verify lib s from domain digest sigBytes =
     (if from < 0 \<or> from \<ge> int (length (bs_pubKeyShares s)) then False
      else case bl_Unmarshal lib sigBytes of
          Ok sig \<Rightarrow> (case bl_HashToG1 lib (domainDigest domain digest) domain of
              Ok h \<Rightarrow> bl_check lib sig h (bs_pubKeyShares s ! nat from) | _ \<Rightarrow> False)
        | _ \<Rightarrow> False)"

definition lagrangeCoeff :: "int list \<Rightarrow> int \<Rightarrow> 'f :: field" where
  "lagrangeCoeff ids id1 =
     fold (\<lambda>id2 c. if id1 = id2 then c else c * (of_int (id2 + 1) * inverse (of_int (id2 - id1)))) ids 1"

fun weightedSum :: "('f :: field, 'g :: ab_group_add, 'k) blsLib \<Rightarrow> (int \<times> bytes) list \<Rightarrow> int list \<Rightarrow> int list \<Rightarrow> 'g \<Rightarrow> 'g res" where
  "weightedSum lib shares ids [] recovered = Ok recovered"
| "weightedSum lib shares ids (i # rest) recovered =
     bindR (bl_Unmarshal lib (the (map_of shares i))) (\<lambda>sig.
       weightedSum lib shares ids rest (recovered + bl_smul lib (lagrangeCoeff ids i) sig))"

definition bls_Recover :: "('f :: field, 'g :: ab_group_add, 'k) blsLib \<Rightarrow> ('f, 'k) blsSigner \<Rightarrow> string \<Rightarrow> bytes \<Rightarrow>
    (int \<times> bytes) list \<Rightarrow> bytes res" where
  "bls_Recover lib s domain digest shares =
     (if int (length shares) < bs_threshold s then Err ''need more shares''
      else let ids = sort (map fst shares) in
        bindR (weightedSum lib shares ids ids 0) (\<lambda>recovered. Ok (bl_Marshal lib recovered)))"

definition bls_VerifyRecovered :: "('f, 'g, 'k) blsLib \<Rightarrow> ('f, 'k) blsSigner \<Rightarrow> string \<Rightarrow> bytes \<Rightarrow> bytes \<Rightarrow> bool" where
  "bls_VerifyRecovered lib s domain digest sigBytes =
     (case bl_Unmarshal lib sigBytes of
        Ok sig \<Rightarrow> (case bl_HashToG1 lib (domainDigest domain digest) domain of
            Ok h \<Rightarrow> bl_check lib sig h (bs_pubKey s) | _ \<Rightarrow> False)
      | _ \<Rightarrow> False)"

text \<open>\<open>coeffs\<close> are the field elements read from the key stream.\<close>

fun shareLoop :: "'f :: field list \<Rightarrow> 'f \<Rightarrow> 'f \<Rightarrow> 'f \<Rightarrow> 'f" where
  "shareLoop [] x xPow share = share"
| "shareLoop (c # cs) x xPow share = shareLoop cs x (xPow * x) (share + c * xPow)"

definition GenerateBLS12381TBLSBundle :: "('f :: field, 'g, 'k) blsLib \<Rightarrow> int \<Rightarrow> int \<Rightarrow> (nat \<Rightarrow> 'f) \<Rightarrow>
    ('f list \<times> 'k list \<times> 'k \<times> int) res" where
  "GenerateBLS12381TBLSBundle lib n f stream =
     (if n \<le> 0 \<or> f < 0 \<or> n < 3 * f + 1 then Err ''invalid''
      else
        let threshold = (if f + 1 > n then n else f + 1);
            coeffs = map stream [0..<nat threshold];
            shares = map (\<lambda>i. shareLoop coeffs (of_int (i + 1)) 1 0) [0..n - 1] in
        Ok (shares, map (bl_g2 lib) shares, bl_g2 lib (coeffs ! 0), threshold))"

section \<open>Thresholds\<close>

lemma toUpper_domains:
  "toUpper ''PD_STORED'' = ''PD_STORED''" "toUpper ''PD_LOCKED'' = ''PD_LOCKED''"
  "toUpper ''PD_QUIT_READY'' = ''PD_QUIT_READY''" "toUpper ''EQ_COIN_SHARE'' = ''EQ_COIN_SHARE''"
  "toUpper ''ACS_DIFFUSE'' = ''ACS_DIFFUSE''" "toUpper ''MVBA_NON_EQ_COIN'' = ''MVBA_NON_EQ_COIN''"
  by code_simp+

lemma bundle_keys:
  assumes "GenerateTBLSKeyBundle lib n f = Ok b"
  shows "ks_t (tb_low b) = f + 1 \<and> ks_n (tb_low b) = n \<and> ks_t (tb_high b) = n - f \<and> ks_n (tb_high b) = n \<and>
    0 \<le> f \<and> 3 * f + 1 \<le> n"
  using assms by (auto simp: GenerateTBLSKeyBundle_def genTBLSKeyset_def split_beta split: if_splits)

text \<open>The generated keys fit the protocol. A signer made from a key bundle for \<open>n\<close> nodes and \<open>f\<close> faults
  has, in every domain, the threshold the constructor of an MVBA node asks for, so that every node
  configuration with these \<open>n\<close> and \<open>f\<close> is accepted on the equivalent path.\<close>

theorem tbls_fits_mvba:
  assumes "GenerateTBLSKeyBundle lib n f = Ok b" "NewTBLSSigner i (Some b) = Ok s"
    and "cfg_N cfg = n" "cfg_F cfg = f" "cfg_ID cfg = i" "cfg_SID cfg \<noteq> []" "cfg_UseEquivalentPath cfg"
  shows "is_Ok (NewDumboMVBA cfg False True (tblsSigner lib s) True False)"
proof -
  have s: "ts_low s = tb_low b" "ts_high s = tb_high b" "0 \<le> i" "i < n"
    using assms(2) bundle_keys [OF assms(1)] by (auto simp: NewTBLSSigner_def split: if_splits)
  then show ?thesis
    using assms(3-) bundle_keys [OF assms(1)]
    by (simp add: NewDumboMVBA_def Let_def isThresholdSigner_def tblsSigner_def selectKey_def toUpper_domains)
qed

definition unitLib :: "(unit, unit) tblsLib" where
  "unitLib = \<lparr>tl_keyset = (\<lambda>n t. ((), replicate (nat n) ())), tl_Sign = (\<lambda>_ msg. Ok msg), tl_Index = (\<lambda>_. Some 0),
     tl_Verify = (\<lambda>_ msg sig. sig = msg), tl_Recover = (\<lambda>_ msg _ _ _. Ok msg), tl_VerifyRecovered = (\<lambda>_ msg sig. sig = msg)\<rparr>"

theorem tbls_fits_mvba_witness:
  "\<exists>b s cfg. GenerateTBLSKeyBundle unitLib 4 1 = Ok b \<and> NewTBLSSigner 2 (Some b) = Ok s \<and>
     is_Ok (NewDumboMVBA cfg False True (tblsSigner unitLib s) True False)"
proof -
  obtain b where b: "GenerateTBLSKeyBundle unitLib 4 1 = Ok b"
    by (simp add: GenerateTBLSKeyBundle_def genTBLSKeyset_def unitLib_def)
  then obtain s where s: "NewTBLSSigner 2 (Some b) = Ok s" using bundle_keys [OF b] by (simp add: NewTBLSSigner_def)
  let ?cfg = "\<lparr>cfg_SID = ''s'', cfg_ID = 2, cfg_N = 4, cfg_F = 1, cfg_MaxRounds = 0, cfg_WaitSPBCTimeout = 0,
    cfg_RouteSendTimeout = 0, cfg_UseEquivalentPath = True, cfg_EquivalentCoinMode = [], cfg_ValidatePayload = None\<rparr>"
  have "is_Ok (NewDumboMVBA ?cfg False True (tblsSigner unitLib s) True False)"
    by (rule tbls_fits_mvba [OF b s]) simp_all
  then show ?thesis using b s by blast
qed

section \<open>Recovery of BLS signatures\<close>

text \<open>What the code relies on of gnark: G1 is a module over the scalars, points survive marshalling, and the
  pairing check accepts exactly the multiple of the hash that the public key belongs to.\<close>

definition blsLaws :: "('f :: field, 'g :: ab_group_add, 'k) blsLib \<Rightarrow> bool" where
  "blsLaws lib \<longleftrightarrow>
     (\<forall>a b x. bl_smul lib (a + b) x = bl_smul lib a x + bl_smul lib b x) \<and>
     (\<forall>a b x. bl_smul lib a (bl_smul lib b x) = bl_smul lib (a * b) x) \<and>
     (\<forall>g. bl_Unmarshal lib (bl_Marshal lib g) = Ok g) \<and>
     (\<forall>sig h sk. bl_check lib sig h (bl_g2 lib sk) \<longleftrightarrow> sig = bl_smul lib sk h)"

lemma smul_zero: "blsLaws lib \<Longrightarrow> bl_smul lib 0 x = 0"
  unfolding blsLaws_def by (metis add_cancel_right_right)

lemma shareLoop_eq:
  "shareLoop cs x xp sh = sh + (\<Sum>k<length cs. cs ! k * (xp * x ^ k))"
proof (induction cs arbitrary: xp sh)
  case (Cons c cs)
  have "(\<Sum>k<length (c # cs). (c # cs) ! k * (xp * x ^ k)) = c * xp + (\<Sum>k<length cs. cs ! k * (xp * x * x ^ k))"
    unfolding length_Cons sum.lessThan_Suc_shift by (simp add: mult.assoc)
  then show ?case using Cons by (simp add: add.assoc)
qed simp

lemma fold_prod_except:
  "distinct ids \<Longrightarrow> fold (\<lambda>j c. if i = j then c else c * g j) ids a = (a :: 'f :: field) * (\<Prod>j\<in>set ids - {i}. g j)"
proof (induction ids arbitrary: a)
  case (Cons k ids)
  then show ?case by (cases "i = k") (auto simp: insert_Diff_if mult.assoc)
qed simp

lemma lagrangeCoeff_basis:
  assumes "distinct ids"
  shows "lagrangeCoeff ids i = lagrangeBasis (\<lambda>j. of_int (j + 1)) (set ids) i 0"
proof -
  have "of_int (j + 1) * inverse (of_int (j - i)) = (0 - of_int (j + 1)) / (of_int (i + 1) - (of_int (j + 1) :: 'a))" for j
  proof -
    have "of_int (i + 1) - of_int (j + 1) = - (of_int (j - i) :: 'a)" by simp
    then show ?thesis by (simp only: divide_inverse inverse_minus_eq diff_0 mult_minus_left mult_minus_right minus_minus)
  qed
  then show ?thesis
    unfolding lagrangeCoeff_def lagrangeBasis_def fold_prod_except [OF assms] by simp
qed

lemma weightedSum_eq:
  assumes lib: "blsLaws lib" and sh: "\<forall>i \<in> set rest. map_of shares i = Some (bl_Marshal lib (bl_smul lib (sh i) h))"
  shows "distinct rest \<Longrightarrow> weightedSum lib shares ids rest r =
    Ok (r + bl_smul lib (\<Sum>i\<in>set rest. sh i * lagrangeCoeff ids i) h)"
  using sh
proof (induction rest arbitrary: r)
  case Nil
  then show ?case by (simp add: smul_zero [OF lib])
next
  case (Cons i rest)
  have "bl_smul lib (lagrangeCoeff ids i) (bl_smul lib (sh i) h) = bl_smul lib (sh i * lagrangeCoeff ids i) h"
    using lib by (simp add: blsLaws_def mult.commute)
  then show ?case using Cons lib by (simp add: blsLaws_def add.assoc)
qed

lemma generated_share:
  assumes "GenerateBLS12381TBLSBundle lib n f stream = Ok (shares, pks, gpk, t)" "0 \<le> i" "i < n"
  shows "shares ! nat i = (\<Sum>k<nat t. stream k * (of_int (i + 1)) ^ k) \<and> pks ! nat i = bl_g2 lib (shares ! nat i) \<and>
    length pks = nat n \<and> gpk = bl_g2 lib (stream 0) \<and> t = f + 1 \<and> 0 \<le> f"
  using assms by (auto simp: GenerateBLS12381TBLSBundle_def Let_def shareLoop_eq split: if_splits)

text \<open>C35. Threshold BLS recovers. With the generated keys, let any set of at least \<open>f + 1\<close> nodes sign a digest.
  Every share verifies at every node, recovery from these shares succeeds, with the same result whichever
  nodes signed, namely the secret's multiple of the hashed digest, and the result verifies. The field has to
  be larger than \<open>n\<close>.\<close>

theorem bls_recover_correct:
  fixes lib :: "('f :: field, 'g :: ab_group_add, 'k) blsLib"
  assumes lib: "blsLaws lib"
    and gen: "GenerateBLS12381TBLSBundle lib n f stream = Ok (shares, pks, gpk, t)"
    and big: "\<forall>d. 0 < d \<longrightarrow> d < n \<longrightarrow> (of_int d :: 'f) \<noteq> 0"
    and h: "bl_HashToG1 lib (domainDigest domain digest) domain = Ok h"
    and ids: "distinct ids" "set ids \<subseteq> {0..<n}" "t \<le> int (length ids)"
    and sigs: "sigs = map (\<lambda>i. (i, bl_Marshal lib (bl_smul lib (shares ! nat i) h))) ids"
    and s: "s = NewBLS12381Signer me share gpk pks n t"
  shows "bls_Recover lib s domain digest sigs = Ok (bl_Marshal lib (bl_smul lib (stream 0) h)) \<and>
    bls_VerifyRecovered lib s domain digest (bl_Marshal lib (bl_smul lib (stream 0) h)) \<and>
    list_all (\<lambda>(i, sig). bls_Sign lib (NewBLS12381Signer i (shares ! nat i) gpk pks n t) domain digest = Ok sig \<and>
      bls_Verify lib s i domain digest sig) sigs"
proof -
  let ?x = "\<lambda>i. of_int (i + 1) :: 'f"
  let ?p = "\<lambda>z :: 'f. \<Sum>k<nat t. stream k * z ^ k"
  have t: "0 < t" and gpk: "gpk = bl_g2 lib (stream 0)"
    using gen by (auto simp: GenerateBLS12381TBLSBundle_def Let_def split: if_splits)
  have sh: "shares ! nat i = ?p (?x i)" if "i \<in> set ids" for i
    using generated_share [OF gen, of i] that ids(2) by auto
  have inj: "inj_on ?x (set ids)"
  proof (rule inj_onI)
    fix a b assume ab: "a \<in> set ids" "b \<in> set ids" "?x a = ?x b"
    then have "(of_int (a - b) :: 'f) = 0" "(of_int (b - a) :: 'f) = 0" by simp_all
    moreover have "a \<in> {0..<n}" "b \<in> {0..<n}" using ab(1,2) ids(2) by blast+
    then have "a - b < n" "b - a < n" by simp_all
    ultimately have "\<not> 0 < a - b \<and> \<not> 0 < b - a" using big by blast
    then show "a = b" by simp
  qed
  have sorted: "distinct (sort ids)" "set (sort ids) = set ids" using ids by auto
  have keys: "map fst sigs = ids" by (simp add: sigs comp_def)
  have lookup: "\<forall>i \<in> set (sort ids). map_of sigs i = Some (bl_Marshal lib (bl_smul lib (shares ! nat i) h))"
    by (simp add: sigs map_of_map_restrict)
  have "?p 0 = (\<Sum>i\<in>set ids. ?p (?x i) * lagrangeBasis ?x (set ids) i 0)"
    using ids by (intro lagrange_interpolation [where m = "nat t"] inj)
      (auto simp: distinct_card intro: polyfnI)
  moreover have "?p 0 = stream 0"
  proof -
    obtain m where "nat t = Suc m" using t by (cases "nat t") auto
    then show ?thesis by (simp only: sum.lessThan_Suc_shift) simp
  qed
  ultimately have sum: "(\<Sum>i\<in>set (sort ids). shares ! nat i * lagrangeCoeff (sort ids) i) = stream 0"
    by (simp add: lagrangeCoeff_basis [OF sorted(1)] sh)
  have "bls_Recover lib s domain digest sigs = Ok (bl_Marshal lib (bl_smul lib (stream 0) h))"
    using weightedSum_eq [OF lib lookup sorted(1), of "sort ids" 0] ids(3) sum
    by (simp add: bls_Recover_def s NewBLS12381Signer_def keys) (simp add: sigs)
  moreover have "bls_Verify lib s i domain digest (bl_Marshal lib (bl_smul lib (shares ! nat i) h))" if "i \<in> set ids" for i
  proof -
    have "pks ! nat i = bl_g2 lib (shares ! nat i)" "length pks = nat n" "0 \<le> i" "i < n"
      using generated_share [OF gen, of i] that ids(2) by auto
    then show ?thesis using lib h by (simp add: bls_Verify_def s NewBLS12381Signer_def blsLaws_def)
  qed
  ultimately show ?thesis
    using lib h gpk
    by (auto simp: bls_VerifyRecovered_def bls_Sign_def s NewBLS12381Signer_def blsLaws_def list_all_iff sigs)
qed

text \<open>Four nodes over the rationals; a point is written as a string of zeros.\<close>

definition ratLib :: "(rat, rat, rat) blsLib" where
  "ratLib = \<lparr>bl_HashToG1 = (\<lambda>_ _. Ok 1), bl_smul = (*), bl_Marshal = (\<lambda>g. replicate (to_nat g) 0),
     bl_Unmarshal = (\<lambda>b. Ok (from_nat (length b))), bl_g2 = (\<lambda>x. x), bl_check = (\<lambda>sig h k. sig = k * h)\<rparr>"

lemma ratLib_laws: "blsLaws ratLib"
  by (simp add: blsLaws_def ratLib_def distrib_right)

theorem bls_recover_correct_witness:
  "\<exists>shares pks gpk t sigs. GenerateBLS12381TBLSBundle ratLib 4 1 (\<lambda>k. of_nat k + 5) = Ok (shares, pks, gpk, t) \<and>
     sigs = map (\<lambda>i. (i, bl_Marshal ratLib (bl_smul ratLib (shares ! nat i) 1))) [3, 1] \<and>
     bls_Recover ratLib (NewBLS12381Signer 0 (shares ! 0) gpk pks 4 t) ''D'' [] sigs = Ok (bl_Marshal ratLib 5)"
proof -
  obtain shares pks gpk t where gen:
    "GenerateBLS12381TBLSBundle ratLib 4 1 (\<lambda>k. of_nat k + 5) = Ok (shares, pks, gpk, t)" and t: "t = 2"
    by (simp add: GenerateBLS12381TBLSBundle_def Let_def)
  let ?sigs = "map (\<lambda>i. (i, bl_Marshal ratLib (bl_smul ratLib (shares ! nat i) 1))) [3, 1]"
  have "bls_Recover ratLib (NewBLS12381Signer 0 (shares ! 0) gpk pks 4 t) ''D'' [] ?sigs =
      Ok (bl_Marshal ratLib (bl_smul ratLib (of_nat 0 + 5) 1))"
    using bls_recover_correct [OF ratLib_laws gen, of "''D''" "[]" 1 "[3, 1]" ?sigs
        "NewBLS12381Signer 0 (shares ! 0) gpk pks 4 t" 0 "shares ! 0"] t
    by (simp add: ratLib_def)
  then show ?thesis using gen by (auto simp: ratLib_def)
qed

end
