(* ===== verification/Cv_Wire.thy ===== *)
theory Cv_Wire
  imports Codec Sha256
begin

text \<open>
  The canonical wire format of CV-sAPVSS and its hash (\<^verbatim>\<open>core/cv_sapvss.go\<close>, \<^verbatim>\<open>core/cv_sapvss_m4.go\<close>,
  \<^verbatim>\<open>core/util.go\<close>): the field writers on a \<^verbatim>\<open>bytes.Buffer\<close>, the reader \<^verbatim>\<open>cvWireReader\<close>, and the domain
  separated digests. Writers and reader are the fields of \<open>Codec\<close>; the lemmas here say so.
\<close>

section \<open>Hashing\<close>

definition cv_hashBytes :: "bytes list \<Rightarrow> bytes" where
  "cv_hashBytes parts = sha256 (concat parts)"

definition cvUpperChar :: "char \<Rightarrow> char" where
  "cvUpperChar c = (if 97 \<le> (of_char c :: nat) \<and> (of_char c :: nat) \<le> 122 then char_of (of_char c - 32 :: nat) else c)"

text \<open>The domains are constants of ASCII characters.\<close>

definition cv_domainDigest :: "string \<Rightarrow> bytes \<Rightarrow> bytes" where
  "cv_domainDigest domain digest =
     cv_hashBytes [bytes_of ''rladkr-domain'', bytes_of (map cvUpperChar domain), digest]"

section \<open>Strings\<close>

text \<open>\<^verbatim>\<open>strings.TrimSpace\<close> on ASCII strings.\<close>

definition isSpace :: "char \<Rightarrow> bool" where
  "isSpace c \<longleftrightarrow> (of_char c :: nat) = 32 \<or> 9 \<le> (of_char c :: nat) \<and> (of_char c :: nat) \<le> 13"

definition trimSpace :: "string \<Rightarrow> string" where
  "trimSpace s = rev (dropWhile isSpace (rev (dropWhile isSpace s)))"

section \<open>Writers\<close>

definition cvWriteUint32 :: "bytes \<Rightarrow> int \<Rightarrow> bytes res" where
  "cvWriteUint32 buffer v =
     (if v < 0 \<or> v > 2 ^ 32 - 1 then Err ''CV-sAPVSS canonical length exceeds uint32''
      else Ok (buffer @ put32 (word_of_int v)))"

definition cvWriteUint64 :: "bytes \<Rightarrow> 64 word \<Rightarrow> bytes" where
  "cvWriteUint64 buffer v = buffer @ put64 v"

definition cvWriteBytes :: "bytes \<Rightarrow> bytes \<Rightarrow> bytes res" where
  "cvWriteBytes buffer v = bindR (cvWriteUint32 buffer (int (length v))) (\<lambda>buffer. Ok (buffer @ v))"

text \<open>\<^verbatim>\<open>_ = cvWriteBytes(&wire, v)\<close>: on an error the buffer is as before.\<close>

definition cvWriteBytesIgnore :: "bytes \<Rightarrow> bytes \<Rightarrow> bytes" where
  "cvWriteBytesIgnore v buffer = (case cvWriteBytes buffer v of Ok b \<Rightarrow> b | _ \<Rightarrow> buffer)"

lemma cvWriteBytes_eq: "length v < 2 ^ 32 \<Longrightarrow> cvWriteBytes buffer v = Ok (buffer @ lengthPrefixed v)"
proof -
  assume v: "length v < 2 ^ 32"
  then have "\<not> (int (length v) > 2 ^ 32 - 1)" by simp
  then show ?thesis by (simp add: cvWriteBytes_def cvWriteUint32_def lengthPrefixed_def)
qed

lemma cvWriteBytesIgnore_eq [simp]: "length v < 2 ^ 32 \<Longrightarrow> cvWriteBytesIgnore v buffer = buffer @ lengthPrefixed v"
  by (simp add: cvWriteBytesIgnore_def cvWriteBytes_eq)

lemma cvWriteUint32_eq: "0 \<le> i \<Longrightarrow> i < 2 ^ 32 \<Longrightarrow> cvWriteUint32 buffer i = Ok (buffer @ putInt32 i)"
  by (simp add: cvWriteUint32_def putInt32_def)

section \<open>Reader\<close>

text \<open>A \<^verbatim>\<open>cvWireReader\<close> is the unread rest of the wire.\<close>

definition cvReader_uint32 :: "bytes \<Rightarrow> (int \<times> bytes) res" where
  "cvReader_uint32 r = bindR (readFull 4 r) (\<lambda>(encoded, r). Ok (uint (get32 encoded), r))"

definition cvReader_uint64 :: "bytes \<Rightarrow> (64 word \<times> bytes) res" where
  "cvReader_uint64 r = bindR (readFull 8 r) (\<lambda>(encoded, r). Ok (get64 encoded, r))"

definition cvReader_bytes :: "int \<Rightarrow> bytes \<Rightarrow> (bytes \<times> bytes) res" where
  "cvReader_bytes maximum r =
     bindR (cvReader_uint32 r) (\<lambda>(len, r).
       if len < 0 \<or> len > maximum \<or> len > int (length r) then Err ''invalid CV-sAPVSS canonical byte length''
       else readFull (nat len) r)"

lemma cvReader_fields: "cvReader_uint32 = readInt32" "cvReader_uint64 = readUint64"
  by (simp_all add: fun_eq_iff cvReader_uint32_def readInt32_def cvReader_uint64_def readUint64_def)

lemma cvReader_bytes_Ok: "cvReader_bytes maximum r = Ok x \<longleftrightarrow> readLengthPrefixed maximum r = Ok x"
  by (simp add: cvReader_bytes_def cvReader_uint32_def readLengthPrefixed_def bindR_assoc split_beta Let_def)

interpretation cv_bytes: prefix_codec lengthPrefixed "cvReader_bytes maximum"
    "\<lambda>v. int (length v) \<le> maximum \<and> length v < 2 ^ 32" for maximum
  by unfold_locales (simp_all add: cvReader_bytes_Ok lp.get_iff)

interpretation cv_u32: prefix_codec putInt32 cvReader_uint32 "\<lambda>i. 0 \<le> i \<and> i < 2 ^ 32"
  unfolding cvReader_fields by (rule i32.prefix_codec_axioms)

interpretation cv_u64: prefix_codec put64 cvReader_uint64 "\<lambda>_. True"
  unfolding cvReader_fields by (rule u64.prefix_codec_axioms)

lemmas cv_get_put = cv_bytes.get_put cv_u32.get_put cv_u64.get_put
lemmas cv_get_iff = cv_bytes.get_iff cv_u32.get_iff cv_u64.get_iff

text \<open>A field that starts two equal strings is the same field.\<close>

lemma lengthPrefixed_append_eq:
  assumes "length a < 2 ^ 32" "length b < 2 ^ 32"
  shows "lengthPrefixed a @ x = lengthPrefixed b @ y \<longleftrightarrow> a = b \<and> x = y"
  using lp.put_prefix_free [of a "2 ^ 32" b x y] assms by auto

lemma put64_append_eq: "put64 a @ x = put64 b @ y \<longleftrightarrow> a = b \<and> x = y"
  using append_eq_same_length [of "put64 a" "put64 b" x y] by auto

end
