(* ===== verification/Cv_Router.thy ===== *)
theory Cv_Router
  imports Codec Go_Reactor
begin

text \<open>
  The message router of the CV-sAPVSS protocol (\<^verbatim>\<open>core/cv_sapvss_router.go\<close>): the network envelope that
  binds a payload to a session and an epoch, the roster rules of every message tag, and the router
  itself, one reading goroutine per local node with a bounded delivery queue. Goroutines and consumers
  interleave freely; \<open>routerRun\<close> runs one interleaving.
\<close>

section \<open>Tags\<close>

abbreviation cvTagComponentInit :: string where
  "cvTagComponentInit \<equiv> ''CV_COMPONENT_INIT''"

abbreviation cvTagComponentAck :: string where
  "cvTagComponentAck \<equiv> ''CV_COMPONENT_ACK''"

abbreviation cvTagComponentCert :: string where
  "cvTagComponentCert \<equiv> ''CV_COMPONENT_CERT''"

abbreviation cvTagComponentGet :: string where
  "cvTagComponentGet \<equiv> ''CV_COMPONENT_GET''"

abbreviation cvTagComponentLeaf :: string where
  "cvTagComponentLeaf \<equiv> ''CV_COMPONENT_LEAF''"

abbreviation cvTagComponentReady :: string where
  "cvTagComponentReady \<equiv> ''CV_COMPONENT_READY''"

abbreviation cvTagEligibilityShare :: string where
  "cvTagEligibilityShare \<equiv> ''CV_ELIGIBILITY_SHARE''"

abbreviation cvTagAggregateManifest :: string where
  "cvTagAggregateManifest \<equiv> ''CV_AGG_MANIFEST''"

abbreviation cvTagARCShare :: string where
  "cvTagARCShare \<equiv> ''CV_ARC_SHARE''"

abbreviation cvTagARCCertificate :: string where
  "cvTagARCCertificate \<equiv> ''CV_ARC_CERTIFICATE''"

abbreviation cvTagRecoverGet :: string where
  "cvTagRecoverGet \<equiv> ''CV_RECOVER_GET''"

abbreviation cvTagRecoverShard :: string where
  "cvTagRecoverShard \<equiv> ''CV_RECOVER_SHARD''"

abbreviation cvTagRecoverDone :: string where
  "cvTagRecoverDone \<equiv> ''CV_RECOVER_DONE''"

abbreviation cvTagReceipt :: string where
  "cvTagReceipt \<equiv> ''CV_RECEIPT''"

abbreviation cvTagReceiptDone :: string where
  "cvTagReceiptDone \<equiv> ''CV_RECEIPT_DONE''"

abbreviation apvssTagLaneOffer :: string where
  "apvssTagLaneOffer \<equiv> ''APVSS_LANE_OFFER''"

abbreviation apvssTagLaneACK :: string where
  "apvssTagLaneACK \<equiv> ''APVSS_LANE_ACK''"

abbreviation cvTagHandoffScalar :: string where
  "cvTagHandoffScalar \<equiv> ''CV_V2_HANDOFF''"

abbreviation cvTagAPDBStoreScalar :: string where
  "cvTagAPDBStoreScalar \<equiv> ''CV_V2_APDB_STORE''"

abbreviation cvTagAPDBStoredShareScalar :: string where
  "cvTagAPDBStoredShareScalar \<equiv> ''CV_V2_APDB_STORED_SHARE''"

abbreviation cvTagAggregateAPDBStoreScalar :: string where
  "cvTagAggregateAPDBStoreScalar \<equiv> ''CV_V2_ARC__STORE''"

abbreviation cvTagAggregateARCShareScalar :: string where
  "cvTagAggregateARCShareScalar \<equiv> ''CV_V2_ARC__STORED_SHARE''"

abbreviation cvTagAPDBRecoverGetScalar :: string where
  "cvTagAPDBRecoverGetScalar \<equiv> ''CV_V2_APDB_RECOVER_GET''"

abbreviation cvTagAPDBRecoverStoreScalar :: string where
  "cvTagAPDBRecoverStoreScalar \<equiv> ''CV_V2_APDB_RECOVER_STORE''"

abbreviation cvTagAPDBRecoverPayloadScalar :: string where
  "cvTagAPDBRecoverPayloadScalar \<equiv> ''CV_V2_APDB_RECOVER_PAYLOAD''"

abbreviation cvTagAggregateRecoverGetScalar :: string where
  "cvTagAggregateRecoverGetScalar \<equiv> ''CV_V2_AGG_RECOVER_GET''"

abbreviation cvTagAggregateRecoverCancelScalar :: string where
  "cvTagAggregateRecoverCancelScalar \<equiv> ''CV_V2_AGG_RECOVER_CANCEL''"

abbreviation cvTagAggregateRecoverStoreScalar :: string where
  "cvTagAggregateRecoverStoreScalar \<equiv> ''CV_V2_AGG_RECOVER_STORE''"

abbreviation cvTagAggregatePayloadGetScalar :: string where
  "cvTagAggregatePayloadGetScalar \<equiv> ''CV_V2_AGG_PAYLOAD_GET''"

abbreviation cvTagAggregatePayloadScalar :: string where
  "cvTagAggregatePayloadScalar \<equiv> ''CV_V2_AGG_PAYLOAD''"

abbreviation cvTagCoinShareScalar :: string where
  "cvTagCoinShareScalar \<equiv> ''CV_V2_COIN_SHARE''"

abbreviation cvTagPoolOfferScalar :: string where
  "cvTagPoolOfferScalar \<equiv> ''CV_V2_POOL_OFFER''"

abbreviation cvTagPoolCertShareScalar :: string where
  "cvTagPoolCertShareScalar \<equiv> ''CV_V2_POOL_CERT_SHARE''"

abbreviation cvTagPoolCertScalar :: string where
  "cvTagPoolCertScalar \<equiv> ''CV_V2_POOL_CERT''"

abbreviation cvTagValidationRequestScalar :: string where
  "cvTagValidationRequestScalar \<equiv> ''CV_V2_VALIDATION_REQUEST''"

abbreviation cvTagValidationSignatureScalar :: string where
  "cvTagValidationSignatureScalar \<equiv> ''CV_V2_VALIDATION_SIGNATURE''"

abbreviation cvTagValidationResultScalar :: string where
  "cvTagValidationResultScalar \<equiv> ''CV_V2_VALIDATION_RESULT''"

abbreviation cvTagDecisionShareScalar :: string where
  "cvTagDecisionShareScalar \<equiv> ''CV_V2_DECISION_SHARE''"

abbreviation cvTagAggregateShareScalar :: string where
  "cvTagAggregateShareScalar \<equiv> ''CV_V2_AGGREGATE_SHARE''"

abbreviation cvTagLaneOfferScalar :: string where
  "cvTagLaneOfferScalar \<equiv> ''CV_V2_LANE_OFFER''"

abbreviation cvTagLaneACKScalar :: string where
  "cvTagLaneACKScalar \<equiv> ''CV_V2_LANE_ACK''"

abbreviation cvTagComponentRefScalar :: string where
  "cvTagComponentRefScalar \<equiv> ''CV_V2_COMPONENT_REF''"

abbreviation cvTagCertifiedCandidateScalar :: string where
  "cvTagCertifiedCandidateScalar \<equiv> ''CV_V2_CERTIFIED_CANDIDATE''"

abbreviation cvTagCertifiedCandidateACKScalar :: string where
  "cvTagCertifiedCandidateACKScalar \<equiv> ''CV_V2_CERTIFIED_CANDIDATE_ACK''"

abbreviation cvTagCertifiedCandidateACKProbeScalar :: string where
  "cvTagCertifiedCandidateACKProbeScalar \<equiv> ''CV_V2_CERTIFIED_CANDIDATE_ACK_PROBE''"

abbreviation cvTagCertifiedCandidateAnnounceScalar :: string where
  "cvTagCertifiedCandidateAnnounceScalar \<equiv> ''CV_V2_CERTIFIED_CANDIDATE_ANNOUNCE''"

abbreviation cvTagCertifiedCandidateFetchScalar :: string where
  "cvTagCertifiedCandidateFetchScalar \<equiv> ''CV_V2_CERTIFIED_CANDIDATE_FETCH''"

abbreviation cvTagCertifiedCandidateResponseScalar :: string where
  "cvTagCertifiedCandidateResponseScalar \<equiv> ''CV_V2_CERTIFIED_CANDIDATE_RESPONSE''"

definition cvAllowedNetworkTag :: "string \<Rightarrow> bool" where
  "cvAllowedNetworkTag tag \<longleftrightarrow> tag \<in> set [
      cvTagComponentInit, cvTagComponentAck, cvTagComponentCert, cvTagComponentGet, cvTagComponentLeaf,
      cvTagComponentReady, cvTagEligibilityShare, cvTagAggregateManifest, cvTagARCShare, cvTagARCCertificate,
      cvTagRecoverGet, cvTagRecoverShard, cvTagRecoverDone, cvTagReceipt, cvTagReceiptDone,
      apvssTagLaneOffer, apvssTagLaneACK, cvTagHandoffScalar, cvTagAPDBStoreScalar,
      cvTagAPDBStoredShareScalar, cvTagAggregateAPDBStoreScalar, cvTagAggregateARCShareScalar,
      cvTagAPDBRecoverGetScalar, cvTagAPDBRecoverStoreScalar, cvTagAPDBRecoverPayloadScalar,
      cvTagAggregateRecoverGetScalar, cvTagAggregateRecoverCancelScalar, cvTagAggregateRecoverStoreScalar,
      cvTagAggregatePayloadGetScalar, cvTagAggregatePayloadScalar, cvTagCoinShareScalar,
      cvTagPoolOfferScalar, cvTagPoolCertShareScalar, cvTagPoolCertScalar, cvTagValidationRequestScalar,
      cvTagValidationSignatureScalar, cvTagValidationResultScalar, cvTagDecisionShareScalar,
      cvTagAggregateShareScalar, cvTagLaneOfferScalar, cvTagLaneACKScalar, cvTagComponentRefScalar,
      cvTagCertifiedCandidateScalar, cvTagCertifiedCandidateACKScalar, cvTagCertifiedCandidateACKProbeScalar,
      cvTagCertifiedCandidateAnnounceScalar, cvTagCertifiedCandidateFetchScalar,
      cvTagCertifiedCandidateResponseScalar]"

section \<open>The envelope\<close>

definition cvNetworkEnvelopeVersion :: byte where
  "cvNetworkEnvelopeVersion = 1"

definition cvMaxNetworkEnvelopeSIDBytes :: int where
  "cvMaxNetworkEnvelopeSIDBytes = 1048576"

definition cvMaxNetworkPayloadBytes :: int where
  "cvMaxNetworkPayloadBytes = 64 * 1048576 + 1048576"

definition cvNetworkEnvelopeFixedBytes :: int where
  "cvNetworkEnvelopeFixedBytes = 1 + 4 + 8 + 4"

text \<open>\<^verbatim>\<open>w[i:j]\<close> for bounds inside \<open>w\<close>.\<close>

definition goSlice :: "bytes \<Rightarrow> int \<Rightarrow> int \<Rightarrow> bytes" where
  "goSlice w i j = take (nat (j - i)) (drop (nat i) w)"

definition cvEncodeNetworkEnvelope :: "string \<Rightarrow> int \<Rightarrow> bytes \<Rightarrow> bytes res" where
  "cvEncodeNetworkEnvelope sid epoch payload =
     (if sid = [] \<or> int (length sid) > cvMaxNetworkEnvelopeSIDBytes \<or> epoch < 0
      then Err ''invalid CV-sAPVSS network envelope context''
      else if int (length payload) > cvMaxNetworkPayloadBytes then Err ''CV-sAPVSS network payload exceeds limit''
      else Ok ([cvNetworkEnvelopeVersion] @ put32 (word_of_nat (length sid)) @ bytes_of sid @
               put64 (word_of_int epoch) @ put32 (word_of_nat (length payload)) @ payload))"

definition cvDecodeNetworkEnvelope :: "bytes \<Rightarrow> string \<Rightarrow> int \<Rightarrow> bytes res" where
  "cvDecodeNetworkEnvelope wire expectedSID expectedEpoch =
    (let n = int (length expectedSID); len = int (length wire) in
     if expectedSID = [] \<or> n > cvMaxNetworkEnvelopeSIDBytes \<or> expectedEpoch < 0
     then Err ''invalid expected CV-sAPVSS network context''
     else if len < cvNetworkEnvelopeFixedBytes + n \<or> len > cvNetworkEnvelopeFixedBytes + n + cvMaxNetworkPayloadBytes \<or>
        wire ! 0 \<noteq> cvNetworkEnvelopeVersion
     then Err ''invalid CV-sAPVSS network envelope framing''
     else
       let sidLength = uint (get32 (goSlice wire 1 5)) in
       if sidLength \<noteq> n \<or> sidLength > len - 5 \<or> goSlice wire 5 (5 + sidLength) \<noteq> bytes_of expectedSID
       then Err ''CV-sAPVSS network envelope SID mismatch''
       else
         let offset = 5 + sidLength in
         if len - offset < 12 \<or> get64 (goSlice wire offset (offset + 8)) \<noteq> word_of_int expectedEpoch
         then Err ''CV-sAPVSS network envelope epoch mismatch''
         else
           let payloadLength = uint (get32 (goSlice wire (offset + 8) (offset + 12))) in
           if payloadLength > cvMaxNetworkPayloadBytes \<or> payloadLength \<noteq> len - (offset + 12)
           then Err ''invalid CV-sAPVSS network payload length''
           else Ok (drop (nat (offset + 12)) wire))"

section \<open>Routing\<close>

record Message =
  msg_From :: int
  msg_To :: int
  msg_Tag :: string
  msg_Body :: bytes
  msg_WireBytes :: int

text \<open>\<^verbatim>\<open>cvNetworkEnvelopeOpener\<close>: \<open>open\<close> may change the state of its authenticator.\<close>

type_synonym 'a opener = "'a \<Rightarrow> int \<Rightarrow> int \<Rightarrow> string \<Rightarrow> bytes \<Rightarrow> bytes res \<times> 'a"

record cvSAPVSSRouter =
  rt_sid :: string
  rt_epoch :: int
  rt_oldNodes :: "int list"
  rt_newNodes :: "int list"
  rt_locals :: "int list"
  rt_capacity :: int

definition tcpMessageFrameFixedBytes :: int where
  "tcpMessageFrameFixedBytes = 1 + 4 + 4 + 4 + 4"

definition rosterAllows :: "cvSAPVSSRouter \<Rightarrow> Message \<Rightarrow> bool" where
  "rosterAllows r msg =
    (let old = (\<lambda>i. i \<in> set (rt_oldNodes r)); new = (\<lambda>i. i \<in> set (rt_newNodes r)); tag = msg_Tag msg in
     if tag \<in> set [apvssTagLaneOffer, cvTagLaneOfferScalar, cvTagAggregateRecoverStoreScalar, cvTagAggregatePayloadScalar]
     then old (msg_From msg) \<and> new (msg_To msg)
     else if tag = cvTagHandoffScalar then old (msg_From msg) \<and> (old (msg_To msg) \<or> new (msg_To msg))
     else if tag \<in> set [apvssTagLaneACK, cvTagLaneACKScalar, cvTagAggregateRecoverGetScalar,
        cvTagAggregateRecoverCancelScalar, cvTagAggregatePayloadGetScalar]
     then new (msg_From msg)
     else if tag = cvTagAggregateShareScalar then new (msg_From msg) \<and> new (msg_To msg)
     else old (msg_From msg) \<and> old (msg_To msg))"

definition openWith :: "'a opener option \<Rightarrow> 'a \<Rightarrow> Message \<Rightarrow> bytes res \<times> 'a" where
  "openWith auth a msg =
    (case auth of
       None \<Rightarrow> (Ok (msg_Body msg), a)
     | Some opens \<Rightarrow> opens a (msg_From msg) (msg_To msg) (msg_Tag msg) (msg_Body msg))"

definition route :: "'a opener option \<Rightarrow> cvSAPVSSRouter \<Rightarrow> int \<Rightarrow> 'a \<Rightarrow> Message \<Rightarrow> Message option \<times> 'a" where
  "route auth r node a msg =
     (if \<not> cvAllowedNetworkTag (msg_Tag msg) \<or> msg_To msg \<noteq> node then (None, a)
      else if \<not> rosterAllows r msg then (None, a)
      else case openWith auth a msg of (res, a') \<Rightarrow>
        (case res of
           Ok envelope \<Rightarrow>
             (case cvDecodeNetworkEnvelope envelope (rt_sid r) (rt_epoch r) of
                Ok payload \<Rightarrow>
                  (Some \<lparr>msg_From = msg_From msg, msg_To = msg_To msg, msg_Tag = msg_Tag msg, msg_Body = payload,
                     msg_WireBytes = tcpMessageFrameFixedBytes + int (length (msg_Tag msg)) + int (length (msg_Body msg))\<rparr>, a')
              | _ \<Rightarrow> (None, a'))
         | _ \<Rightarrow> (None, a')))"

section \<open>The constructor\<close>

fun rosterSet :: "int list \<Rightarrow> int list \<Rightarrow> int list res" where
  "rosterSet seen [] = Ok seen"
| "rosterSet seen (node # nodes) =
     (if node < 0 then Err ''invalid node ID''
      else if node \<in> set seen then Err ''duplicate node ID''
      else rosterSet (seen @ [node]) nodes)"

text \<open>\<open>recvChan\<close> is \<^verbatim>\<open>transport.RecvChan\<close>; its value tells whether the channel is not \<^verbatim>\<open>nil\<close>.\<close>

fun openInboxes :: "(int \<Rightarrow> bool res) \<Rightarrow> int list \<Rightarrow> int list \<Rightarrow> int list \<Rightarrow> int list \<Rightarrow> int list res" where
  "openInboxes recvChan old new inboxes [] = Ok inboxes"
| "openInboxes recvChan old new inboxes (node # nodes) =
     (if node \<notin> set old \<and> node \<notin> set new then Err ''local APVSS node is outside both rosters''
      else if node \<in> set inboxes then Err ''duplicate local CV-sAPVSS node ID''
      else bindR (reErr ''open CV-sAPVSS inbox'' (recvChan node)) (\<lambda>present.
        if \<not> present then Err ''nil CV-sAPVSS inbox''
        else openInboxes recvChan old new (inboxes @ [node]) nodes))"

definition newCVSAPVSSRouterWithReceivers :: "bool \<Rightarrow> bool \<Rightarrow> (int \<Rightarrow> bool res) \<Rightarrow> string \<Rightarrow> int \<Rightarrow> int list \<Rightarrow> int list \<Rightarrow>
    int list \<Rightarrow> int \<Rightarrow> cvSAPVSSRouter res" where
  "newCVSAPVSSRouterWithReceivers hasCtx hasTransport recvChan sid epoch oldNodes newNodes localNodes queueCapacity =
     (if \<not> hasCtx \<or> \<not> hasTransport \<or> sid = [] \<or> int (length sid) > cvMaxNetworkEnvelopeSIDBytes \<or> epoch < 0 \<or>
        queueCapacity \<le> 0 \<or> oldNodes = [] \<or> localNodes = []
      then Err ''invalid CV-sAPVSS router configuration''
      else
        bindR (rosterSet [] oldNodes) (\<lambda>oldSet.
        bindR (rosterSet [] newNodes) (\<lambda>newSet.
        bindR (openInboxes recvChan oldSet newSet [] localNodes) (\<lambda>inboxes.
          Ok \<lparr>rt_sid = sid, rt_epoch = epoch, rt_oldNodes = oldSet, rt_newNodes = newSet, rt_locals = inboxes,
              rt_capacity = queueCapacity\<rparr>))))"

definition newCVSAPVSSRouter :: "bool \<Rightarrow> bool \<Rightarrow> (int \<Rightarrow> bool res) \<Rightarrow> string \<Rightarrow> int \<Rightarrow> int list \<Rightarrow> int list \<Rightarrow> int \<Rightarrow>
    cvSAPVSSRouter res" where
  "newCVSAPVSSRouter hasCtx hasTransport recvChan sid epoch oldNodes localOldNodes queueCapacity =
     newCVSAPVSSRouterWithReceivers hasCtx hasTransport recvChan sid epoch oldNodes [] localOldNodes queueCapacity"

section \<open>The running router\<close>

text \<open>\<open>rs_queue\<close> are the buffered channels, \<open>rs_running\<close> the nodes whose \<^verbatim>\<open>readLoop\<close> has not returned,
  \<open>rs_failed\<close> is \<^verbatim>\<open>failOnce\<close>. \<open>Inbox\<close> is a message of the transport read by a node's loop, \<open>LoopDone\<close> its
  \<^verbatim>\<open>ctx.Done()\<close> case, \<open>CancelRouter\<close> the end of the router's context (\<^verbatim>\<open>Close\<close> or the caller), \<open>Take\<close> a receive
  on the channel that \<^verbatim>\<open>Receive\<close> returned, \<open>TakeError\<close> one on \<^verbatim>\<open>Errors()\<close>.\<close>

record 'a routerState =
  rs_queue :: "int \<Rightarrow> Message list"
  rs_running :: "int list"
  rs_errors :: "string list"
  rs_failed :: bool
  rs_cancelled :: bool
  rs_auth :: 'a

datatype routerEvent = Inbox int Message | InboxClosed int | LoopDone int | CancelRouter | Take int | TakeError

datatype routerOut = Queued int Message | Took int Message | TookError string

definition routerStart :: "cvSAPVSSRouter \<Rightarrow> 'a \<Rightarrow> 'a routerState" where
  "routerStart r a = \<lparr>rs_queue = (\<lambda>_. []), rs_running = rt_locals r, rs_errors = [], rs_failed = False,
     rs_cancelled = False, rs_auth = a\<rparr>"

definition Receive :: "cvSAPVSSRouter \<Rightarrow> int \<Rightarrow> int res" where
  "Receive r node = (if node \<in> set (rt_locals r) then Ok node else Err ''CV-sAPVSS router has no local node'')"

definition routerFail :: "string \<Rightarrow> 'a routerState \<Rightarrow> 'a routerState" where
  "routerFail err s =
     (if rs_failed s then s else s\<lparr>rs_errors := rs_errors s @ [err], rs_failed := True, rs_cancelled := True\<rparr>)"

definition loopReturn :: "int \<Rightarrow> 'a routerState \<Rightarrow> 'a routerState" where
  "loopReturn node s = s\<lparr>rs_running := removeAll node (rs_running s)\<rparr>"

definition readLoopMessage :: "'a opener option \<Rightarrow> cvSAPVSSRouter \<Rightarrow> 'a routerState \<Rightarrow> int \<Rightarrow> Message \<Rightarrow>
    'a routerState \<times> routerOut list" where
  "readLoopMessage auth r s node msg =
    (case route auth r node (rs_auth s) msg of (routed, a) \<Rightarrow>
       let s = s\<lparr>rs_auth := a\<rparr> in
       case routed of
         None \<Rightarrow> (s, [])
       | Some m \<Rightarrow>
           if rs_cancelled s then (loopReturn node s, [])
           else if int (length (rs_queue s node)) < rt_capacity r
           then (s\<lparr>rs_queue := (rs_queue s)(node := rs_queue s node @ [m])\<rparr>, [Queued node m])
           else (loopReturn node (routerFail ''CV-sAPVSS delivery queue is full'' s), []))"

definition routerEventStep :: "'a opener option \<Rightarrow> cvSAPVSSRouter \<Rightarrow> 'a routerState \<Rightarrow> routerEvent \<Rightarrow>
    'a routerState \<times> routerOut list" where
  "routerEventStep auth r s e =
    (case e of
       Inbox node msg \<Rightarrow> if node \<in> set (rs_running s) then readLoopMessage auth r s node msg else (s, [])
     | InboxClosed node \<Rightarrow>
         if node \<in> set (rs_running s)
         then (loopReturn node (if rs_cancelled s then s else routerFail ''CV-sAPVSS transport inbox closed'' s), [])
         else (s, [])
     | LoopDone node \<Rightarrow> if node \<in> set (rs_running s) \<and> rs_cancelled s then (loopReturn node s, []) else (s, [])
     | CancelRouter \<Rightarrow> (s\<lparr>rs_cancelled := True\<rparr>, [])
     | Take node \<Rightarrow>
         (case rs_queue s node of
            [] \<Rightarrow> (s, [])
          | m # ms \<Rightarrow> (s\<lparr>rs_queue := (rs_queue s)(node := ms)\<rparr>, [Took node m]))
     | TakeError \<Rightarrow>
         (case rs_errors s of [] \<Rightarrow> (s, []) | err # errs \<Rightarrow> (s\<lparr>rs_errors := errs\<rparr>, [TookError err])))"

definition routerHandle :: "'a opener option \<Rightarrow> cvSAPVSSRouter \<Rightarrow> 'a routerState \<Rightarrow> routerEvent \<Rightarrow>
    ('a routerState, routerOut, unit) step" where
  "routerHandle auth r s e = (case routerEventStep auth r s e of (s', out) \<Rightarrow> Continue s' out)"

definition routerRun :: "'a opener option \<Rightarrow> cvSAPVSSRouter \<Rightarrow> 'a \<Rightarrow> routerEvent list \<Rightarrow> ('a routerState, routerOut, unit) step" where
  "routerRun auth r a es = runLoop (routerHandle auth r) (routerStart r a) es"

section \<open>Codec\<close>

lemma take_split: "k \<le> length w \<Longrightarrow> \<exists>a b. w = a @ b \<and> length a = k"
  by (metis append_take_drop_id length_take min.absorb2)

lemma envelope_split:
  assumes "int (length w) \<ge> cvNetworkEnvelopeFixedBytes + int n"
  shows "\<exists>v l s e k p. w = [v] @ l @ s @ e @ k @ p \<and> length l = 4 \<and> length s = n \<and> length e = 8 \<and> length k = 4"
proof -
  have "17 + n \<le> length w" using assms by (simp add: cvNetworkEnvelopeFixedBytes_def)
  then obtain a w1 where 1: "w = a @ w1" "length a = 1" using take_split [of 1 w] by auto
  obtain l w2 where 2: "w1 = l @ w2" "length l = 4" using take_split [of 4 w1] 1 \<open>17 + n \<le> length w\<close> by auto
  obtain s w3 where 3: "w2 = s @ w3" "length s = n" using take_split [of n w2] 1 2 \<open>17 + n \<le> length w\<close> by auto
  obtain e w4 where 4: "w3 = e @ w4" "length e = 8" using take_split [of 8 w3] 1 2 3 \<open>17 + n \<le> length w\<close> by auto
  obtain k p where 5: "w4 = k @ p" "length k = 4" using take_split [of 4 w4] 1 2 3 4 \<open>17 + n \<le> length w\<close> by auto
  obtain v where "a = [v]" using 1(2) by (auto simp: length_Suc_conv)
  then show ?thesis using 1 2 3 4 5 by blast
qed

lemma envelope_slices:
  fixes v :: byte and l s e k p :: bytes
  assumes "length l = 4" "length e = 8" "length k = 4"
  defines "w \<equiv> [v] @ l @ s @ e @ k @ p"
  shows "w ! 0 = v" "goSlice w 1 5 = l" "goSlice w 5 (5 + int (length s)) = s"
    "goSlice w (5 + int (length s)) (5 + int (length s) + 8) = e"
    "goSlice w (5 + int (length s) + 8) (5 + int (length s) + 12) = k"
    "drop (nat (5 + int (length s) + 12)) w = p" "int (length w) = 17 + int (length s) + int (length p)"
proof -
  have d: "drop (nat (5 + int (length s))) w = e @ k @ p" "drop (nat (5 + int (length s) + 8)) w = k @ p"
    "drop (nat (5 + int (length s) + 12)) w = p" "drop (nat 5) w = s @ e @ k @ p" "drop (nat 1) w = l @ s @ e @ k @ p"
    using assms(1-3) by (simp_all add: w_def nat_add_distrib numeral_eq_Suc)
  show "w ! 0 = v" by (simp add: w_def)
  show "goSlice w 1 5 = l" "goSlice w 5 (5 + int (length s)) = s"
    "goSlice w (5 + int (length s)) (5 + int (length s) + 8) = e"
    "goSlice w (5 + int (length s) + 8) (5 + int (length s) + 12) = k"
    unfolding goSlice_def d using assms(1-3) by simp_all
  show "drop (nat (5 + int (length s) + 12)) w = p" by (rule d)
  show "int (length w) = 17 + int (length s) + int (length p)" using assms(1-3) by (simp add: w_def)
qed

definition envelopeOk :: "string \<Rightarrow> int \<Rightarrow> bytes \<Rightarrow> bool" where
  "envelopeOk sid epoch payload \<longleftrightarrow> sid \<noteq> [] \<and> int (length sid) \<le> cvMaxNetworkEnvelopeSIDBytes \<and> 0 \<le> epoch \<and>
     int (length payload) \<le> cvMaxNetworkPayloadBytes"

lemma uint_length32: "int (length xs) \<le> 2 ^ 31 \<Longrightarrow> uint (word_of_nat (length xs) :: 32 word) = int (length xs)"
  by (rule uint_word_of_nat32) simp

lemma envelope_length:
  "int (length sid) \<le> cvMaxNetworkEnvelopeSIDBytes \<Longrightarrow> uint (word_of_nat (length sid) :: 32 word) = int (length sid)"
  "int (length p) \<le> cvMaxNetworkPayloadBytes \<Longrightarrow> uint (word_of_nat (length p) :: 32 word) = int (length p)"
  by (rule uint_length32; simp add: cvMaxNetworkEnvelopeSIDBytes_def cvMaxNetworkPayloadBytes_def)+

lemma envelope_decode_encode:
  assumes "envelopeOk sid epoch payload"
  shows "\<exists>w. cvEncodeNetworkEnvelope sid epoch payload = Ok w \<and> cvDecodeNetworkEnvelope w sid epoch = Ok payload"
proof -
  let ?w = "[cvNetworkEnvelopeVersion] @ put32 (word_of_nat (length sid)) @ bytes_of sid @
    put64 (word_of_int epoch) @ put32 (word_of_nat (length payload)) @ payload"
  have n: "uint (word_of_nat (length sid) :: 32 word) = int (length sid)"
    "uint (word_of_nat (length payload) :: 32 word) = int (length payload)"
    using assms envelope_length by (auto simp: envelopeOk_def)
  note sl = envelope_slices [where l = "put32 (word_of_nat (length sid))" and e = "put64 (word_of_int epoch)" and
      k = "put32 (word_of_nat (length payload))" and v = cvNetworkEnvelopeVersion and s = "bytes_of sid" and p = payload]
  have "cvDecodeNetworkEnvelope ?w sid epoch = Ok payload"
    using assms sl n unfolding cvDecodeNetworkEnvelope_def envelopeOk_def Let_def cvNetworkEnvelopeFixedBytes_def
    by (simp del: append_Cons append_Nil)
  moreover have "cvEncodeNetworkEnvelope sid epoch payload = Ok ?w"
    using assms by (simp add: cvEncodeNetworkEnvelope_def envelopeOk_def)
  ultimately show ?thesis by blast
qed

lemma put32_uint:
  assumes "length l = 4" "uint (get32 l) = int n"
  shows "l = put32 (word_of_nat n)"
proof -
  have "get32 l = word_of_int (int n)" using assms(2) by (metis word_of_int_uint)
  then show ?thesis using put32_get32 [OF assms(1)] by simp
qed

lemma envelope_encode_decode:
  assumes "cvDecodeNetworkEnvelope w sid epoch = Ok payload"
  shows "envelopeOk sid epoch payload \<and> cvEncodeNetworkEnvelope sid epoch payload = Ok w"
proof -
  have ctx: "sid \<noteq> []" "int (length sid) \<le> cvMaxNetworkEnvelopeSIDBytes" "0 \<le> epoch"
    "int (length w) \<ge> cvNetworkEnvelopeFixedBytes + int (length sid)"
    using assms by (auto simp: cvDecodeNetworkEnvelope_def Let_def split: if_splits)
  obtain v l s e k p where w: "w = [v] @ l @ s @ e @ k @ p" and len: "length l = 4" "length s = length sid" "length e = 8" "length k = 4"
    using envelope_split [OF ctx(4)] by blast
  note sl = envelope_slices [where l = l and e = e and k = k and v = v and s = s and p = p, OF len(1,3,4), folded w, unfolded len(2)]
  have vl: "v = cvNetworkEnvelopeVersion" "uint (get32 l) = int (length sid)"
    using assms sl(1,2) by (auto simp: cvDecodeNetworkEnvelope_def Let_def split: if_splits)
  then have rest: "s = bytes_of sid" "get64 e = word_of_int epoch" "uint (get32 k) \<le> cvMaxNetworkPayloadBytes"
    "uint (get32 k) = int (length p)" "payload = p"
    using assms sl by (auto simp: cvDecodeNetworkEnvelope_def Let_def split: if_splits)
  have "l = put32 (word_of_nat (length sid))" "k = put32 (word_of_nat (length p))"
    using put32_uint [OF len(1) vl(2)] put32_uint [OF len(4) rest(4)] by blast+
  moreover have "e = put64 (word_of_int epoch)" using put64_get64 [OF len(3)] rest(2) by simp
  ultimately show ?thesis using ctx rest vl w by (simp add: envelopeOk_def cvEncodeNetworkEnvelope_def)
qed

interpretation envelope: canonical_codec "cvEncodeNetworkEnvelope sid epoch" "\<lambda>w. cvDecodeNetworkEnvelope w sid epoch"
    "envelopeOk sid epoch" for sid epoch
  by unfold_locales (use envelope_decode_encode envelope_encode_decode in blast)+

section \<open>What is delivered\<close>

text \<open>The contract of an envelope opener: while its state is in order, what it opens is authentic. \<open>fits\<close> is
  the range of node numbers it copes with.\<close>

locale envelope_opener =
  fixes auth :: "'a opener option"
    and ok :: "'a \<Rightarrow> bool"
    and fits :: "int \<Rightarrow> bool"
    and authentic :: "int \<Rightarrow> int \<Rightarrow> string \<Rightarrow> bytes \<Rightarrow> bool"
  assumes open_ok: "fits (msg_From msg) \<Longrightarrow> fits (msg_To msg) \<Longrightarrow> ok a \<Longrightarrow> ok (snd (openWith auth a msg))"
    and open_authentic: "fits (msg_From msg) \<Longrightarrow> fits (msg_To msg) \<Longrightarrow> ok a \<Longrightarrow> fst (openWith auth a msg) = Ok e \<Longrightarrow>
      authentic (msg_From msg) (msg_To msg) (msg_Tag msg) e"

definition deliverable :: "(int \<Rightarrow> int \<Rightarrow> string \<Rightarrow> bytes \<Rightarrow> bool) \<Rightarrow> cvSAPVSSRouter \<Rightarrow> int \<Rightarrow> Message \<Rightarrow> bool" where
  "deliverable authentic r node m \<longleftrightarrow>
     cvAllowedNetworkTag (msg_Tag m) \<and> msg_To m = node \<and> rosterAllows r m \<and>
     (\<exists>e. cvEncodeNetworkEnvelope (rt_sid r) (rt_epoch r) (msg_Body m) = Ok e \<and>
        authentic (msg_From m) (msg_To m) (msg_Tag m) e)"

definition queuedTo :: "int \<Rightarrow> routerOut list \<Rightarrow> Message list" where
  "queuedTo j out = concat (map (\<lambda>x. case x of Queued i m \<Rightarrow> if i = j then [m] else [] | _ \<Rightarrow> []) out)"

definition tookFrom :: "int \<Rightarrow> routerOut list \<Rightarrow> Message list" where
  "tookFrom j out = concat (map (\<lambda>x. case x of Took i m \<Rightarrow> if i = j then [m] else [] | _ \<Rightarrow> []) out)"

definition errorsRead :: "routerOut list \<Rightarrow> string list" where
  "errorsRead out = concat (map (\<lambda>x. case x of TookError err \<Rightarrow> [err] | _ \<Rightarrow> []) out)"

lemma router_out_simps [simp]:
  "queuedTo j [] = []" "tookFrom j [] = []" "errorsRead [] = []"
  "queuedTo j (out @ out') = queuedTo j out @ queuedTo j out'"
  "tookFrom j (out @ out') = tookFrom j out @ tookFrom j out'"
  "errorsRead (out @ out') = errorsRead out @ errorsRead out'"
  "queuedTo j [Queued i m] = (if i = j then [m] else [])" "queuedTo j [Took i m] = []" "queuedTo j [TookError x] = []"
  "tookFrom j [Queued i m] = []" "tookFrom j [Took i m] = (if i = j then [m] else [])" "tookFrom j [TookError x] = []"
  "errorsRead [Queued i m] = []" "errorsRead [Took i m] = []" "errorsRead [TookError x] = [x]"
  by (simp_all add: queuedTo_def tookFrom_def errorsRead_def)

text \<open>Every channel is first in, first out and bounded; what entered one is deliverable; at most one
  error is ever reported, and then the router has stopped.\<close>

definition rosterFits :: "(int \<Rightarrow> bool) \<Rightarrow> cvSAPVSSRouter \<Rightarrow> bool" where
  "rosterFits fits r \<longleftrightarrow> (\<forall>i \<in> set (rt_oldNodes r) \<union> set (rt_newNodes r) \<union> set (rt_locals r). fits i)"

definition routerInv :: "('a \<Rightarrow> bool) \<Rightarrow> (int \<Rightarrow> bool) \<Rightarrow> (int \<Rightarrow> int \<Rightarrow> string \<Rightarrow> bytes \<Rightarrow> bool) \<Rightarrow> cvSAPVSSRouter \<Rightarrow> 'a routerState \<Rightarrow>
    routerOut list \<Rightarrow> bool" where
  "routerInv ok fits authentic r s out \<longleftrightarrow>
     rosterFits fits r \<and> ok (rs_auth s) \<and> set (rs_running s) \<subseteq> set (rt_locals r) \<and>
     (\<forall>j. tookFrom j out @ rs_queue s j = queuedTo j out \<and> int (length (rs_queue s j)) \<le> max 0 (rt_capacity r)) \<and>
     (\<forall>j m. Queued j m \<in> set out \<longrightarrow> j \<in> set (rt_locals r) \<and> deliverable authentic r j m) \<and>
     (rs_failed s \<longrightarrow> rs_cancelled s) \<and>
     length (errorsRead out @ rs_errors s) = (if rs_failed s then 1 else 0)"

lemma routerFail_inv:
  "routerInv ok fits authentic r s out \<Longrightarrow> routerInv ok fits authentic r (routerFail err s) out"
  by (auto simp: routerInv_def routerFail_def)

lemma loopReturn_inv:
  "routerInv ok fits authentic r s out \<Longrightarrow> routerInv ok fits authentic r (loopReturn j s) out"
  by (auto simp: routerInv_def loopReturn_def)

lemma routerStart_inv: "rosterFits fits r \<Longrightarrow> ok a \<Longrightarrow> routerInv ok fits authentic r (routerStart r a) []"
  by (simp add: routerInv_def routerStart_def)

context envelope_opener
begin

lemma route_fits:
  assumes "rosterFits fits r" "node \<in> set (rt_locals r)" "msg_To msg = node" "rosterAllows r msg"
  shows "fits (msg_From msg)" "fits (msg_To msg)"
  using assms by (auto simp: rosterFits_def rosterAllows_def Let_def split: if_splits)

lemma route_ok:
  "rosterFits fits r \<Longrightarrow> node \<in> set (rt_locals r) \<Longrightarrow> ok a \<Longrightarrow> ok (snd (route auth r node a msg))"
  using open_ok [of msg a] route_fits [of r node msg] by (auto simp: route_def split: prod.splits res.splits)

lemma route_sound:
  assumes "ok a" "fst (route auth r node a msg) = Some m" "rosterFits fits r" "node \<in> set (rt_locals r)"
  shows "deliverable authentic r node m"
proof -
  from assms(2) obtain e where g: "cvAllowedNetworkTag (msg_Tag msg)" "msg_To msg = node" "rosterAllows r msg"
    and e: "fst (openWith auth a msg) = Ok e"
    and p: "cvDecodeNetworkEnvelope e (rt_sid r) (rt_epoch r) = Ok (msg_Body m)"
    and m: "msg_From m = msg_From msg" "msg_To m = msg_To msg" "msg_Tag m = msg_Tag msg"
    by (auto simp: route_def split: if_splits prod.splits res.splits)
  have "rosterAllows r m" using g(3) unfolding rosterAllows_def m .
  then show ?thesis
    using g m open_authentic [OF route_fits [OF assms(3,4) g(2,3)] assms(1) e] envelope_encode_decode [OF p] by (auto simp: deliverable_def)
qed

lemma readLoop_inv:
  assumes inv: "routerInv ok fits authentic r s out" and run: "j \<in> set (rs_running s)"
  shows "routerInv ok fits authentic r (fst (readLoopMessage auth r s j msg)) (out @ snd (readLoopMessage auth r s j msg))"
proof -
  obtain routed a where rt: "route auth r j (rs_auth s) msg = (routed, a)" by fastforce
  have "ok (rs_auth s)" "rosterFits fits r" "j \<in> set (rt_locals r)" using inv run by (auto simp: routerInv_def)
  then have a: "ok a" and d: "\<And>m. routed = Some m \<Longrightarrow> deliverable authentic r j m"
    using route_ok [of r j "rs_auth s" msg] route_sound [of "rs_auth s" r j msg] rt by auto
  let ?s = "s\<lparr>rs_auth := a\<rparr>"
  have inv': "routerInv ok fits authentic r ?s out" using inv a by (simp add: routerInv_def)
  show ?thesis
  proof (cases "\<exists>m. routed = Some m \<and> \<not> rs_cancelled s \<and> int (length (rs_queue s j)) < rt_capacity r")
    case True
    then obtain m where m: "routed = Some m" by blast
    then show ?thesis
      using True rt inv' d [OF m] run by (auto simp: readLoopMessage_def Let_def routerInv_def)
  next
    case False
    then show ?thesis
      using rt inv' loopReturn_inv [OF inv'] loopReturn_inv [OF routerFail_inv [OF inv']]
      by (auto simp: readLoopMessage_def Let_def split: option.split)
  qed
qed

lemma step_inv:
  assumes inv: "routerInv ok fits authentic r s out"
  shows "routerInv ok fits authentic r (fst (routerEventStep auth r s e)) (out @ snd (routerEventStep auth r s e))"
proof (cases e)
  case (Inbox j msg)
  then show ?thesis using readLoop_inv [OF inv, of j msg] inv by (simp add: routerEventStep_def)
next
  case (InboxClosed j)
  then show ?thesis
    using inv loopReturn_inv [OF inv] loopReturn_inv [OF routerFail_inv [OF inv]] by (simp add: routerEventStep_def)
next
  case (LoopDone j)
  then show ?thesis using inv loopReturn_inv [OF inv] by (simp add: routerEventStep_def)
next
  case (Take j)
  show ?thesis
  proof (cases "rs_queue s j")
    case (Cons m ms)
    have "tookFrom j out @ m # ms = queuedTo j out" "int (length (m # ms)) \<le> max 0 (rt_capacity r)"
      using inv Cons unfolding routerInv_def by metis+
    then show ?thesis using inv Take Cons by (simp add: routerEventStep_def routerInv_def)
  qed (use inv Take in \<open>simp add: routerEventStep_def\<close>)
next
  case TakeError
  then show ?thesis using inv by (cases "rs_errors s") (simp_all add: routerEventStep_def routerInv_def)
qed (use inv in \<open>simp add: routerEventStep_def routerInv_def\<close>)

end

sublocale envelope_opener \<subseteq> rt: loop_contract "routerHandle auth r" "routerInv ok fits authentic r" "\<lambda>_ _ _. True" for r
proof unfold_locales
  fix s out e
  assume "routerInv ok fits authentic r s out"
  then show "routerInv ok fits authentic r (stepState (routerHandle auth r s e)) (out @ stepOut (routerHandle auth r s e))"
    using step_inv [of r s out e] by (cases "routerEventStep auth r s e") (simp add: routerHandle_def)
qed simp

context envelope_opener
begin

lemma router_inv:
  "rosterFits fits r \<Longrightarrow> ok a \<Longrightarrow> routerInv ok fits authentic r (stepState (routerRun auth r a es)) (stepOut (routerRun auth r a es))"
  using rt.always.run_inv [of r "routerStart r a" "[]" es] by (simp add: routerRun_def routerStart_inv)

end

lemma rosterFits_True [simp]: "rosterFits (\<lambda>_. True) r"
  by (simp add: rosterFits_def)

interpretation anyOpener: envelope_opener auth "\<lambda>_. True" "\<lambda>_. True" "\<lambda>_ _ _ _. True" for auth
  by unfold_locales simp_all

section \<open>Refinement of a filter\<close>

text \<open>Without authenticator, the messages of a node's inbox that pass the checks, in order.\<close>

definition inboxOf :: "int \<Rightarrow> routerEvent list \<Rightarrow> Message list" where
  "inboxOf j es = concat (map (\<lambda>e. case e of Inbox i m \<Rightarrow> if i = j then [m] else [] | _ \<Rightarrow> []) es)"

definition passed :: "cvSAPVSSRouter \<Rightarrow> int \<Rightarrow> Message list \<Rightarrow> Message list" where
  "passed r j msgs = List.map_filter (\<lambda>msg. fst (route None r j () msg)) msgs"

lemma passed_simps [simp]:
  "passed r j [] = []"
  "passed r j (msg # msgs) = (case fst (route None r j () msg) of None \<Rightarrow> passed r j msgs | Some m \<Rightarrow> m # passed r j msgs)"
  by (simp_all add: passed_def map_filter_simps cong: option.case_cong)

lemma inboxOf_Cons:
  "inboxOf j (e # es) = (case e of Inbox i m \<Rightarrow> if i = j then [m] else [] | _ \<Rightarrow> []) @ inboxOf j es"
  by (simp add: inboxOf_def)

lemma rs_running_simps [simp]:
  "rs_running (loopReturn j s) = removeAll j (rs_running s)" "rs_running (routerFail err s) = rs_running s"
  by (simp_all add: loopReturn_def routerFail_def)

lemma running_mono: "set (rs_running (fst (routerEventStep auth r s e))) \<subseteq> set (rs_running s)"
  by (cases e) (auto simp: routerEventStep_def readLoopMessage_def Let_def split: prod.splits option.splits list.splits)

lemma run_running_mono: "set (rs_running (stepState (runLoop (routerHandle auth r) s es))) \<subseteq> set (rs_running s)"
proof (induction es arbitrary: s)
  case (Cons e es)
  obtain s1 out1 where st: "routerEventStep auth r s e = (s1, out1)" by fastforce
  then have "routerHandle auth r s e = Continue s1 out1" by (simp add: routerHandle_def)
  then show ?case using Cons.IH [of s1] running_mono [of auth r s e] st by auto
qed simp

lemma step_queued:
  fixes s :: "unit routerState"
  assumes "j \<in> set (rs_running (fst (routerEventStep None r s e)))"
  shows "queuedTo j (snd (routerEventStep None r s e)) =
    passed r j (case e of Inbox i m \<Rightarrow> if i = j then [m] else [] | _ \<Rightarrow> [])"
proof (cases e)
  case (Inbox i msg)
  have j: "j \<in> set (rs_running s)" using assms running_mono by blast
  show ?thesis
  proof (cases "i = j")
    case True
    then show ?thesis
      using assms Inbox j
      by (cases "route None r j (rs_auth s) msg")
        (auto simp: routerEventStep_def readLoopMessage_def Let_def split: option.splits if_splits)
  next
    case False
    then show ?thesis using Inbox
      by (auto simp: routerEventStep_def readLoopMessage_def Let_def split: option.splits prod.splits)
  qed
qed (use assms in \<open>auto simp: routerEventStep_def split: list.splits\<close>)

lemma run_queued:
  fixes s :: "unit routerState"
  shows "j \<in> set (rs_running (stepState (runLoop (routerHandle None r) s es))) \<Longrightarrow>
    queuedTo j (stepOut (runLoop (routerHandle None r) s es)) = passed r j (inboxOf j es)"
proof (induction es arbitrary: s)
  case Nil
  then show ?case by (simp add: inboxOf_def)
next
  case (Cons e es)
  obtain s1 out1 where st: "routerEventStep None r s e = (s1, out1)" by fastforce
  then have h: "routerHandle None r s e = Continue s1 out1" by (simp add: routerHandle_def)
  have j: "j \<in> set (rs_running (stepState (runLoop (routerHandle None r) s1 es)))" using Cons.prems h by simp
  then have "j \<in> set (rs_running s1)" using run_running_mono by blast
  then have "queuedTo j out1 = passed r j (case e of Inbox i m \<Rightarrow> if i = j then [m] else [] | _ \<Rightarrow> [])"
    using step_queued [of j r s e] st by simp
  then show ?case using Cons.IH [OF j] h by (auto simp: inboxOf_Cons passed_def map_filter_def)
qed

section \<open>Properties\<close>

text \<open>C37. The envelope codec is canonical: under a session and an epoch the decoder accepts exactly the
  encodings of payloads within the limits, and returns the payload.\<close>

theorem envelope_canonical:
  "cvDecodeNetworkEnvelope wire sid epoch = Ok payload \<longleftrightarrow>
     sid \<noteq> [] \<and> int (length sid) \<le> cvMaxNetworkEnvelopeSIDBytes \<and> 0 \<le> epoch \<and>
     int (length payload) \<le> cvMaxNetworkPayloadBytes \<and> cvEncodeNetworkEnvelope sid epoch payload = Ok wire"
  using envelope.dec_iff [of wire sid epoch payload] by (simp add: envelopeOk_def)

text \<open>Every run of the router, with any authenticator and any interleaving of its goroutines and
  consumers: a channel delivers what was put into it in order and without loss or duplication and never
  holds more than its capacity; at most one error is ever reported, and the router's context has then
  ended.\<close>

theorem router_channels:
  "let s = stepState (routerRun auth r a es); out = stepOut (routerRun auth r a es) in
     tookFrom j out @ rs_queue s j = queuedTo j out \<and> int (length (rs_queue s j)) \<le> max 0 (rt_capacity r) \<and>
     length (errorsRead out @ rs_errors s) \<le> 1 \<and> (rs_cancelled s \<or> errorsRead out @ rs_errors s = [])"
  using anyOpener.router_inv [where auth = auth and r = r and a = a and es = es] unfolding routerInv_def Let_def by (auto split: if_splits)


definition demoRouter :: cvSAPVSSRouter where
  "demoRouter = \<lparr>rt_sid = ''s'', rt_epoch = 7, rt_oldNodes = [0, 1], rt_newNodes = [2], rt_locals = [0], rt_capacity = 2\<rparr>"

definition demoWire :: bytes where
  "demoWire = [1] @ put32 1 @ bytes_of ''s'' @ put64 7 @ put32 1 @ [42]"

definition demoMessage :: "int \<Rightarrow> Message" where
  "demoMessage i = \<lparr>msg_From = i, msg_To = 0, msg_Tag = cvTagReceipt, msg_Body = demoWire, msg_WireBytes = 0\<rparr>"


end
