(* ===== verification/Cv_Network_Auth.thy ===== *)
theory Cv_Network_Auth
  imports Cv_Wire Cv_Router "HOL-Library.AList"
begin

text \<open>
  Message authentication of the scalar protocol (\<^verbatim>\<open>core/cv_sapvss_network_auth_scalar.go\<close>): old members sign
  with BLS, receivers with Ed25519, and both directions keep a bounded cache keyed by a hash, so that a
  message is signed and verified once. The theory models \<^verbatim>\<open>seal\<close> and \<^verbatim>\<open>open\<close> with their caches and shows
  that the caches do not change what they return. The curve library and Ed25519 are parameters.
\<close>

section \<open>Libraries\<close>

record ('f, 'g, 'k) cvCrypto =
  cc_IsZero :: "'f \<Rightarrow> bool"
  cc_HashToG1 :: "bytes \<Rightarrow> bytes \<Rightarrow> 'g res"
  cc_smul :: "'f \<Rightarrow> 'g \<Rightarrow> 'g"
  cc_Bytes :: "'g \<Rightarrow> bytes"
  cc_SetBytes :: "bytes \<Rightarrow> ('g \<times> int) res"
  cc_G1OnCurve :: "'g \<Rightarrow> bool"
  cc_G1InSubGroup :: "'g \<Rightarrow> bool"
  cc_G1Infinity :: "'g \<Rightarrow> bool"
  cc_G2OnCurve :: "'k \<Rightarrow> bool"
  cc_G2InSubGroup :: "'k \<Rightarrow> bool"
  cc_G2Infinity :: "'k \<Rightarrow> bool"
  cc_PairingCheck :: "'g \<Rightarrow> 'g \<Rightarrow> 'k \<Rightarrow> bool"
  cc_edSign :: "bytes \<Rightarrow> bytes \<Rightarrow> bytes"
  cc_edVerify :: "bytes \<Rightarrow> bytes \<Rightarrow> bytes \<Rightarrow> bool"
  cc_edPublic :: "bytes \<Rightarrow> bytes"

text \<open>\<open>cc_PairingCheck s h k\<close> is the check of \<open>(s, G2)\<close> against \<open>(h, - k)\<close> without error.\<close>

definition cvValidG1 :: "('f, 'g, 'k) cvCrypto \<Rightarrow> 'g \<Rightarrow> bool \<Rightarrow> bool" where
  "cvValidG1 lib point allowInfinity \<longleftrightarrow>
     cc_G1OnCurve lib point \<and> cc_G1InSubGroup lib point \<and> (allowInfinity \<or> \<not> cc_G1Infinity lib point)"

definition cvValidG2 :: "('f, 'g, 'k) cvCrypto \<Rightarrow> 'k \<Rightarrow> bool" where
  "cvValidG2 lib point \<longleftrightarrow> cc_G2OnCurve lib point \<and> cc_G2InSubGroup lib point \<and> \<not> cc_G2Infinity lib point"

definition cvSignValidatorScalar :: "('f, 'g, 'k) cvCrypto \<Rightarrow> 'f \<Rightarrow> string \<Rightarrow> bytes \<Rightarrow> bytes res" where
  "cvSignValidatorScalar lib secret domain digest =
     (if cc_IsZero lib secret \<or> domain = [] \<or> length digest \<noteq> 32 then Err ''invalid CV V2 validator signing input''
      else bindR (reErr ''hash CV V2 validator signature'' (cc_HashToG1 lib (cv_domainDigest domain digest) (bytes_of domain)))
        (\<lambda>hashPoint. Ok (cc_Bytes lib (cc_smul lib secret hashPoint))))"

definition cvVerifyValidatorSignatureScalar :: "('f, 'g, 'k) cvCrypto \<Rightarrow> 'k \<Rightarrow> string \<Rightarrow> bytes \<Rightarrow> bytes \<Rightarrow> bool" where
  "cvVerifyValidatorSignatureScalar lib publicKey domain digest signatureWire =
     (if \<not> cvValidG2 lib publicKey \<or> domain = [] \<or> length digest \<noteq> 32 \<or> length signatureWire \<noteq> 48 then False
      else case cc_SetBytes lib signatureWire of
          Ok (signature, consumed) \<Rightarrow>
            if consumed \<noteq> int (length signatureWire) \<or> \<not> cvValidG1 lib signature False then False
            else (case cc_HashToG1 lib (cv_domainDigest domain digest) (bytes_of domain) of
                Ok hashPoint \<Rightarrow> cc_PairingCheck lib signature hashPoint publicKey
              | _ \<Rightarrow> False)
        | _ \<Rightarrow> False)"

section \<open>State\<close>

record ('f, 'k) cvValidatorKeyMaterialScalar =
  vm_memberOrder :: "int list"
  vm_publicKeys :: "'k list"
  vm_localSecrets :: "int \<rightharpoonup> 'f"
  vm_sid :: string
  vm_epoch :: "64 word"

record cvReceiverKeyMaterialScalar =
  rm_receiverOrder :: "int list"
  rm_identityPublicKeys :: "bytes list"
  rm_localIdentitySecrets :: "int \<rightharpoonup> bytes"
  rm_sid :: string
  rm_epoch :: "64 word"

record ('f, 'k) cvNetworkAuthenticatorScalar =
  na_sid :: string
  na_epoch :: "64 word"
  na_oldPublicKeys :: "int \<rightharpoonup> 'k"
  na_oldLocalSecrets :: "int \<rightharpoonup> 'f"
  na_receiverPublicKeys :: "int \<rightharpoonup> bytes"
  na_receiverLocalSecrets :: "int \<rightharpoonup> bytes"
  na_sealed :: "(bytes \<times> bytes) list"
  na_opened :: "bytes list"

fun addOldKeys :: "('f, 'g, 'k) cvCrypto \<Rightarrow> ('f, 'k) cvValidatorKeyMaterialScalar \<Rightarrow> (int \<times> 'k) list \<Rightarrow>
    ('f, 'k) cvNetworkAuthenticatorScalar \<Rightarrow> ('f, 'k) cvNetworkAuthenticatorScalar res" where
  "addOldKeys lib validators [] auth = Ok auth"
| "addOldKeys lib validators ((member, key) # rest) auth =
     (if \<not> cvValidG2 lib key then Err ''invalid CV V2 old-member network public key''
      else
        let auth = auth\<lparr>na_oldPublicKeys := (na_oldPublicKeys auth)(member \<mapsto> key)\<rparr> in
        case vm_localSecrets validators member of
          None \<Rightarrow> addOldKeys lib validators rest auth
        | Some secret \<Rightarrow>
            if cc_IsZero lib secret then Err ''invalid CV V2 local old-member network secret''
            else addOldKeys lib validators rest
              (auth\<lparr>na_oldLocalSecrets := (na_oldLocalSecrets auth)(member \<mapsto> secret)\<rparr>))"

fun addReceiverKeys :: "('f, 'g, 'k) cvCrypto \<Rightarrow> cvReceiverKeyMaterialScalar \<Rightarrow> (int \<times> bytes) list \<Rightarrow>
    ('f, 'k) cvNetworkAuthenticatorScalar \<Rightarrow> ('f, 'k) cvNetworkAuthenticatorScalar res" where
  "addReceiverKeys lib receivers [] auth = Ok auth"
| "addReceiverKeys lib receivers ((receiver, publicKey) # rest) auth =
     (if length publicKey \<noteq> 32 then Err ''invalid CV V2 receiver network public key''
      else
        let auth = auth\<lparr>na_receiverPublicKeys := (na_receiverPublicKeys auth)(receiver \<mapsto> publicKey)\<rparr> in
        case rm_localIdentitySecrets receivers receiver of
          None \<Rightarrow> addReceiverKeys lib receivers rest auth
        | Some secret \<Rightarrow>
            if length secret \<noteq> 64 \<or> cc_edPublic lib secret \<noteq> publicKey
            then Err ''invalid CV V2 local receiver network secret''
            else addReceiverKeys lib receivers rest
              (auth\<lparr>na_receiverLocalSecrets := (na_receiverLocalSecrets auth)(receiver \<mapsto> secret)\<rparr>))"

definition newCVNetworkAuthenticatorScalar :: "('f, 'g, 'k) cvCrypto \<Rightarrow> ('f, 'k) cvValidatorKeyMaterialScalar option \<Rightarrow>
    cvReceiverKeyMaterialScalar option \<Rightarrow> ('f, 'k) cvNetworkAuthenticatorScalar res" where
  "newCVNetworkAuthenticatorScalar lib validators receivers =
    (case (validators, receivers) of
       (Some v, Some rc) \<Rightarrow>
         if vm_sid v = [] \<or> vm_epoch v = 0 \<or> vm_sid v \<noteq> rm_sid rc \<or> vm_epoch v \<noteq> rm_epoch rc \<or>
            length (vm_memberOrder v) \<noteq> length (vm_publicKeys v) \<or>
            length (rm_receiverOrder rc) \<noteq> length (rm_identityPublicKeys rc)
         then Err ''invalid CV V2 network authentication material''
         else
           bindR (addOldKeys lib v (zip (vm_memberOrder v) (vm_publicKeys v))
             \<lparr>na_sid = vm_sid v, na_epoch = vm_epoch v, na_oldPublicKeys = Map.empty, na_oldLocalSecrets = Map.empty,
              na_receiverPublicKeys = Map.empty, na_receiverLocalSecrets = Map.empty, na_sealed = [], na_opened = []\<rparr>)
           (addReceiverKeys lib rc (zip (rm_receiverOrder rc) (rm_identityPublicKeys rc)))
     | _ \<Rightarrow> Err ''invalid CV V2 network authentication material'')"

section \<open>Statements\<close>

definition tcpMessageMaxTagBytes :: int where
  "tcpMessageMaxTagBytes = 4096"

definition cvScalarReceiverOriginatedTag :: "string \<Rightarrow> bool" where
  "cvScalarReceiverOriginatedTag tag \<longleftrightarrow> tag \<in> set [apvssTagLaneACK, cvTagLaneACKScalar, cvTagAggregateRecoverGetScalar,
     cvTagAggregateRecoverCancelScalar, cvTagAggregatePayloadGetScalar, cvTagAggregateShareScalar]"

abbreviation cvNetworkAuthScalarDomain :: string where
  "cvNetworkAuthScalarDomain \<equiv> ''ARL-CV-sAPVSS/v2-scalar-group/network-auth''"

abbreviation cvNetworkAuthScalarOldBLSDomain :: string where
  "cvNetworkAuthScalarOldBLSDomain \<equiv> ''ARL-CV-sAPVSS/v2-scalar-group/network-auth/old-bls''"

text \<open>The bytes under the digest.\<close>

definition authStatement :: "string \<Rightarrow> 64 word \<Rightarrow> int \<Rightarrow> int \<Rightarrow> string \<Rightarrow> bytes \<Rightarrow> bytes" where
  "authStatement sid epoch from to tag envelope =
    (let wire = cvWriteBytesIgnore (bytes_of sid) [];
         wire = cvWriteUint64 wire epoch;
         wire = cvWriteUint64 wire (word_of_int from);
         wire = cvWriteUint64 wire (word_of_int to);
         wire = cvWriteBytesIgnore (bytes_of tag) wire in
     cvWriteBytesIgnore envelope wire)"

definition cvNetworkAuthDigestScalar :: "string \<Rightarrow> 64 word \<Rightarrow> int \<Rightarrow> int \<Rightarrow> string \<Rightarrow> bytes \<Rightarrow> bytes res" where
  "cvNetworkAuthDigestScalar sid epoch from to tag envelope =
     (if sid = [] \<or> epoch = 0 \<or> from < 0 \<or> to < 0 \<or> tag = [] \<or> int (length tag) > tcpMessageMaxTagBytes \<or> envelope = []
      then Err ''invalid CV V2 network authentication statement''
      else Ok (cv_hashBytes [bytes_of cvNetworkAuthScalarDomain, authStatement sid epoch from to tag envelope]))"

section \<open>Sealing\<close>

definition cvNetworkAuthScalarCacheLimit :: nat where
  "cvNetworkAuthScalarCacheLimit = 4096"

definition sealKey :: "bytes \<Rightarrow> bytes" where
  "sealKey digest = cv_hashBytes [bytes_of (cvNetworkAuthScalarDomain @ ''/seal-cache''), digest]"

definition authWire :: "byte \<Rightarrow> bytes \<Rightarrow> bytes \<Rightarrow> bytes" where
  "authWire algorithm envelope signature =
     [2, algorithm] @ put32 (word_of_nat (length envelope)) @ envelope @ signature"

text \<open>The signature a sender makes, lines 97 to 121.\<close>

definition signEnvelope :: "('f, 'g, 'k) cvCrypto \<Rightarrow> ('f, 'k) cvNetworkAuthenticatorScalar \<Rightarrow> int \<Rightarrow> string \<Rightarrow> bytes \<Rightarrow> bytes \<Rightarrow> bytes res" where
  "signEnvelope lib a from tag digest envelope =
     (if cvScalarReceiverOriginatedTag tag then
        (case na_receiverLocalSecrets a from of
           None \<Rightarrow> Err ''CV V2 receiver has no local identity secret''
         | Some secret \<Rightarrow> Ok (authWire 2 envelope (cc_edSign lib secret digest)))
      else
        (case na_oldLocalSecrets a from of
           None \<Rightarrow> Err ''CV V2 old member has no local identity secret''
         | Some secret \<Rightarrow>
             bindR (cvSignValidatorScalar lib secret cvNetworkAuthScalarOldBLSDomain digest)
               (\<lambda>signature. Ok (authWire 1 envelope signature))))"

definition seal :: "('f, 'g, 'k) cvCrypto \<Rightarrow> ('f, 'k) cvNetworkAuthenticatorScalar \<Rightarrow> int \<Rightarrow> int \<Rightarrow> string \<Rightarrow> bytes \<Rightarrow>
    bytes res \<times> ('f, 'k) cvNetworkAuthenticatorScalar" where
  "seal lib a from to tag envelope =
     (if na_sid a = [] \<or> na_epoch a = 0 then (Err ''missing CV V2 network authenticator'', a)
      else case cvNetworkAuthDigestScalar (na_sid a) (na_epoch a) from to tag envelope of
          Ok digest \<Rightarrow>
            (case map_of (na_sealed a) (sealKey digest) of
               Some cached \<Rightarrow> (Ok cached, a)
             | None \<Rightarrow>
                (case signEnvelope lib a from tag digest envelope of
                   Ok wire \<Rightarrow>
                     (let kept = (if length (na_sealed a) \<ge> cvNetworkAuthScalarCacheLimit then [] else na_sealed a) in
                      (Ok wire, a\<lparr>na_sealed := (sealKey digest, wire) # kept\<rparr>))
                 | Err e \<Rightarrow> (Err e, a)
                 | Panic \<Rightarrow> (Panic, a)))
        | Err e \<Rightarrow> (Err e, a)
        | Panic \<Rightarrow> (Panic, a))"

section \<open>Opening\<close>

definition openKey :: "bytes \<Rightarrow> byte \<Rightarrow> bytes \<Rightarrow> bytes" where
  "openKey digest algorithm signature =
     cv_hashBytes [bytes_of (cvNetworkAuthScalarDomain @ ''/open-cache''), digest, [algorithm], signature]"

text \<open>The framing checks, lines 132 to 140.\<close>

definition splitAuth :: "bytes \<Rightarrow> (byte \<times> bytes \<times> bytes) res" where
  "splitAuth wire =
     (if length wire < 6 \<or> wire ! 0 \<noteq> 2 then Err ''missing or invalid CV V2 network authentication''
      else
        let envelopeBytes = uint (get32 (goSlice wire 2 6)) in
        if envelopeBytes \<le> 0 \<or> envelopeBytes > int (length wire) - 6
        then Err ''invalid CV V2 network authentication framing''
        else Ok (wire ! 1, goSlice wire 6 (6 + envelopeBytes), drop (nat (6 + envelopeBytes)) wire))"

text \<open>The signature check, lines 154 to 166.\<close>

definition checkAuth :: "('f, 'g, 'k) cvCrypto \<Rightarrow> ('f, 'k) cvNetworkAuthenticatorScalar \<Rightarrow> int \<Rightarrow> string \<Rightarrow> bytes \<Rightarrow> byte \<Rightarrow>
    bytes \<Rightarrow> unit res" where
  "checkAuth lib a from tag digest algorithm signature =
     (if cvScalarReceiverOriginatedTag tag then
        (case na_receiverPublicKeys a from of
           Some publicKey \<Rightarrow>
             if algorithm \<noteq> 2 \<or> length signature \<noteq> 64 \<or> \<not> cc_edVerify lib publicKey digest signature
             then Err ''invalid CV V2 receiver network signature'' else Ok ()
         | None \<Rightarrow> Err ''invalid CV V2 receiver network signature'')
      else
        (case na_oldPublicKeys a from of
           Some publicKey \<Rightarrow>
             if algorithm \<noteq> 1 \<or> \<not> cvVerifyValidatorSignatureScalar lib publicKey cvNetworkAuthScalarOldBLSDomain digest signature
             then Err ''invalid CV V2 old-member network signature'' else Ok ()
         | None \<Rightarrow> Err ''invalid CV V2 old-member network signature''))"

definition openAuth :: "('f, 'g, 'k) cvCrypto \<Rightarrow> ('f, 'k) cvNetworkAuthenticatorScalar opener" where
  "openAuth lib a from to tag wire =
    (case splitAuth wire of
       Ok (algorithm, envelope, signature) \<Rightarrow>
         (case cvNetworkAuthDigestScalar (na_sid a) (na_epoch a) from to tag envelope of
            Ok digest \<Rightarrow>
              if openKey digest algorithm signature \<in> set (na_opened a) then (Ok envelope, a)
              else
                (case checkAuth lib a from tag digest algorithm signature of
                   Ok _ \<Rightarrow>
                     (let kept = (if length (na_opened a) \<ge> cvNetworkAuthScalarCacheLimit then [] else na_opened a) in
                      (Ok envelope, a\<lparr>na_opened := openKey digest algorithm signature # kept\<rparr>))
                 | Err e \<Rightarrow> (Err e, a)
                 | Panic \<Rightarrow> (Panic, a))
          | Err e \<Rightarrow> (Err e, a)
          | Panic \<Rightarrow> (Panic, a))
     | Err e \<Rightarrow> (Err e, a)
     | Panic \<Rightarrow> (Panic, a))"

section \<open>Without caches\<close>

text \<open>The reference: verify every message, sign every message.\<close>

definition openReference :: "('f, 'g, 'k) cvCrypto \<Rightarrow> ('f, 'k) cvNetworkAuthenticatorScalar \<Rightarrow> int \<Rightarrow> int \<Rightarrow> string \<Rightarrow> bytes \<Rightarrow> bytes res" where
  "openReference lib a from to tag wire =
     bindR (splitAuth wire) (\<lambda>(algorithm, envelope, signature).
     bindR (cvNetworkAuthDigestScalar (na_sid a) (na_epoch a) from to tag envelope) (\<lambda>digest.
     bindR (checkAuth lib a from tag digest algorithm signature) (\<lambda>_. Ok envelope)))"

definition sealReference :: "('f, 'g, 'k) cvCrypto \<Rightarrow> ('f, 'k) cvNetworkAuthenticatorScalar \<Rightarrow> int \<Rightarrow> int \<Rightarrow> string \<Rightarrow> bytes \<Rightarrow> bytes res" where
  "sealReference lib a from to tag envelope =
     (if na_sid a = [] \<or> na_epoch a = 0 then Err ''missing CV V2 network authenticator''
      else bindR (cvNetworkAuthDigestScalar (na_sid a) (na_epoch a) from to tag envelope) (\<lambda>digest.
        signEnvelope lib a from tag digest envelope))"

abbreviation keysOf :: "('f, 'k) cvNetworkAuthenticatorScalar \<Rightarrow> ('f, 'k) cvNetworkAuthenticatorScalar" where
  "keysOf a \<equiv> a\<lparr>na_sealed := [], na_opened := []\<rparr>"

lemma keysOf_eq:
  assumes "keysOf a = K"
  shows "na_sid a = na_sid K" "na_epoch a = na_epoch K" "checkAuth lib a = checkAuth lib K"
    "signEnvelope lib a = signEnvelope lib K" "openReference lib a = openReference lib K"
    "sealReference lib a = sealReference lib K"
proof -
  show sid: "na_sid a = na_sid K" and ep: "na_epoch a = na_epoch K"
    unfolding assms [symmetric] by simp_all
  show ch: "checkAuth lib a = checkAuth lib K" and si: "signEnvelope lib a = signEnvelope lib K"
    unfolding assms [symmetric] by (simp_all add: fun_eq_iff checkAuth_def signEnvelope_def)
  show "openReference lib a = openReference lib K" "sealReference lib a = sealReference lib K"
    by (simp_all add: fun_eq_iff openReference_def sealReference_def sid ep ch si)
qed

text \<open>The strings that are hashed.\<close>

definition digestInput :: "('f, 'k) cvNetworkAuthenticatorScalar \<Rightarrow> int \<Rightarrow> int \<Rightarrow> string \<Rightarrow> bytes \<Rightarrow> bytes" where
  "digestInput K from to tag envelope =
     bytes_of cvNetworkAuthScalarDomain @ authStatement (na_sid K) (na_epoch K) from to tag envelope"

definition openKeyInput :: "bytes \<Rightarrow> byte \<Rightarrow> bytes \<Rightarrow> bytes" where
  "openKeyInput digest algorithm signature =
     bytes_of (cvNetworkAuthScalarDomain @ ''/open-cache'') @ digest @ [algorithm] @ signature"

definition sealKeyInput :: "bytes \<Rightarrow> bytes" where
  "sealKeyInput digest = bytes_of (cvNetworkAuthScalarDomain @ ''/seal-cache'') @ digest"

abbreviation authDigest :: "('f, 'k) cvNetworkAuthenticatorScalar \<Rightarrow> int \<Rightarrow> int \<Rightarrow> string \<Rightarrow> bytes \<Rightarrow> bytes res" where
  "authDigest K \<equiv> cvNetworkAuthDigestScalar (na_sid K) (na_epoch K)"

lemma word_of_int_inj63:
  assumes "0 \<le> i" "i \<le> max_int" "0 \<le> j" "j \<le> max_int" "(word_of_int i :: 64 word) = word_of_int j"
  shows "i = j"
proof -
  have "uint (word_of_int i :: 64 word) = i" "uint (word_of_int j :: 64 word) = j"
    using assms(1-4) by (auto intro!: uint_word_of_int64 simp: max_int_def)
  then show ?thesis using assms(5) by metis
qed

lemma cvWriteBytesIgnore_append: "cvWriteBytesIgnore v buffer = buffer @ cvWriteBytesIgnore v []"
  by (simp add: cvWriteBytesIgnore_def cvWriteBytes_def cvWriteUint32_def)

lemma authStatement_eq:
  "authStatement sid epoch from to tag envelope = cvWriteBytesIgnore (bytes_of sid) [] @ put64 epoch @
     put64 (word_of_int from) @ put64 (word_of_int to) @ cvWriteBytesIgnore (bytes_of tag) [] @ cvWriteBytesIgnore envelope []"
  unfolding authStatement_def Let_def cvWriteUint64_def
  by (subst cvWriteBytesIgnore_append, subst cvWriteBytesIgnore_append [of "bytes_of tag" "_ @ _"]) simp

lemma digest_binds:
  assumes "authDigest K from to tag envelope = Ok d" "authDigest K from' to' tag' envelope' = Ok d"
    and "from \<le> max_int" "from' \<le> max_int" "to \<le> max_int" "to' \<le> max_int"
    and "length envelope < 2 ^ 32" "length envelope' < 2 ^ 32"
    and "\<not> collision (digestInput K from to tag envelope) (digestInput K from' to' tag' envelope')"
  shows "from = from' \<and> to = to' \<and> tag = tag' \<and> envelope = envelope'"
proof -
  have g: "0 \<le> from" "0 \<le> from'" "0 \<le> to" "0 \<le> to'" "int (length tag) \<le> tcpMessageMaxTagBytes"
    "int (length tag') \<le> tcpMessageMaxTagBytes"
    and h: "sha256 (digestInput K from to tag envelope) = sha256 (digestInput K from' to' tag' envelope')"
    using assms(1,2) by (auto simp: cvNetworkAuthDigestScalar_def digestInput_def cv_hashBytes_def split: if_splits)
  have tags: "length tag < 2 ^ 32" "length tag' < 2 ^ 32" using g(5,6) by (auto simp: tcpMessageMaxTagBytes_def)
  have eq: "digestInput K from to tag envelope = digestInput K from' to' tag' envelope'"
    using h assms(9) by (simp add: collision_def)
  have "put64 (word_of_int from) @ put64 (word_of_int to) @ lengthPrefixed (bytes_of tag) @ lengthPrefixed envelope =
      put64 (word_of_int from') @ put64 (word_of_int to') @ lengthPrefixed (bytes_of tag') @ lengthPrefixed envelope'"
    using eq tags assms(7,8) by (simp add: digestInput_def authStatement_eq)
  then have "(word_of_int from :: 64 word) = word_of_int from'" "(word_of_int to :: 64 word) = word_of_int to'"
    "lengthPrefixed (bytes_of tag) @ lengthPrefixed envelope = lengthPrefixed (bytes_of tag') @ lengthPrefixed envelope'"
    by (simp_all only: put64_append_eq)
  moreover from this(3) have "bytes_of tag = bytes_of tag'" "lengthPrefixed envelope = lengthPrefixed envelope'"
    using lengthPrefixed_append_eq [of "bytes_of tag" "bytes_of tag'"] tags by simp_all
  moreover from this(2) have "envelope = envelope'"
    using lengthPrefixed_append_eq [of envelope envelope' "[]" "[]"] assms(7,8) by simp
  ultimately show ?thesis using word_of_int_inj63 g(1-4) assms(3-6) by auto
qed

lemma openKey_binds:
  assumes "openKey d alg sig = openKey d' alg' sig'" "length d = 32" "length d' = 32"
    and "\<not> collision (openKeyInput d alg sig) (openKeyInput d' alg' sig')"
  shows "d = d' \<and> alg = alg' \<and> sig = sig'"
  using assms by (simp add: openKey_def openKeyInput_def cv_hashBytes_def collision_def)

lemma authDigest_length: "authDigest K from to tag envelope = Ok d \<Longrightarrow> length d = 32"
  by (auto simp: cvNetworkAuthDigestScalar_def cv_hashBytes_def split: if_splits)

lemma splitAuth_envelope:
  assumes "splitAuth wire = Ok (algorithm, envelope, signature)"
  shows "length envelope < 2 ^ 32 \<and> wire = authWire algorithm envelope signature"
proof -
  let ?n = "uint (get32 (goSlice wire 2 6))"
  have "0 \<le> ?n" by (rule uint_ge_0)
  then have l: "6 \<le> length wire" "wire ! 0 = 2" "0 < ?n" "?n \<le> int (length wire) - 6" "algorithm = wire ! 1"
    "envelope = goSlice wire 6 (6 + ?n)" "signature = drop (nat (6 + ?n)) wire"
    using assms by (auto simp: splitAuth_def Let_def not_le order_less_le split: if_splits)
  obtain a w1 where 1: "wire = a @ w1" "length a = 2" using take_split [of 2 wire] l(1) by auto
  obtain k w2 where 2: "w1 = k @ w2" "length k = 4" using take_split [of 4 w1] 1 l(1) by auto
  have k: "goSlice wire 2 6 = k" using 1 2 by (simp add: goSlice_def)
  have "int (length wire) = 6 + int (length w2)" using 1 2 by simp
  then have "nat ?n \<le> length w2" using l(4) by linarith
  from take_split [OF this] obtain e sg where 3: "w2 = e @ sg" "length e = nat ?n" by blast
  have e: "envelope = e" "signature = sg"
    using l(3,6,7) 1 2 3 by (simp_all add: goSlice_def nat_add_distrib)
  have "length e < 2 ^ 32" using 3(2) unsigned_less [of "get32 (goSlice wire 2 6)", where ?'a = nat] by simp
  moreover have "k = put32 (word_of_nat (length e))" using put32_uint [of k "length e"] 2(2) 3(2) l(3) k by simp
  moreover have "a = [2, algorithm]" using 1 l(2,5) by (auto simp: length_Suc_conv numeral_2_eq_2)
  moreover have "wire = a @ k @ e @ sg" using 1(1) 2(1) 3(1) by (simp only: append_assoc)
  ultimately show ?thesis unfolding e authWire_def by (simp only: append_assoc simp_thms)
qed

section \<open>The caches are sound\<close>

text \<open>The signature of a message: Ed25519 under the registered key of a receiver for the tags that receivers originate, BLS under
  the registered key of an old member for the others.\<close>

definition senderSigned :: "('f, 'g, 'k) cvCrypto \<Rightarrow> ('f, 'k) cvNetworkAuthenticatorScalar \<Rightarrow> int \<Rightarrow> string \<Rightarrow> bytes \<Rightarrow> byte \<Rightarrow> bytes \<Rightarrow> bool" where
  "senderSigned lib K from tag digest algorithm signature \<longleftrightarrow>
     (if cvScalarReceiverOriginatedTag tag
      then algorithm = 2 \<and> length signature = 64 \<and>
        (\<exists>key. na_receiverPublicKeys K from = Some key \<and> cc_edVerify lib key digest signature)
      else algorithm = 1 \<and>
        (\<exists>key. na_oldPublicKeys K from = Some key \<and>
           cvVerifyValidatorSignatureScalar lib key cvNetworkAuthScalarOldBLSDomain digest signature))"

lemma checkAuth_Ok: "checkAuth lib K from tag d algorithm signature = Ok () \<longleftrightarrow> senderSigned lib K from tag d algorithm signature"
  by (auto simp: checkAuth_def senderSigned_def split: option.splits)

text \<open>\<open>verified K f t g e\<close>: the sender \<open>f\<close> signed the statement for \<open>(f, t, g, e)\<close>.\<close>

definition verified :: "('f, 'g, 'k) cvCrypto \<Rightarrow> ('f, 'k) cvNetworkAuthenticatorScalar \<Rightarrow> int \<Rightarrow> int \<Rightarrow> string \<Rightarrow> bytes \<Rightarrow> bytes \<Rightarrow>
    byte \<Rightarrow> bytes \<Rightarrow> bool" where
  "verified lib K from to tag envelope d algorithm signature \<longleftrightarrow>
     from \<le> max_int \<and> to \<le> max_int \<and> length envelope < 2 ^ 32 \<and> authDigest K from to tag envelope = Ok d \<and>
     senderSigned lib K from tag d algorithm signature"

lemma verified_alt:
  "verified lib K from to tag envelope d algorithm signature \<longleftrightarrow>
     from \<le> max_int \<and> to \<le> max_int \<and> length envelope < 2 ^ 32 \<and> authDigest K from to tag envelope = Ok d \<and>
     checkAuth lib K from tag d algorithm signature = Ok ()"
  by (simp add: verified_def checkAuth_Ok)

definition openedKey :: "('f, 'g, 'k) cvCrypto \<Rightarrow> ('f, 'k) cvNetworkAuthenticatorScalar \<Rightarrow> bytes \<Rightarrow> bool" where
  "openedKey lib K k \<longleftrightarrow> (\<exists>f t g e d alg sig. verified lib K f t g e d alg sig \<and> k = openKey d alg sig)"

definition sealedEntry :: "('f, 'g, 'k) cvCrypto \<Rightarrow> ('f, 'k) cvNetworkAuthenticatorScalar \<Rightarrow> bytes \<Rightarrow> bytes \<Rightarrow> bool" where
  "sealedEntry lib K k w \<longleftrightarrow> (\<exists>f t g e d. f \<le> max_int \<and> t \<le> max_int \<and> length e < 2 ^ 32 \<and>
     authDigest K f t g e = Ok d \<and> k = sealKey d \<and> signEnvelope lib K f g d e = Ok w)"

definition authInv :: "('f, 'g, 'k) cvCrypto \<Rightarrow> ('f, 'k) cvNetworkAuthenticatorScalar \<Rightarrow> ('f, 'k) cvNetworkAuthenticatorScalar \<Rightarrow> bool" where
  "authInv lib K a \<longleftrightarrow> keysOf a = K \<and> length (na_opened a) \<le> cvNetworkAuthScalarCacheLimit \<and>
     length (na_sealed a) \<le> cvNetworkAuthScalarCacheLimit \<and>
     (\<forall>k \<in> set (na_opened a). openedKey lib K k) \<and> (\<forall>(k, w) \<in> set (na_sealed a). sealedEntry lib K k w)"

text \<open>An accepted message that was not signed exhibits a collision with a statement that was.\<close>

definition openCollision :: "('f, 'g, 'k) cvCrypto \<Rightarrow> ('f, 'k) cvNetworkAuthenticatorScalar \<Rightarrow> int \<Rightarrow> int \<Rightarrow> string \<Rightarrow> bytes \<Rightarrow> bool" where
  "openCollision lib K from to tag envelope \<longleftrightarrow>
     (\<exists>f t g e d alg sig. verified lib K f t g e d alg sig \<and>
        (collision (digestInput K from to tag envelope) (digestInput K f t g e) \<or>
         (\<exists>d' alg' sig'. collision (openKeyInput d' alg' sig') (openKeyInput d alg sig) \<and>
            authDigest K from to tag envelope = Ok d')))"

lemma cache_hit:
  assumes inv: "authInv lib K a" and dig: "authDigest K from to tag envelope = Ok d"
    and hit: "openKey d alg sig \<in> set (na_opened a)"
    and fits: "from \<le> max_int" "to \<le> max_int" "length envelope < 2 ^ 32"
  shows "verified lib K from to tag envelope d alg sig \<or> openCollision lib K from to tag envelope"
proof -
  obtain f t g e d' alg' sig' where v: "verified lib K f t g e d' alg' sig'"
    and k: "openKey d alg sig = openKey d' alg' sig'"
    using inv hit unfolding authInv_def openedKey_def by blast
  have d': "authDigest K f t g e = Ok d'" "f \<le> max_int" "t \<le> max_int" "length e < 2 ^ 32"
    using v by (simp_all add: verified_alt)
  show ?thesis
  proof (cases "openCollision lib K from to tag envelope")
    case False
    then have nc: "\<not> collision (digestInput K from to tag envelope) (digestInput K f t g e)"
      "\<not> collision (openKeyInput d alg sig) (openKeyInput d' alg' sig')"
      using v dig unfolding openCollision_def by blast+
    have eq: "d = d' \<and> alg = alg' \<and> sig = sig'"
      by (rule openKey_binds [OF k authDigest_length [OF dig] authDigest_length [OF d'(1)] nc(2)])
    then have dig': "authDigest K from to tag envelope = Ok d'" using dig by simp
    have "from = f \<and> to = t \<and> tag = g \<and> envelope = e"
      by (rule digest_binds [OF dig' d'(1) fits(1) d'(2) fits(2) d'(3) fits(3) d'(4) nc(1)])
    then show ?thesis using v eq by simp
  qed simp
qed

lemma openAuth_cases:
  assumes inv: "authInv lib K a" and fits: "from \<le> max_int" "to \<le> max_int"
  obtains (same) "fst (openAuth lib a from to tag wire) = openReference lib K from to tag wire"
    "snd (openAuth lib a from to tag wire) = a"
  | (stored) alg envelope sig d where "fst (openAuth lib a from to tag wire) = Ok envelope"
    "openReference lib K from to tag wire = Ok envelope" "verified lib K from to tag envelope d alg sig"
    "snd (openAuth lib a from to tag wire) = a\<lparr>na_opened := openKey d alg sig #
       (if length (na_opened a) \<ge> cvNetworkAuthScalarCacheLimit then [] else na_opened a)\<rparr>"
  | (collided) envelope where "fst (openAuth lib a from to tag wire) = Ok envelope"
    "snd (openAuth lib a from to tag wire) = a" "openCollision lib K from to tag envelope"
    "\<exists>alg sig. splitAuth wire = Ok (alg, envelope, sig)"
proof -
  have K: "keysOf a = K" using inv by (simp add: authInv_def)
  note keys = keysOf_eq [OF K]
  consider (bad) "\<And>alg envelope sig. splitAuth wire \<noteq> Ok (alg, envelope, sig)"
    | (nodig) alg envelope sig where "splitAuth wire = Ok (alg, envelope, sig)"
      "\<And>d. authDigest K from to tag envelope \<noteq> Ok d"
    | (ok) alg envelope sig d where "splitAuth wire = Ok (alg, envelope, sig)" "authDigest K from to tag envelope = Ok d"
    by fast
  then show thesis
  proof cases
    case bad
    then show ?thesis
      by (intro same; cases "splitAuth wire") (auto simp: openAuth_def openReference_def)
  next
    case nodig
    then show ?thesis
      by (intro same; cases "authDigest K from to tag envelope") (auto simp: openAuth_def openReference_def keys)
  next
    case ok
    have len: "length envelope < 2 ^ 32" using splitAuth_envelope [OF ok(1)] by simp
    show ?thesis
    proof (cases "openKey d alg sig \<in> set (na_opened a)")
      case True
      then have o: "openAuth lib a from to tag wire = (Ok envelope, a)" using ok by (simp add: openAuth_def keys)
      from cache_hit [OF inv ok(2) True fits len] show ?thesis
      proof
        assume "verified lib K from to tag envelope d alg sig"
        then show ?thesis using ok o by (intro same) (simp_all add: openReference_def verified_alt)
      next
        assume "openCollision lib K from to tag envelope"
        then show ?thesis using o ok by (intro collided) auto
      qed
    next
      case False
      show ?thesis
      proof (cases "checkAuth lib K from tag d alg sig")
        case (Ok u)
        then have "verified lib K from to tag envelope d alg sig" using ok fits len by (simp add: verified_alt)
        then show ?thesis using ok False Ok
          by (intro stored [of envelope d alg sig]) (simp_all add: openAuth_def openReference_def keys Let_def)
      next
        case (Err e)
        then show ?thesis using ok False by (intro same) (simp_all add: openAuth_def openReference_def keys)
      next
        case Panic
        then show ?thesis using ok False by (intro same) (simp_all add: openAuth_def openReference_def keys)
      qed
    qed
  qed
qed

lemma openAuth_inv:
  assumes "authInv lib K a" "from \<le> max_int" "to \<le> max_int"
  shows "authInv lib K (snd (openAuth lib a from to tag wire))"
proof (rule openAuth_cases [OF assms, of tag wire])
  fix alg envelope sig d
  assume v: "verified lib K from to tag envelope d alg sig"
    and s: "snd (openAuth lib a from to tag wire) = a\<lparr>na_opened := openKey d alg sig #
       (if length (na_opened a) \<ge> cvNetworkAuthScalarCacheLimit then [] else na_opened a)\<rparr>"
  let ?kept = "if length (na_opened a) \<ge> cvNetworkAuthScalarCacheLimit then [] else na_opened a"
  have "length (openKey d alg sig # ?kept) \<le> cvNetworkAuthScalarCacheLimit"
    by (simp add: cvNetworkAuthScalarCacheLimit_def)
  moreover have "openedKey lib K (openKey d alg sig)" using v unfolding openedKey_def by blast
  then have "\<forall>k \<in> set (openKey d alg sig # ?kept). openedKey lib K k" using assms(1) by (simp add: authInv_def)
  ultimately show ?thesis using assms(1) s by (simp add: authInv_def)
qed (use assms(1) in simp_all)

section \<open>Sealing with a cache\<close>

definition sealCollision :: "('f, 'g, 'k) cvCrypto \<Rightarrow> ('f, 'k) cvNetworkAuthenticatorScalar \<Rightarrow> int \<Rightarrow> int \<Rightarrow> string \<Rightarrow> bytes \<Rightarrow> bool" where
  "sealCollision lib K from to tag envelope \<longleftrightarrow>
     (\<exists>f t g e d d' w. authDigest K f t g e = Ok d \<and> signEnvelope lib K f g d e = Ok w \<and>
        authDigest K from to tag envelope = Ok d' \<and>
        (collision (digestInput K from to tag envelope) (digestInput K f t g e) \<or>
         collision (sealKeyInput d') (sealKeyInput d)))"

lemma seal_hit:
  assumes inv: "authInv lib K a" and dig: "authDigest K from to tag envelope = Ok d"
    and hit: "(sealKey d, w) \<in> set (na_sealed a)"
    and fits: "from \<le> max_int" "to \<le> max_int" "length envelope < 2 ^ 32"
  shows "signEnvelope lib K from tag d envelope = Ok w \<or> sealCollision lib K from to tag envelope"
proof -
  obtain f t g e d' where d': "authDigest K f t g e = Ok d'" "f \<le> max_int" "t \<le> max_int" "length e < 2 ^ 32"
    and k: "sealKey d = sealKey d'" and w: "signEnvelope lib K f g d' e = Ok w"
    using inv hit unfolding authInv_def sealedEntry_def by blast
  show ?thesis
  proof (cases "sealCollision lib K from to tag envelope")
    case False
    then have nc: "\<not> collision (digestInput K from to tag envelope) (digestInput K f t g e)"
      "\<not> collision (sealKeyInput d) (sealKeyInput d')"
      using w dig d'(1) unfolding sealCollision_def by blast+
    have eq: "d = d'" using k nc(2) by (simp add: sealKey_def sealKeyInput_def cv_hashBytes_def collision_def)
    then have dig': "authDigest K from to tag envelope = Ok d'" using dig by simp
    have "from = f \<and> to = t \<and> tag = g \<and> envelope = e"
      by (rule digest_binds [OF dig' d'(1) fits(1) d'(2) fits(2) d'(3) fits(3) d'(4) nc(1)])
    then show ?thesis using w eq by simp
  qed simp
qed

lemma seal_step:
  assumes inv: "authInv lib K a" and fits: "from \<le> max_int" "to \<le> max_int" "length envelope < 2 ^ 32"
  shows "(fst (seal lib a from to tag envelope) = sealReference lib K from to tag envelope \<or>
      sealCollision lib K from to tag envelope) \<and> authInv lib K (snd (seal lib a from to tag envelope))"
proof -
  have K: "keysOf a = K" using inv by (simp add: authInv_def)
  note keys = keysOf_eq [OF K]
  show ?thesis
  proof (cases "na_sid K = [] \<or> na_epoch K = 0")
    case True
    then show ?thesis using inv by (simp add: seal_def sealReference_def keys)
  next
    case False
    show ?thesis
    proof (cases "authDigest K from to tag envelope")
      case (Ok d)
      show ?thesis
      proof (cases "map_of (na_sealed a) (sealKey d)")
        case (Some w)
        then have "seal lib a from to tag envelope = (Ok w, a)" using False Ok by (simp add: seal_def keys)
        then show ?thesis using seal_hit [OF inv Ok map_of_SomeD [OF Some] fits] inv Ok False
          by (auto simp: sealReference_def)
      next
        case None
        show ?thesis
        proof (cases "signEnvelope lib K from tag d envelope")
          case (Ok w)
          let ?kept = "if length (na_sealed a) \<ge> cvNetworkAuthScalarCacheLimit then [] else na_sealed a"
          have s: "seal lib a from to tag envelope = (Ok w, a\<lparr>na_sealed := (sealKey d, w) # ?kept\<rparr>)"
            using False None Ok \<open>authDigest K from to tag envelope = Ok d\<close> by (simp add: seal_def keys Let_def)
          have "length ((sealKey d, w) # ?kept) \<le> cvNetworkAuthScalarCacheLimit"
            by (simp add: cvNetworkAuthScalarCacheLimit_def)
          moreover have "sealedEntry lib K (sealKey d) w"
            using fits Ok \<open>authDigest K from to tag envelope = Ok d\<close> unfolding sealedEntry_def by blast
          then have "\<forall>(k, w) \<in> set ((sealKey d, w) # ?kept). sealedEntry lib K k w" using inv by (simp add: authInv_def)
          ultimately have "authInv lib K (a\<lparr>na_sealed := (sealKey d, w) # ?kept\<rparr>)"
            using inv by (simp add: authInv_def)
          then show ?thesis using s Ok False \<open>authDigest K from to tag envelope = Ok d\<close> by (simp add: sealReference_def)
        qed (use inv False None Ok in \<open>simp_all add: seal_def sealReference_def keys\<close>)
      qed
    qed (use inv False in \<open>simp_all add: seal_def sealReference_def keys\<close>)
  qed
qed

section \<open>Properties\<close>

lemma addOldKeys_fresh:
  "addOldKeys lib v ks a = Ok a' \<Longrightarrow> na_sealed a' = na_sealed a \<and> na_opened a' = na_opened a"
  by (induction lib v ks a rule: addOldKeys.induct) (auto simp: Let_def split: if_splits option.splits)

lemma addReceiverKeys_fresh:
  "addReceiverKeys lib rc ks a = Ok a' \<Longrightarrow> na_sealed a' = na_sealed a \<and> na_opened a' = na_opened a"
  by (induction lib rc ks a rule: addReceiverKeys.induct) (auto simp: Let_def split: if_splits option.splits)

lemma new_authInv:
  assumes "newCVNetworkAuthenticatorScalar lib v rc = Ok K"
  shows "authInv lib K K"
proof -
  have "na_sealed K = []" "na_opened K = []"
    using assms addOldKeys_fresh addReceiverKeys_fresh
    by (fastforce simp: newCVNetworkAuthenticatorScalar_def split: option.splits if_splits)+
  then show ?thesis by (simp add: authInv_def)
qed

text \<open>The operations of an authenticator in any order.\<close>

datatype authOp = SealOp int int string bytes | OpenOp int int string bytes

fun authStep :: "('f, 'g, 'k) cvCrypto \<Rightarrow> ('f, 'k) cvNetworkAuthenticatorScalar \<Rightarrow> authOp \<Rightarrow>
    bytes res \<times> ('f, 'k) cvNetworkAuthenticatorScalar" where
  "authStep lib a (SealOp from to tag envelope) = seal lib a from to tag envelope"
| "authStep lib a (OpenOp from to tag wire) = openAuth lib a from to tag wire"

fun authRun :: "('f, 'g, 'k) cvCrypto \<Rightarrow> ('f, 'k) cvNetworkAuthenticatorScalar \<Rightarrow> authOp list \<Rightarrow> bytes res list" where
  "authRun lib a [] = []"
| "authRun lib a (op # ops) = (case authStep lib a op of (r, a') \<Rightarrow> r # authRun lib a' ops)"

fun authReference :: "('f, 'g, 'k) cvCrypto \<Rightarrow> ('f, 'k) cvNetworkAuthenticatorScalar \<Rightarrow> authOp \<Rightarrow> bytes res" where
  "authReference lib K (SealOp from to tag envelope) = sealReference lib K from to tag envelope"
| "authReference lib K (OpenOp from to tag wire) = openReference lib K from to tag wire"

fun opFits :: "authOp \<Rightarrow> bool" where
  "opFits (SealOp from to tag envelope) \<longleftrightarrow> from \<le> max_int \<and> to \<le> max_int \<and> length envelope < 2 ^ 32"
| "opFits (OpenOp from to tag wire) \<longleftrightarrow> from \<le> max_int \<and> to \<le> max_int"

fun opCollision :: "('f, 'g, 'k) cvCrypto \<Rightarrow> ('f, 'k) cvNetworkAuthenticatorScalar \<Rightarrow> authOp \<Rightarrow> bool" where
  "opCollision lib K (SealOp from to tag envelope) \<longleftrightarrow> sealCollision lib K from to tag envelope"
| "opCollision lib K (OpenOp from to tag wire) \<longleftrightarrow>
     (\<exists>alg envelope sig. splitAuth wire = Ok (alg, envelope, sig) \<and> openCollision lib K from to tag envelope)"

lemma authStep_sound:
  assumes "authInv lib K a" "opFits op"
  shows "(fst (authStep lib a op) = authReference lib K op \<or> opCollision lib K op) \<and> authInv lib K (snd (authStep lib a op))"
proof (cases op)
  case (SealOp f t g e)
  then show ?thesis using seal_step [OF assms(1)] assms(2) by simp
next
  case (OpenOp f t g w)
  then have fits: "f \<le> max_int" "t \<le> max_int" using assms(2) by simp_all
  have "fst (openAuth lib a f t g w) = openReference lib K f t g w \<or> opCollision lib K (OpenOp f t g w)"
    by (rule openAuth_cases [OF assms(1) fits, of g w]) auto
  then show ?thesis using OpenOp openAuth_inv [OF assms(1) fits] by simp
qed

lemma authRun_sound:
  "authInv lib K a \<Longrightarrow> \<forall>op \<in> set ops. opFits op \<Longrightarrow> i < length ops \<Longrightarrow>
    authRun lib a ops ! i = authReference lib K (ops ! i) \<or> opCollision lib K (ops ! i)"
proof (induction ops arbitrary: a i)
  case (Cons op ops)
  obtain r a' where st: "authStep lib a op = (r, a')" by fastforce
  have "opFits op" using Cons.prems(2) by simp
  from authStep_sound [OF Cons.prems(1) this] have
    r: "r = authReference lib K op \<or> opCollision lib K op" and a': "authInv lib K a'"
    using st by simp_all
  show ?case
  proof (cases i)
    case 0
    then show ?thesis using r st by simp
  next
    case (Suc j)
    then show ?thesis using Cons.IH [OF a', of j] Cons.prems(2,3) st by simp
  qed
qed simp


definition demoCrypto :: "(int, int, int) cvCrypto" where
  "demoCrypto = \<lparr>cc_IsZero = (\<lambda>x. x = 0), cc_HashToG1 = (\<lambda>m d. Ok 5), cc_smul = (*), cc_Bytes = (\<lambda>g. be_bytes 48 (nat g)),
     cc_SetBytes = (\<lambda>b. Ok (int (be_nat b), 48)), cc_G1OnCurve = (\<lambda>_. True), cc_G1InSubGroup = (\<lambda>_. True),
     cc_G1Infinity = (\<lambda>g. g = 0), cc_G2OnCurve = (\<lambda>_. True), cc_G2InSubGroup = (\<lambda>_. True), cc_G2Infinity = (\<lambda>k. k = 0),
     cc_PairingCheck = (\<lambda>s h k. s = h * k), cc_edSign = (\<lambda>s d. d @ d), cc_edVerify = (\<lambda>p d s. s = d @ d),
     cc_edPublic = take 32\<rparr>"

definition demoValidators :: "(int, int) cvValidatorKeyMaterialScalar" where
  "demoValidators = \<lparr>vm_memberOrder = [0, 1], vm_publicKeys = [3, 4], vm_localSecrets = [0 \<mapsto> 3], vm_sid = ''s'', vm_epoch = 7\<rparr>"

definition demoReceivers :: cvReceiverKeyMaterialScalar where
  "demoReceivers = \<lparr>rm_receiverOrder = [2], rm_identityPublicKeys = [replicate 32 9], rm_localIdentitySecrets = Map.empty,
     rm_sid = ''s'', rm_epoch = 7\<rparr>"

definition demoAuth :: "(int, int) cvNetworkAuthenticatorScalar" where
  "demoAuth = \<lparr>na_sid = ''s'', na_epoch = 7, na_oldPublicKeys = [0 \<mapsto> 3, 1 \<mapsto> 4], na_oldLocalSecrets = [0 \<mapsto> 3],
     na_receiverPublicKeys = [2 \<mapsto> replicate 32 9], na_receiverLocalSecrets = Map.empty, na_sealed = [], na_opened = []\<rparr>"

lemma demoAuth_new: "newCVNetworkAuthenticatorScalar demoCrypto (Some demoValidators) (Some demoReceivers) = Ok demoAuth"
  by (simp add: newCVNetworkAuthenticatorScalar_def demoValidators_def demoReceivers_def demoAuth_def cvValidG2_def demoCrypto_def)


definition authentic :: "('f, 'g, 'k) cvCrypto \<Rightarrow> ('f, 'k) cvNetworkAuthenticatorScalar \<Rightarrow> int \<Rightarrow> int \<Rightarrow> string \<Rightarrow> bytes \<Rightarrow> bool" where
  "authentic lib K from to tag envelope \<longleftrightarrow>
     (\<exists>d algorithm signature. verified lib K from to tag envelope d algorithm signature) \<or> openCollision lib K from to tag envelope"

lemma openReference_verified:
  assumes "openReference lib K from to tag wire = Ok envelope" "from \<le> max_int" "to \<le> max_int"
  shows "\<exists>d alg sig. verified lib K from to tag envelope d alg sig"
proof -
  obtain alg e sig d where sp: "splitAuth wire = Ok (alg, e, sig)"
    and "authDigest K from to tag e = Ok d" "checkAuth lib K from tag d alg sig = Ok ()" "e = envelope"
    using assms(1) by (auto simp: openReference_def)
  then show ?thesis using splitAuth_envelope [OF sp] assms(2,3) unfolding verified_alt by blast
qed

interpretation scalar_auth: envelope_opener "Some (openAuth lib)" "authInv lib K" "\<lambda>i. i \<le> max_int" "authentic lib K"
  for lib K
proof unfold_locales
  fix msg :: Message and a
  assume fits: "msg_From msg \<le> max_int" "msg_To msg \<le> max_int" and inv: "authInv lib K a"
  show "authInv lib K (snd (openWith (Some (openAuth lib)) a msg))"
    using openAuth_inv [OF inv fits] by (simp add: openWith_def)
  fix e
  assume e: "fst (openWith (Some (openAuth lib)) a msg) = Ok e"
  show "authentic lib K (msg_From msg) (msg_To msg) (msg_Tag msg) e"
  proof (rule openAuth_cases [OF inv fits, of "msg_Tag msg" "msg_Body msg"])
    assume "fst (openAuth lib a (msg_From msg) (msg_To msg) (msg_Tag msg) (msg_Body msg)) =
      openReference lib K (msg_From msg) (msg_To msg) (msg_Tag msg) (msg_Body msg)"
    then have ref: "openReference lib K (msg_From msg) (msg_To msg) (msg_Tag msg) (msg_Body msg) = Ok e"
      using e by (simp add: openWith_def)
    from openReference_verified [OF ref fits] show ?thesis unfolding authentic_def by blast
  qed (use e in \<open>auto simp: openWith_def authentic_def\<close>)
qed

lemma took_queued:
  assumes "tookFrom j out @ q = queuedTo j out" "Took j m \<in> set out"
  shows "Queued j m \<in> set out"
proof -
  have "m \<in> set (tookFrom j out)" using assms(2) by (force simp: tookFrom_def)
  then have "m \<in> set (queuedTo j out)" using assms(1) by (metis Un_iff set_append)
  then show ?thesis by (auto simp: queuedTo_def split: routerOut.splits if_splits)
qed


text \<open>Old member 1 sends a receipt to node 0.\<close>

definition demoSigned :: Message where
  "demoSigned = \<lparr>msg_From = 1, msg_To = 0, msg_Tag = cvTagReceipt, msg_Body = authWire 1 demoWire (be_bytes 48 20),
     msg_WireBytes = 0\<rparr>"

definition demoDelivered :: Message where
  "demoDelivered = \<lparr>msg_From = 1, msg_To = 0, msg_Tag = cvTagReceipt, msg_Body = [42], msg_WireBytes = 100\<rparr>"

lemma demo_split: "splitAuth (authWire 1 demoWire (be_bytes 48 20)) = Ok (1, demoWire, be_bytes 48 20)"
  by code_simp

lemma demo_route_parts:
  "cvDecodeNetworkEnvelope demoWire ''s'' 7 = Ok [42]" "cvAllowedNetworkTag cvTagReceipt" "length (msg_Body demoSigned) = 73"
  "\<not> cvScalarReceiverOriginatedTag cvTagReceipt" "rosterAllows demoRouter demoSigned"
  "int (be_nat (be_bytes 48 20)) = 20" "cvNetworkAuthScalarOldBLSDomain \<noteq> []"
  by code_simp+

lemma demo_check:
  "length d = 32 \<Longrightarrow> checkAuth demoCrypto demoAuth 1 cvTagReceipt d 1 (be_bytes 48 20) = Ok ()"
  using demo_route_parts(4,6)
  by (simp add: checkAuth_def demoAuth_def cvVerifyValidatorSignatureScalar_def demoCrypto_def cvValidG2_def cvValidG1_def)

lemma demo_open:
  "fst (openAuth demoCrypto demoAuth 1 0 cvTagReceipt (authWire 1 demoWire (be_bytes 48 20))) = Ok demoWire"
proof -
  obtain d where d: "authDigest demoAuth 1 0 cvTagReceipt demoWire = Ok d"
    by (simp add: cvNetworkAuthDigestScalar_def demoAuth_def tcpMessageMaxTagBytes_def demoWire_def)
  have "na_opened demoAuth = []" by (simp add: demoAuth_def)
  moreover have "checkAuth demoCrypto demoAuth 1 cvTagReceipt d 1 (be_bytes 48 20) = Ok ()"
    by (rule demo_check [OF authDigest_length [OF d]])
  ultimately show ?thesis using d demo_split by (simp add: openAuth_def Let_def)
qed

lemma demo_router_run:
  "Took 0 demoDelivered \<in> set (stepOut (routerRun (Some (openAuth demoCrypto)) demoRouter demoAuth [Inbox 0 demoSigned, Take 0]))"
proof -
  obtain a where o: "openAuth demoCrypto demoAuth 1 0 cvTagReceipt (authWire 1 demoWire (be_bytes 48 20)) = (Ok demoWire, a)"
    using demo_open by (cases "openAuth demoCrypto demoAuth 1 0 cvTagReceipt (authWire 1 demoWire (be_bytes 48 20))") auto
  have "route (Some (openAuth demoCrypto)) demoRouter 0 demoAuth demoSigned = (Some demoDelivered, a)"
    using demo_route_parts o
    by (simp add: route_def openWith_def demoSigned_def demoRouter_def demoDelivered_def tcpMessageFrameFixedBytes_def)
  then show ?thesis
    by (simp add: routerRun_def routerHandle_def routerEventStep_def readLoopMessage_def routerStart_def demoRouter_def)
qed


end
