(* ===== verification/Cv_Threshold.thy ===== *)
theory Cv_Threshold
  imports Mvba_Signers Cv_Wire
begin

text \<open>
  The threshold signer of the CV-sAPVSS protocol (\<^verbatim>\<open>core/crypto_runtime.go\<close>): BLS12-381 signature shares of
  the members of a committee, numbered by their position in the sorted roster, their recovery by
  Lagrange interpolation, and the role a signer was loaded for. The curve is the parameter \<open>blsLib\<close>.
\<close>

abbreviation cvScalarRoleAPDB :: string where
  "cvScalarRoleAPDB \<equiv> ''apdb''"

abbreviation cvScalarRoleControl :: string where
  "cvScalarRoleControl \<equiv> ''control''"

abbreviation cvScalarRoleCoin :: string where
  "cvScalarRoleCoin \<equiv> ''coin''"

record ('f, 'k) tblsThresholdSigner =
  th_t :: int
  th_n :: int
  th_scalarRole :: string
  th_pubKey :: 'k
  th_pubKeyShares :: "'k list"
  th_shares :: "'f list"
  th_memberOrder :: "int list"
  th_memberIndex :: "int \<rightharpoonup> int"
  th_signingMembers :: "int set option"

definition cvScalarKnownThresholdRole :: "string \<Rightarrow> bool" where
  "cvScalarKnownThresholdRole role \<longleftrightarrow> role = cvScalarRoleAPDB \<or> role = cvScalarRoleControl \<or> role = cvScalarRoleCoin"

definition cvScalarSignerHasRole :: "('f, 'k) tblsThresholdSigner option \<Rightarrow> string \<Rightarrow> bool" where
  "cvScalarSignerHasRole signer role =
     (case signer of None \<Rightarrow> False | Some s \<Rightarrow> cvScalarKnownThresholdRole role \<and> th_scalarRole s = role)"

text \<open>The transport keys in G1 that the constructor also makes are not used by the operations here.\<close>

definition newTBLSThresholdSigner :: "('f :: field, 'g, 'k) blsLib \<Rightarrow> int list \<Rightarrow> int \<Rightarrow> (nat \<Rightarrow> 'f) \<Rightarrow>
    ('f, 'k) tblsThresholdSigner res" where
  "newTBLSThresholdSigner lib members threshold stream =
     (if members = [] then Err ''empty members''
      else if threshold \<le> 0 \<or> threshold > int (length members) then Err ''invalid threshold''
      else
        let n = int (length members);
            coeffs = map stream [0..<nat threshold];
            shares = map (\<lambda>i. shareLoop coeffs (of_int (i + 1)) 1 0) [0..n - 1];
            memberOrder = sort members in
        Ok \<lparr>th_t = threshold, th_n = n, th_scalarRole = [], th_pubKey = bl_g2 lib (coeffs ! 0),
            th_pubKeyShares = map (bl_g2 lib) shares, th_shares = shares, th_memberOrder = memberOrder,
            th_memberIndex = map_of (rev (zip memberOrder [0..n - 1])), th_signingMembers = None\<rparr>)"

definition restrictSigningTo :: "int list \<Rightarrow> ('f, 'k) tblsThresholdSigner \<Rightarrow> ('f, 'k) tblsThresholdSigner" where
  "restrictSigningTo members s = s\<lparr>th_signingMembers := Some (set members)\<rparr>"

definition SignShare :: "('f, 'g, 'k) blsLib \<Rightarrow> ('f, 'k) tblsThresholdSigner \<Rightarrow> int \<Rightarrow> string \<Rightarrow> bytes \<Rightarrow> bytes res" where
  "SignShare lib s member domain digest =
    (case th_memberIndex s member of
       None \<Rightarrow> Err ''unknown member''
     | Some idx \<Rightarrow>
         if (case th_signingMembers s of None \<Rightarrow> False | Some ms \<Rightarrow> member \<notin> ms)
         then Err ''member has no local signing share''
         else
           bindR (reErr ''hash to G1'' (bl_HashToG1 lib (cv_domainDigest domain digest) domain)) (\<lambda>h.
           bindR (indexR (th_shares s) idx) (\<lambda>share. Ok (bl_Marshal lib (bl_smul lib share h)))))"

definition VerifyShare :: "('f, 'g, 'k) blsLib \<Rightarrow> ('f, 'k) tblsThresholdSigner \<Rightarrow> int \<Rightarrow> string \<Rightarrow> bytes \<Rightarrow> bytes \<Rightarrow> bool" where
  "VerifyShare lib s member domain digest sigBytes =
    (case th_memberIndex s member of
       None \<Rightarrow> False
     | Some idx \<Rightarrow>
         if idx \<ge> int (length (th_pubKeyShares s)) then False
         else case bl_Unmarshal lib sigBytes of
             Ok sig \<Rightarrow> (case bl_HashToG1 lib (cv_domainDigest domain digest) domain of
                 Ok h \<Rightarrow> bl_check lib sig h (th_pubKeyShares s ! nat idx) | _ \<Rightarrow> False)
           | _ \<Rightarrow> False)"

definition VerifyRecovered :: "('f, 'g, 'k) blsLib \<Rightarrow> ('f, 'k) tblsThresholdSigner \<Rightarrow> string \<Rightarrow> bytes \<Rightarrow> bytes \<Rightarrow> bool" where
  "VerifyRecovered lib s domain digest sigBytes =
    (case bl_Unmarshal lib sigBytes of
       Ok sig \<Rightarrow> (case bl_HashToG1 lib (cv_domainDigest domain digest) domain of
           Ok h \<Rightarrow> bl_check lib sig h (th_pubKey s) | _ \<Rightarrow> False)
     | _ \<Rightarrow> False)"

text \<open>A member without index counts as index 0, the zero value of the map.\<close>

definition memberPos :: "('f, 'k) tblsThresholdSigner \<Rightarrow> int \<Rightarrow> int" where
  "memberPos s member = (case th_memberIndex s member of None \<Rightarrow> 0 | Some i \<Rightarrow> i)"

definition recoverCoeff :: "int list \<Rightarrow> int \<Rightarrow> 'f :: field" where
  "recoverCoeff ids id1 =
     fold (\<lambda>id2 c. if id1 = id2 then c else c * (of_int id2 * inverse (of_int (id2 - id1)))) ids 1"

fun recoverSum :: "('f :: field, 'g :: ab_group_add, 'k) blsLib \<Rightarrow> ('f, 'k) tblsThresholdSigner \<Rightarrow> (int \<times> bytes) list \<Rightarrow>
    int list \<Rightarrow> int list \<Rightarrow> 'g \<Rightarrow> 'g res" where
  "recoverSum lib s shares ids [] recovered = Ok recovered"
| "recoverSum lib s shares ids (mid # rest) recovered =
     bindR (reErr ''unmarshal share'' (bl_Unmarshal lib (the (map_of shares mid)))) (\<lambda>sig.
       recoverSum lib s shares ids rest (recovered + bl_smul lib (recoverCoeff ids (memberPos s mid + 1)) sig))"

definition Recover :: "('f :: field, 'g :: ab_group_add, 'k) blsLib \<Rightarrow> ('f, 'k) tblsThresholdSigner \<Rightarrow> (int \<times> bytes) list \<Rightarrow>
    bytes res" where
  "Recover lib s shares =
     (if int (length shares) < th_t s then Err ''insufficient shares''
      else
        let memberIDs = sort_key (memberPos s) (map fst shares);
            ids = map (\<lambda>mid. memberPos s mid + 1) memberIDs in
        bindR (recoverSum lib s shares ids memberIDs 0) (\<lambda>recovered. Ok (bl_Marshal lib recovered)))"

definition cvThresholdSignerCanSignScalar :: "('f :: zero, 'k) tblsThresholdSigner option \<Rightarrow> int \<Rightarrow> bool" where
  "cvThresholdSignerCanSignScalar signer member =
    (case signer of
       None \<Rightarrow> False
     | Some s \<Rightarrow>
        (case th_memberIndex s member of
           None \<Rightarrow> False
         | Some index \<Rightarrow>
             if index < 0 \<or> index \<ge> int (length (th_shares s)) then False
             else if th_shares s ! nat index = 0 then False
             else (case th_signingMembers s of None \<Rightarrow> True | Some ms \<Rightarrow> member \<in> ms)))"

text \<open>The coefficients are those of the MVBA signer, which counts from 0.\<close>

lemma recoverCoeff_eq: "recoverCoeff (map (\<lambda>i. i + 1) ids) (i + 1) = lagrangeCoeff ids i"
proof -
  have "fold (\<lambda>id2 c. if i + 1 = id2 then c else c * (of_int id2 * inverse (of_int (id2 - (i + 1))))) (map (\<lambda>i. i + 1) ids) c =
      fold (\<lambda>id2 c. if i = id2 then c else c * (of_int (id2 + 1) * inverse (of_int (id2 - i)))) ids c" for c :: 'a
    by (induction ids arbitrary: c) (simp_all cong: if_cong)
  then show ?thesis by (simp add: recoverCoeff_def lagrangeCoeff_def)
qed

end
