(* ===== verification/Cv_APDB.thy ===== *)
theory Cv_APDB
  imports Cv_Threshold Mvba_Erasure
begin

text \<open>
  The asynchronous provable dispersal of the scalar protocol (\<^verbatim>\<open>core/cv_sapvss_apdb.go\<close> and the erasure code
  of \<^verbatim>\<open>core/cv_sapvss_m4.go\<close>): a payload is packed, erasure coded and committed to by a Merkle tree bound
  to an instance; a lock certifies the root; recovery checks every shard, decodes and re-encodes. The
  Reed-Solomon package is the parameter \<open>rsCoder\<close>, the Merkle lemmas are those of \<open>Merkle_Core\<close>.
\<close>

section \<open>Domains and data\<close>

abbreviation cvAPDBInstanceDomain :: string where
  "cvAPDBInstanceDomain \<equiv> ''ARL-CV-sAPVSS/v2-scalar-group/apdb-instance''"

abbreviation cvAPDBStoredDomain :: string where
  "cvAPDBStoredDomain \<equiv> ''ARL-CV-sAPVSS/v2-scalar-group/apdb-stored''"

abbreviation cvAPDBShardDomain :: string where
  "cvAPDBShardDomain \<equiv> ''ARL-CV-sAPVSS/v2-scalar-group/apdb-shard''"

abbreviation cvAPDBNodeDomain :: string where
  "cvAPDBNodeDomain \<equiv> ''ARL-CV-sAPVSS/v2-scalar-group/apdb-node''"

abbreviation cvAPDBLockWireDomain :: string where
  "cvAPDBLockWireDomain \<equiv> ''ARL-CV-sAPVSS/v2-scalar-group/apdb-lock''"

abbreviation cvAPDBStoreWireDomain :: string where
  "cvAPDBStoreWireDomain \<equiv> ''ARL-CV-sAPVSS/v2-scalar-group/apdb-store''"

definition cvMaxComponentSignatureBytes :: int where
  "cvMaxComponentSignatureBytes = 1048576"

text \<open>\<open>lk_canonicalWire\<close> is the decoder's memo of the wire.\<close>

record cvAPDBLockScalar =
  lk_InstanceDigest :: bytes
  lk_Root :: bytes
  lk_Certificate :: bytes
  lk_canonicalWire :: bytes

record cvAPDBStoreScalar =
  st_InstanceDigest :: bytes
  st_Root :: bytes
  st_Index :: int
  st_Shard :: bytes
  st_Siblings :: "bytes list"

record cvAPDBEncodedScalar =
  en_instanceDigest :: bytes
  en_root :: bytes
  en_dataShards :: int
  en_totalShards :: int
  en_shardBytes :: int
  en_stores :: "cvAPDBStoreScalar list"

section \<open>Statements\<close>

fun writeParts :: "bytes \<Rightarrow> bytes list \<Rightarrow> bytes res" where
  "writeParts wire [] = Ok wire"
| "writeParts wire (part # parts) = bindR (cvWriteBytes wire part) (\<lambda>wire. writeParts wire parts)"

definition cvAPDBInstanceDigestScalar :: "string \<Rightarrow> bytes list \<Rightarrow> bytes res" where
  "cvAPDBInstanceDigestScalar label parts =
     (if label = [] then Err ''empty CV V2 APDB instance label''
      else bindR (writeParts (cvWriteBytesIgnore (bytes_of label) []) parts) (\<lambda>wire.
        Ok (cv_hashBytes [bytes_of cvAPDBInstanceDomain, wire])))"

definition cvAPDBStoredStatementScalar :: "bytes \<Rightarrow> bytes \<Rightarrow> bytes res" where
  "cvAPDBStoredStatementScalar instanceDigest rootDigest =
     (if length instanceDigest \<noteq> 32 \<or> length rootDigest \<noteq> 32 then Err ''invalid CV V2 APDB stored statement''
      else Ok (cv_hashBytes [bytes_of cvAPDBStoredDomain, instanceDigest, rootDigest]))"

section \<open>Erasure coding\<close>

definition cvCachedRSEncoder :: "rsCoder \<Rightarrow> int \<Rightarrow> int \<Rightarrow> unit res" where
  "cvCachedRSEncoder rs dataShards totalShards =
     (if dataShards \<le> 0 \<or> totalShards < dataShards then Err ''invalid CV-sAPVSS erasure-code dimensions''
      else rs_New rs dataShards (totalShards - dataShards))"

text \<open>\<^verbatim>\<open>(len + d - 1) / d\<close>; division by zero panics.\<close>

definition plainShards :: "bytes \<Rightarrow> nat \<Rightarrow> bytes list" where
  "plainShards payload n =
    (let shardSize = (length payload + n - 1) div n in
     map (\<lambda>i. let part = take shardSize (drop (i * shardSize) payload) in part @ replicate (shardSize - length part) 0) [0..<n])"

definition cvErasureEncode :: "rsCoder \<Rightarrow> bytes \<Rightarrow> int \<Rightarrow> int \<Rightarrow> bytes list res" where
  "cvErasureEncode rs payload dataShards totalShards =
     (if dataShards = totalShards then
        if dataShards \<le> 0 then Panic else Ok (plainShards payload (nat dataShards))
      else bindR (cvCachedRSEncoder rs dataShards totalShards) (\<lambda>_.
        bindR (rs_Split rs dataShards (totalShards - dataShards) payload) (\<lambda>shards.
        rs_Encode rs dataShards (totalShards - dataShards) shards)))"

definition cvErasureDecode :: "rsCoder \<Rightarrow> bytes list \<Rightarrow> int \<Rightarrow> bytes res" where
  "cvErasureDecode rs shards dataShards =
    (let n = int (length shards) in
     if dataShards = n then
       if [] \<in> set shards then Err ''missing CV-sAPVSS data shard'' else Ok (concat shards)
     else bindR (cvCachedRSEncoder rs dataShards n) (\<lambda>_.
       bindR (rs_Reconstruct rs dataShards (n - dataShards) shards) (\<lambda>work.
       bindR (indexR work 0) (\<lambda>first.
         rs_Join rs dataShards (n - dataShards) work (int (length first) * dataShards)))))"

section \<open>The Merkle tree\<close>

definition cvAPDBShardHashScalar :: "bytes \<Rightarrow> nat \<Rightarrow> bytes \<Rightarrow> bytes" where
  "cvAPDBShardHashScalar instanceDigest index shard =
     cv_hashBytes [bytes_of cvAPDBShardDomain, instanceDigest, put32 (word_of_nat index), shard]"

definition apdbNode :: "bytes \<Rightarrow> bytes \<Rightarrow> bytes" where
  "apdbNode l r = cv_hashBytes [bytes_of cvAPDBNodeDomain, l, r]"

text \<open>The levels from the leaves to the root, and the branch of a leaf through them.\<close>

function apdbLevels :: "bytes list \<Rightarrow> bytes list list" where
  "apdbLevels level = (if length level > 1 then level # apdbLevels (pairUp apdbNode (padLevel level)) else [level])"
  by pat_completeness auto
termination
  by (relation "measure length") (auto simp: length_padLevel)

declare apdbLevels.simps [simp del]

fun apdbBranch :: "bytes list list \<Rightarrow> nat \<Rightarrow> bytes list" where
  "apdbBranch (level # upper # rest) index = level ! siblingPos (length level) index # apdbBranch (upper # rest) (index div 2)"
| "apdbBranch _ index = []"

definition cvAPDBBuildMerkleScalar :: "bytes \<Rightarrow> bytes list \<Rightarrow> (bytes \<times> bytes list list) res" where
  "cvAPDBBuildMerkleScalar instanceDigest shards =
    (let levels = apdbLevels (map2 (cvAPDBShardHashScalar instanceDigest) [0..<length shards] shards) in
     bindR (indexR (last levels) 0) (\<lambda>root. Ok (root, map (apdbBranch levels) [0..<length shards])))"

function cvAPDBMerkleDepth :: "int \<Rightarrow> int" where
  "cvAPDBMerkleDepth totalShards = (if totalShards > 1 then cvAPDBMerkleDepth ((totalShards + 1) div 2) + 1 else 0)"
  by pat_completeness auto
termination
  by (relation "measure nat") auto

declare cvAPDBMerkleDepth.simps [simp del]

fun apdbClimb :: "bytes \<Rightarrow> int \<Rightarrow> bytes list \<Rightarrow> bytes res" where
  "apdbClimb digest index [] = Ok digest"
| "apdbClimb digest index (sibling # rest) =
     (if length sibling \<noteq> 32 then Err ''invalid CV V2 APDB Merkle sibling''
      else apdbClimb (if index mod 2 = 0 then apdbNode digest sibling else apdbNode sibling digest) (goHalf index) rest)"

definition cvVerifyAPDBStoreScalar :: "cvAPDBStoreScalar \<Rightarrow> int \<Rightarrow> int \<Rightarrow> unit res" where
  "cvVerifyAPDBStoreScalar store totalShards shardBytes =
     (if length (st_InstanceDigest store) \<noteq> 32 \<or> length (st_Root store) \<noteq> 32 \<or> st_Index store < 0 \<or>
        st_Index store \<ge> totalShards \<or> shardBytes \<le> 0 \<or> int (length (st_Shard store)) \<noteq> shardBytes
      then Err ''invalid CV V2 APDB store''
      else if int (length (st_Siblings store)) \<noteq> cvAPDBMerkleDepth totalShards
      then Err ''invalid CV V2 APDB Merkle branch depth''
      else bindR (apdbClimb (cvAPDBShardHashScalar (st_InstanceDigest store) (nat (st_Index store)) (st_Shard store))
          (st_Index store) (st_Siblings store)) (\<lambda>digest.
        if digest \<noteq> st_Root store then Err ''CV V2 APDB store root mismatch'' else Ok ()))"

section \<open>Encoding\<close>

definition apdbPacked :: "bytes \<Rightarrow> nat \<Rightarrow> bytes" where
  "apdbPacked payload wanted =
    (let start = put64 (word_of_nat (length payload)) @ payload in start @ replicate (wanted - length start) 0)"

definition cvAPDBEncodeSizedScalar :: "rsCoder \<Rightarrow> bytes \<Rightarrow> bytes \<Rightarrow> int \<Rightarrow> int \<Rightarrow> int \<Rightarrow> int \<Rightarrow> cvAPDBEncodedScalar res" where
  "cvAPDBEncodeSizedScalar rs instanceDigest payload dataShards totalShards shardBytes maximumPayload =
     (if length instanceDigest \<noteq> 32 \<or> payload = [] \<or> maximumPayload \<le> 0 \<or> int (length payload) > maximumPayload \<or>
        dataShards \<le> 0 \<or> totalShards < dataShards \<or> shardBytes \<le> 0 \<or> 8 + int (length payload) > dataShards * shardBytes
      then Err ''invalid CV V2 fixed-size APDB encoding parameters''
      else bindR (reErr ''encode CV V2 APDB payload''
          (cvErasureEncode rs (apdbPacked payload (nat (dataShards * shardBytes))) dataShards totalShards)) (\<lambda>shards.
        if int (length shards) \<noteq> totalShards \<or> shards = [] \<or> shards ! 0 = [] then Err ''invalid CV V2 APDB encoded shard set''
        else bindR (cvAPDBBuildMerkleScalar instanceDigest shards) (\<lambda>(root, branches).
          Ok \<lparr>en_instanceDigest = instanceDigest, en_root = root, en_dataShards = dataShards, en_totalShards = totalShards,
              en_shardBytes = int (length (shards ! 0)),
              en_stores = map (\<lambda>i. \<lparr>st_InstanceDigest = instanceDigest, st_Root = root, st_Index = int i,
                 st_Shard = shards ! i, st_Siblings = branches ! i\<rparr>) [0..<length shards]\<rparr>)))"

definition cvAPDBEncodeScalar :: "rsCoder \<Rightarrow> bytes \<Rightarrow> bytes \<Rightarrow> int \<Rightarrow> int \<Rightarrow> int \<Rightarrow> cvAPDBEncodedScalar res" where
  "cvAPDBEncodeScalar rs instanceDigest payload dataShards totalShards maximumPayload =
     (if length instanceDigest \<noteq> 32 \<or> payload = [] \<or> maximumPayload \<le> 0 \<or> int (length payload) > maximumPayload \<or>
        dataShards \<le> 0 \<or> totalShards < dataShards
      then Err ''invalid CV V2 APDB encoding parameters''
      else cvAPDBEncodeSizedScalar rs instanceDigest payload dataShards totalShards
        ((8 + int (length payload) + dataShards - 1) div dataShards) maximumPayload)"

section \<open>Locks\<close>

definition cvNewAPDBLockScalar :: "cvAPDBEncodedScalar \<Rightarrow> bytes \<Rightarrow> cvAPDBLockScalar res" where
  "cvNewAPDBLockScalar encoded certificate =
     (if length (en_instanceDigest encoded) \<noteq> 32 \<or> length (en_root encoded) \<noteq> 32 \<or> certificate = [] \<or>
        int (length certificate) > cvMaxComponentSignatureBytes
      then Err ''invalid CV V2 APDB lock''
      else Ok \<lparr>lk_InstanceDigest = en_instanceDigest encoded, lk_Root = en_root encoded, lk_Certificate = certificate,
          lk_canonicalWire = []\<rparr>)"

definition lockShape :: "cvAPDBLockScalar \<Rightarrow> bool" where
  "lockShape lock \<longleftrightarrow> length (lk_InstanceDigest lock) = 32 \<and> length (lk_Root lock) = 32 \<and> lk_Certificate lock \<noteq> [] \<and>
     int (length (lk_Certificate lock)) \<le> cvMaxComponentSignatureBytes"

definition cvVerifyAPDBLockScalar :: "('f, 'g, 'k) blsLib \<Rightarrow> cvAPDBLockScalar \<Rightarrow> ('f, 'k) tblsThresholdSigner option \<Rightarrow> unit res" where
  "cvVerifyAPDBLockScalar lib lock signer =
     (if \<not> lockShape lock \<or> \<not> cvScalarSignerHasRole signer cvScalarRoleAPDB then Err ''invalid CV V2 APDB lock''
      else case cvAPDBStoredStatementScalar (lk_InstanceDigest lock) (lk_Root lock) of
          Ok statement \<Rightarrow>
            if \<not> VerifyRecovered lib (the signer) cvAPDBStoredDomain statement (lk_Certificate lock)
            then Err ''invalid CV V2 APDB lock certificate'' else Ok ()
        | _ \<Rightarrow> Err ''invalid CV V2 APDB lock certificate'')"

section \<open>Recovery\<close>

fun placeStores :: "cvAPDBLockScalar \<Rightarrow> int \<Rightarrow> int \<Rightarrow> cvAPDBStoreScalar list \<Rightarrow> bytes list \<Rightarrow> int list \<Rightarrow> (bytes list \<times> int list) res" where
  "placeStores lock totalShards shardBytes [] shards seen = Ok (shards, seen)"
| "placeStores lock totalShards shardBytes (store # stores) shards seen =
     (if st_InstanceDigest store \<noteq> lk_InstanceDigest lock \<or> st_Root store \<noteq> lk_Root lock \<or>
        \<not> is_Ok (cvVerifyAPDBStoreScalar store totalShards shardBytes)
      then Err ''invalid CV V2 APDB recovery store''
      else if st_Index store \<in> set seen then Err ''duplicate CV V2 APDB recovery store index''
      else placeStores lock totalShards shardBytes stores
        (shards[nat (st_Index store) := st_Shard store]) (st_Index store # seen))"

definition apdbUnpack :: "bytes \<Rightarrow> int \<Rightarrow> bytes res" where
  "apdbUnpack packed maximumPayload =
     (if length packed < 8 then Err ''truncated CV V2 APDB payload''
      else
        let len = int (unat (get64 (take 8 packed))) in
        if len = 0 \<or> len > int (length packed) - 8 \<or> len > maximumPayload
        then Err ''invalid recovered CV V2 APDB payload length''
        else Ok (take (nat len) (drop 8 packed)))"

definition cvRecoverAPDBScalar :: "rsCoder \<Rightarrow> cvAPDBLockScalar \<Rightarrow> cvAPDBStoreScalar list \<Rightarrow> int \<Rightarrow> int \<Rightarrow> int \<Rightarrow> int \<Rightarrow>
    (bytes \<Rightarrow> unit res) option \<Rightarrow> bytes res" where
  "cvRecoverAPDBScalar rs lock stores dataShards totalShards shardBytes maximumPayload bindingCheck =
     (if length (lk_InstanceDigest lock) \<noteq> 32 \<or> length (lk_Root lock) \<noteq> 32 \<or> dataShards \<le> 0 \<or> totalShards < dataShards \<or>
        shardBytes \<le> 0 \<or> maximumPayload \<le> 0 \<or> int (length stores) < dataShards
      then Err ''invalid CV V2 APDB recovery input''
      else bindR (placeStores lock totalShards shardBytes stores (replicate (nat totalShards) []) []) (\<lambda>(shards, seen).
        if int (length seen) < dataShards then Err ''insufficient CV V2 APDB recovery stores''
        else
          bindR (reErr ''decode CV V2 APDB payload'' (cvErasureDecode rs shards dataShards)) (\<lambda>packed.
          bindR (apdbUnpack packed maximumPayload) (\<lambda>payload.
            case cvAPDBEncodeSizedScalar rs (lk_InstanceDigest lock) payload dataShards totalShards shardBytes maximumPayload of
              Panic \<Rightarrow> Panic
            | Err e \<Rightarrow> Err ''CV V2 APDB deterministic re-encoding root mismatch''
            | Ok reencoded \<Rightarrow>
                if en_root reencoded \<noteq> lk_Root lock then Err ''CV V2 APDB deterministic re-encoding root mismatch''
                else (case bindingCheck of
                    None \<Rightarrow> Ok payload
                  | Some check \<Rightarrow> bindR (reErr ''CV V2 APDB binding check'' (check payload)) (\<lambda>_. Ok payload))))))"

section \<open>Wire forms\<close>

definition cvAPDBLockScalarCanonicalBytes :: "cvAPDBLockScalar \<Rightarrow> bytes res" where
  "cvAPDBLockScalarCanonicalBytes lock =
     (if \<not> lockShape lock then Err ''invalid CV V2 APDB lock''
      else if lk_canonicalWire lock \<noteq> [] then Ok (lk_canonicalWire lock)
      else Ok (cvWriteBytesIgnore (lk_Certificate lock) (cvWriteBytesIgnore (lk_Root lock)
        (cvWriteBytesIgnore (lk_InstanceDigest lock) (cvWriteBytesIgnore (bytes_of cvAPDBLockWireDomain) [])))))"

definition cvDecodeAPDBLockScalar :: "bytes \<Rightarrow> cvAPDBLockScalar res" where
  "cvDecodeAPDBLockScalar wire =
     bindR (reErr ''invalid CV V2 APDB lock domain'' (cvReader_bytes (int (length cvAPDBLockWireDomain)) wire)) (\<lambda>(domain, r).
     if domain \<noteq> bytes_of cvAPDBLockWireDomain then Err ''invalid CV V2 APDB lock domain'' else
     bindR (reErr ''invalid CV V2 APDB lock instance'' (cvReader_bytes 32 r)) (\<lambda>(instanceDigest, r).
     if length instanceDigest \<noteq> 32 then Err ''invalid CV V2 APDB lock instance'' else
     bindR (reErr ''invalid CV V2 APDB lock root'' (cvReader_bytes 32 r)) (\<lambda>(rootDigest, r).
     if length rootDigest \<noteq> 32 then Err ''invalid CV V2 APDB lock root'' else
     bindR (reErr ''invalid CV V2 APDB lock certificate'' (cvReader_bytes cvMaxComponentSignatureBytes r)) (\<lambda>(certificate, r).
     if certificate = [] \<or> r \<noteq> [] then Err ''invalid CV V2 APDB lock certificate'' else
     let lock = \<lparr>lk_InstanceDigest = instanceDigest, lk_Root = rootDigest, lk_Certificate = certificate, lk_canonicalWire = []\<rparr> in
     bindR (reErr ''non-canonical CV V2 APDB lock'' (cvAPDBLockScalarCanonicalBytes lock)) (\<lambda>canonical.
     if canonical \<noteq> wire then Err ''non-canonical CV V2 APDB lock'' else Ok (lock\<lparr>lk_canonicalWire := canonical\<rparr>))))))"

definition cvAPDBStoreScalarCanonicalBytes :: "cvAPDBStoreScalar \<Rightarrow> int \<Rightarrow> int \<Rightarrow> bytes res" where
  "cvAPDBStoreScalarCanonicalBytes store totalShards shardBytes =
     bindR (cvVerifyAPDBStoreScalar store totalShards shardBytes) (\<lambda>_.
     let wire = cvWriteBytesIgnore (st_Root store) (cvWriteBytesIgnore (st_InstanceDigest store)
       (cvWriteBytesIgnore (bytes_of cvAPDBStoreWireDomain) [])) in
     bindR (cvWriteUint32 wire (st_Index store)) (\<lambda>wire.
     let wire = cvWriteBytesIgnore (st_Shard store) wire in
     bindR (cvWriteUint32 wire (int (length (st_Siblings store)))) (\<lambda>wire.
     Ok (fold cvWriteBytesIgnore (st_Siblings store) wire))))"

fun readSiblings :: "nat \<Rightarrow> bytes \<Rightarrow> (bytes list \<times> bytes) res" where
  "readSiblings 0 r = Ok ([], r)"
| "readSiblings (Suc n) r =
     bindR (reErr ''invalid CV V2 APDB store sibling'' (cvReader_bytes 32 r)) (\<lambda>(sibling, r).
     if length sibling \<noteq> 32 then Err ''invalid CV V2 APDB store sibling'' else
     bindR (readSiblings n r) (\<lambda>(siblings, r). Ok (sibling # siblings, r)))"

definition cvDecodeAPDBStoreScalar :: "bytes \<Rightarrow> int \<Rightarrow> int \<Rightarrow> cvAPDBStoreScalar res" where
  "cvDecodeAPDBStoreScalar wire totalShards shardBytes =
     bindR (reErr ''invalid CV V2 APDB store domain'' (cvReader_bytes (int (length cvAPDBStoreWireDomain)) wire)) (\<lambda>(domain, r).
     if domain \<noteq> bytes_of cvAPDBStoreWireDomain then Err ''invalid CV V2 APDB store domain'' else
     bindR (reErr ''invalid CV V2 APDB store instance'' (cvReader_bytes 32 r)) (\<lambda>(instanceDigest, r).
     if length instanceDigest \<noteq> 32 then Err ''invalid CV V2 APDB store instance'' else
     bindR (reErr ''invalid CV V2 APDB store root'' (cvReader_bytes 32 r)) (\<lambda>(rootDigest, r).
     if length rootDigest \<noteq> 32 then Err ''invalid CV V2 APDB store root'' else
     bindR (reErr ''invalid CV V2 APDB store index'' (cvReader_uint32 r)) (\<lambda>(index, r).
     if index < 0 \<or> index \<ge> totalShards then Err ''invalid CV V2 APDB store index'' else
     bindR (reErr ''invalid CV V2 APDB store shard'' (cvReader_bytes shardBytes r)) (\<lambda>(shard, r).
     if int (length shard) \<noteq> shardBytes then Err ''invalid CV V2 APDB store shard'' else
     bindR (reErr ''invalid CV V2 APDB store branch depth'' (cvReader_uint32 r)) (\<lambda>(depth, r).
     if depth \<noteq> cvAPDBMerkleDepth totalShards then Err ''invalid CV V2 APDB store branch depth'' else
     bindR (readSiblings (nat depth) r) (\<lambda>(siblings, r).
     if r \<noteq> [] then Err ''trailing CV V2 APDB store bytes'' else
     let store = \<lparr>st_InstanceDigest = instanceDigest, st_Root = rootDigest, st_Index = index, st_Shard = shard, st_Siblings = siblings\<rparr> in
     bindR (cvVerifyAPDBStoreScalar store totalShards shardBytes) (\<lambda>_. Ok store))))))))"

section \<open>The tree\<close>

definition shardInput :: "bytes \<Rightarrow> nat \<Rightarrow> bytes \<Rightarrow> bytes" where
  "shardInput instanceDigest index shard = bytes_of cvAPDBShardDomain @ instanceDigest @ put32 (word_of_nat index) @ shard"

definition nodeInput :: "bytes \<Rightarrow> bytes \<Rightarrow> bytes" where
  "nodeInput l r = bytes_of cvAPDBNodeDomain @ l @ r"

interpretation apdb: merkle_tree apdbNode nodeInput "cvAPDBShardHashScalar inst" "shardInput inst" for inst
proof unfold_locales
  fix l r l' r'
  assume "nodeInput l r = nodeInput l' r'" "length l = length l' \<or> length r = length r'"
  then show "l = l' \<and> r = r'" by (auto simp: nodeInput_def)
next
  fix i s l r
  show "shardInput inst i s \<noteq> nodeInput l r"
    by (simp add: shardInput_def nodeInput_def bytes_of_Cons)
qed (simp_all add: apdbNode_def nodeInput_def cvAPDBShardHashScalar_def shardInput_def cv_hashBytes_def)

lemma pairUp_pad: "pairUp apdbNode (padLevel level) = nextLevel apdbNode level"
  by (simp add: nextLevel_def)

lemma plain_sibling:
  assumes "i < length level"
  shows "level ! siblingPos (length level) i = padLevel level ! siblingPos (length (padLevel level)) i"
proof -
  have x: "i XOR 1 = (if even i then i + 1 else i - 1)" using xor_one_eq [of i] by simp
  have p: "siblingPos (length (padLevel level)) i = (if even i then i + 1 else i - 1)"
    by (rule padLevel_sibling [OF assms])
  show ?thesis
  proof (cases "(if even i then i + 1 else i - 1) < length level")
    case True
    then have "siblingPos (length level) i = (if even i then i + 1 else i - 1)"
      unfolding siblingPos_def Let_def x by simp
    with True show ?thesis unfolding p by simp
  next
    case False
    then have last: "even i" "length level = i + 1" using assms by (auto split: if_splits)
    then have "padLevel level ! (i + 1) = last level" by (simp add: padLevel_def nth_append)
    moreover have "level ! i = last level" using last last_conv_nth [of level] by fastforce
    moreover have "siblingPos (length level) i = i" unfolding siblingPos_def Let_def x using last by simp
    ultimately show ?thesis using last unfolding p by simp
  qed
qed

lemma apdbBranch_levels:
  "i < length level \<Longrightarrow> apdbBranch (apdbLevels level) i = pathFrom apdbNode level i"
proof (induction level arbitrary: i rule: apdbLevels.induct)
  case (1 level)
  show ?case
  proof (cases "length level > 1")
    case True
    have l: "apdbLevels level = level # apdbLevels (nextLevel apdbNode level)"
      using True by (simp add: apdbLevels.simps [of level] pairUp_pad)
    obtain u rest where u: "apdbLevels (nextLevel apdbNode level) = u # rest"
      by (cases "apdbLevels (nextLevel apdbNode level)")
        (simp_all add: apdbLevels.simps [of "nextLevel apdbNode level"] split: if_splits)
    have "i div 2 < length (nextLevel apdbNode level)" using "1.prems" by simp
    then have "apdbBranch (u # rest) (i div 2) = pathFrom apdbNode (nextLevel apdbNode level) (i div 2)"
      using "1.IH" [OF True, of "i div 2"] u by (simp add: pairUp_pad)
    then show ?thesis
      using True plain_sibling [OF "1.prems"] by (simp add: l u pathFrom.simps [of apdbNode level])
  next
    case False
    then show ?thesis by (simp add: apdbLevels.simps [of level] pathFrom.simps [of apdbNode level])
  qed
qed

lemma last_apdbLevels: "last (apdbLevels level) = topLevel apdbNode level"
proof (induction level rule: apdbLevels.induct)
  case (1 level)
  have "apdbLevels l \<noteq> []" for l by (simp add: apdbLevels.simps [of l])
  then show ?case using 1
    by (simp add: apdbLevels.simps [of level] topLevel.simps [of apdbNode level] pairUp_pad)
qed

abbreviation apdbLeaves :: "bytes \<Rightarrow> bytes list \<Rightarrow> bytes list" where
  "apdbLeaves inst shards \<equiv> map2 (cvAPDBShardHashScalar inst) [0..<length shards] shards"

lemma buildMerkle_apdb:
  assumes "shards \<noteq> []"
  shows "cvAPDBBuildMerkleScalar inst shards = Ok (hd (topLevel apdbNode (apdbLeaves inst shards)),
    map (pathFrom apdbNode (apdbLeaves inst shards)) [0..<length shards])"
proof -
  have "length (topLevel apdbNode (apdbLeaves inst shards)) = 1"
    using assms by (intro length_topLevel) (auto simp flip: length_greater_0_conv)
  then have "indexR (topLevel apdbNode (apdbLeaves inst shards)) 0 = Ok (hd (topLevel apdbNode (apdbLeaves inst shards)))"
    by (cases "topLevel apdbNode (apdbLeaves inst shards)") (auto simp: indexR_def)
  then show ?thesis
    by (simp add: cvAPDBBuildMerkleScalar_def Let_def last_apdbLevels apdbBranch_levels)
qed

lemma depth_eq: "cvAPDBMerkleDepth n = int (merkleDepth (nat n))"
proof (induction n rule: cvAPDBMerkleDepth.induct)
  case (1 n)
  show ?case
  proof (cases "1 < n")
    case True
    have "(nat n + 1) div 2 = nat ((n + 1) div 2)" using True by (simp add: nat_div_distrib nat_add_distrib)
    then show ?thesis using 1 True by (simp add: cvAPDBMerkleDepth.simps [of n] merkleDepth.simps [of "nat n"])
  next
    case False
    then show ?thesis by (simp add: cvAPDBMerkleDepth.simps [of n] merkleDepth.simps [of "nat n"])
  qed
qed

lemma apdbClimb_eq:
  "apdbClimb digest index sibs = Ok x \<longleftrightarrow> (\<forall>s \<in> set sibs. length s = 32) \<and> x = climb apdbNode digest index sibs"
  by (induction sibs arbitrary: digest index) (auto simp: even_iff_mod_2_eq_zero)

lemma verify_iff:
  "cvVerifyAPDBStoreScalar store totalShards shardBytes = Ok () \<longleftrightarrow>
     length (st_InstanceDigest store) = 32 \<and> length (st_Root store) = 32 \<and> 0 \<le> st_Index store \<and> st_Index store < totalShards \<and>
     0 < shardBytes \<and> int (length (st_Shard store)) = shardBytes \<and>
     length (st_Siblings store) = merkleDepth (nat totalShards) \<and> (\<forall>s \<in> set (st_Siblings store). length s = 32) \<and>
     climb apdbNode (cvAPDBShardHashScalar (st_InstanceDigest store) (nat (st_Index store)) (st_Shard store))
       (st_Index store) (st_Siblings store) = st_Root store"
  by (auto simp: cvVerifyAPDBStoreScalar_def depth_eq apdbClimb_eq split: if_splits)

section \<open>Codes\<close>

text \<open>What \<^verbatim>\<open>Split\<close> promises when the data fill the shards: nothing is added.\<close>

definition rs_exact :: "rsCoder \<Rightarrow> bool" where
  "rs_exact rs \<longleftrightarrow> (\<forall>k m data shards enc. rs_New rs k m = Ok () \<longrightarrow> data \<noteq> [] \<longrightarrow> k dvd int (length data) \<longrightarrow>
     rs_Split rs k m data = Ok shards \<longrightarrow> rs_Encode rs k m shards = Ok enc \<longrightarrow> concat (take (nat k) enc) = data)"

lemma plainShards_exact:
  assumes "length payload = n * b" "0 < n"
  shows "plainShards payload n = map (\<lambda>i. take b (drop (i * b) payload)) [0..<n]"
proof -
  have sz: "(length payload + n - 1) div n = b"
  proof (cases "b = 0")
    case False
    have "(n * b + n - 1) div n = b"
      by (rule div_nat_eqI) (use assms(2) in \<open>auto simp: algebra_simps\<close>)
    then show ?thesis using assms(1) by simp
  qed (use assms in simp)
  have "length (take b (drop (i * b) payload)) = b" if "i < n" for i
  proof -
    have "i * b + b \<le> n * b" using that by (metis Suc_leI add.commute mult_Suc mult_le_mono1)
    then show ?thesis using assms(1) by simp
  qed
  then show ?thesis unfolding plainShards_def sz Let_def by (intro map_cong) auto
qed

lemma concat_chunks: "length payload = n * b \<Longrightarrow> concat (map (\<lambda>i. take b (drop (i * b) payload)) [0..<n]) = payload"
proof (induction n arbitrary: payload)
  case (Suc n)
  have d: "length (drop b payload) = n * b" using Suc.prems by simp
  have "map (\<lambda>i. take b (drop (i * b) payload)) [0..<Suc n] =
      take b payload # map (\<lambda>i. take b (drop (i * b) (drop b payload))) [0..<n]"
    by (simp add: upt_conv_Cons map_Suc_upt [symmetric] o_def add.commute del: upt_Suc)
  then show ?case using Suc.IH [OF d] by (simp del: upt_Suc)
qed simp

lemma chunks_length:
  assumes "length payload = n * b"
  shows "\<forall>s \<in> set (map (\<lambda>i. take b (drop (i * b) payload)) [0..<n]). length s = b"
proof -
  have "length (take b (drop (i * b) payload)) = b" if "i < n" for i
  proof -
    have "i * b + b \<le> n * b" using that by (metis Suc_leI add.commute mult_Suc mult_le_mono1)
    then show ?thesis using assms by simp
  qed
  then show ?thesis by auto
qed

text \<open>A code word: its data shards hold the data, and any \<open>k\<close> of its shards decode to it.\<close>

lemma cvErasureEncode_Ok:
  assumes laws: "rs_laws rs" "rs_exact rs" and k: "0 < k" "k \<le> n"
    and data: "int (length data) = k * b" "0 < b" and enc: "cvErasureEncode rs data k n = Ok shards"
  shows "int (length shards) = n \<and> (\<forall>s \<in> set shards. int (length s) = b) \<and> concat (take (nat k) shards) = data \<and>
    (\<forall>part. shardSubset (nat k) shards part \<longrightarrow> cvErasureDecode rs part k = Ok data)"
proof -
  have kb: "int (length data) = int (nat k * nat b)" using data k by simp
  have ne: "data \<noteq> []" using data k by auto
  show ?thesis
  proof (cases "k = n")
    case True
    have len: "length data = nat k * nat b" using kb unfolding of_nat_eq_iff .
    have sh: "shards = map (\<lambda>i. take (nat b) (drop (i * nat b) data)) [0..<nat k]"
      using enc True k plainShards_exact [OF len] by (simp add: cvErasureEncode_def)
    have l: "\<forall>s \<in> set shards. int (length s) = b" using chunks_length [OF len] sh data(2) by auto
    have c: "concat shards = data" using concat_chunks [OF len] sh by simp
    have "cvErasureDecode rs part k = Ok data" if "shardSubset (nat k) shards part" for part
    proof -
      have ln: "length part = nat k" using that sh by (simp add: shardSubset_def)
      have full: "\<not> length (filter (\<lambda>s. s \<noteq> []) part) < length part"
        using that ln by (simp add: shardSubset_def)
      have nonempty: "\<forall>s \<in> set part. s \<noteq> []"
        using full length_filter_less [where P = "\<lambda>s. s \<noteq> []" and xs = part] by blast
      then have "part = shards" using that ln sh by (intro nth_equalityI) (auto simp: shardSubset_def)
      then show ?thesis using c nonempty ln k by (auto simp: cvErasureDecode_def Let_def)
    qed
    then show ?thesis using True l c sh k by auto
  next
    case False
    let ?m = "n - k"
    have new: "rs_New rs k ?m = Ok ()" using enc False k by (auto simp: cvErasureEncode_def cvCachedRSEncoder_def split: if_splits)
    obtain split e zs L where law: "rs_Split rs k ?m data = Ok split" "rs_Encode rs k ?m split = Ok e" "0 < L"
      "length e = nat (k + ?m)" "\<forall>s \<in> set e. length s = L" "concat (take (nat k) e) = data @ zs"
      "\<forall>part. shardSubset (nat k) e part \<longrightarrow> rs_Reconstruct rs k ?m part = Ok e"
      "rs_Join rs k ?m e (int L * k) = Ok (data @ zs)"
      using laws(1)[unfolded rs_laws_def, rule_format, OF new ne] by blast
    have e: "shards = e" using enc False k new law(1,2) by (simp add: cvErasureEncode_def cvCachedRSEncoder_def)
    have "concat (take (nat k) e) = data"
      using laws(2) new ne law(1,2) data unfolding rs_exact_def by simp
    then have zs: "zs = []" using law(6) by simp
    have "length (concat (take (nat k) e)) = nat k * L"
    proof -
      have "\<forall>s \<in> set (take (nat k) e). length s = L" using law(5) by (meson in_set_takeD)
      then have "map length (take (nat k) e) = replicate (length (take (nat k) e)) L" by (intro replicate_eqI) auto
      moreover have "length (take (nat k) e) = nat k" using law(4) k by simp
      ultimately show ?thesis by (simp add: length_concat sum_list_replicate)
    qed
    then have "int (nat k * L) = k * b" using data(1) law(6) zs by simp
    then have L: "int L = b" using k by simp
    have dec: "cvErasureDecode rs part k = Ok data" if p: "shardSubset (nat k) e part" for part
    proof -
      have ln: "int (length part) = n" using p law(4) k by (simp add: shardSubset_def)
      obtain h t where ht: "e = h # t" using law(4) k by (cases e) auto
      then have "length h = L" using law(5) by simp
      then show ?thesis
        using law(7,8) p ln False k new zs ht by (simp add: cvErasureDecode_def Let_def cvCachedRSEncoder_def indexR_def)
    qed
    show ?thesis using e law(4,5,6) L zs dec k by auto
  qed
qed

text \<open>The packed payload, read back.\<close>

lemma length_apdbPacked: "8 + length payload \<le> wanted \<Longrightarrow> length (apdbPacked payload wanted) = wanted"
  by (simp add: apdbPacked_def Let_def)

lemma apdbPacked_split: "apdbPacked payload wanted = put64 (word_of_nat (length payload)) @ payload @ replicate (wanted - 8 - length payload) 0"
  by (simp add: apdbPacked_def Let_def)

lemma apdbUnpack_pack:
  assumes "payload \<noteq> []" "int (length payload) \<le> mx" "length payload < 2 ^ 64"
  shows "apdbUnpack (apdbPacked payload wanted) mx = Ok payload"
proof -
  have "unat (word_of_nat (length payload) :: 64 word) = length payload"
    using assms(3) by (simp add: unat_of_nat take_bit_nat_eq_self)
  then show ?thesis using assms(1,2) by (simp add: apdbUnpack_def apdbPacked_split Let_def)
qed

lemma apdbPacked_inj:
  assumes "apdbPacked p w = apdbPacked q w" "length p < 2 ^ 64" "length q < 2 ^ 64" "p \<noteq> []" "q \<noteq> []"
  shows "p = q"
proof -
  have "Ok p = apdbUnpack (apdbPacked p w) (2 ^ 64)" by (rule apdbUnpack_pack [symmetric]) (use assms in auto)
  also have "\<dots> = Ok q" unfolding assms(1) by (rule apdbUnpack_pack) (use assms in auto)
  finally show ?thesis by simp
qed

lemma apdbUnpack_bound:
  assumes "apdbUnpack packed mx = Ok p"
  shows "length p < 2 ^ 64" "p \<noteq> []" "int (length p) \<le> mx"
proof -
  define l where "l = unat (get64 (take 8 packed))"
  have "8 \<le> length packed" "0 < l" "int l \<le> int (length packed) - 8" "int l \<le> mx" "p = take l (drop 8 packed)"
    using assms unfolding apdbUnpack_def Let_def l_def [symmetric] by (auto split: if_splits)
  then have "length p = l" "0 < l" "int l \<le> mx" by auto
  then show "length p < 2 ^ 64" "p \<noteq> []" "int (length p) \<le> mx"
    using unsigned_less [where 'a = nat, of "get64 (take 8 packed)"] by (auto simp: l_def)
qed

text \<open>What an encoding holds.\<close>

lemma encodeSized_Ok:
  assumes "cvAPDBEncodeSizedScalar rs inst payload k n b mx = Ok enc"
  obtains shards where "length inst = 32" "payload \<noteq> []" "0 < k" "k \<le> n" "0 < b" "int (length payload) \<le> mx" "0 < mx"
    "int (length (apdbPacked payload (nat (k * b)))) = k * b"
    "cvErasureEncode rs (apdbPacked payload (nat (k * b))) k n = Ok shards" "shards \<noteq> []" "int (length shards) = n"
    "en_root enc = hd (topLevel apdbNode (apdbLeaves inst shards))" "en_shardBytes enc = int (length (shards ! 0))"
    "en_stores enc = map (\<lambda>i. \<lparr>st_InstanceDigest = inst, st_Root = en_root enc, st_Index = int i, st_Shard = shards ! i,
       st_Siblings = pathFrom apdbNode (apdbLeaves inst shards) i\<rparr>) [0..<length shards]"
    "en_instanceDigest enc = inst"
proof -
  have g: "length inst = 32" "payload \<noteq> []" "0 < k" "k \<le> n" "0 < b" "int (length payload) \<le> mx" "0 < mx"
    "8 + int (length payload) \<le> k * b"
    using assms by (auto simp: cvAPDBEncodeSizedScalar_def split: if_splits)
  have len: "int (length (apdbPacked payload (nat (k * b)))) = k * b"
    using g(8) by (subst length_apdbPacked) auto
  obtain shards where e: "cvErasureEncode rs (apdbPacked payload (nat (k * b))) k n = Ok shards"
    using assms g by (auto simp: cvAPDBEncodeSizedScalar_def split: if_splits)
  then have s: "int (length shards) = n" "shards \<noteq> []"
    using assms g by (auto simp: cvAPDBEncodeSizedScalar_def split: if_splits)
  show thesis
    by (rule that [OF g(1-7) len e s(2,1)])
      (use assms g e s in \<open>auto simp: cvAPDBEncodeSizedScalar_def buildMerkle_apdb split: if_splits\<close>)
qed

end
