(* ===== verification/Cv_APDB_Props.thy ===== *)
theory Cv_APDB_Props
  imports Cv_APDB
begin

text \<open>
  What dispersal promises: one payload per instance and root, recovery from any \<open>k\<close> verified stores, an
  ending level loop, and canonical wire forms.
\<close>

section \<open>One payload per root\<close>

text \<open>The strings an encoder hashes for its tree, and a verifier for an opening.\<close>

definition encodingStrings :: "bytes \<Rightarrow> bytes list \<Rightarrow> bytes set" where
  "encodingStrings inst shards = treeInputs apdbNode nodeInput (apdbLeaves inst shards) \<union>
     (\<lambda>i. shardInput inst i (shards ! i)) ` {..<length shards}"

definition openingStrings :: "cvAPDBStoreScalar \<Rightarrow> bytes set" where
  "openingStrings store =
    (let leaf = shardInput (st_InstanceDigest store) (nat (st_Index store)) (st_Shard store) in
     insert leaf (climbInputs apdbNode nodeInput (sha256 leaf) (st_Index store) (st_Siblings store)))"

definition encodedShards :: "rsCoder \<Rightarrow> bytes \<Rightarrow> int \<Rightarrow> int \<Rightarrow> int \<Rightarrow> bytes list" where
  "encodedShards rs payload k n b =
    (case cvErasureEncode rs (apdbPacked payload (nat (k * b))) k n of Ok shards \<Rightarrow> shards | _ \<Rightarrow> [])"

lemma treeInputs_step:
  "1 < length level \<Longrightarrow> treeInputs node inp level = pairInputs inp (padLevel level) \<union> treeInputs node inp (nextLevel node level)"
  unfolding treeInputs_def
  by (subst merkleDepth.simps) (simp add: lessThan_Suc_eq_insert_0 funpow_swap1 image_image)

lemma climbInputs_pathFrom:
  "i < length level \<Longrightarrow> climbInputs node inp (level ! i) (int i) (pathFrom node level i) \<subseteq> treeInputs node inp level"
proof (induction node level i rule: pathFrom.induct)
  case (1 node level i)
  show ?case
  proof (cases "length level > 1")
    case False
    then show ?thesis by (simp add: pathFrom.simps [of node level])
  next
    case True
    let ?p = "padLevel level" and ?j = "i div 2"
    have half: "goHalf (int i) = int ?j" by (simp add: goHalf_def zdiv_int)
    have sib: "siblingPos (length ?p) i = (if even i then i + 1 else i - 1)" by (rule padLevel_sibling [OF "1.prems"])
    have pair: "?p ! (2 * ?j) = level ! i \<and> ?p ! (2 * ?j + 1) = ?p ! (i + 1)" if "even i"
      using that "1.prems" by (auto elim!: evenE)
    have pair': "?p ! (2 * ?j) = ?p ! (i - 1) \<and> ?p ! (2 * ?j + 1) = level ! i" if "odd i"
      using that "1.prems" by (auto elim!: oddE)
    have nx: "nextLevel node level ! ?j = node (?p ! (2 * ?j)) (?p ! (2 * ?j + 1))" by (rule nth_nextLevel [OF "1.prems"])
    have first: "inp (?p ! (2 * ?j)) (?p ! (2 * ?j + 1)) \<in> pairInputs inp ?p"
      by (intro pairInputs_nth) (unfold length_padLevel, rule pair_bound [OF "1.prems"])
    have "?j < length (nextLevel node level)" using "1.prems" by simp
    then have "climbInputs node inp (nextLevel node level ! ?j) (int ?j) (pathFrom node (nextLevel node level) ?j)
        \<subseteq> treeInputs node inp (nextLevel node level)" by (rule "1.IH" [OF True])
    then show ?thesis
      using True first pair pair'
      by (cases "even i") (auto simp: pathFrom.simps [of node level] treeInputs_step half sib nx)
  qed
qed

lemma apdbLeaves_nth: "i < length shards \<Longrightarrow> apdbLeaves inst shards ! i = sha256 (shardInput inst i (shards ! i))"
  by (simp add: cvAPDBShardHashScalar_def cv_hashBytes_def shardInput_def)

lemma store_is_shard:
  assumes st: "cvVerifyAPDBStoreScalar store n b = Ok ()"
    and inst: "st_InstanceDigest store = inst" and rt: "st_Root store = hd (topLevel apdbNode (apdbLeaves inst shards))"
    and n: "int (length shards) = n"
    and nocoll: "\<And>x y. x \<in> encodingStrings inst shards \<Longrightarrow> y \<in> openingStrings store \<Longrightarrow> \<not> collision y x"
  shows "st_Shard store = shards ! nat (st_Index store)"
proof -
  define i where "i = nat (st_Index store)"
  have v: "0 \<le> st_Index store" "st_Index store < n"
    "climb apdbNode (cvAPDBShardHashScalar inst i (st_Shard store)) (int i) (st_Siblings store) = st_Root store"
    using st[unfolded verify_iff] inst by (auto simp: i_def)
  have "st_Shard store = shards ! i \<and> length (st_Siblings store) = merkleDepth (length shards)"
    using v n rt inst nocoll
    by (intro apdb.opening_sound) (auto simp: i_def encodingStrings_def openingStrings_def Let_def apdb.leaf_sha)
  then show ?thesis by (simp add: i_def)
qed

lemma same_root_same_shards:
  assumes "hd (topLevel apdbNode (apdbLeaves inst shards)) = hd (topLevel apdbNode (apdbLeaves inst shards'))"
    and len: "length shards = length shards'"
    and nocoll: "\<And>x y. x \<in> encodingStrings inst shards' \<Longrightarrow> y \<in> encodingStrings inst shards \<Longrightarrow> \<not> collision y x"
  shows "shards = shards'"
proof (rule nth_equalityI [OF len])
  fix i assume i: "i < length shards"
  let ?path = "pathFrom apdbNode (apdbLeaves inst shards) i"
  have leaf: "apdbLeaves inst shards ! i = cvAPDBShardHashScalar inst i (shards ! i)" using i by simp
  have root: "climb apdbNode (cvAPDBShardHashScalar inst i (shards ! i)) (int i) ?path = hd (topLevel apdbNode (apdbLeaves inst shards'))"
    using climb_pathFrom [of i "apdbLeaves inst shards" apdbNode] i assms(1) leaf by simp
  have "insert (shardInput inst i (shards ! i)) (climbInputs apdbNode nodeInput (cvAPDBShardHashScalar inst i (shards ! i)) (int i) ?path)
      \<subseteq> encodingStrings inst shards"
    using climbInputs_pathFrom [of i "apdbLeaves inst shards" apdbNode nodeInput] i leaf by (auto simp: encodingStrings_def)
  then have "shards ! i = shards' ! i \<and> length ?path = merkleDepth (length shards')"
    using root i len nocoll by (intro apdb.opening_sound) (auto simp: encodingStrings_def)
  then show "shards ! i = shards' ! i" by simp
qed

lemma recover_Ok:
  assumes "cvRecoverAPDBScalar rs lock stores k n b mx bindingCheck = Ok payload"
  obtains enc where "cvAPDBEncodeSizedScalar rs (lk_InstanceDigest lock) payload k n b mx = Ok enc"
    "en_root enc = lk_Root lock" "length payload < 2 ^ 64"
proof -
  obtain packed p where u: "apdbUnpack packed mx = Ok p"
    and tail: "(case cvAPDBEncodeSizedScalar rs (lk_InstanceDigest lock) p k n b mx of
        Panic \<Rightarrow> Panic
      | Err e \<Rightarrow> Err ''CV V2 APDB deterministic re-encoding root mismatch''
      | Ok reencoded \<Rightarrow>
          if en_root reencoded \<noteq> lk_Root lock then Err ''CV V2 APDB deterministic re-encoding root mismatch''
          else (case bindingCheck of None \<Rightarrow> Ok p
            | Some check \<Rightarrow> bindR (reErr ''CV V2 APDB binding check'' (check p)) (\<lambda>_. Ok p))) = Ok payload"
    using assms unfolding cvRecoverAPDBScalar_def by (auto split: if_split_asm)
  from tail have "p = payload" "\<exists>enc. cvAPDBEncodeSizedScalar rs (lk_InstanceDigest lock) p k n b mx = Ok enc \<and> en_root enc = lk_Root lock"
    by (auto split: res.split_asm if_split_asm option.split_asm)
  then show thesis using that apdbUnpack_bound(1) [OF u] by blast
qed

text \<open>C9. Agreement: two recoveries for the same instance and root, from whatever stores and by whatever nodes,
  return the same payload, or the strings hashed by the two re-encodings hold a SHA-256 collision.\<close>

theorem apdb_recover_agreement:
  assumes "rs_laws rs" "rs_exact rs"
    and "cvRecoverAPDBScalar rs lock stores k n b mx bindingCheck = Ok payload"
    and "cvRecoverAPDBScalar rs lock' stores' k n b mx' bindingCheck' = Ok payload'"
    and "lk_InstanceDigest lock = lk_InstanceDigest lock'" "lk_Root lock = lk_Root lock'"
  shows "payload = payload' \<or>
    (\<exists>x y. x \<in> encodingStrings (lk_InstanceDigest lock) (encodedShards rs payload k n b) \<and>
       y \<in> encodingStrings (lk_InstanceDigest lock) (encodedShards rs payload' k n b) \<and> collision x y)"
proof -
  let ?I = "lk_InstanceDigest lock"
  obtain enc where e: "cvAPDBEncodeSizedScalar rs ?I payload k n b mx = Ok enc" "en_root enc = lk_Root lock" and l: "length payload < 2 ^ 64"
    using assms(3) by (rule recover_Ok)
  obtain enc' where e': "cvAPDBEncodeSizedScalar rs ?I payload' k n b mx' = Ok enc'" "en_root enc' = lk_Root lock"
    and l': "length payload' < 2 ^ 64"
    by (rule recover_Ok [OF assms(4)]) (use assms(5,6) that in auto)
  from e(1) obtain sh where sh: "payload \<noteq> []" "0 < k" "k \<le> n" "0 < b" "int (length (apdbPacked payload (nat (k * b)))) = k * b"
    "cvErasureEncode rs (apdbPacked payload (nat (k * b))) k n = Ok sh" "int (length sh) = n"
    "en_root enc = hd (topLevel apdbNode (apdbLeaves ?I sh))"
    by (rule encodeSized_Ok)
  from e'(1) obtain sh' where sh': "payload' \<noteq> []" "int (length (apdbPacked payload' (nat (k * b)))) = k * b"
    "cvErasureEncode rs (apdbPacked payload' (nat (k * b))) k n = Ok sh'" "int (length sh') = n"
    "en_root enc' = hd (topLevel apdbNode (apdbLeaves ?I sh'))"
    by (rule encodeSized_Ok)
  have es: "encodedShards rs payload k n b = sh" "encodedShards rs payload' k n b = sh'"
    using sh(6) sh'(3) by (simp_all add: encodedShards_def)
  show ?thesis
  proof (rule disjCI)
    assume nc: "\<not> (\<exists>x y. x \<in> encodingStrings ?I (encodedShards rs payload k n b) \<and>
       y \<in> encodingStrings ?I (encodedShards rs payload' k n b) \<and> collision x y)"
    have "sh = sh'"
      by (rule same_root_same_shards [of ?I]) (use nc sh(7,8) sh'(4,5) e(2) e'(2) es in auto)
    then have "apdbPacked payload (nat (k * b)) = apdbPacked payload' (nat (k * b))"
      using cvErasureEncode_Ok [OF assms(1,2) sh(2,3,5,4,6)] cvErasureEncode_Ok [OF assms(1,2) sh(2,3) sh'(2) sh(4) sh'(3)] by simp
    then show "payload = payload'" by (rule apdbPacked_inj) (use l l' sh(1) sh'(1) in auto)
  qed
qed

section \<open>Recovery succeeds\<close>

text \<open>The stores in their places.\<close>

definition placed :: "int \<Rightarrow> cvAPDBStoreScalar list \<Rightarrow> bytes list" where
  "placed n stores = fold (\<lambda>store shards. shards[nat (st_Index store) := st_Shard store]) stores (replicate (nat n) [])"

lemma placeStores_Ok:
  assumes "\<forall>store \<in> set stores. st_InstanceDigest store = lk_InstanceDigest lock \<and> st_Root store = lk_Root lock \<and>
      cvVerifyAPDBStoreScalar store n b = Ok ()"
    and "distinct (map st_Index stores)" "set (map st_Index stores) \<inter> set seen = {}"
  shows "placeStores lock n b stores shards seen =
    Ok (fold (\<lambda>store shards. shards[nat (st_Index store) := st_Shard store]) stores shards, rev (map st_Index stores) @ seen)"
  using assms
proof (induction stores arbitrary: shards seen)
  case (Cons store stores)
  have "placeStores lock n b (store # stores) shards seen =
      placeStores lock n b stores (shards[nat (st_Index store) := st_Shard store]) (st_Index store # seen)"
    using Cons.prems by simp
  also have "\<dots> = Ok (fold (\<lambda>store shards. shards[nat (st_Index store) := st_Shard store]) stores
      (shards[nat (st_Index store) := st_Shard store]), rev (map st_Index stores) @ st_Index store # seen)"
    by (rule Cons.IH) (use Cons.prems in auto)
  finally show ?case by simp
qed simp

lemma fold_update_nth:
  assumes "distinct (map st_Index stores)" "\<forall>store \<in> set stores. 0 \<le> st_Index store" "i < length shards"
  shows "fold (\<lambda>store shards. shards[nat (st_Index store) := st_Shard store]) stores shards ! i =
    (case find (\<lambda>store. st_Index store = int i) stores of Some store \<Rightarrow> st_Shard store | None \<Rightarrow> shards ! i)"
  using assms
proof (induction stores arbitrary: shards)
  case (Cons store stores)
  have "find (\<lambda>s. st_Index s = int i) stores = None" if "st_Index store = int i"
    using Cons.prems(1) that by (force simp: find_None_iff)
  then show ?case using Cons by (auto simp: nth_list_update split: option.splits)
qed simp

lemma length_fold_update [simp]: "length (fold (\<lambda>store shards. shards[nat (st_Index store) := st_Shard store]) stores shards) = length shards"
  by (induction stores arbitrary: shards) auto

lemma placed_subset:
  assumes "distinct (map st_Index stores)" "int k \<le> int (length stores)"
    and st: "\<forall>store \<in> set stores. 0 \<le> st_Index store \<and> st_Index store < int (length shards) \<and> st_Shard store \<noteq> [] \<and>
      st_Shard store = shards ! nat (st_Index store)"
  shows "shardSubset k shards (placed (int (length shards)) stores)"
proof -
  let ?p = "placed (int (length shards)) stores"
  have nth: "?p ! i = (case find (\<lambda>store. st_Index store = int i) stores of Some store \<Rightarrow> st_Shard store | None \<Rightarrow> [])"
    if "i < length shards" for i
    unfolding placed_def using that fold_update_nth [OF assms(1), of i "replicate (length shards) []"] st
    by (auto split: option.splits)
  have each: "?p ! i = [] \<or> ?p ! i = shards ! i" if "i < length shards" for i
    using nth [OF that] st by (auto split: option.splits simp: find_Some_iff)
  have sub: "(\<lambda>s. nat (st_Index s)) ` set stores \<subseteq> {i. i < length ?p \<and> ?p ! i \<noteq> []}"
  proof clarify
    fix s assume s: "s \<in> set stores"
    let ?i = "nat (st_Index s)"
    have i: "?i < length shards" "int ?i = st_Index s" using st s by auto
    then have "find (\<lambda>store. st_Index store = int ?i) stores \<noteq> None" using s by (auto simp: find_None_iff)
    then obtain t where t: "find (\<lambda>store. st_Index store = int ?i) stores = Some t" by blast
    then have "t \<in> set stores" unfolding find_Some_iff by auto
    then have "st_Shard t \<noteq> []" using st by blast
    with t have "?p ! ?i \<noteq> []" using nth [OF i(1)] by simp
    then show "?i < length ?p \<and> ?p ! ?i \<noteq> []" using i by (simp add: placed_def)
  qed
  have "inj_on (\<lambda>s. nat (st_Index s)) (set stores)"
    using assms(1) st by (auto simp: inj_on_def distinct_map eq_nat_nat_iff)
  then have "length stores = card ((\<lambda>s. nat (st_Index s)) ` set stores)"
    using assms(1) by (simp add: card_image distinct_card distinct_map)
  also have "\<dots> \<le> card {i. i < length ?p \<and> ?p ! i \<noteq> []}" using sub by (rule card_mono [rotated]) simp
  also have "\<dots> = length (filter (\<lambda>s. s \<noteq> []) ?p)" by (simp add: length_filter_conv_card)
  finally show ?thesis using each assms(2) by (simp add: shardSubset_def placed_def)
qed

lemma encoded_store_verifies:
  assumes enc: "cvAPDBEncodeSizedScalar rs inst payload k n b mx = Ok enc" and laws: "rs_laws rs" "rs_exact rs"
    and st: "store \<in> set (en_stores enc)"
  shows "cvVerifyAPDBStoreScalar store n b = Ok () \<and> st_InstanceDigest store = inst \<and> st_Root store = en_root enc"
proof -
  from enc obtain sh where sh: "length inst = 32" "0 < k" "k \<le> n" "0 < b"
    "int (length (apdbPacked payload (nat (k * b)))) = k * b"
    "cvErasureEncode rs (apdbPacked payload (nat (k * b))) k n = Ok sh" "sh \<noteq> []" "int (length sh) = n"
    "en_root enc = hd (topLevel apdbNode (apdbLeaves inst sh))"
    "en_stores enc = map (\<lambda>i. \<lparr>st_InstanceDigest = inst, st_Root = en_root enc, st_Index = int i, st_Shard = sh ! i,
       st_Siblings = pathFrom apdbNode (apdbLeaves inst sh) i\<rparr>) [0..<length sh]"
    by (rule encodeSized_Ok)
  let ?L = "apdbLeaves inst sh"
  have L32: "\<forall>x \<in> set ?L. length x = 32" by (auto simp: in_set_conv_nth apdb.leaf_sha)
  have "\<forall>s \<in> set sh. int (length s) = b"
    using cvErasureEncode_Ok [OF laws sh(2,3,5,4,6)] by blast
  moreover obtain i where i: "i < length sh" "st_Index store = int i" "st_Shard store = sh ! i" "st_Siblings store = pathFrom apdbNode ?L i"
    "st_InstanceDigest store = inst" "st_Root store = en_root enc"
    using st by (auto simp: sh(10))
  moreover have "climb apdbNode (cvAPDBShardHashScalar inst i (sh ! i)) (int i) (pathFrom apdbNode ?L i) = en_root enc"
    using climb_pathFrom [of i ?L apdbNode] i(1) by (simp add: sh(9))
  moreover have "\<forall>s \<in> set (pathFrom apdbNode ?L i). length s = 32"
    by (rule set_pathFrom_length [OF L32]) (use i in simp_all)
  moreover have "length (hd (topLevel apdbNode ?L)) = 32"
  proof -
    have "?L \<noteq> []" using sh(7) by (auto simp flip: length_greater_0_conv)
    then have "length (topLevel apdbNode ?L) = 1" by (rule length_topLevel)
    moreover have "\<forall>x \<in> set (topLevel apdbNode ?L). length x = 32" unfolding topLevel_eq by (rule apdb.level_length32 [OF L32])
    ultimately show ?thesis by (cases "topLevel apdbNode ?L") auto
  qed
  ultimately show ?thesis
    using sh(1,4,8) length_pathFrom [of apdbNode ?L i] unfolding verify_iff by (auto simp: sh(9))
qed

text \<open>Recovery from verified stores that hold the shards of the encoding.\<close>

lemma recover_shards:
  assumes laws: "rs_laws rs" "rs_exact rs" "length payload < 2 ^ 64"
    and enc: "cvAPDBEncodeSizedScalar rs (lk_InstanceDigest lock) payload k n b mx = Ok enc" "lk_Root lock = en_root enc"
    and stores: "\<forall>store \<in> set stores. st_InstanceDigest store = lk_InstanceDigest lock \<and> st_Root store = lk_Root lock \<and>
      cvVerifyAPDBStoreScalar store n b = Ok ()"
    and dist: "distinct (map st_Index stores)" and many: "k \<le> int (length stores)"
    and check: "bindingCheck = None \<or> the bindingCheck payload = Ok ()"
    and shard: "\<And>store. store \<in> set stores \<Longrightarrow> st_Shard store = encodedShards rs payload k n b ! nat (st_Index store)"
  shows "cvRecoverAPDBScalar rs lock stores k n b mx bindingCheck = Ok payload"
proof -
  let ?I = "lk_InstanceDigest lock"
  from enc(1) obtain sh where sh: "length ?I = 32" "payload \<noteq> []" "0 < k" "k \<le> n" "0 < b" "int (length payload) \<le> mx" "0 < mx"
    "int (length (apdbPacked payload (nat (k * b)))) = k * b"
    "cvErasureEncode rs (apdbPacked payload (nat (k * b))) k n = Ok sh" "int (length sh) = n"
    by (rule encodeSized_Ok)
  note code = cvErasureEncode_Ok [OF laws(1,2) sh(3,4,8,5,9)]
  have es: "encodedShards rs payload k n b = sh" using sh(9) by (simp add: encodedShards_def)
  have each: "0 \<le> st_Index s \<and> st_Index s < int (length sh) \<and> st_Shard s \<noteq> [] \<and> st_Shard s = sh ! nat (st_Index s)"
    if s: "s \<in> set stores" for s
  proof -
    have "cvVerifyAPDBStoreScalar s n b = Ok ()" using stores s by blast
    then show ?thesis using sh(5,10) shard [OF s] es unfolding verify_iff by auto
  qed
  have sub: "shardSubset (nat k) sh (placed n stores)"
    unfolding sh(10) [symmetric]
  proof (rule placed_subset [OF dist])
    show "int (nat k) \<le> int (length stores)" using many sh(3) by simp
  qed (use each in blast)
  have dec: "cvErasureDecode rs (placed n stores) k = Ok (apdbPacked payload (nat (k * b)))"
    using code sub by blast
  have place: "placeStores lock n b stores (replicate (nat n) []) [] = Ok (placed n stores, rev (map st_Index stores))"
    using placeStores_Ok [OF stores dist, of "[]" "replicate (nat n) []"] by (simp add: placed_def)
  have unpack: "apdbUnpack (apdbPacked payload (nat (k * b))) mx = Ok payload"
    by (rule apdbUnpack_pack [OF sh(2,6) laws(3)])
  have root: "length (lk_Root lock) = 32"
    using stores many sh(3) unfolding verify_iff by (cases stores) auto
  show ?thesis
    using sh(1,3,4,5,7) root many check enc
    by (cases bindingCheck) (simp_all add: cvRecoverAPDBScalar_def place dec unpack)
qed

text \<open>C10. Recovery succeeds: for the instance and root of an encoding, any list of verified stores with distinct
  indices, at least \<open>k\<close> of them and whoever made them, recovers the encoded payload, or a string hashed to verify one
  of the stores collides with a string the encoder hashed.\<close>

theorem apdb_recover_complete:
  assumes "rs_laws rs" "rs_exact rs" "length payload < 2 ^ 64"
    and enc: "cvAPDBEncodeSizedScalar rs (lk_InstanceDigest lock) payload k n b mx = Ok enc" "lk_Root lock = en_root enc"
    and stores: "\<forall>store \<in> set stores. st_InstanceDigest store = lk_InstanceDigest lock \<and> st_Root store = lk_Root lock \<and>
      cvVerifyAPDBStoreScalar store n b = Ok ()"
    and "distinct (map st_Index stores)" "k \<le> int (length stores)"
    and "bindingCheck = None \<or> the bindingCheck payload = Ok ()"
  shows "cvRecoverAPDBScalar rs lock stores k n b mx bindingCheck = Ok payload \<or>
    (\<exists>store x y. store \<in> set stores \<and> y \<in> openingStrings store \<and>
       x \<in> encodingStrings (lk_InstanceDigest lock) (encodedShards rs payload k n b) \<and> collision y x)"
proof (rule disjCI)
  let ?I = "lk_InstanceDigest lock"
  assume nc: "\<not> (\<exists>store x y. store \<in> set stores \<and> y \<in> openingStrings store \<and>
       x \<in> encodingStrings ?I (encodedShards rs payload k n b) \<and> collision y x)"
  from enc(1) obtain sh where sh: "cvErasureEncode rs (apdbPacked payload (nat (k * b))) k n = Ok sh" "int (length sh) = n"
    "en_root enc = hd (topLevel apdbNode (apdbLeaves ?I sh))"
    by (rule encodeSized_Ok)
  have es: "encodedShards rs payload k n b = sh" using sh(1) by (simp add: encodedShards_def)
  have shard: "st_Shard s = encodedShards rs payload k n b ! nat (st_Index s)" if s: "s \<in> set stores" for s
    unfolding es
    by (rule store_is_shard [where n = n and b = b and inst = ?I]) (use stores s nc es enc(2) sh(2,3) in auto)
  show "cvRecoverAPDBScalar rs lock stores k n b mx bindingCheck = Ok payload"
    by (rule recover_shards [OF assms shard])
qed

lemma replicationCoder_exact: "rs_exact replicationCoder"
  by (auto simp: rs_exact_def replicationCoder_def split: if_splits)

text \<open>A payload dispersed to two nodes, one shard being enough.\<close>

definition demoEncoded :: cvAPDBEncodedScalar where
  "demoEncoded = (case cvAPDBEncodeSizedScalar replicationCoder (replicate 32 0) [7] 1 2 9 100 of Ok enc \<Rightarrow> enc)"

definition demoLock :: cvAPDBLockScalar where
  "demoLock = \<lparr>lk_InstanceDigest = replicate 32 0, lk_Root = en_root demoEncoded, lk_Certificate = [1], lk_canonicalWire = []\<rparr>"

lemma demoEncoded: "cvAPDBEncodeSizedScalar replicationCoder (lk_InstanceDigest demoLock) [7] 1 2 9 100 = Ok demoEncoded"
proof -
  have "\<exists>enc. cvAPDBEncodeSizedScalar replicationCoder (replicate 32 0) [7] 1 2 9 100 = Ok enc"
    by (simp add: cvAPDBEncodeSizedScalar_def cvErasureEncode_def cvCachedRSEncoder_def replicationCoder_def
        buildMerkle_apdb apdbPacked_split)
  then show ?thesis unfolding demoLock_def demoEncoded_def cvAPDBLockScalar.simps by auto
qed

lemma demo_stores:
  assumes "i < 2"
  shows "en_stores demoEncoded ! i \<in> set (en_stores demoEncoded)"
    "st_Shard (en_stores demoEncoded ! i) = encodedShards replicationCoder [7] 1 2 9 ! nat (st_Index (en_stores demoEncoded ! i))"
    "st_Index (en_stores demoEncoded ! i) = int i"
proof -
  from demoEncoded obtain sh where sh: "cvErasureEncode replicationCoder (apdbPacked [7] (nat (1 * 9))) 1 2 = Ok sh" "int (length sh) = 2"
    "en_stores demoEncoded = map (\<lambda>i. \<lparr>st_InstanceDigest = lk_InstanceDigest demoLock, st_Root = en_root demoEncoded, st_Index = int i,
       st_Shard = sh ! i, st_Siblings = pathFrom apdbNode (apdbLeaves (lk_InstanceDigest demoLock) sh) i\<rparr>) [0..<length sh]"
    by (rule encodeSized_Ok)
  have i: "i < length sh" using sh(2) assms by simp
  show "en_stores demoEncoded ! i \<in> set (en_stores demoEncoded)" using i by (simp add: sh(3))
  show "st_Shard (en_stores demoEncoded ! i) = encodedShards replicationCoder [7] 1 2 9 ! nat (st_Index (en_stores demoEncoded ! i))"
    using i sh(1) by (simp add: sh(3) encodedShards_def)
  show "st_Index (en_stores demoEncoded ! i) = int i" using i by (simp add: sh(3))
qed

lemma demo_verified:
  assumes "i < 2"
  shows "\<forall>store \<in> set [en_stores demoEncoded ! i]. st_InstanceDigest store = lk_InstanceDigest demoLock \<and>
    st_Root store = lk_Root demoLock \<and> cvVerifyAPDBStoreScalar store 2 9 = Ok ()"
  using encoded_store_verifies [OF demoEncoded replicationCoder_laws replicationCoder_exact demo_stores(1) [OF assms]]
  by (simp add: demoLock_def)

lemma demo_root: "lk_Root demoLock = en_root demoEncoded"
  by (simp add: demoLock_def)

lemma demo_recover:
  assumes "i < 2"
  shows "cvRecoverAPDBScalar replicationCoder demoLock [en_stores demoEncoded ! i] 1 2 9 100 None = Ok [7]"
  by (rule recover_shards [OF replicationCoder_laws replicationCoder_exact _ demoEncoded demo_root demo_verified [OF assms]])
    (use demo_stores [OF assms] in auto)

theorem apdb_recover_agreement_witness:
  "cvRecoverAPDBScalar replicationCoder demoLock [en_stores demoEncoded ! 0] 1 2 9 100 None = Ok [7] \<and>
   ([7] = [7 :: byte] \<or>
    (\<exists>x y. x \<in> encodingStrings (lk_InstanceDigest demoLock) (encodedShards replicationCoder [7] 1 2 9) \<and>
       y \<in> encodingStrings (lk_InstanceDigest demoLock) (encodedShards replicationCoder [7] 1 2 9) \<and> collision x y))"
  using demo_recover [of 0] apdb_recover_agreement
    [OF replicationCoder_laws replicationCoder_exact demo_recover [of 0] demo_recover [of 1] refl refl]
  by simp

theorem apdb_recover_complete_witness:
  "cvRecoverAPDBScalar replicationCoder demoLock [en_stores demoEncoded ! 1] 1 2 9 100 None = Ok [7] \<or>
    (\<exists>store x y. store \<in> set [en_stores demoEncoded ! 1] \<and> y \<in> openingStrings store \<and>
       x \<in> encodingStrings (lk_InstanceDigest demoLock) (encodedShards replicationCoder [7] 1 2 9) \<and> collision y x)"
  by (rule apdb_recover_complete [OF replicationCoder_laws replicationCoder_exact _ demoEncoded demo_root demo_verified [of 1]])
    simp_all

section \<open>The level loop\<close>

lemma length_apdbLevels: "length (apdbLevels level) = Suc (merkleDepth (length level))"
proof (induction level rule: apdbLevels.induct)
  case (1 level)
  then show ?case
    by (simp add: apdbLevels.simps [of level] merkleDepth.simps [of "length level"] pairUp_pad)
qed

lemma merkleDepth_log: "0 < n \<Longrightarrow> n \<le> 2 ^ merkleDepth n \<and> (1 < n \<longrightarrow> 2 ^ (merkleDepth n - 1) < n)"
proof (induction n rule: merkleDepth.induct)
  case (1 n)
  show ?case
  proof (cases "1 < n")
    case True
    let ?h = "(n + 1) div 2"
    have IH: "?h \<le> 2 ^ merkleDepth ?h" "1 < ?h \<longrightarrow> 2 ^ (merkleDepth ?h - 1) < ?h" using "1.IH" [OF True] True by auto
    have d: "merkleDepth n = Suc (merkleDepth ?h)" using True by (simp add: merkleDepth.simps [of n])
    have "n \<le> 2 * ?h" by simp
    moreover have "2 ^ merkleDepth ?h < n"
    proof (cases "1 < ?h")
      case h: True
      then obtain e where e: "merkleDepth ?h = Suc e" using merkleDepth.simps [of ?h] by (auto simp del: One_nat_def)
      then have "2 ^ e < ?h" using IH(2) h by simp
      then show ?thesis unfolding e by simp
    next
      case False
      then show ?thesis using True merkleDepth.simps [of ?h] by (simp del: One_nat_def)
    qed
    ultimately show ?thesis using IH(1) unfolding d by simp
  next
    case False
    then show ?thesis using 1 by (simp add: merkleDepth.simps [of n])
  qed
qed

text \<open>C38. The loop of \<^verbatim>\<open>cvAPDBBuildMerkleScalar\<close> ends: for \<open>n > 0\<close> shards after \<open>\<lceil>log\<^sub>2 n\<rceil>\<close> rounds, the depth
  \<^verbatim>\<open>cvAPDBMerkleDepth\<close> computes, with one digest on the last level, and without shards it panics.\<close>

theorem apdb_levels_terminate:
  "(if shards = [] then cvAPDBBuildMerkleScalar inst shards = Panic
    else (\<exists>branches. cvAPDBBuildMerkleScalar inst shards = Ok (hd (last (apdbLevels (apdbLeaves inst shards))), branches)) \<and>
      length (last (apdbLevels (apdbLeaves inst shards))) = 1 \<and>
      int (length (apdbLevels (apdbLeaves inst shards))) = cvAPDBMerkleDepth (int (length shards)) + 1 \<and>
      length shards \<le> 2 ^ nat (cvAPDBMerkleDepth (int (length shards))) \<and>
      (length shards = 1 \<or> 2 ^ nat (cvAPDBMerkleDepth (int (length shards)) - 1) < length shards))"
proof (cases "shards = []")
  case True
  then show ?thesis by (simp add: cvAPDBBuildMerkleScalar_def apdbLevels.simps [of "[]"] indexR_def)
next
  case False
  then have "apdbLeaves inst shards \<noteq> []" by (auto simp flip: length_greater_0_conv)
  then have top: "length (topLevel apdbNode (apdbLeaves inst shards)) = 1" by (rule length_topLevel)
  have "nat (int (merkleDepth (length shards)) - 1) = merkleDepth (length shards) - 1" by simp
  then show ?thesis
    using False top merkleDepth_log [of "length shards"] length_greater_0_conv [of shards]
    by (cases "length shards = 1") (auto simp del: length_greater_0_conv simp: buildMerkle_apdb last_apdbLevels length_apdbLevels depth_eq)
qed

section \<open>Codecs\<close>

lemma lock_wire:
  assumes "lockShape lock" "lk_canonicalWire lock = []"
  shows "cvAPDBLockScalarCanonicalBytes lock = Ok (lengthPrefixed (bytes_of cvAPDBLockWireDomain) @
    lengthPrefixed (lk_InstanceDigest lock) @ lengthPrefixed (lk_Root lock) @ lengthPrefixed (lk_Certificate lock))"
  using assms by (simp add: cvAPDBLockScalarCanonicalBytes_def lockShape_def cvMaxComponentSignatureBytes_def)

lemma readSiblings_iff:
  "readSiblings n r = Ok (sibs, r') \<longleftrightarrow>
     length sibs = n \<and> (\<forall>s \<in> set sibs. length s = 32) \<and> r = concat (map lengthPrefixed sibs) @ r'"
proof (induction n arbitrary: r sibs)
  case (Suc n)
  show ?case
  proof (cases sibs)
    case (Cons s ss)
    then show ?thesis by (auto simp: Suc cv_get_iff split: if_splits intro!: exI [of _ s])
  qed (auto split: if_splits)
qed auto

lemma fold_write: "\<forall>s \<in> set sibs. length s = 32 \<Longrightarrow> fold cvWriteBytesIgnore sibs w = w @ concat (map lengthPrefixed sibs)"
  by (induction sibs arbitrary: w) auto

lemma depth_bound:
  assumes "n \<le> 2 ^ 32"
  shows "merkleDepth (nat n) < 2 ^ 32"
proof -
  have "nat n \<le> 2 ^ 32" using assms by simp
  show ?thesis
  proof (cases "1 < nat n")
    case True
    then have "2 ^ (merkleDepth (nat n) - 1) < nat n" using merkleDepth_log [of "nat n"] by simp
    then have "(2 :: nat) ^ (merkleDepth (nat n) - 1) < 2 ^ 32" using \<open>nat n \<le> 2 ^ 32\<close> by (rule less_le_trans)
    then have "merkleDepth (nat n) - 1 < 32" by (rule power_less_imp_less_exp [rotated]) simp
    then show ?thesis by simp
  qed (simp add: merkleDepth.simps [of "nat n"])
qed

lemma store_wire:
  assumes "cvVerifyAPDBStoreScalar store n b = Ok ()" "n \<le> 2 ^ 32" "b < 2 ^ 32"
  shows "cvAPDBStoreScalarCanonicalBytes store n b = Ok (lengthPrefixed (bytes_of cvAPDBStoreWireDomain) @
    lengthPrefixed (st_InstanceDigest store) @ lengthPrefixed (st_Root store) @ putInt32 (st_Index store) @
    lengthPrefixed (st_Shard store) @ putInt32 (int (length (st_Siblings store))) @ concat (map lengthPrefixed (st_Siblings store)))"
proof -
  have v: "length (st_InstanceDigest store) = 32" "length (st_Root store) = 32" "0 \<le> st_Index store" "st_Index store < n"
    "int (length (st_Shard store)) = b" "length (st_Siblings store) = merkleDepth (nat n)" "\<forall>s \<in> set (st_Siblings store). length s = 32"
    using assms(1) unfolding verify_iff by blast+
  have "merkleDepth (nat n) < 2 ^ 32" by (rule depth_bound [OF assms(2)])
  then show ?thesis
    using v assms(2,3)
    by (simp add: cvAPDBStoreScalarCanonicalBytes_def assms(1) cvWriteUint32_eq fold_write Let_def)
qed

lemma lock_codec:
  "cvDecodeAPDBLockScalar wire = Ok lock \<longleftrightarrow>
     cvAPDBLockScalarCanonicalBytes (lock\<lparr>lk_canonicalWire := []\<rparr>) = Ok wire \<and> lk_canonicalWire lock = wire"
proof
  assume "cvDecodeAPDBLockScalar wire = Ok lock"
  then show "cvAPDBLockScalarCanonicalBytes (lock\<lparr>lk_canonicalWire := []\<rparr>) = Ok wire \<and> lk_canonicalWire lock = wire"
    by (auto simp: cvDecodeAPDBLockScalar_def Let_def split: if_splits)
next
  assume enc: "cvAPDBLockScalarCanonicalBytes (lock\<lparr>lk_canonicalWire := []\<rparr>) = Ok wire \<and> lk_canonicalWire lock = wire"
  then have shape: "lockShape lock" by (auto simp: cvAPDBLockScalarCanonicalBytes_def lockShape_def split: if_splits)
  then have w: "wire = lengthPrefixed (bytes_of cvAPDBLockWireDomain) @
    lengthPrefixed (lk_InstanceDigest lock) @ lengthPrefixed (lk_Root lock) @ lengthPrefixed (lk_Certificate lock)"
    using enc lock_wire [of "lock\<lparr>lk_canonicalWire := []\<rparr>"] by (simp add: lockShape_def)
  have c: "cvReader_bytes m (lengthPrefixed v) = Ok (v, [])" if "int (length v) \<le> m \<and> length v < 2 ^ 32" for m v
    using cv_bytes.get_put [of v m "[]"] that by simp
  show "cvDecodeAPDBLockScalar wire = Ok lock"
    using enc shape unfolding lockShape_def cvMaxComponentSignatureBytes_def
    by (cases lock) (simp add: cvDecodeAPDBLockScalar_def cv_get_put w c cvMaxComponentSignatureBytes_def Let_def)
qed

lemma store_codec:
  assumes "n \<le> 2 ^ 32" "b < 2 ^ 32"
  shows "cvDecodeAPDBStoreScalar wire n b = Ok store \<longleftrightarrow> cvAPDBStoreScalarCanonicalBytes store n b = Ok wire"
proof
  assume dec: "cvDecodeAPDBStoreScalar wire n b = Ok store"
  then have v: "cvVerifyAPDBStoreScalar store n b = Ok ()"
    by (auto simp: cvDecodeAPDBStoreScalar_def Let_def split: if_splits)
  show "cvAPDBStoreScalarCanonicalBytes store n b = Ok wire"
    using dec unfolding store_wire [OF v assms]
    by (auto simp: cvDecodeAPDBStoreScalar_def Let_def cv_get_iff readSiblings_iff split: if_splits)
next
  assume enc: "cvAPDBStoreScalarCanonicalBytes store n b = Ok wire"
  then have v: "cvVerifyAPDBStoreScalar store n b = Ok ()"
    by (auto simp: cvAPDBStoreScalarCanonicalBytes_def)
  have f: "length (st_InstanceDigest store) = 32" "length (st_Root store) = 32" "0 \<le> st_Index store" "st_Index store < n"
    "int (length (st_Shard store)) = b" "length (st_Siblings store) = merkleDepth (nat n)" "\<forall>s \<in> set (st_Siblings store). length s = 32"
    using v unfolding verify_iff by blast+
  have sib: "readSiblings (merkleDepth (nat n)) (concat (map lengthPrefixed (st_Siblings store))) = Ok (st_Siblings store, [])"
    unfolding readSiblings_iff using f by simp
  have d: "int (merkleDepth (nat n)) < 2 ^ 32" using depth_bound [OF assms(1)] by simp
  show "cvDecodeAPDBStoreScalar wire n b = Ok store"
    using enc v f d assms sib unfolding store_wire [OF v assms]
    by (cases store) (auto simp: cvDecodeAPDBStoreScalar_def cv_get_put depth_eq Let_def simp del: bindR_eq_Ok)
qed

text \<open>The wire forms of locks and stores are canonical: a wire decodes to a lock exactly when it is the encoding of that
  lock without its memo, a wire decodes to a store exactly when it is that store's encoding, and what decodes is well formed.\<close>

theorem apdb_codecs_canonical:
  assumes "n \<le> 2 ^ 32" "b < 2 ^ 32"
  shows "(cvDecodeAPDBLockScalar wire = Ok lock \<longleftrightarrow>
      cvAPDBLockScalarCanonicalBytes (lock\<lparr>lk_canonicalWire := []\<rparr>) = Ok wire \<and> lk_canonicalWire lock = wire) \<and>
    (cvDecodeAPDBStoreScalar wire n b = Ok store \<longleftrightarrow> cvAPDBStoreScalarCanonicalBytes store n b = Ok wire)"
  using lock_codec store_codec [OF assms] by blast

theorem apdb_codecs_canonical_witness:
  "\<exists>w w'. cvAPDBLockScalarCanonicalBytes demoLock = Ok w \<and>
     cvDecodeAPDBLockScalar w = Ok (demoLock\<lparr>lk_canonicalWire := w\<rparr>) \<and>
     cvAPDBStoreScalarCanonicalBytes (en_stores demoEncoded ! 0) 2 9 = Ok w' \<and>
     cvDecodeAPDBStoreScalar w' 2 9 = Ok (en_stores demoEncoded ! 0)"
proof -
  have v: "cvVerifyAPDBStoreScalar (en_stores demoEncoded ! 0) 2 9 = Ok ()" "length (lk_Root demoLock) = 32"
    using demo_verified [of 0] by (auto simp: verify_iff)
  then obtain w' where w': "cvAPDBStoreScalarCanonicalBytes (en_stores demoEncoded ! 0) 2 9 = Ok w'"
    by (simp add: store_wire)
  have "lockShape demoLock" using v(2) by (simp add: lockShape_def demoLock_def cvMaxComponentSignatureBytes_def)
  then obtain w where w: "cvAPDBLockScalarCanonicalBytes demoLock = Ok w" by (simp add: lock_wire demoLock_def)
  have "demoLock\<lparr>lk_canonicalWire := []\<rparr> = demoLock" by (simp add: demoLock_def)
  then show ?thesis
    using apdb_codecs_canonical [of 2 9 w "demoLock\<lparr>lk_canonicalWire := w\<rparr>" "en_stores demoEncoded ! 0"]
      apdb_codecs_canonical [of 2 9 w' demoLock "en_stores demoEncoded ! 0"] w w' by auto
qed

end
