(* ===== verification/Cv_Handoff.thy ===== *)
theory Cv_Handoff
  imports Cv_APDB_Props Cv_Router
begin

text \<open>
  The handoff from the old to the new committee (\<^verbatim>\<open>core/cv_sapvss_handoff.go\<close>, the aggregate header of
  \<^verbatim>\<open>core/cv_sapvss_aggregate_scalar.go\<close>): codecs, the decision statement, verification, and the authorisation of a
  recovery request.
\<close>

section \<open>Data\<close>

abbreviation cvAggregateHeaderScalarDomain :: string where
  "cvAggregateHeaderScalarDomain \<equiv> ''ARL-CV-sAPVSS/v2-scalar-group/aggregate-header''"

abbreviation cvHandoffScalarDomain :: string where
  "cvHandoffScalarDomain \<equiv> ''ARL-CV-sAPVSS/v2-scalar-group/handoff''"

abbreviation cvHandoffDigestScalarDomain :: string where
  "cvHandoffDigestScalarDomain \<equiv> ''ARL-CV-sAPVSS/v2-scalar-group/handoff-digest''"

abbreviation cvDecisionCertificateScalarDomain :: string where
  "cvDecisionCertificateScalarDomain \<equiv> ''ARL-CV-sAPVSS/v2-scalar-group/decide''"

abbreviation cvAggregateRecoveryRequestScalarDomain :: string where
  "cvAggregateRecoveryRequestScalarDomain \<equiv> ''ARL-CV-sAPVSS/v2-scalar-group/aggregate-recovery-request''"

record cvAggregateHeaderScalar =
  ah_ContextDigest :: bytes
  ah_ProposerID :: int
  ah_PoolDigest :: bytes
  ah_SelectionDigest :: bytes
  ah_AggregateDigest :: bytes
  ah_PayloadDigest :: bytes
  ah_APDBInstance :: bytes
  ah_APDBRoot :: bytes

record cvHandoffScalar =
  ho_ContextDigest :: bytes
  ho_Header :: cvAggregateHeaderScalar
  ho_ARC :: cvAPDBLockScalar
  ho_DecCert :: bytes
  ho_canonicalWire :: bytes

record cvAggregateRecoveryRequestScalar =
  rr_Handoff :: cvHandoffScalar
  rr_canonicalWire :: bytes

section \<open>The aggregate header\<close>

definition cvAggregateInstanceDigestScalar :: "bytes \<Rightarrow> int \<Rightarrow> bytes \<Rightarrow> bytes \<Rightarrow> bytes res" where
  "cvAggregateInstanceDigestScalar contextDigest proposerID poolDigest selectionDigest =
     (if length contextDigest \<noteq> 32 \<or> proposerID < 0 \<or> length poolDigest \<noteq> 32 \<or> length selectionDigest \<noteq> 32
      then Err ''invalid CV V2 aggregate instance input''
      else cvAPDBInstanceDigestScalar ''AGG''
        [contextDigest, cvWriteUint64 [] (word_of_int proposerID), poolDigest, selectionDigest])"

definition headerFields :: "cvAggregateHeaderScalar \<Rightarrow> bytes list" where
  "headerFields h = [ah_PoolDigest h, ah_SelectionDigest h, ah_AggregateDigest h, ah_PayloadDigest h, ah_APDBInstance h, ah_APDBRoot h]"

definition cvAggregateHeaderScalarCanonicalBytes :: "cvAggregateHeaderScalar \<Rightarrow> bytes res" where
  "cvAggregateHeaderScalarCanonicalBytes header =
     (if length (ah_ContextDigest header) \<noteq> 32 \<or> ah_ProposerID header < 0 \<or> (\<exists>field \<in> set (headerFields header). length field \<noteq> 32)
      then Err ''invalid CV V2 aggregate header''
      else bindR (reErr ''CV V2 aggregate header instance mismatch'' (cvAggregateInstanceDigestScalar (ah_ContextDigest header)
          (ah_ProposerID header) (ah_PoolDigest header) (ah_SelectionDigest header))) (\<lambda>wantInstance.
        if wantInstance \<noteq> ah_APDBInstance header then Err ''CV V2 aggregate header instance mismatch''
        else Ok (fold cvWriteBytesIgnore (headerFields header)
          (cvWriteUint64 (cvWriteBytesIgnore (ah_ContextDigest header)
            (cvWriteBytesIgnore (bytes_of cvAggregateHeaderScalarDomain) [])) (word_of_int (ah_ProposerID header))))))"

fun readFields :: "nat \<Rightarrow> bytes \<Rightarrow> (bytes list \<times> bytes) res" where
  "readFields 0 r = Ok ([], r)"
| "readFields (Suc n) r =
     bindR (reErr ''invalid CV V2 aggregate header field'' (cvReader_bytes 32 r)) (\<lambda>(field, r).
     if length field \<noteq> 32 then Err ''invalid CV V2 aggregate header field'' else
     bindR (readFields n r) (\<lambda>(fields, r). Ok (field # fields, r)))"

definition cvDecodeAggregateHeaderScalar :: "bytes \<Rightarrow> cvAggregateHeaderScalar res" where
  "cvDecodeAggregateHeaderScalar wire =
     bindR (reErr ''invalid CV V2 aggregate header domain'' (cvReader_bytes (int (length cvAggregateHeaderScalarDomain)) wire)) (\<lambda>(domain, r).
     if domain \<noteq> bytes_of cvAggregateHeaderScalarDomain then Err ''invalid CV V2 aggregate header domain'' else
     bindR (reErr ''invalid CV V2 aggregate header context'' (cvReader_bytes 32 r)) (\<lambda>(context, r).
     if length context \<noteq> 32 then Err ''invalid CV V2 aggregate header context'' else
     bindR (reErr ''invalid CV V2 aggregate header proposer'' (cvReader_uint64 r)) (\<lambda>(proposer, r).
     if uint proposer > max_int then Err ''invalid CV V2 aggregate header proposer'' else
     bindR (readFields 6 r) (\<lambda>(fields, r).
     if r \<noteq> [] then Err ''invalid CV V2 aggregate header suffix'' else
     let header = \<lparr>ah_ContextDigest = context, ah_ProposerID = uint proposer, ah_PoolDigest = fields ! 0,
       ah_SelectionDigest = fields ! 1, ah_AggregateDigest = fields ! 2, ah_PayloadDigest = fields ! 3,
       ah_APDBInstance = fields ! 4, ah_APDBRoot = fields ! 5\<rparr> in
     bindR (reErr ''non-canonical CV V2 aggregate header'' (cvAggregateHeaderScalarCanonicalBytes header)) (\<lambda>canonical.
     if canonical \<noteq> wire then Err ''non-canonical CV V2 aggregate header'' else Ok header)))))"

section \<open>The handoff\<close>

definition cvHandoffUnsignedScalarCanonicalBytes :: "bytes \<Rightarrow> cvAggregateHeaderScalar \<Rightarrow> cvAPDBLockScalar \<Rightarrow> bytes res" where
  "cvHandoffUnsignedScalarCanonicalBytes contextDigest header arc =
     (if length contextDigest \<noteq> 32 \<or> contextDigest \<noteq> ah_ContextDigest header \<or> ah_APDBInstance header \<noteq> lk_InstanceDigest arc \<or>
        ah_APDBRoot header \<noteq> lk_Root arc
      then Err ''invalid CV V2 handoff binding''
      else bindR (cvAggregateHeaderScalarCanonicalBytes header) (\<lambda>headerWire.
        bindR (cvAPDBLockScalarCanonicalBytes arc) (\<lambda>arcWire.
        Ok (cvWriteBytesIgnore arcWire (cvWriteBytesIgnore headerWire (cvWriteBytesIgnore contextDigest []))))))"

definition cvHandoffDigestScalar :: "bytes \<Rightarrow> cvAggregateHeaderScalar \<Rightarrow> cvAPDBLockScalar \<Rightarrow> bytes res" where
  "cvHandoffDigestScalar contextDigest header arc =
     bindR (cvHandoffUnsignedScalarCanonicalBytes contextDigest header arc) (\<lambda>unsigned.
     Ok (cv_hashBytes [bytes_of cvHandoffDigestScalarDomain, unsigned]))"

definition cvDecisionStatementScalar :: "bytes \<Rightarrow> cvAggregateHeaderScalar \<Rightarrow> cvAPDBLockScalar \<Rightarrow> bytes res" where
  "cvDecisionStatementScalar contextDigest header arc =
     bindR (cvHandoffDigestScalar contextDigest header arc) (\<lambda>handoffDigest.
     Ok (cv_hashBytes [bytes_of cvDecisionCertificateScalarDomain, contextDigest, handoffDigest]))"

definition cvHandoffScalarCanonicalBytes :: "cvHandoffScalar \<Rightarrow> bytes res" where
  "cvHandoffScalarCanonicalBytes handoff =
     (if ho_DecCert handoff = [] \<or> int (length (ho_DecCert handoff)) > cvMaxComponentSignatureBytes then Err ''invalid CV V2 handoff''
      else if ho_canonicalWire handoff \<noteq> [] then Ok (ho_canonicalWire handoff)
      else bindR (cvHandoffUnsignedScalarCanonicalBytes (ho_ContextDigest handoff) (ho_Header handoff) (ho_ARC handoff)) (\<lambda>unsigned.
        Ok (cvWriteBytesIgnore (ho_DecCert handoff) (cvWriteBytesIgnore unsigned
          (cvWriteBytesIgnore (bytes_of cvHandoffScalarDomain) [])))))"

definition cvDecodeHandoffScalar :: "bytes \<Rightarrow> cvHandoffScalar res" where
  "cvDecodeHandoffScalar wire =
     (if wire = [] \<or> int (length wire) > cvMaxNetworkPayloadBytes then Err ''invalid CV V2 handoff wire size'' else
     bindR (reErr ''invalid CV V2 handoff domain'' (cvReader_bytes (int (length cvHandoffScalarDomain)) wire)) (\<lambda>(domain, r).
     if domain \<noteq> bytes_of cvHandoffScalarDomain then Err ''invalid CV V2 handoff domain'' else
     bindR (reErr ''invalid CV V2 handoff body'' (cvReader_bytes cvMaxNetworkPayloadBytes r)) (\<lambda>(unsignedWire, r).
     bindR (reErr ''invalid CV V2 decision certificate'' (cvReader_bytes cvMaxComponentSignatureBytes r)) (\<lambda>(decCert, r).
     if decCert = [] \<or> r \<noteq> [] then Err ''invalid CV V2 decision certificate'' else
     bindR (reErr ''invalid CV V2 handoff context'' (cvReader_bytes 32 unsignedWire)) (\<lambda>(contextDigest, u).
     if length contextDigest \<noteq> 32 then Err ''invalid CV V2 handoff context'' else
     bindR (reErr ''invalid CV V2 handoff header'' (cvReader_bytes 4096 u)) (\<lambda>(headerWire, u).
     bindR (cvDecodeAggregateHeaderScalar headerWire) (\<lambda>header.
     bindR (reErr ''invalid CV V2 handoff ARC'' (cvReader_bytes (cvMaxComponentSignatureBytes + 256) u)) (\<lambda>(arcWire, u).
     if u \<noteq> [] then Err ''invalid CV V2 handoff ARC'' else
     bindR (cvDecodeAPDBLockScalar arcWire) (\<lambda>arc.
     let handoff = \<lparr>ho_ContextDigest = contextDigest, ho_Header = header, ho_ARC = arc, ho_DecCert = decCert, ho_canonicalWire = []\<rparr> in
     bindR (reErr ''non-canonical CV V2 handoff'' (cvHandoffScalarCanonicalBytes handoff)) (\<lambda>canonical.
     if canonical \<noteq> wire then Err ''non-canonical CV V2 handoff'' else Ok (handoff\<lparr>ho_canonicalWire := canonical\<rparr>)))))))))))"

definition cvVerifyDecodedHandoffScalar :: "('f, 'g, 'k) blsLib \<Rightarrow> cvHandoffScalar \<Rightarrow> bytes \<Rightarrow> ('f, 'k) tblsThresholdSigner option \<Rightarrow>
    ('f, 'k) tblsThresholdSigner option \<Rightarrow> unit res" where
  "cvVerifyDecodedHandoffScalar lib handoff expectedContext apdbSigner controlSigner =
     (if length expectedContext \<noteq> 32 \<or> \<not> cvScalarSignerHasRole apdbSigner cvScalarRoleAPDB \<or>
        \<not> cvScalarSignerHasRole controlSigner cvScalarRoleControl \<or> ho_ContextDigest handoff \<noteq> expectedContext
      then Err ''invalid CV V2 handoff verification input''
      else bindR (cvVerifyAPDBLockScalar lib (ho_ARC handoff) apdbSigner) (\<lambda>_.
        case cvDecisionStatementScalar (ho_ContextDigest handoff) (ho_Header handoff) (ho_ARC handoff) of
          Ok statement \<Rightarrow>
            if \<not> VerifyRecovered lib (the controlSigner) cvDecisionCertificateScalarDomain statement (ho_DecCert handoff)
            then Err ''invalid CV V2 decision certificate'' else Ok ()
        | _ \<Rightarrow> Err ''invalid CV V2 decision certificate''))"

definition cvVerifyHandoffScalar :: "('f, 'g, 'k) blsLib \<Rightarrow> cvHandoffScalar \<Rightarrow> bytes \<Rightarrow> ('f, 'k) tblsThresholdSigner option \<Rightarrow>
    ('f, 'k) tblsThresholdSigner option \<Rightarrow> unit res" where
  "cvVerifyHandoffScalar lib handoff expectedContext apdbSigner controlSigner =
     bindR (cvHandoffScalarCanonicalBytes handoff) (\<lambda>_.
       cvVerifyDecodedHandoffScalar lib handoff expectedContext apdbSigner controlSigner)"

section \<open>Recovery requests\<close>

definition cvAggregateRecoveryRequestScalarCanonicalBytes :: "cvAggregateRecoveryRequestScalar \<Rightarrow> bytes res" where
  "cvAggregateRecoveryRequestScalarCanonicalBytes request =
     (if rr_canonicalWire request \<noteq> [] then Ok (rr_canonicalWire request)
      else bindR (cvHandoffScalarCanonicalBytes (rr_Handoff request)) (\<lambda>handoffWire.
        Ok (cvWriteBytesIgnore handoffWire (cvWriteBytesIgnore (bytes_of cvAggregateRecoveryRequestScalarDomain) []))))"

definition cvDecodeAggregateRecoveryRequestScalar :: "bytes \<Rightarrow> cvAggregateRecoveryRequestScalar res" where
  "cvDecodeAggregateRecoveryRequestScalar wire =
     bindR (reErr ''invalid CV V2 aggregate recovery request domain''
       (cvReader_bytes (int (length cvAggregateRecoveryRequestScalarDomain)) wire)) (\<lambda>(domain, r).
     if domain \<noteq> bytes_of cvAggregateRecoveryRequestScalarDomain then Err ''invalid CV V2 aggregate recovery request domain'' else
     bindR (reErr ''invalid CV V2 aggregate recovery request framing'' (cvReader_bytes cvMaxNetworkPayloadBytes r)) (\<lambda>(handoffWire, r).
     if r \<noteq> [] then Err ''invalid CV V2 aggregate recovery request framing'' else
     bindR (cvDecodeHandoffScalar handoffWire) (\<lambda>handoff.
     let request = \<lparr>rr_Handoff = handoff, rr_canonicalWire = []\<rparr> in
     bindR (reErr ''non-canonical CV V2 aggregate recovery request'' (cvAggregateRecoveryRequestScalarCanonicalBytes request)) (\<lambda>canonical.
     if canonical \<noteq> wire then Err ''non-canonical CV V2 aggregate recovery request''
     else Ok (request\<lparr>rr_canonicalWire := canonical\<rparr>)))))"

definition cvAuthorizeAggregateRecoveryRequestScalar :: "('f, 'g, 'k) blsLib \<Rightarrow> bytes \<Rightarrow> bytes \<Rightarrow> ('f, 'k) tblsThresholdSigner option \<Rightarrow>
    ('f, 'k) tblsThresholdSigner option \<Rightarrow> cvHandoffScalar res" where
  "cvAuthorizeAggregateRecoveryRequestScalar lib wire expectedContext apdbSigner controlSigner =
     bindR (cvDecodeAggregateRecoveryRequestScalar wire) (\<lambda>request.
     bindR (reErr ''unauthorized CV V2 aggregate recovery request''
       (cvVerifyHandoffScalar lib (rr_Handoff request) expectedContext apdbSigner controlSigner)) (\<lambda>_.
     Ok (rr_Handoff request)))"

section \<open>What a decoded handoff determines\<close>

lemma lengthPrefixed_inj: "length a < 2 ^ 32 \<Longrightarrow> length b < 2 ^ 32 \<Longrightarrow> lengthPrefixed a = lengthPrefixed b \<longleftrightarrow> a = b"
  using lengthPrefixed_append_eq [of a b "[]" "[]"] by simp

lemma header_wire:
  assumes "cvAggregateHeaderScalarCanonicalBytes h = Ok w"
  shows "length (ah_ContextDigest h) = 32 \<and> 0 \<le> ah_ProposerID h \<and> (\<forall>field \<in> set (headerFields h). length field = 32) \<and>
    w = lengthPrefixed (bytes_of cvAggregateHeaderScalarDomain) @ lengthPrefixed (ah_ContextDigest h) @
      put64 (word_of_int (ah_ProposerID h)) @ concat (map lengthPrefixed (headerFields h))"
proof -
  have f: "length (ah_ContextDigest h) = 32" "0 \<le> ah_ProposerID h" "\<forall>field \<in> set (headerFields h). length field = 32"
    using assms by (auto simp: cvAggregateHeaderScalarCanonicalBytes_def split: if_splits)
  then show ?thesis
    using assms fold_write [OF f(3)]
    by (auto simp: cvAggregateHeaderScalarCanonicalBytes_def cvWriteUint64_def split: if_splits)
qed

lemma header_inj:
  assumes "cvAggregateHeaderScalarCanonicalBytes h = Ok w" "cvAggregateHeaderScalarCanonicalBytes h' = Ok w"
    and "ah_ProposerID h \<le> max_int" "ah_ProposerID h' \<le> max_int"
  shows "h = h'"
proof -
  note a = header_wire [OF assms(1)] and b = header_wire [OF assms(2)]
  have eq: "ah_ContextDigest h = ah_ContextDigest h'" "(word_of_int (ah_ProposerID h) :: 64 word) = word_of_int (ah_ProposerID h')"
    "headerFields h = headerFields h'"
    using a b by (auto simp: headerFields_def lengthPrefixed_append_eq put64_append_eq lengthPrefixed_inj)
  have "ah_ProposerID h = ah_ProposerID h'"
  proof -
    have "uint (word_of_int (ah_ProposerID x) :: 64 word) = ah_ProposerID x" if "0 \<le> ah_ProposerID x" "ah_ProposerID x \<le> max_int" for x
      using that by (simp add: uint_word_of_int max_int_def)
    then show ?thesis using eq(2) a b assms(3,4) by metis
  qed
  then show ?thesis using eq(1,3) by (cases h, cases h') (simp add: headerFields_def)
qed

lemma decoded_header:
  assumes "cvDecodeAggregateHeaderScalar w = Ok h"
  shows "cvAggregateHeaderScalarCanonicalBytes h = Ok w" "ah_ProposerID h \<le> max_int"
  using assms by (auto simp: cvDecodeAggregateHeaderScalar_def Let_def split: if_splits)

lemma decoded_lock:
  assumes "cvDecodeAPDBLockScalar w = Ok arc"
  shows "cvAPDBLockScalarCanonicalBytes arc = Ok w"
proof -
  have "cvAPDBLockScalarCanonicalBytes (arc\<lparr>lk_canonicalWire := []\<rparr>) = Ok w" "lk_canonicalWire arc = w"
    using assms unfolding lock_codec by auto
  then show ?thesis by (auto simp: cvAPDBLockScalarCanonicalBytes_def lockShape_def split: if_splits)
qed

text \<open>The parts of a decoded handoff.\<close>

definition wellDecoded :: "cvHandoffScalar \<Rightarrow> bool" where
  "wellDecoded h \<longleftrightarrow> (\<exists>hw aw. length (ho_ContextDigest h) = 32 \<and> cvDecodeAggregateHeaderScalar hw = Ok (ho_Header h) \<and>
     cvDecodeAPDBLockScalar aw = Ok (ho_ARC h) \<and> length hw < 2 ^ 32 \<and> length aw < 2 ^ 32)"

lemma decoded_handoff:
  assumes "cvDecodeHandoffScalar wire = Ok h"
  shows "wellDecoded h"
  using assms unfolding wellDecoded_def
  by (fastforce simp: cvDecodeHandoffScalar_def Let_def cv_get_iff cvMaxComponentSignatureBytes_def split: if_splits)

lemma unsigned_inj:
  assumes "wellDecoded h" "wellDecoded h'"
    and "cvHandoffUnsignedScalarCanonicalBytes (ho_ContextDigest h) (ho_Header h) (ho_ARC h) = Ok u"
    and "cvHandoffUnsignedScalarCanonicalBytes (ho_ContextDigest h') (ho_Header h') (ho_ARC h') = Ok u"
  shows "ho_ContextDigest h = ho_ContextDigest h' \<and> ho_Header h = ho_Header h' \<and> ho_ARC h = ho_ARC h'"
proof -
  obtain hw aw where a: "length (ho_ContextDigest h) = 32" "cvDecodeAggregateHeaderScalar hw = Ok (ho_Header h)"
    "cvDecodeAPDBLockScalar aw = Ok (ho_ARC h)" "length hw < 2 ^ 32" "length aw < 2 ^ 32"
    using assms(1) by (auto simp: wellDecoded_def)
  obtain hw' aw' where b: "length (ho_ContextDigest h') = 32" "cvDecodeAggregateHeaderScalar hw' = Ok (ho_Header h')"
    "cvDecodeAPDBLockScalar aw' = Ok (ho_ARC h')" "length hw' < 2 ^ 32" "length aw' < 2 ^ 32"
    using assms(2) by (auto simp: wellDecoded_def)
  have "u = lengthPrefixed (ho_ContextDigest h) @ lengthPrefixed hw @ lengthPrefixed aw"
    using assms(3) a decoded_header [OF a(2)] decoded_lock [OF a(3)]
    by (auto simp: cvHandoffUnsignedScalarCanonicalBytes_def split: if_splits)
  moreover have "u = lengthPrefixed (ho_ContextDigest h') @ lengthPrefixed hw' @ lengthPrefixed aw'"
    using assms(4) b decoded_header [OF b(2)] decoded_lock [OF b(3)]
    by (auto simp: cvHandoffUnsignedScalarCanonicalBytes_def split: if_splits)
  ultimately have "ho_ContextDigest h = ho_ContextDigest h' \<and> hw = hw' \<and> aw = aw'"
    using a(1,4,5) b(1,4,5) by (simp add: lengthPrefixed_append_eq lengthPrefixed_inj)
  then show ?thesis using a b by simp
qed

section \<open>Round trips\<close>

lemma readFields_iff:
  "readFields n r = Ok (fs, r') \<longleftrightarrow>
     length fs = n \<and> (\<forall>s \<in> set fs. length s = 32) \<and> r = concat (map lengthPrefixed fs) @ r'"
proof (induction n arbitrary: r fs)
  case (Suc n)
  show ?case
  proof (cases fs)
    case (Cons s ss)
    then show ?thesis by (auto simp: Suc cv_get_iff split: if_splits intro!: exI [of _ s])
  qed (auto split: if_splits)
qed auto

lemma header_roundtrip:
  assumes c: "cvAggregateHeaderScalarCanonicalBytes h = Ok w" and "ah_ProposerID h \<le> max_int"
  shows "cvDecodeAggregateHeaderScalar w = Ok h"
proof -
  note w = header_wire [OF c]
  have p: "uint (word_of_int (ah_ProposerID h) :: 64 word) = ah_ProposerID h"
    using w assms(2) by (simp add: uint_word_of_int max_int_def)
  have f: "readFields 6 (concat (map lengthPrefixed (headerFields h))) = Ok (headerFields h, [])"
    unfolding readFields_iff using w by (simp add: headerFields_def)
  have "\<lparr>ah_ContextDigest = ah_ContextDigest h, ah_ProposerID = ah_ProposerID h, ah_PoolDigest = headerFields h ! 0,
       ah_SelectionDigest = headerFields h ! 1, ah_AggregateDigest = headerFields h ! 2, ah_PayloadDigest = headerFields h ! 3,
       ah_APDBInstance = headerFields h ! 4, ah_APDBRoot = headerFields h ! 5\<rparr> = h"
    by (simp add: headerFields_def numeral_eq_Suc)
  then show ?thesis
    using w assms(2) c unfolding cvDecodeAggregateHeaderScalar_def
    by (simp add: cv_get_put p f Let_def del: bindR_eq_Ok)
qed

lemma header_wire_length: "cvAggregateHeaderScalarCanonicalBytes h = Ok w \<Longrightarrow> length w \<le> 4096"
  using header_wire [of h w] by (auto simp: headerFields_def lengthPrefixed_def)

lemma cv_bytes_end: "int (length v) \<le> maximum \<Longrightarrow> length v < 2 ^ 32 \<Longrightarrow> cvReader_bytes maximum (lengthPrefixed v) = Ok (v, [])"
  using cv_bytes.get_put [of v maximum "[]"] by simp

lemma handoff_roundtrip:
  assumes u: "cvHandoffUnsignedScalarCanonicalBytes (ho_ContextDigest h) (ho_Header h) (ho_ARC h) = Ok u"
    and pid: "ah_ProposerID (ho_Header h) \<le> max_int" and arc: "cvDecodeAPDBLockScalar aw = Ok (ho_ARC h)"
    and cert: "ho_DecCert h \<noteq> []" "int (length (ho_DecCert h)) \<le> cvMaxComponentSignatureBytes" "ho_canonicalWire h = []"
    and small: "int (length u + length (ho_DecCert h)) + 100 \<le> cvMaxNetworkPayloadBytes" "length aw \<le> 1048576"
  shows "\<exists>w. cvHandoffScalarCanonicalBytes h = Ok w \<and> cvDecodeHandoffScalar w = Ok (h\<lparr>ho_canonicalWire := w\<rparr>)"
proof -
  obtain hw where hw: "cvAggregateHeaderScalarCanonicalBytes (ho_Header h) = Ok hw" "length (ho_ContextDigest h) = 32"
    using u by (auto simp: cvHandoffUnsignedScalarCanonicalBytes_def split: if_splits)
  note hl = header_wire_length [OF hw(1)]
  have u': "u = lengthPrefixed (ho_ContextDigest h) @ lengthPrefixed hw @ lengthPrefixed aw"
    using u hw hl decoded_lock [OF arc] small(2) by (auto simp: cvHandoffUnsignedScalarCanonicalBytes_def split: if_splits)
  define w where "w = lengthPrefixed (bytes_of cvHandoffScalarDomain) @ lengthPrefixed u @ lengthPrefixed (ho_DecCert h)"
  have sizes: "length u < 2 ^ 32" "int (length u) \<le> cvMaxNetworkPayloadBytes" "length (ho_DecCert h) < 2 ^ 32"
    "int (length w) \<le> cvMaxNetworkPayloadBytes" "w \<noteq> []"
    using small(1) cert(1,2) by (auto simp: cvMaxNetworkPayloadBytes_def cvMaxComponentSignatureBytes_def w_def lengthPrefixed_def)
  have can: "cvHandoffScalarCanonicalBytes h = Ok w"
    using cert sizes u by (simp add: cvHandoffScalarCanonicalBytes_def w_def)
  have memo: "h\<lparr>ho_canonicalWire := []\<rparr> = h" using cert(3) by (cases h) simp
  have "cvDecodeHandoffScalar w = Ok (h\<lparr>ho_canonicalWire := w\<rparr>)"
    using sizes cert hw hl arc small(2) can header_roundtrip [OF hw(1) pid] memo unfolding cvDecodeHandoffScalar_def
    by (cases h) (simp add: w_def u' cv_get_put cv_bytes_end cvMaxComponentSignatureBytes_def Let_def del: bindR_eq_Ok)
  with can show ?thesis by blast
qed

lemma request_roundtrip:
  assumes "cvHandoffScalarCanonicalBytes h = Ok w" "cvDecodeHandoffScalar w = Ok (h\<lparr>ho_canonicalWire := w\<rparr>)" "w \<noteq> []"
    "int (length w) \<le> cvMaxNetworkPayloadBytes"
  shows "cvDecodeAggregateRecoveryRequestScalar
    (lengthPrefixed (bytes_of cvAggregateRecoveryRequestScalarDomain) @ lengthPrefixed w) =
    Ok \<lparr>rr_Handoff = h\<lparr>ho_canonicalWire := w\<rparr>,
        rr_canonicalWire = lengthPrefixed (bytes_of cvAggregateRecoveryRequestScalarDomain) @ lengthPrefixed w\<rparr>"
proof -
  have "length w < 2 ^ 32" using assms(4) by (simp add: cvMaxNetworkPayloadBytes_def)
  moreover have "cvHandoffScalarCanonicalBytes (h\<lparr>ho_canonicalWire := w\<rparr>) = Ok w"
    using assms(1,3) by (auto simp: cvHandoffScalarCanonicalBytes_def split: if_splits)
  ultimately show ?thesis
    using assms unfolding cvDecodeAggregateRecoveryRequestScalar_def
    by (simp add: cv_get_put cv_bytes_end cvAggregateRecoveryRequestScalarCanonicalBytes_def Let_def del: bindR_eq_Ok)
qed

end
