(* ===== verification/Cv_Decision.thy ===== *)
theory Cv_Decision
  imports Cv_Handoff
begin

text \<open>
  The immutable file store (\<^verbatim>\<open>core/cv_sapvss_store.go\<close>) and the one-shot signing of decisions
  (\<^verbatim>\<open>core/cv_sapvss_decision_store.go\<close>). The files are a map from paths; every system call may fail, as an argument
  says, and another writer may create the file between the check and the link. Nothing deletes files. Session
  identifiers are ASCII strings.
\<close>

section \<open>The immutable store\<close>

text \<open>The bytes of a file and whether it is a regular file with mode 0600.\<close>

record storeFile =
  sf_bytes :: bytes
  sf_private :: bool

type_synonym files = "string list \<rightharpoonup> storeFile"

record ioFaults =
  io_ensureDir :: bool
  io_lstat :: bool
  io_readFile :: bool
  io_temporary :: bool
  io_race :: "storeFile option"
  io_link :: bool
  io_lstatAgain :: bool
  io_readAgain :: bool
  io_syncDir :: bool

abbreviation notExist :: string where
  "notExist \<equiv> ''file does not exist''"

definition cvReadImmutableFile :: "bool \<Rightarrow> bool \<Rightarrow> files \<Rightarrow> string list \<Rightarrow> bytes res" where
  "cvReadImmutableFile lstatFails readFails fs path =
     (if lstatFails then Err ''lstat''
      else case fs path of
          None \<Rightarrow> Err notExist
        | Some file \<Rightarrow>
            if \<not> sf_private file then Err ''CV-sAPVSS store entry is not a private regular file''
            else if readFails then Err ''read file'' else Ok (sf_bytes file))"

definition syncStoreDir :: "ioFaults \<Rightarrow> unit res" where
  "syncStoreDir io = (if io_syncDir io then Err ''sync directory'' else Ok ())"

definition cvPutImmutableFile :: "ioFaults \<Rightarrow> files \<Rightarrow> string list \<Rightarrow> bytes \<Rightarrow> unit res \<times> files" where
  "cvPutImmutableFile io fs path content =
     (if io_ensureDir io then (Err ''create private CV-sAPVSS store directory'', fs)
      else case cvReadImmutableFile (io_lstat io) (io_readFile io) fs path of
          Ok existing \<Rightarrow>
            if existing \<noteq> content then (Err ''CV-sAPVSS immutable store key already contains different bytes'', fs)
            else (syncStoreDir io, fs)
        | Panic \<Rightarrow> (Panic, fs)
        | Err e \<Rightarrow>
            if e \<noteq> notExist then (Err e, fs)
            else if io_temporary io then (Err ''write temporary file'', fs)
            else
              let fs = (case io_race io of None \<Rightarrow> fs | Some file \<Rightarrow> fs(path \<mapsto> file)) in
              if io_link io then (Err ''link'', fs)
              else if path \<in> dom fs then
                (case cvReadImmutableFile (io_lstatAgain io) (io_readAgain io) fs path of
                   Ok existing \<Rightarrow>
                     if existing \<noteq> content then (Err ''CV-sAPVSS immutable store key already contains different bytes'', fs)
                     else (syncStoreDir io, fs)
                 | Err e \<Rightarrow> (Err e, fs)
                 | Panic \<Rightarrow> (Panic, fs))
              else (syncStoreDir io, fs(path \<mapsto> \<lparr>sf_bytes = content, sf_private = True\<rparr>)))"

text \<open>A file that exists keeps its bytes, and a successful put leaves the bytes that were put.\<close>

lemma put_keeps: "fs p = Some file \<Longrightarrow> snd (cvPutImmutableFile io fs q content) p = Some file"
  by (auto simp: cvPutImmutableFile_def cvReadImmutableFile_def Let_def split: option.splits)

lemma put_stores:
  "fst (cvPutImmutableFile io fs p content) = Ok () \<Longrightarrow>
     \<exists>file. snd (cvPutImmutableFile io fs p content) p = Some file \<and> sf_bytes file = content \<and> sf_private file"
  by (auto simp: cvPutImmutableFile_def cvReadImmutableFile_def Let_def split: option.splits if_splits)

section \<open>The decision-sign store\<close>

abbreviation cvDecisionSignRecordScalarDomain :: string where
  "cvDecisionSignRecordScalarDomain \<equiv> ''ARL-CV-sAPVSS/v2-scalar-group/decision-sign-record''"

definition safeChar :: "char \<Rightarrow> bool" where
  "safeChar c \<longleftrightarrow> (let v = (of_char c :: nat) in 97 \<le> v \<and> v \<le> 122 \<or> 65 \<le> v \<and> v \<le> 90 \<or> 48 \<le> v \<and> v \<le> 57) \<or> c \<in> set ''-_.''"

definition safeCacheComponent :: "string \<Rightarrow> string" where
  "safeCacheComponent value0 =
    (let value = trimSpace value0 in
     if value = [] then ''default'' else map (\<lambda>c. if safeChar c then c else CHR ''_'') value)"

definition trimMarks :: "string \<Rightarrow> string" where
  "trimMarks s = rev (dropWhile (\<lambda>c. c \<in> set ''._-'') (rev (dropWhile (\<lambda>c. c \<in> set ''._-'') s)))"

definition cvStoreKeyParts :: "string \<Rightarrow> int \<Rightarrow> int \<Rightarrow> bytes \<Rightarrow> (string \<times> string) res" where
  "cvStoreKeyParts sid epoch holder digest =
     (if trimSpace sid = [] \<or> epoch < 0 \<or> holder < 0 \<or> length digest \<noteq> 32 then Err ''invalid CV-sAPVSS store key''
      else
        let base = trimMarks (safeCacheComponent sid);
            base = (if base = [] then ''sid'' else base);
            sidDigest = cv_hashBytes [bytes_of ''ARL-CV-sAPVSS/store-sid'', bytes_of sid] in
        Ok (take 64 base @ ''-'' @ hexString sidDigest, hexString digest))"

text \<open>\<^verbatim>\<open>root\<close> is the directory the constructor made; a path is the list of its elements.\<close>

definition decisionPath :: "string \<Rightarrow> string \<Rightarrow> 64 word \<Rightarrow> int \<Rightarrow> string list res" where
  "decisionPath dir sid epoch member =
     (if sid = [] \<or> epoch = 0 \<or> uint epoch > max_int \<or> member < 0 then Err ''invalid CV V2 decision-sign store key''
      else bindR (cvStoreKeyParts sid (uint epoch) member (cv_hashBytes [bytes_of cvDecisionSignRecordScalarDomain])) (\<lambda>(sidComponent, _).
        Ok [dir, sidComponent, ''epoch-'' @ itoa (uint epoch), ''member-'' @ itoa member @ ''.decision'']))"

definition cvDecisionSignRecordScalarCanonicalBytes :: "string \<Rightarrow> 64 word \<Rightarrow> int \<Rightarrow> bytes \<Rightarrow> bytes \<Rightarrow> bytes res" where
  "cvDecisionSignRecordScalarCanonicalBytes sid epoch member handoffDigest statement =
     (if sid = [] \<or> epoch = 0 \<or> member < 0 \<or> length handoffDigest \<noteq> 32 \<or> length statement \<noteq> 32
      then Err ''invalid CV V2 decision-sign record''
      else Ok (cvWriteBytesIgnore statement (cvWriteBytesIgnore handoffDigest
        (cvWriteUint64 (cvWriteUint64 (cvWriteBytesIgnore (bytes_of sid)
          (cvWriteBytesIgnore (bytes_of cvDecisionSignRecordScalarDomain) [])) epoch) (word_of_int member)))))"

text \<open>The steps before the record is written.\<close>

definition decisionRecord :: "string \<Rightarrow> string \<Rightarrow> 64 word \<Rightarrow> int \<Rightarrow> bytes \<Rightarrow> cvAggregateHeaderScalar \<Rightarrow> cvAPDBLockScalar \<Rightarrow>
    ('f :: zero, 'k) tblsThresholdSigner option \<Rightarrow> (bytes \<times> bytes \<times> string list) res" where
  "decisionRecord dir sid epoch member contextDigest header arc controlSigner =
     (if sid = [] \<or> epoch = 0 \<or> member < 0 \<or> \<not> cvScalarSignerHasRole controlSigner cvScalarRoleControl \<or>
        \<not> cvThresholdSignerCanSignScalar controlSigner member
      then Err ''invalid CV V2 decision-sign input''
      else
        bindR (cvHandoffDigestScalar contextDigest header arc) (\<lambda>handoffDigest.
        bindR (cvDecisionStatementScalar contextDigest header arc) (\<lambda>statement.
        bindR (cvDecisionSignRecordScalarCanonicalBytes sid epoch member handoffDigest statement) (\<lambda>record.
        bindR (decisionPath dir sid epoch member) (\<lambda>path.
        Ok (statement, record, path))))))"

definition SignHandoffOnce :: "('f :: zero, 'g, 'k) blsLib \<Rightarrow> string \<Rightarrow> ioFaults \<Rightarrow> files \<Rightarrow> string \<Rightarrow> 64 word \<Rightarrow> int \<Rightarrow> bytes \<Rightarrow>
    cvAggregateHeaderScalar \<Rightarrow> cvAPDBLockScalar \<Rightarrow> ('f, 'k) tblsThresholdSigner option \<Rightarrow> bytes res \<times> files" where
  "SignHandoffOnce lib dir io fs sid epoch member contextDigest header arc controlSigner =
     (case decisionRecord dir sid epoch member contextDigest header arc controlSigner of
        Ok (statement, record, path) \<Rightarrow>
          (case cvPutImmutableFile io fs path record of
             (Ok _, fs) \<Rightarrow>
               (bindR (reErr ''sign persisted CV V2 decision''
                   (SignShare lib (the controlSigner) member cvDecisionCertificateScalarDomain statement)) (\<lambda>signature.
                 if \<not> VerifyShare lib (the controlSigner) member cvDecisionCertificateScalarDomain statement signature
                 then Err ''invalid local CV V2 decision signature share'' else Ok signature), fs)
           | (Err e, fs) \<Rightarrow> (Err ''persist CV V2 decision-sign record'', fs)
           | (Panic, fs) \<Rightarrow> (Panic, fs))
      | Err e \<Rightarrow> (Err e, fs)
      | Panic \<Rightarrow> (Panic, fs))"

definition readDecision :: "string \<Rightarrow> ioFaults \<Rightarrow> files \<Rightarrow> string \<Rightarrow> 64 word \<Rightarrow> int \<Rightarrow> bytes res" where
  "readDecision dir io fs sid epoch member =
     bindR (decisionPath dir sid epoch member) (cvReadImmutableFile (io_lstat io) (io_readFile io) fs)"

section \<open>A member signs one decision\<close>

text \<open>The calls on the files of one member, in any order and with any faults: decisions to sign for its session and epoch, and
  puts of the other stores of the process. The statements for which a signature was released, and the files after it.\<close>

datatype storeCall =
    SignCall bytes cvAggregateHeaderScalar cvAPDBLockScalar
  | PutCall "string list" bytes

fun storeRun :: "('f :: zero, 'g, 'k) blsLib \<Rightarrow> string \<Rightarrow> string \<Rightarrow> 64 word \<Rightarrow> int \<Rightarrow> ('f, 'k) tblsThresholdSigner option \<Rightarrow> files \<Rightarrow>
    (ioFaults \<times> storeCall) list \<Rightarrow> bytes list \<times> files" where
  "storeRun lib dir sid epoch member signer fs [] = ([], fs)"
| "storeRun lib dir sid epoch member signer fs ((io, PutCall path content) # calls) =
     storeRun lib dir sid epoch member signer (snd (cvPutImmutableFile io fs path content)) calls"
| "storeRun lib dir sid epoch member signer fs ((io, SignCall contextDigest header arc) # calls) =
     (case SignHandoffOnce lib dir io fs sid epoch member contextDigest header arc signer of (res, fs') \<Rightarrow>
      case storeRun lib dir sid epoch member signer fs' calls of (statements, fs'') \<Rightarrow>
        ((case (res, cvDecisionStatementScalar contextDigest header arc) of (Ok _, Ok statement) \<Rightarrow> [statement] | _ \<Rightarrow> []) @ statements, fs''))"

lemma sign_keeps: "fs p = Some fl \<Longrightarrow> snd (SignHandoffOnce lib dir io fs sid epoch member ctx header arc signer) p = Some fl"
  using put_keeps [of fs p fl io]
  by (auto simp: SignHandoffOnce_def split: res.splits prod.splits) (metis snd_conv)+

lemma run_keeps: "fs p = Some fl \<Longrightarrow> snd (storeRun lib dir sid epoch member signer fs calls) p = Some fl"
proof (induction lib dir sid epoch member signer fs calls rule: storeRun.induct)
  case (3 lib dir sid epoch member signer fs io contextDigest header arc calls)
  then show ?case
    using sign_keeps [of fs p fl lib dir io sid epoch member contextDigest header arc signer]
    by (auto split: prod.splits)
qed (auto simp: put_keeps)

text \<open>The record of a statement.\<close>

definition recordOf :: "string \<Rightarrow> 64 word \<Rightarrow> int \<Rightarrow> bytes \<Rightarrow> bytes \<Rightarrow> bytes" where
  "recordOf sid epoch member handoffDigest statement =
     (cvWriteUint64 (cvWriteUint64 (cvWriteBytesIgnore (bytes_of sid)
        (cvWriteBytesIgnore (bytes_of cvDecisionSignRecordScalarDomain) [])) epoch) (word_of_int member)) @
     lengthPrefixed handoffDigest @ lengthPrefixed statement"

definition recorded :: "string \<Rightarrow> string \<Rightarrow> 64 word \<Rightarrow> int \<Rightarrow> files \<Rightarrow> bytes \<Rightarrow> bool" where
  "recorded dir sid epoch member fs statement \<longleftrightarrow>
     (\<exists>path fl d. decisionPath dir sid epoch member = Ok path \<and> fs path = Some fl \<and>
        sf_bytes fl = recordOf sid epoch member d statement \<and> length d = 32 \<and> length statement = 32)"

lemma recorded_unique:
  assumes "recorded dir sid epoch member fs s" "recorded dir sid epoch member fs s'"
  shows "s = s'"
proof -
  obtain path fl d where 1: "decisionPath dir sid epoch member = Ok path" "fs path = Some fl"
    "sf_bytes fl = recordOf sid epoch member d s" "length d = 32" "length s = 32"
    using assms(1) unfolding recorded_def by blast
  obtain path' fl' d' where 2: "decisionPath dir sid epoch member = Ok path'" "fs path' = Some fl'"
    "sf_bytes fl' = recordOf sid epoch member d' s'" "length d' = 32" "length s' = 32"
    using assms(2) unfolding recorded_def by blast
  have "recordOf sid epoch member d s = recordOf sid epoch member d' s'" using 1 2 by simp
  with 1 2 show ?thesis by (simp add: recordOf_def lengthPrefixed_append_eq lengthPrefixed_inj)
qed

lemma recorded_mono:
  "recorded dir sid epoch member fs s \<Longrightarrow> (\<And>p fl. fs p = Some fl \<Longrightarrow> fs' p = Some fl) \<Longrightarrow> recorded dir sid epoch member fs' s"
  unfolding recorded_def by blast

lemma sign_records:
  assumes "SignHandoffOnce lib dir io fs sid epoch member ctx header arc signer = (Ok sig, fs')"
  shows "\<exists>s. cvDecisionStatementScalar ctx header arc = Ok s \<and> recorded dir sid epoch member fs' s"
proof -
  obtain s r path where rec: "decisionRecord dir sid epoch member ctx header arc signer = Ok (s, r, path)"
    and put: "cvPutImmutableFile io fs path r = (Ok (), fs')"
    using assms by (auto simp: SignHandoffOnce_def split: res.splits prod.splits)
  obtain d where d: "cvDecisionSignRecordScalarCanonicalBytes sid epoch member d s = Ok r"
    "decisionPath dir sid epoch member = Ok path" "cvDecisionStatementScalar ctx header arc = Ok s"
    using rec by (auto simp: decisionRecord_def split: if_splits)
  have "r = recordOf sid epoch member d s" "length d = 32" "length s = 32"
    using d(1) by (auto simp: cvDecisionSignRecordScalarCanonicalBytes_def recordOf_def split: if_splits)
  moreover obtain fl where "fs' path = Some fl" "sf_bytes fl = r"
    using put_stores [of io fs path r] put by auto
  ultimately show ?thesis using d(2,3) unfolding recorded_def by blast
qed

lemma run_recorded:
  "statement \<in> set (fst (storeRun lib dir sid epoch member signer fs calls)) \<Longrightarrow>
     recorded dir sid epoch member (snd (storeRun lib dir sid epoch member signer fs calls)) statement"
proof (induction lib dir sid epoch member signer fs calls rule: storeRun.induct)
  case (3 lib dir sid epoch member signer fs io ctx header arc calls)
  obtain res fs' where sg: "SignHandoffOnce lib dir io fs sid epoch member ctx header arc signer = (res, fs')"
    by (cases "SignHandoffOnce lib dir io fs sid epoch member ctx header arc signer")
  obtain ss fs'' where run: "storeRun lib dir sid epoch member signer fs' calls = (ss, fs'')"
    by (cases "storeRun lib dir sid epoch member signer fs' calls")
  have keep: "fs' p = Some fl \<Longrightarrow> fs'' p = Some fl" for p fl
    using run_keeps [of fs' p fl lib dir sid epoch member signer calls] run by simp
  show ?case
  proof (cases "statement \<in> set ss")
    case True
    then show ?thesis using "3.IH" [OF sg [symmetric]] sg run by simp
  next
    case False
    then obtain sig where "res = Ok sig" "cvDecisionStatementScalar ctx header arc = Ok statement"
      using "3.prems" sg run by (auto split: res.splits)
    then have "recorded dir sid epoch member fs' statement" using sign_records [of lib dir io fs sid epoch member ctx header arc signer sig fs'] sg by auto
    then have "recorded dir sid epoch member fs'' statement" using keep by (rule recorded_mono)
    then show ?thesis using sg run by simp
  qed
qed auto

text \<open>Whatever fails and in whatever order it is asked, a member releases signatures for at most one decision of a session and epoch.\<close>

lemma signs_one_decision:
  assumes "s \<in> set (fst (storeRun lib dir sid epoch member signer fs calls))"
    and "s' \<in> set (fst (storeRun lib dir sid epoch member signer fs calls))"
  shows "s = s'"
  using recorded_unique run_recorded assms by blast

section \<open>One handoff per context\<close>

text \<open>What threshold signatures promise: when a certificate of the decision domain verifies for a statement on the context, as many
  members as the threshold exist of whom every correct one released a signature on the message that is signed for it.\<close>

definition decisionMessage :: "bytes \<Rightarrow> bytes" where
  "decisionMessage statement = cv_domainDigest cvDecisionCertificateScalarDomain statement"

definition decisionUnforgeable :: "('f, 'g, 'k) blsLib \<Rightarrow> ('f, 'k) tblsThresholdSigner \<Rightarrow> bytes \<Rightarrow> int set \<Rightarrow> (int \<Rightarrow> bytes set) \<Rightarrow> bool" where
  "decisionUnforgeable lib s ctx faulty signedBy \<longleftrightarrow>
     (\<forall>d certificate. let statement = cv_hashBytes [bytes_of cvDecisionCertificateScalarDomain, ctx, d] in
        VerifyRecovered lib s cvDecisionCertificateScalarDomain statement certificate \<longrightarrow>
        (\<exists>Q. Q \<subseteq> set (th_memberOrder s) \<and> th_t s \<le> int (card Q) \<and>
           (\<forall>p \<in> Q - faulty. \<exists>signed \<in> signedBy p. decisionMessage signed = decisionMessage statement)))"

lemma decision_quorum:
  assumes "decisionUnforgeable lib s ctx faulty signedBy"
    and "VerifyRecovered lib s cvDecisionCertificateScalarDomain (cv_hashBytes [bytes_of cvDecisionCertificateScalarDomain, ctx, d]) certificate"
  obtains Q where "Q \<subseteq> set (th_memberOrder s)" "th_t s \<le> int (card Q)"
    "\<And>p. p \<in> Q \<Longrightarrow> p \<notin> faulty \<Longrightarrow>
       \<exists>x \<in> signedBy p. decisionMessage x = decisionMessage (cv_hashBytes [bytes_of cvDecisionCertificateScalarDomain, ctx, d])"
  using assms(1)[unfolded decisionUnforgeable_def Let_def, rule_format, OF assms(2)] by auto

text \<open>The strings hashed for the decision of a handoff.\<close>

definition handoffStrings :: "cvHandoffScalar \<Rightarrow> bytes set" where
  "handoffStrings h =
    (case cvHandoffUnsignedScalarCanonicalBytes (ho_ContextDigest h) (ho_Header h) (ho_ARC h) of
       Ok u \<Rightarrow>
         let d = cv_hashBytes [bytes_of cvHandoffDigestScalarDomain, u];
             statement = cv_hashBytes [bytes_of cvDecisionCertificateScalarDomain, ho_ContextDigest h, d] in
         {concat [bytes_of cvHandoffDigestScalarDomain, u],
          concat [bytes_of cvDecisionCertificateScalarDomain, ho_ContextDigest h, d],
          concat [bytes_of ''rladkr-domain'', bytes_of (map cvUpperChar cvDecisionCertificateScalarDomain), statement]}
     | _ \<Rightarrow> {})"

lemma handoffStrings_mem:
  assumes "cvHandoffUnsignedScalarCanonicalBytes (ho_ContextDigest h) (ho_Header h) (ho_ARC h) = Ok u"
    and "d = cv_hashBytes [bytes_of cvHandoffDigestScalarDomain, u]"
  shows "concat [bytes_of cvHandoffDigestScalarDomain, u] \<in> handoffStrings h"
    "concat [bytes_of cvDecisionCertificateScalarDomain, ho_ContextDigest h, d] \<in> handoffStrings h"
    "concat [bytes_of ''rladkr-domain'', bytes_of (map cvUpperChar cvDecisionCertificateScalarDomain),
       cv_hashBytes [bytes_of cvDecisionCertificateScalarDomain, ho_ContextDigest h, d]] \<in> handoffStrings h"
  unfolding handoffStrings_def assms res.case Let_def by (rule insertI1, rule insertI2, rule insertI1, rule insertI2, rule insertI2, rule insertI1)

lemma authorized:
  assumes "cvAuthorizeAggregateRecoveryRequestScalar lib wire ctx apdb (Some s) = Ok h"
  obtains u d where "wellDecoded h" "ho_ContextDigest h = ctx"
    "cvHandoffUnsignedScalarCanonicalBytes ctx (ho_Header h) (ho_ARC h) = Ok u" "d = cv_hashBytes [bytes_of cvHandoffDigestScalarDomain, u]"
    "VerifyRecovered lib s cvDecisionCertificateScalarDomain (cv_hashBytes [bytes_of cvDecisionCertificateScalarDomain, ctx, d]) (ho_DecCert h)"
proof -
  have ver: "cvVerifyDecodedHandoffScalar lib h ctx apdb (Some s) = Ok ()" and dec: "\<exists>w. cvDecodeHandoffScalar w = Ok h"
    using assms
    by (auto simp: cvAuthorizeAggregateRecoveryRequestScalar_def cvVerifyHandoffScalar_def cvDecodeAggregateRecoveryRequestScalar_def
        Let_def split: if_splits)
  then have "wellDecoded h" using decoded_handoff by blast
  moreover obtain statement where "cvDecisionStatementScalar (ho_ContextDigest h) (ho_Header h) (ho_ARC h) = Ok statement"
    "VerifyRecovered lib s cvDecisionCertificateScalarDomain statement (ho_DecCert h)" "ho_ContextDigest h = ctx"
    using ver by (auto simp: cvVerifyDecodedHandoffScalar_def split: if_splits res.splits)
  ultimately show thesis using that by (auto simp: cvDecisionStatementScalar_def cvHandoffDigestScalar_def)
qed

text \<open>C5. One handoff per context. With up to \<open>f\<close> of \<open>n \<ge> 3 f + 1\<close> old members faulty, and the correct ones signing decisions only
  through their stores, with whatever I/O errors, races and interleaved writes, two recovery requests that are authorised
  for one context hand over the same aggregate header and the same lock, or the strings hashed for the two decisions collide.\<close>

theorem handoff_unique:
  assumes members: "distinct (th_memberOrder s)" "th_t s = int (length (th_memberOrder s)) - f"
    "0 \<le> f" "3 * f + 1 \<le> int (length (th_memberOrder s))" "finite faulty" "int (card faulty) \<le> f"
    and sigs: "decisionUnforgeable lib s ctx faulty
      (\<lambda>p. set (fst (storeRun lib (dir p) sid epoch p (signer p) (files p) (calls p))))"
    and auth: "cvAuthorizeAggregateRecoveryRequestScalar lib wire ctx apdb (Some s) = Ok h"
      "cvAuthorizeAggregateRecoveryRequestScalar lib wire' ctx apdb' (Some s) = Ok h'"
  shows "ho_Header h = ho_Header h' \<and> ho_ARC h = ho_ARC h' \<or>
    (\<exists>x y. x \<in> handoffStrings h \<and> y \<in> handoffStrings h' \<and> collision x y)"
proof (rule disjCI)
  assume nc: "\<not> (\<exists>x y. x \<in> handoffStrings h \<and> y \<in> handoffStrings h' \<and> collision x y)"
  let ?dom = "bytes_of cvDecisionCertificateScalarDomain"
  let ?signed = "\<lambda>p. set (fst (storeRun lib (dir p) sid epoch p (signer p) (files p) (calls p)))"
  from auth(1) obtain u d where a: "wellDecoded h" "ho_ContextDigest h = ctx"
    "cvHandoffUnsignedScalarCanonicalBytes ctx (ho_Header h) (ho_ARC h) = Ok u" "d = cv_hashBytes [bytes_of cvHandoffDigestScalarDomain, u]"
    "VerifyRecovered lib s cvDecisionCertificateScalarDomain (cv_hashBytes [?dom, ctx, d]) (ho_DecCert h)"
    by (rule authorized)
  from auth(2) obtain u' d' where b: "wellDecoded h'" "ho_ContextDigest h' = ctx"
    "cvHandoffUnsignedScalarCanonicalBytes ctx (ho_Header h') (ho_ARC h') = Ok u'" "d' = cv_hashBytes [bytes_of cvHandoffDigestScalarDomain, u']"
    "VerifyRecovered lib s cvDecisionCertificateScalarDomain (cv_hashBytes [?dom, ctx, d']) (ho_DecCert h')"
    by (rule authorized)
  obtain Q where Q: "Q \<subseteq> set (th_memberOrder s)" "th_t s \<le> int (card Q)"
    "\<And>p. p \<in> Q \<Longrightarrow> p \<notin> faulty \<Longrightarrow> \<exists>x \<in> ?signed p. decisionMessage x = decisionMessage (cv_hashBytes [?dom, ctx, d])"
    using decision_quorum [OF sigs a(5)] by metis
  obtain R where R: "R \<subseteq> set (th_memberOrder s)" "th_t s \<le> int (card R)"
    "\<And>p. p \<in> R \<Longrightarrow> p \<notin> faulty \<Longrightarrow> \<exists>x \<in> ?signed p. decisionMessage x = decisionMessage (cv_hashBytes [?dom, ctx, d'])"
    using decision_quorum [OF sigs b(5)] by metis
  obtain p where p: "p \<in> Q" "p \<in> R" "p \<notin> faulty"
  proof (rule quorum_honest_Int [of "set (th_memberOrder s)" Q R faulty])
    show "card (set (th_memberOrder s)) + card faulty < card Q + card R"
      using Q(2) R(2) members distinct_card [OF members(1)] by linarith
  qed (use Q R members in auto)
  then obtain x y where "x \<in> ?signed p" "decisionMessage x = decisionMessage (cv_hashBytes [?dom, ctx, d])"
    "y \<in> ?signed p" "decisionMessage y = decisionMessage (cv_hashBytes [?dom, ctx, d'])"
    using Q(3) [OF p(1,3)] R(3) [OF p(2,3)] by metis
  then have msg: "decisionMessage (cv_hashBytes [?dom, ctx, d]) = decisionMessage (cv_hashBytes [?dom, ctx, d'])"
    using signs_one_decision by metis
  have noc: "\<not> collision (concat [bytes_of cvHandoffDigestScalarDomain, u]) (concat [bytes_of cvHandoffDigestScalarDomain, u'])"
    "\<not> collision (concat [?dom, ctx, d]) (concat [?dom, ctx, d'])"
    "\<not> collision (concat [bytes_of ''rladkr-domain'', bytes_of (map cvUpperChar cvDecisionCertificateScalarDomain), cv_hashBytes [?dom, ctx, d]])
      (concat [bytes_of ''rladkr-domain'', bytes_of (map cvUpperChar cvDecisionCertificateScalarDomain), cv_hashBytes [?dom, ctx, d']])"
    using nc handoffStrings_mem [of h u d, unfolded a(2), OF a(3,4)] handoffStrings_mem [of h' u' d', unfolded b(2), OF b(3,4)] by blast+
  have "cv_hashBytes [?dom, ctx, d] = cv_hashBytes [?dom, ctx, d']"
    using msg noc(3) unfolding decisionMessage_def cv_domainDigest_def cv_hashBytes_def collision_def by simp
  then have "d = d'" using noc(2) unfolding cv_hashBytes_def collision_def by simp
  then have "u = u'" using noc(1) a(4) b(4) unfolding cv_hashBytes_def collision_def by simp
  then show "ho_Header h = ho_Header h' \<and> ho_ARC h = ho_ARC h'"
    using unsigned_inj [OF a(1) b(1)] a(2,3) b(2,3) by simp
qed

text \<open>Four members that sign the same decision, and the request that carries it.\<close>

definition zeros :: bytes where
  "zeros = replicate 32 0"

definition demoInstance :: bytes where
  "demoInstance = cv_hashBytes [bytes_of cvAPDBInstanceDomain, lengthPrefixed (bytes_of ''AGG'') @ lengthPrefixed zeros @
     lengthPrefixed (put64 0) @ lengthPrefixed zeros @ lengthPrefixed zeros]"

definition demoHeader :: cvAggregateHeaderScalar where
  "demoHeader = \<lparr>ah_ContextDigest = zeros, ah_ProposerID = 0, ah_PoolDigest = zeros, ah_SelectionDigest = zeros, ah_AggregateDigest = zeros,
     ah_PayloadDigest = zeros, ah_APDBInstance = demoInstance, ah_APDBRoot = zeros\<rparr>"

definition demoArcWire :: bytes where
  "demoArcWire = lengthPrefixed (bytes_of cvAPDBLockWireDomain) @ lengthPrefixed demoInstance @ lengthPrefixed zeros @ lengthPrefixed [1]"

definition demoArc :: cvAPDBLockScalar where
  "demoArc = \<lparr>lk_InstanceDigest = demoInstance, lk_Root = zeros, lk_Certificate = [1], lk_canonicalWire = demoArcWire\<rparr>"

definition demoHandoff :: cvHandoffScalar where
  "demoHandoff = \<lparr>ho_ContextDigest = zeros, ho_Header = demoHeader, ho_ARC = demoArc, ho_DecCert = [1], ho_canonicalWire = []\<rparr>"

lemma demo_lengths [simp]: "length zeros = 32" "length demoInstance = 32"
  by (simp_all add: zeros_def demoInstance_def cv_hashBytes_def)

lemma demo_arc: "cvDecodeAPDBLockScalar demoArcWire = Ok demoArc"
proof -
  have "lockShape (demoArc\<lparr>lk_canonicalWire := []\<rparr>)" by (simp add: lockShape_def demoArc_def cvMaxComponentSignatureBytes_def)
  then show ?thesis unfolding lock_codec using lock_wire [of "demoArc\<lparr>lk_canonicalWire := []\<rparr>"] by (simp add: demoArc_def demoArcWire_def)
qed

lemma demo_header: "\<exists>w. cvAggregateHeaderScalarCanonicalBytes demoHeader = Ok w"
proof -
  have "cvAggregateInstanceDigestScalar zeros 0 zeros zeros = Ok demoInstance"
    by (simp add: cvAggregateInstanceDigestScalar_def cvAPDBInstanceDigestScalar_def cvWriteUint64_def cvWriteBytes_eq demoInstance_def)
  then show ?thesis by (simp add: cvAggregateHeaderScalarCanonicalBytes_def demoHeader_def headerFields_def)
qed

lemma demo_unsigned:
  "\<exists>u. cvHandoffUnsignedScalarCanonicalBytes zeros demoHeader demoArc = Ok u \<and> length u \<le> 10000"
proof -
  obtain w where w: "cvAggregateHeaderScalarCanonicalBytes demoHeader = Ok w" using demo_header by blast
  have a: "length demoArcWire \<le> 200" by (simp add: demoArcWire_def lengthPrefixed_def)
  show ?thesis
    using w header_wire_length [OF w] decoded_lock [OF demo_arc] a
    by (simp add: cvHandoffUnsignedScalarCanonicalBytes_def) (simp add: demoHeader_def demoArc_def lengthPrefixed_def)
qed

definition demoStatement :: bytes where
  "demoStatement = (case cvDecisionStatementScalar zeros demoHeader demoArc of Ok statement \<Rightarrow> statement)"

lemma demo_statement:
  "cvDecisionStatementScalar zeros demoHeader demoArc = Ok demoStatement" "length demoStatement = 32"
  "\<exists>d. cvHandoffDigestScalar zeros demoHeader demoArc = Ok d \<and> length d = 32"
  using demo_unsigned by (auto simp: demoStatement_def cvDecisionStatementScalar_def cvHandoffDigestScalar_def cv_hashBytes_def)

definition demoLib :: "(int, int, int) blsLib" where
  "demoLib = \<lparr>bl_HashToG1 = (\<lambda>d domain. if domain = cvDecisionCertificateScalarDomain \<and> d \<noteq> decisionMessage demoStatement then Err ''hash'' else Ok 1),
     bl_smul = (*), bl_Marshal = (\<lambda>_. [1]), bl_Unmarshal = (\<lambda>_. Ok 1), bl_g2 = (\<lambda>x. x), bl_check = (\<lambda>_ _ _. True)\<rparr>"

definition demoKeys :: "string \<Rightarrow> (int, int) tblsThresholdSigner" where
  "demoKeys role = \<lparr>th_t = 3, th_n = 4, th_scalarRole = role, th_pubKey = 1, th_pubKeyShares = [1, 1, 1, 1], th_shares = [1, 1, 1, 1],
     th_memberOrder = [0, 1, 2, 3], th_memberIndex = [0 \<mapsto> 0, 1 \<mapsto> 1, 2 \<mapsto> 2, 3 \<mapsto> 3], th_signingMembers = None\<rparr>"

definition demoIO :: ioFaults where
  "demoIO = \<lparr>io_ensureDir = False, io_lstat = False, io_readFile = False, io_temporary = False, io_race = None, io_link = False,
     io_lstatAgain = False, io_readAgain = False, io_syncDir = False\<rparr>"

abbreviation decisionSigned :: "int \<Rightarrow> bytes set" where
  "decisionSigned p \<equiv> set (fst (storeRun demoLib ''d'' ''s'' 1 p (Some (demoKeys cvScalarRoleControl)) Map.empty
     [(demoIO, SignCall zeros demoHeader demoArc)]))"

lemma demo_sign:
  assumes "p \<in> {0, 1, 2, 3}"
  shows "decisionSigned p = {demoStatement}"
proof -
  let ?s = "Some (demoKeys cvScalarRoleControl)"
  have can: "cvScalarSignerHasRole ?s cvScalarRoleControl" "cvThresholdSignerCanSignScalar ?s p" "0 \<le> p" "p \<le> 3"
    using assms by (auto simp: cvScalarSignerHasRole_def cvScalarKnownThresholdRole_def demoKeys_def cvThresholdSignerCanSignScalar_def)
  obtain d where d: "cvHandoffDigestScalar zeros demoHeader demoArc = Ok d" "length d = 32" using demo_statement(3) by blast
  have key: "trimSpace ''s'' \<noteq> []" by code_simp
  obtain path where path: "decisionPath ''d'' ''s'' 1 p = Ok path"
    using can(3) key by (auto simp: decisionPath_def cvStoreKeyParts_def max_int_def cv_hashBytes_def Let_def)
  obtain r where r: "cvDecisionSignRecordScalarCanonicalBytes ''s'' 1 p d demoStatement = Ok r"
    using can(3) d demo_statement by (auto simp: cvDecisionSignRecordScalarCanonicalBytes_def)
  have rec: "decisionRecord ''d'' ''s'' 1 p zeros demoHeader demoArc ?s = Ok (demoStatement, r, path)"
    using can d r path demo_statement by (simp add: decisionRecord_def)
  have put: "fst (cvPutImmutableFile demoIO Map.empty path r) = Ok ()"
    by (simp add: cvPutImmutableFile_def cvReadImmutableFile_def demoIO_def syncStoreDir_def)
  have "th_memberIndex (demoKeys cvScalarRoleControl) p = Some p" using assms by (auto simp: demoKeys_def)
  moreover have "nat p < 4" using can by auto
  ultimately have sign: "SignShare demoLib (demoKeys cvScalarRoleControl) p cvDecisionCertificateScalarDomain demoStatement = Ok [1]"
    "VerifyShare demoLib (demoKeys cvScalarRoleControl) p cvDecisionCertificateScalarDomain demoStatement [1]"
    using can by (auto simp: SignShare_def VerifyShare_def demoLib_def decisionMessage_def demoKeys_def indexR_def)
  have "fst (SignHandoffOnce demoLib ''d'' demoIO Map.empty ''s'' 1 p zeros demoHeader demoArc ?s) = Ok [1]"
    using rec put sign by (cases "cvPutImmutableFile demoIO Map.empty path r") (simp add: SignHandoffOnce_def)
  then show ?thesis using demo_statement(1) by (auto split: prod.splits)
qed

lemma demo_unforgeable_decision: "decisionUnforgeable demoLib (demoKeys cvScalarRoleControl) zeros {} decisionSigned"
proof -
  have "decisionMessage x = decisionMessage demoStatement"
    if "VerifyRecovered demoLib (demoKeys cvScalarRoleControl) cvDecisionCertificateScalarDomain x c" for x c
    using that by (auto simp: VerifyRecovered_def demoLib_def decisionMessage_def split: if_splits)
  moreover have "\<exists>x \<in> decisionSigned p. decisionMessage x = m" if "p \<in> {0, 1, 2, 3}" "m = decisionMessage demoStatement" for p m
    unfolding demo_sign [OF that(1)] using that(2) by blast
  moreover have "{0, 1, 2, 3} \<subseteq> set (th_memberOrder (demoKeys cvScalarRoleControl))" "th_t (demoKeys cvScalarRoleControl) \<le> int (card {0 :: int, 1, 2, 3})"
    by (simp_all add: demoKeys_def)
  ultimately show ?thesis unfolding decisionUnforgeable_def Let_def by (metis DiffD1)
qed

lemma demo_authorized:
  "\<exists>wire h. cvAuthorizeAggregateRecoveryRequestScalar demoLib wire zeros (Some (demoKeys cvScalarRoleAPDB)) (Some (demoKeys cvScalarRoleControl)) = Ok h"
proof -
  obtain u where u: "cvHandoffUnsignedScalarCanonicalBytes zeros demoHeader demoArc = Ok u" "length u \<le> 10000"
    using demo_unsigned by blast
  obtain w where w: "cvHandoffScalarCanonicalBytes demoHandoff = Ok w" "cvDecodeHandoffScalar w = Ok (demoHandoff\<lparr>ho_canonicalWire := w\<rparr>)"
    using handoff_roundtrip [of demoHandoff u demoArcWire] u demo_arc
    by (auto simp: demoHandoff_def demoHeader_def max_int_def cvMaxComponentSignatureBytes_def cvMaxNetworkPayloadBytes_def demoArcWire_def lengthPrefixed_def)
  have size: "w \<noteq> []" "int (length w) \<le> cvMaxNetworkPayloadBytes" using w(2) by (auto simp: cvDecodeHandoffScalar_def split: if_splits)
  let ?h = "demoHandoff\<lparr>ho_canonicalWire := w\<rparr>"
  have canon: "cvHandoffScalarCanonicalBytes ?h = Ok w" using w(1) size(1) by (auto simp: cvHandoffScalarCanonicalBytes_def split: if_splits)
  have roles: "cvScalarSignerHasRole (Some (demoKeys cvScalarRoleAPDB)) cvScalarRoleAPDB"
    "cvScalarSignerHasRole (Some (demoKeys cvScalarRoleControl)) cvScalarRoleControl"
    by (simp_all add: cvScalarSignerHasRole_def cvScalarKnownThresholdRole_def demoKeys_def)
  have lock: "cvVerifyAPDBLockScalar demoLib demoArc (Some (demoKeys cvScalarRoleAPDB)) = Ok ()"
    using roles by (simp add: cvVerifyAPDBLockScalar_def lockShape_def demoArc_def cvMaxComponentSignatureBytes_def
        cvAPDBStoredStatementScalar_def VerifyRecovered_def demoLib_def)
  have cert: "VerifyRecovered demoLib (demoKeys cvScalarRoleControl) cvDecisionCertificateScalarDomain demoStatement [1]"
    by (simp add: VerifyRecovered_def demoLib_def decisionMessage_def)
  have ver: "cvVerifyHandoffScalar demoLib ?h zeros (Some (demoKeys cvScalarRoleAPDB)) (Some (demoKeys cvScalarRoleControl)) = Ok ()"
    using canon roles lock cert demo_statement(1)
    by (simp add: cvVerifyHandoffScalar_def cvVerifyDecodedHandoffScalar_def demoHandoff_def)
  show ?thesis
    using request_roundtrip [OF w size] ver unfolding cvAuthorizeAggregateRecoveryRequestScalar_def by fastforce
qed

theorem handoff_unique_witness:
  "\<exists>wire h. cvAuthorizeAggregateRecoveryRequestScalar demoLib wire zeros (Some (demoKeys cvScalarRoleAPDB))
       (Some (demoKeys cvScalarRoleControl)) = Ok h \<and>
     (ho_Header h = ho_Header h \<and> ho_ARC h = ho_ARC h \<or>
      (\<exists>x y. x \<in> handoffStrings h \<and> y \<in> handoffStrings h \<and> collision x y))"
proof -
  obtain wire h where a: "cvAuthorizeAggregateRecoveryRequestScalar demoLib wire zeros (Some (demoKeys cvScalarRoleAPDB))
      (Some (demoKeys cvScalarRoleControl)) = Ok h"
    using demo_authorized by blast
  have keys: "distinct (th_memberOrder (demoKeys cvScalarRoleControl))"
    "th_t (demoKeys cvScalarRoleControl) = int (length (th_memberOrder (demoKeys cvScalarRoleControl))) - 1"
    "3 * 1 + 1 \<le> int (length (th_memberOrder (demoKeys cvScalarRoleControl)))"
    by (simp_all add: demoKeys_def)
  have "ho_Header h = ho_Header h \<and> ho_ARC h = ho_ARC h \<or> (\<exists>x y. x \<in> handoffStrings h \<and> y \<in> handoffStrings h \<and> collision x y)"
    by (rule handoff_unique [OF keys(1,2) _ keys(3) _ _ demo_unforgeable_decision a a]) simp_all
  with a show ?thesis by blast
qed

end
