(* ===== verification/Cv_Sampling.thy ===== *)
theory Cv_Sampling
  imports Cv_Wire Complex_Main "HOL-Library.Multiset"
begin

text \<open>
  Committee sampling (\<^verbatim>\<open>core/cv_sapvss_sampling_scalar.go\<close>, the failure bounds of \<^verbatim>\<open>core/cv_sapvss_scalar_params.go\<close>
  and \<^verbatim>\<open>core/cv_eligibility.go\<close>): binomials by the multiplicative loop, hypergeometric tails as exact rationals, the
  smallest sample sizes that meet a failure budget, and the choice of a proposer set from a coin. The specification
  counts samples: a bound is the share of the samples of a committee in which the bad event happens.
  Numbers in a report are kept as the rationals their strings print; failure targets are ASCII strings.
\<close>

section \<open>Failure bounds\<close>

definition cv_binomial :: "int \<Rightarrow> int \<Rightarrow> int" where
  "cv_binomial n k =
     (if k < 0 \<or> k > n then 0
      else let k = (if k > n - k then n - k else k) in
        fold (\<lambda>i r. r * (n - k + i) div i) [1..k] 1)"

definition cvScalarProposerFailureBound :: "int \<Rightarrow> int \<Rightarrow> int \<Rightarrow> rat res" where
  "cvScalarProposerFailureBound n f sampleSize =
     (if n \<le> 0 \<or> f < 0 \<or> f \<ge> n \<or> sampleSize \<le> 0 \<or> sampleSize > n
      then Err ''invalid CV V2 proposer sampling parameters''
      else Ok (of_int (cv_binomial f sampleSize) / of_int (cv_binomial n sampleSize)))"

definition cvScalarHypergeometricFaultTail :: "int \<Rightarrow> int \<Rightarrow> int \<Rightarrow> int \<Rightarrow> rat res" where
  "cvScalarHypergeometricFaultTail n f sampleSize minimumFaulty =
     (if n \<le> 0 \<or> f < 0 \<or> f \<ge> n \<or> sampleSize \<le> 0 \<or> sampleSize > n \<or> minimumFaulty \<le> 0 \<or> minimumFaulty > sampleSize
      then Err ''invalid CV V2 hypergeometric tail parameters''
      else
        let upper = (if sampleSize < f then sampleSize else f);
            numerator = fold (\<lambda>faulty numerator. numerator + cv_binomial f faulty * cv_binomial (n - f) (sampleSize - faulty))
              [minimumFaulty..upper] 0 in
        Ok (of_int numerator / of_int (cv_binomial n sampleSize)))"

definition cvScalarValidatorFailureBounds :: "int \<Rightarrow> int \<Rightarrow> int \<Rightarrow> int \<Rightarrow> (rat \<times> rat \<times> rat) res" where
  "cvScalarValidatorFailureBounds n f sampleSize threshold =
     (if n \<le> 0 \<or> f < 0 \<or> f \<ge> n \<or> sampleSize \<le> 0 \<or> sampleSize > n \<or> threshold \<le> 0 \<or> threshold > sampleSize
      then Err ''invalid CV V2 validator sampling parameters''
      else
        bindR (cvScalarHypergeometricFaultTail n f sampleSize threshold) (\<lambda>soundness.
        let livenessThreshold = sampleSize - threshold + 1 in
        bindR (cvScalarHypergeometricFaultTail n f sampleSize livenessThreshold) (\<lambda>liveness.
        let combinedThreshold = (if livenessThreshold < threshold then livenessThreshold else threshold) in
        bindR (cvScalarHypergeometricFaultTail n f sampleSize combinedThreshold) (\<lambda>combined.
        Ok (soundness, liveness, combined)))))"

section \<open>Sample sizes\<close>

fun firstSample :: "(int \<Rightarrow> rat res) \<Rightarrow> rat \<Rightarrow> int list \<Rightarrow> int res" where
  "firstSample bound target [] = Ok 0"
| "firstSample bound target (sample # samples) =
     bindR (bound sample) (\<lambda>b. if b \<le> target then Ok sample else firstSample bound target samples)"

definition validatorCombined :: "int \<Rightarrow> int \<Rightarrow> int \<Rightarrow> rat res" where
  "validatorCombined n f sample =
     bindR (cvScalarValidatorFailureBounds n f sample (sample div 2 + 1)) (\<lambda>(_, _, combined). Ok combined)"

definition cvScalarExactFinitePopulationSampleSizes :: "int \<Rightarrow> int \<Rightarrow> rat \<Rightarrow> (int \<times> int) res" where
  "cvScalarExactFinitePopulationSampleSizes n f perEventTarget =
     (if n \<le> 0 \<or> f < 0 \<or> f \<ge> n \<or> perEventTarget \<le> 0 \<or> perEventTarget \<ge> 1
      then Err ''invalid CV V2 exact sampling target''
      else
        bindR (firstSample (cvScalarProposerFailureBound n f) perEventTarget [1..n]) (\<lambda>proposerSample.
        bindR (firstSample (validatorCombined n f) perEventTarget [1..n]) (\<lambda>validatorSample.
        if proposerSample = 0 \<or> validatorSample = 0 then Err ''CV V2 sampling target is unattainable''
        else Ok (proposerSample, validatorSample))))"

section \<open>Failure targets\<close>

definition lowerChar :: "char \<Rightarrow> char" where
  "lowerChar c = (if 65 \<le> (of_char c :: nat) \<and> (of_char c :: nat) \<le> 90 then char_of (of_char c + 32 :: nat) else c)"

text \<open>\<^verbatim>\<open>big.Int.SetString(s, 10)\<close> and \<^verbatim>\<open>strings.Split(value, "e-")\<close>.\<close>

definition bigOfString :: "string \<Rightarrow> int option" where
  "bigOfString s =
     (let (neg, d) = (case s of [] \<Rightarrow> (False, [])
            | c # r \<Rightarrow> if c = CHR ''-'' then (True, r) else if c = CHR ''+'' then (False, r) else (False, s)) in
      if d = [] \<or> \<not> list_all isDigit d then None
      else Some (if neg then - int (digits_value d) else int (digits_value d)))"

fun splitExp :: "string \<Rightarrow> string \<Rightarrow> string list" where
  "splitExp acc [] = [acc]"
| "splitExp acc [c] = [acc @ [c]]"
| "splitExp acc (c # c' # r) = (if c = CHR ''e'' \<and> c' = CHR ''-'' then acc # splitExp [] r else splitExp (acc @ [c]) (c' # r))"

definition cvParseFailureTargetScalar :: "string \<Rightarrow> rat res" where
  "cvParseFailureTargetScalar value0 =
    (let value = map lowerChar (trimSpace value0) in
     if take 3 value = ''2^-'' then
       (case atoi (drop 3 value) of
          Some exponent \<Rightarrow> if exponent \<le> 0 then Err ''invalid CV V2 failure target'' else Ok (1 / 2 ^ nat exponent)
        | None \<Rightarrow> Err ''invalid CV V2 failure target'')
     else
       let parts = splitExp [] value in
       if length parts = 2 then
         (case (bigOfString (parts ! 0), atoi (parts ! 1)) of
            (Some coefficient, Some exponent) \<Rightarrow>
              if coefficient \<le> 0 \<or> exponent \<le> 0 then Err ''invalid CV V2 failure target''
              else let target = of_int coefficient / 10 ^ nat exponent in
                if target \<ge> 1 then Err ''CV V2 failure target must be below one'' else Ok target
          | _ \<Rightarrow> Err ''invalid CV V2 failure target'')
       else Err ''unsupported CV V2 failure target'')"

definition cvResolveFailureBudgetScalar :: "string \<Rightarrow> (string \<times> string \<times> rat) res" where
  "cvResolveFailureBudgetScalar value0 =
    (let value = map lowerChar (trimSpace value0) in
     if value = ''original'' then Ok (value, value, 1 / 10000000000)
     else if value = ''high-assurance'' then Ok (value, value, 1 / (2 ^ 64 * 525600))
     else bindR (cvParseFailureTargetScalar value) (\<lambda>parsed. Ok (value, ''custom'', parsed)))"

section \<open>The report\<close>

record CVScalarSamplingReport =
  sr_Target :: string
  sr_Profile :: string
  sr_Policy :: string
  sr_FaultFraction :: "int \<times> int"
  sr_TotalFailureBudget :: "rat option"
  sr_PerEventFailureTarget :: "rat option"
  sr_ProposerSampleSize :: int
  sr_ValidatorSampleSize :: int
  sr_ValidatorThreshold :: int
  sr_ProposerFailureBound :: rat
  sr_ValidatorSoundnessFailureBound :: rat
  sr_ValidatorLivenessFailureBound :: rat
  sr_ValidatorCombinedFailureBound :: rat
  sr_ContributorSamplingFailureBound :: rat
  sr_PerEpochCombinedSamplingFailureBound :: rat

text \<open>The choice of the sample sizes, lines 37 to 62: target, profile, policy, budget, target per event and sizes.\<close>

definition sampleChoice :: "int \<Rightarrow> int \<Rightarrow> string \<Rightarrow> int \<Rightarrow> int \<Rightarrow>
    (string \<times> string \<times> string \<times> (rat \<times> rat) option \<times> int \<times> int) res" where
  "sampleChoice n f target smokeProposerSample smokeValidatorSample =
    (let lowered = map lowerChar (trimSpace target); normalized = (if lowered = [] then ''smoke'' else lowered) in
     if normalized = ''smoke''
     then Ok (normalized, ''smoke'', ''explicit-smoke'', None, smokeProposerSample, smokeValidatorSample)
     else bindR (cvResolveFailureBudgetScalar normalized) (\<lambda>(normalized, profile, totalBudget).
       if n < 3 * f + 1 then Err ''CV V2 secure sampling requires n >= 3f+1''
       else
         let perEventTarget = totalBudget / 2 in
         bindR (cvScalarExactFinitePopulationSampleSizes n f perEventTarget) (\<lambda>(proposerSample, validatorSample).
         Ok (normalized, profile, ''exact-finite-population'', Some (totalBudget, perEventTarget), proposerSample, validatorSample))))"

definition ResolveCVScalarSampling :: "int \<Rightarrow> int \<Rightarrow> string \<Rightarrow> int \<Rightarrow> int \<Rightarrow> CVScalarSamplingReport res" where
  "ResolveCVScalarSampling n f target smokeProposerSample smokeValidatorSample =
     (if n \<le> 0 \<or> f < 0 \<or> f \<ge> n then Err ''invalid CV V2 sampling committee''
      else bindR (sampleChoice n f target smokeProposerSample smokeValidatorSample)
        (\<lambda>(normalized, profile, policy, budget, proposerSample, validatorSample).
        if proposerSample \<le> 0 \<or> proposerSample > n \<or> validatorSample \<le> 0 \<or> validatorSample > n
        then Err ''invalid CV V2 smoke sampling parameters''
        else
          let threshold = validatorSample div 2 + 1 in
          bindR (cvScalarProposerFailureBound n f proposerSample) (\<lambda>proposer.
          bindR (cvScalarValidatorFailureBounds n f validatorSample threshold) (\<lambda>(soundness, liveness, combined).
          if (case budget of None \<Rightarrow> False | Some (_, perEventTarget) \<Rightarrow> proposer > perEventTarget \<or> combined > perEventTarget)
          then Err ''CV V2 exact samples do not meet per-event target''
          else
            let perEpoch = proposer + combined in
            if (case budget of None \<Rightarrow> False | Some (totalBudget, _) \<Rightarrow> perEpoch > totalBudget)
            then Err ''CV V2 combined sampling bound exceeds total budget''
            else Ok \<lparr>sr_Target = normalized, sr_Profile = profile, sr_Policy = policy, sr_FaultFraction = (f, n),
              sr_TotalFailureBudget = map_option fst budget, sr_PerEventFailureTarget = map_option snd budget,
              sr_ProposerSampleSize = proposerSample, sr_ValidatorSampleSize = validatorSample,
              sr_ValidatorThreshold = threshold, sr_ProposerFailureBound = proposer,
              sr_ValidatorSoundnessFailureBound = soundness, sr_ValidatorLivenessFailureBound = liveness,
              sr_ValidatorCombinedFailureBound = combined, sr_ContributorSamplingFailureBound = 0,
              sr_PerEpochCombinedSamplingFailureBound = perEpoch\<rparr>))))"

definition CVScalarSamplingUnionBound :: "CVScalarSamplingReport \<Rightarrow> int \<Rightarrow> rat res" where
  "CVScalarSamplingUnionBound report epochs =
     (if epochs < 0 then Err ''CV V2 sampling epoch count must be non-negative''
      else
        let perEpoch = sr_PerEpochCombinedSamplingFailureBound report in
        if perEpoch < 0 then Err ''invalid CV V2 per-epoch sampling failure bound''
        else let bound = perEpoch * of_int epochs in Ok (if bound > 1 then 1 else bound))"

section \<open>Eligibility\<close>

abbreviation cvEligibilityCoinDomain :: string where
  "cvEligibilityCoinDomain \<equiv> ''ARL-CV-sAPVSS/eligibility-coin/v1''"

fun eligibilityLoop :: "int \<Rightarrow> int \<Rightarrow> rat \<Rightarrow> int list \<Rightarrow> int res" where
  "eligibilityLoop n f bound [] = Err ''no eligibility sample size''"
| "eligibilityLoop n f bound (c # cs) =
     (if c > f then Ok c
      else if of_int (cv_binomial f c) / of_int (cv_binomial n c) \<le> bound then Ok c else eligibilityLoop n f bound cs)"

definition cvEligibilitySampleSize :: "int \<Rightarrow> int \<Rightarrow> 64 word \<Rightarrow> 64 word \<Rightarrow> int res" where
  "cvEligibilitySampleSize n f maxNumerator maxDenominator =
     (if n \<le> 0 \<or> f < 0 \<or> f \<ge> n \<or> maxNumerator = 0 \<or> maxNumerator \<ge> maxDenominator
      then Err ''invalid eligibility parameters''
      else eligibilityLoop n f (of_int (uint maxNumerator) / of_int (uint maxDenominator)) [1..n])"

definition encodeInts :: "int list \<Rightarrow> bytes" where
  "encodeInts v = concat (map (\<lambda>n. put64 (word_of_int n)) v)"

definition sortedUnique :: "int list \<Rightarrow> int list" where
  "sortedUnique v = remdups_adj (sort v)"

text \<open>\<^verbatim>\<open>sort.Slice\<close> promises no order among equal digests; the stable order is one of the possible ones. Equal digests of
  different members are hash collisions. \<open>string\<close> comparison in Go is lexicographic on bytes.\<close>

fun bytesLess :: "bytes \<Rightarrow> bytes \<Rightarrow> bool" where
  "bytesLess [] ys \<longleftrightarrow> ys \<noteq> []"
| "bytesLess (x # xs) [] \<longleftrightarrow> False"
| "bytesLess (x # xs) (y # ys) \<longleftrightarrow> x < y \<or> x = y \<and> bytesLess xs ys"

fun insertKey :: "(int \<times> bytes) \<Rightarrow> (int \<times> bytes) list \<Rightarrow> (int \<times> bytes) list" where
  "insertKey k [] = [k]"
| "insertKey k (k' # ks) = (if bytesLess (snd k') (snd k) then k' # insertKey k ks else k # k' # ks)"

definition eligibilityDigest :: "bytes \<Rightarrow> int \<Rightarrow> bytes" where
  "eligibilityDigest coin i = cv_hashBytes [bytes_of cvEligibilityCoinDomain, coin, encodeInts [i]]"

definition cvEligibilityProposerSet :: "int list \<Rightarrow> int \<Rightarrow> int \<Rightarrow> bytes \<Rightarrow> int list res" where
  "cvEligibilityProposerSet roster c f coin =
     (if coin = [] \<or> c \<le> 0 \<or> c > int (length roster) \<or> f < 0 \<or> f \<ge> int (length roster)
      then Err ''invalid eligibility proposer set parameters''
      else
        let ordered = sortedUnique roster in
        if length ordered \<noteq> length roster \<or> c > int (length ordered) then Err ''invalid eligibility roster''
        else
          let keys = foldr insertKey (map (\<lambda>i. (i, eligibilityDigest coin i)) ordered) [] in
          Ok (take (nat c) (map fst keys)))"

definition cvEligibilityCoinInput :: "string \<Rightarrow> int \<Rightarrow> bytes" where
  "cvEligibilityCoinInput sid epoch = cv_hashBytes [bytes_of cvEligibilityCoinDomain, bytes_of sid, encodeInts [epoch]]"

section \<open>The loop computes binomials\<close>

lemma upto_snoc: "[1..int (Suc j)] = [1..int j] @ [int (Suc j)]"
  using upto_rec2 [of 1 "int (Suc j)"] by simp

lemma binomial_loop: "fold (\<lambda>i r. r * (int m + i) div i) [1..int j] 1 = int (m + j choose j)"
proof (induction j)
  case (Suc j)
  have "int (m + j choose j) * (int m + int (Suc j)) = int (Suc (m + j) * (m + j choose j))"
    by (simp only: of_nat_mult of_nat_Suc of_nat_add) (simp add: algebra_simps)
  also have "\<dots> = int (Suc j * (Suc (m + j) choose Suc j))" by (simp only: Suc_times_binomial)
  also have "\<dots> = int (m + Suc j choose Suc j) * int (Suc j)" by (simp only: of_nat_mult add_Suc_right mult.commute)
  finally have "int (m + j choose j) * (int m + int (Suc j)) div int (Suc j) = int (m + Suc j choose Suc j)"
    by (simp only: nonzero_mult_div_cancel_right of_nat_eq_0_iff nat.distinct simp_thms)
  then show ?case unfolding upto_snoc by (simp only: fold_append fold_simps o_apply Suc)
qed simp

lemma cv_binomial_eq: "cv_binomial (int n) (int k) = int (n choose k)"
proof (cases "k \<le> n")
  case True
  define j where "j = (if k > n - k then n - k else k)"
  have j: "j \<le> n" "int j = (if int k > int n - int k then int n - int k else int k)" using True by (auto simp: j_def)
  have "cv_binomial (int n) (int k) = fold (\<lambda>i r. r * (int n - int j + i) div i) [1..int j] 1"
    using True unfolding cv_binomial_def j(2) Let_def by simp
  also have "int n - int j = int (n - j)" using j(1) by simp
  also have "fold (\<lambda>i r. r * (int (n - j) + i) div i) [1..int j] 1 = int (n choose j)"
    using binomial_loop [of "n - j" j] j(1) by simp
  also have "(n choose j) = (n choose k)" using True binomial_symmetric [of k n] by (simp add: j_def)
  finally show ?thesis .
qed (simp add: cv_binomial_def)

section \<open>Counting samples\<close>

text \<open>The samples of size \<open>s\<close> of a committee, and the share of them in which an event happens.\<close>

definition samples :: "'a set \<Rightarrow> nat \<Rightarrow> 'a set set" where
  "samples N s = {S. S \<subseteq> N \<and> card S = s}"

definition share :: "'a set \<Rightarrow> nat \<Rightarrow> ('a set \<Rightarrow> bool) \<Rightarrow> rat" where
  "share N s event = of_nat (card {S \<in> samples N s. event S}) / of_nat (card (samples N s))"

lemma card_samples: "finite N \<Longrightarrow> card (samples N s) = (card N choose s)"
  unfolding samples_def by (rule n_subsets)

lemma finite_samples: "finite N \<Longrightarrow> finite (samples N s)"
  unfolding samples_def by (rule finite_subset [of _ "Pow N"]) auto

lemma card_faulty_exact:
  assumes "finite N" "F \<subseteq> N" "j \<le> s"
  shows "card {S \<in> samples N s. card (S \<inter> F) = j} = (card F choose j) * (card (N - F) choose (s - j))"
proof -
  let ?A = "samples F j \<times> samples (N - F) (s - j)"
  have fin: "finite F" using assms finite_subset by blast
  have "bij_betw (\<lambda>(A, B). A \<union> B) ?A {S \<in> samples N s. card (S \<inter> F) = j}"
  proof (rule bij_betw_byWitness [where f' = "\<lambda>S. (S \<inter> F, S - F)"])
    show "(\<lambda>(A, B). A \<union> B) ` ?A \<subseteq> {S \<in> samples N s. card (S \<inter> F) = j}"
    proof clarify
      fix A B assume AB: "A \<in> samples F j" "B \<in> samples (N - F) (s - j)"
      then have sub: "A \<subseteq> F" "B \<subseteq> N - F" "card A = j" "card B = s - j" by (auto simp: samples_def)
      then have "card (A \<union> B) = j + (s - j)"
        using fin assms(1) by (subst card_Un_disjoint) (auto intro: finite_subset)
      moreover have "(A \<union> B) \<inter> F = A" using sub by auto
      ultimately show "A \<union> B \<in> samples N s \<and> card ((A \<union> B) \<inter> F) = j"
        using sub assms(2,3) by (auto simp: samples_def)
    qed
    show "(\<lambda>S. (S \<inter> F, S - F)) ` {S \<in> samples N s. card (S \<inter> F) = j} \<subseteq> ?A"
    proof clarify
      fix S assume S: "S \<in> samples N s" "j = card (S \<inter> F)"
      then have "finite S" using assms(1) by (auto simp: samples_def intro: finite_subset)
      then have "card (S - F) = s - card (S \<inter> F)" using S(1) by (simp add: samples_def card_Diff_subset_Int)
      then show "S \<inter> F \<in> samples F (card (S \<inter> F)) \<and> S - F \<in> samples (N - F) (s - card (S \<inter> F))"
        using S by (auto simp: samples_def)
    qed
  qed (auto simp: samples_def)
  then have "card {S \<in> samples N s. card (S \<inter> F) = j} = card ?A" by (simp add: bij_betw_same_card)
  then show ?thesis using fin assms(1) by (simp add: card_cartesian_product card_samples)
qed

lemma card_faulty_tail:
  assumes "finite N" "F \<subseteq> N"
  shows "card {S \<in> samples N s. m \<le> card (S \<inter> F)} =
    (\<Sum>j = m..min s (card F). (card F choose j) * (card (N - F) choose (s - j)))"
proof -
  have fin: "finite F" using assms finite_subset by blast
  have "{S \<in> samples N s. m \<le> card (S \<inter> F)} = (\<Union>j \<in> {m..min s (card F)}. {S \<in> samples N s. card (S \<inter> F) = j})"
  proof -
    have "card (S \<inter> F) \<le> s \<and> card (S \<inter> F) \<le> card F" if "S \<in> samples N s" for S
      using that assms(1) fin by (auto simp: samples_def intro!: card_mono intro: finite_subset)
    then show ?thesis by auto
  qed
  moreover have "card (\<Union>j \<in> {m..min s (card F)}. {S \<in> samples N s. card (S \<inter> F) = j}) =
      (\<Sum>j = m..min s (card F). card {S \<in> samples N s. card (S \<inter> F) = j})"
    using finite_samples [OF assms(1)] by (intro card_UN_disjoint) auto
  moreover have "\<dots> = (\<Sum>j = m..min s (card F). (card F choose j) * (card (N - F) choose (s - j)))"
    using assms by (intro sum.cong refl card_faulty_exact) auto
  ultimately show ?thesis by simp
qed

lemma fold_plus: "fold (\<lambda>i a. a + g i) xs a = a + sum_list (map g xs)" for g :: "int \<Rightarrow> int"
  by (induction xs arbitrary: a) auto

lemma sum_upto_nat: "sum_list (map g [int m..int u]) = (\<Sum>j = m..u. g (int j))" for g :: "int \<Rightarrow> int"
proof -
  have "sum_list (map g [int m..int u]) = sum g {int m..int u}"
    by (simp add: sum_set_upto_conv_sum_list_int [symmetric])
  also have "{int m..int u} = int ` {m..u}" by (simp add: image_int_atLeastAtMost)
  also have "sum g (int ` {m..u}) = (\<Sum>j = m..u. g (int j))" by (simp add: sum.reindex)
  finally show ?thesis .
qed

lemma tail_exact:
  assumes N: "finite N" "F \<subset> N" and s: "0 < s" "s \<le> card N" and m: "0 < m" "m \<le> s"
  shows "cvScalarHypergeometricFaultTail (int (card N)) (int (card F)) (int s) (int m) = Ok (share N s (\<lambda>S. m \<le> card (S \<inter> F)))"
proof -
  let ?n = "card N" and ?f = "card F"
  have f: "?f < ?n" using N by (simp add: psubset_card_mono)
  have diff: "card (N - F) = ?n - ?f" using N finite_subset [of F N] by (simp add: card_Diff_subset psubset_imp_subset)
  have u: "(if int s < int ?f then int s else int ?f) = int (min s ?f)" by auto
  have tm: "cv_binomial (int ?f) (int j) * cv_binomial (int ?n - int ?f) (int s - int j) =
      int ((?f choose j) * (card (N - F) choose (s - j)))" if "j \<le> s" for j
  proof -
    have "int ?n - int ?f = int (card (N - F))" "int s - int j = int (s - j)" using f that diff by auto
    then show ?thesis by (simp only: cv_binomial_eq of_nat_mult)
  qed
  have "fold (\<lambda>faulty numerator. numerator + cv_binomial (int ?f) faulty * cv_binomial (int ?n - int ?f) (int s - faulty))
      [int m..int (min s ?f)] 0 = (\<Sum>j = m..min s ?f. cv_binomial (int ?f) (int j) * cv_binomial (int ?n - int ?f) (int s - int j))"
    unfolding fold_plus sum_upto_nat by simp
  also have "\<dots> = int (card {S \<in> samples N s. m \<le> card (S \<inter> F)})"
    unfolding card_faulty_tail [OF N(1) psubset_imp_subset [OF N(2)]] of_nat_sum by (intro sum.cong refl tm) simp
  finally show ?thesis
    using f s m unfolding cvScalarHypergeometricFaultTail_def u Let_def
    by (simp add: share_def cv_binomial_eq card_samples [OF N(1)] del: of_nat_min)
qed

lemma faulty_honest:
  assumes "finite N" "S \<in> samples N s"
  shows "card (S - F) = s - card (S \<inter> F)" "card (S \<inter> F) \<le> s"
proof -
  have S: "finite S" "card S = s" using assms by (auto simp: samples_def intro: finite_subset)
  then show "card (S - F) = s - card (S \<inter> F)" by (simp add: card_Diff_subset_Int)
  show "card (S \<inter> F) \<le> s" using S by (metis card_mono inf_le1)
qed

lemma share_cong: "(\<And>S. S \<in> samples N s \<Longrightarrow> P S \<longleftrightarrow> Q S) \<Longrightarrow> share N s P = share N s Q"
  unfolding share_def by (metis (mono_tags, lifting) Collect_cong)

lemma validator_exact:
  assumes N: "finite N" "F \<subset> N" and s: "0 < s" "s \<le> card N" and t: "0 < t" "t \<le> s"
  shows "cvScalarValidatorFailureBounds (int (card N)) (int (card F)) (int s) (int t) =
    Ok (share N s (\<lambda>S. t \<le> card (S \<inter> F)), share N s (\<lambda>S. card (S - F) < t),
        share N s (\<lambda>S. t \<le> card (S \<inter> F) \<or> card (S - F) < t))"
proof -
  have f: "card F < card N" using N by (simp add: psubset_card_mono)
  have l: "int s - int t + 1 = int (Suc (s - t))" using t by simp
  have c: "(if int (Suc (s - t)) < int t then int (Suc (s - t)) else int t) = int (min (Suc (s - t)) t)" by auto
  have live: "share N s (\<lambda>S. Suc (s - t) \<le> card (S \<inter> F)) = share N s (\<lambda>S. card (S - F) < t)"
    by (rule share_cong) (use faulty_honest [OF N(1), of _ s F] t in force)
  have comb: "share N s (\<lambda>S. min (Suc (s - t)) t \<le> card (S \<inter> F)) = share N s (\<lambda>S. t \<le> card (S \<inter> F) \<or> card (S - F) < t)"
    by (rule share_cong) (use faulty_honest [OF N(1), of _ s F] t in force)
  have "0 < min (Suc (s - t)) t" "min (Suc (s - t)) t \<le> s" "Suc (s - t) \<le> s" using t by auto
  then show ?thesis
    using f s t tail_exact [OF N s t] tail_exact [OF N s, of "Suc (s - t)"] tail_exact [OF N s, of "min (Suc (s - t)) t"]
    unfolding cvScalarValidatorFailureBounds_def Let_def l c by (simp add: live comb del: of_nat_min of_nat_add of_nat_Suc)
qed

lemma proposer_exact:
  assumes N: "finite N" "F \<subset> N" and s: "0 < s" "s \<le> card N"
  shows "cvScalarProposerFailureBound (int (card N)) (int (card F)) (int s) = Ok (share N s (\<lambda>S. S \<subseteq> F))"
proof -
  have f: "card F < card N" using N by (simp add: psubset_card_mono)
  have "{S \<in> samples N s. S \<subseteq> F} = samples F s" using N by (auto simp: samples_def)
  then have "card {S \<in> samples N s. S \<subseteq> F} = (card F choose s)"
    using N finite_subset [of F N] by (simp add: card_samples psubset_imp_subset)
  then show ?thesis
    using f s by (simp add: cvScalarProposerFailureBound_def share_def cv_binomial_eq card_samples [OF N(1)])
qed

text \<open>C14. The failure bounds are exact: for a committee \<open>N\<close> with faulty members \<open>F\<close>, the proposer bound is the share of the
  samples of size \<open>s\<close> without an honest member, and the validator bounds are the shares of the samples in which the faulty
  members reach the threshold, in which the honest ones do not, and in which one of both happens.\<close>

theorem sampling_bounds_exact:
  assumes "finite N" "F \<subset> N" "0 < s" "s \<le> card N" "0 < t" "t \<le> s"
  shows "cvScalarProposerFailureBound (int (card N)) (int (card F)) (int s) = Ok (share N s (\<lambda>S. S \<subseteq> F)) \<and>
    cvScalarValidatorFailureBounds (int (card N)) (int (card F)) (int s) (int t) =
      Ok (share N s (\<lambda>S. t \<le> card (S \<inter> F)), share N s (\<lambda>S. card (S - F) < t),
          share N s (\<lambda>S. t \<le> card (S \<inter> F) \<or> card (S - F) < t))"
  using proposer_exact [OF assms(1-4)] validator_exact [OF assms] by simp

section \<open>Sample sizes meet the budget\<close>

lemma firstSample_split:
  "firstSample bound target xs = Ok s \<Longrightarrow> s \<noteq> 0 \<Longrightarrow>
     \<exists>ys zs b. xs = ys @ s # zs \<and> bound s = Ok b \<and> b \<le> target \<and> (\<forall>y \<in> set ys. \<exists>b. bound y = Ok b \<and> target < b)"
proof (induction xs)
  case (Cons x xs)
  then obtain b where b: "bound x = Ok b" by auto
  show ?case
  proof (cases "b \<le> target")
    case True
    then show ?thesis using Cons.prems b by (intro exI [of _ "[]"] exI [of _ xs]) auto
  next
    case False
    then obtain ys zs c where "xs = ys @ s # zs" "bound s = Ok c" "c \<le> target" "\<forall>y \<in> set ys. \<exists>b. bound y = Ok b \<and> target < b"
      using Cons b by auto
    then show ?thesis using b False by (intro exI [of _ "x # ys"] exI [of _ zs] exI [of _ c]) auto
  qed
qed simp

lemma firstSample_upto:
  assumes "firstSample bound target [1..n] = Ok s" "s \<noteq> 0"
  shows "1 \<le> s \<and> s \<le> n \<and> (\<exists>b. bound s = Ok b \<and> b \<le> target) \<and> (\<forall>y. 1 \<le> y \<longrightarrow> y < s \<longrightarrow> (\<exists>b. bound y = Ok b \<and> target < b))"
proof -
  obtain ys zs b where split: "[1..n] = ys @ s # zs" and b: "bound s = Ok b" "b \<le> target"
    and less: "\<forall>y \<in> set ys. \<exists>b. bound y = Ok b \<and> target < b"
    using firstSample_split [OF assms] by blast
  have mem: "set [1..n] = set ys \<union> {s} \<union> set zs" using split by simp
  have bounds: "1 \<le> s" "s \<le> n" using mem by auto
  have after: "\<forall>z \<in> set zs. s \<le> z" using sorted_upto [of 1 n] split by (simp add: sorted_append)
  have "y \<in> set ys" if "1 \<le> y" "y < s" for y
  proof -
    have "y \<in> set [1..n]" using that bounds by simp
    then have "y \<in> set ys \<union> {s} \<union> set zs" unfolding mem .
    then show ?thesis using that(2) after by auto
  qed
  moreover note bounds
  ultimately show ?thesis using b less by auto
qed

lemma resolve_secure:
  assumes "ResolveCVScalarSampling n f target sp sv = Ok report" "sr_TotalFailureBudget report = Some budget"
  shows "0 < n \<and> 0 \<le> f \<and> f < n \<and>
    cvScalarExactFinitePopulationSampleSizes n f (budget / 2) = Ok (sr_ProposerSampleSize report, sr_ValidatorSampleSize report) \<and>
    sr_ValidatorThreshold report = sr_ValidatorSampleSize report div 2 + 1 \<and>
    cvScalarProposerFailureBound n f (sr_ProposerSampleSize report) = Ok (sr_ProposerFailureBound report) \<and>
    (\<exists>snd liv. cvScalarValidatorFailureBounds n f (sr_ValidatorSampleSize report) (sr_ValidatorThreshold report) =
       Ok (snd, liv, sr_ValidatorCombinedFailureBound report)) \<and>
    sr_ProposerFailureBound report + sr_ValidatorCombinedFailureBound report \<le> budget"
  using assms
  by (auto simp: ResolveCVScalarSampling_def sampleChoice_def Let_def split: if_splits)

lemma combined_exact:
  assumes N: "finite N" "F \<subset> N" and y: "1 \<le> y" "y \<le> int (card N)"
    and b: "validatorCombined (int (card N)) (int (card F)) y = Ok b"
  shows "b = share N (nat y) (\<lambda>S. nat y div 2 + 1 \<le> card (S \<inter> F) \<or> card (S - F) < nat y div 2 + 1)"
proof -
  define s where "s = nat y"
  have s: "y = int s" "0 < s" "s \<le> card N" using y by (auto simp: s_def)
  have t: "int s div 2 + 1 = int (s div 2 + 1)" by (simp add: zdiv_int)
  have "s div 2 + 1 \<le> s" using s(2) by (cases s) auto
  then have "cvScalarValidatorFailureBounds (int (card N)) (int (card F)) (int s) (int (s div 2 + 1)) =
    Ok (share N s (\<lambda>S. s div 2 + 1 \<le> card (S \<inter> F)), share N s (\<lambda>S. card (S - F) < s div 2 + 1),
        share N s (\<lambda>S. s div 2 + 1 \<le> card (S \<inter> F) \<or> card (S - F) < s div 2 + 1))"
    by (intro validator_exact [OF N s(2,3)]) auto
  then show ?thesis using b unfolding validatorCombined_def s(1) t nat_int by simp
qed

lemma proposer_value:
  assumes N: "finite N" "F \<subset> N" and y: "1 \<le> y" "y \<le> int (card N)"
    and b: "cvScalarProposerFailureBound (int (card N)) (int (card F)) y = Ok b"
  shows "b = share N (nat y) (\<lambda>S. S \<subseteq> F)"
  using proposer_exact [OF N, of "nat y"] y b by simp

text \<open>C13. Secure sampling meets its budget and is not larger than needed. When a report is resolved for a failure budget, a
  committee \<open>N\<close> of that size with faulty members \<open>F\<close> of that number fails, by a proposer sample without honest member or a
  validator sample in which faulty members reach the threshold or honest ones do not, in a share of the samples within the
  budget; and every smaller sample of either kind misses half of the budget.\<close>

theorem sampling_meets_budget:
  assumes N: "finite N" "F \<subseteq> N"
    and res: "ResolveCVScalarSampling (int (card N)) (int (card F)) target sp sv = Ok report"
    and bud: "sr_TotalFailureBudget report = Some budget"
  defines "p \<equiv> nat (sr_ProposerSampleSize report)" and "v \<equiv> nat (sr_ValidatorSampleSize report)"
  shows "0 < p \<and> p \<le> card N \<and> 0 < v \<and> v \<le> card N \<and>
    share N p (\<lambda>S. S \<subseteq> F) + share N v (\<lambda>S. v div 2 + 1 \<le> card (S \<inter> F) \<or> card (S - F) < v div 2 + 1) \<le> budget \<and>
    (\<forall>s. 0 < s \<longrightarrow> s < p \<longrightarrow> budget / 2 < share N s (\<lambda>S. S \<subseteq> F)) \<and>
    (\<forall>s. 0 < s \<longrightarrow> s < v \<longrightarrow> budget / 2 < share N s (\<lambda>S. s div 2 + 1 \<le> card (S \<inter> F) \<or> card (S - F) < s div 2 + 1))"
proof -
  let ?n = "int (card N)" and ?f = "int (card F)"
  let ?P = "sr_ProposerSampleSize report" and ?V = "sr_ValidatorSampleSize report"
  note r = resolve_secure [OF res bud]
  have N': "F \<subset> N" using r N by (metis less_irrefl psubsetI)
  have sizes: "firstSample (cvScalarProposerFailureBound ?n ?f) (budget / 2) [1..?n] = Ok ?P" "?P \<noteq> 0"
    "firstSample (validatorCombined ?n ?f) (budget / 2) [1..?n] = Ok ?V" "?V \<noteq> 0"
    using r by (auto simp: cvScalarExactFinitePopulationSampleSizes_def split: if_splits)
  note pr = firstSample_upto [OF sizes(1,2)] and va = firstSample_upto [OF sizes(3,4)]
  have comb: "validatorCombined ?n ?f ?V = Ok (sr_ValidatorCombinedFailureBound report)"
    using r by (auto simp: validatorCombined_def)
  have P: "sr_ProposerFailureBound report = share N p (\<lambda>S. S \<subseteq> F)"
    unfolding p_def by (rule proposer_value [OF N(1) N']) (use pr r in auto)
  have V: "sr_ValidatorCombinedFailureBound report =
      share N v (\<lambda>S. v div 2 + 1 \<le> card (S \<inter> F) \<or> card (S - F) < v div 2 + 1)"
    unfolding v_def by (rule combined_exact [OF N(1) N' _ _ comb]) (use va in auto)
  have minP: "budget / 2 < share N s (\<lambda>S. S \<subseteq> F)" if s: "0 < s" "s < p" for s
  proof -
    have "1 \<le> int s" "int s < ?P" "int s \<le> ?n" using s pr by (auto simp: p_def)
    then obtain b where "cvScalarProposerFailureBound ?n ?f (int s) = Ok b" "budget / 2 < b" using pr by blast
    then show ?thesis using proposer_value [OF N(1) N', of "int s" b] \<open>1 \<le> int s\<close> \<open>int s \<le> ?n\<close> by simp
  qed
  have minV: "budget / 2 < share N s (\<lambda>S. s div 2 + 1 \<le> card (S \<inter> F) \<or> card (S - F) < s div 2 + 1)" if s: "0 < s" "s < v" for s
  proof -
    have "1 \<le> int s" "int s < ?V" "int s \<le> ?n" using s va by (auto simp: v_def)
    then obtain b where "validatorCombined ?n ?f (int s) = Ok b" "budget / 2 < b" using va by blast
    then show ?thesis using combined_exact [OF N(1) N', of "int s" b] \<open>1 \<le> int s\<close> \<open>int s \<le> ?n\<close> by simp
  qed
  have "0 < p" "p \<le> card N" "0 < v" "v \<le> card N" using pr va unfolding p_def v_def by linarith+
  moreover have "share N p (\<lambda>S. S \<subseteq> F) + share N v (\<lambda>S. v div 2 + 1 \<le> card (S \<inter> F) \<or> card (S - F) < v div 2 + 1) \<le> budget"
    using r unfolding P V by blast
  ultimately show ?thesis using minP minV by blast
qed

text \<open>Seven members, two of them faulty, and a budget of three tenths.\<close>

lemma demo_binomials:
  "cv_binomial 7 1 = 7" "cv_binomial 7 2 = 21" "cv_binomial 7 3 = 35" "cv_binomial 2 1 = 2" "cv_binomial 2 2 = 1" "cv_binomial 2 3 = 0"
  "cv_binomial 5 0 = 1" "cv_binomial 5 1 = 5" "cv_binomial 5 2 = 10"
  by (simp_all add: cv_binomial_def upto_rec1 Let_def)

lemma demo_bounds:
  "cvScalarProposerFailureBound 7 2 1 = Ok (2 / 7)" "cvScalarProposerFailureBound 7 2 2 = Ok (1 / 21)"
  "cvScalarProposerFailureBound 7 2 3 = Ok 0"
  "cvScalarValidatorFailureBounds 7 2 1 1 = Ok (2 / 7, 2 / 7, 2 / 7)"
  "cvScalarValidatorFailureBounds 7 2 2 2 = Ok (1 / 21, 11 / 21, 11 / 21)"
  "cvScalarValidatorFailureBounds 7 2 3 2 = Ok (1 / 7, 1 / 7, 1 / 7)"
  by (simp_all add: cvScalarProposerFailureBound_def cvScalarValidatorFailureBounds_def cvScalarHypergeometricFaultTail_def
      demo_binomials upto_rec1 Let_def)

theorem sampling_bounds_exact_witness:
  "share {0 :: nat..<7} 3 (\<lambda>S. S \<subseteq> {0, 1}) = 0 \<and> share {0 :: nat..<7} 3 (\<lambda>S. 2 \<le> card (S \<inter> {0, 1})) = 1 / 7"
proof -
  have size: "int (card {0 :: nat..<7}) = 7" "int (card {0 :: nat, 1}) = 2" "int 3 = 3" "int 2 = 2" by simp_all
  have "{0, 1} \<subseteq> {0 :: nat..<7}" "6 \<in> {0 :: nat..<7}" "6 \<notin> {0 :: nat, 1}" by simp_all
  then have sub: "{0, 1} \<subset> {0 :: nat..<7}" by blast
  have side: "finite {0 :: nat..<7}" "0 < (3 :: nat)" "3 \<le> card {0 :: nat..<7}" "0 < (2 :: nat)" "2 \<le> (3 :: nat)" by simp_all
  show ?thesis
    using sampling_bounds_exact [OF side(1) sub side(2-5)] unfolding size demo_bounds res.inject prod.inject by simp
qed

lemma demo_budget: "cvResolveFailureBudgetScalar ''3e-1'' = Ok (''3e-1'', ''custom'', 3 / 10)"
proof -
  have "map lowerChar (trimSpace ''3e-1'') = ''3e-1''" "take 3 ''3e-1'' \<noteq> ''2^-''" "splitExp [] ''3e-1'' = [''3'', ''1'']"
    "bigOfString ''3'' = Some 3" "atoi ''1'' = Some 1" "''3e-1'' \<noteq> ''original''" "''3e-1'' \<noteq> ''high-assurance''"
    by code_simp+
  then show ?thesis by (simp add: cvResolveFailureBudgetScalar_def cvParseFailureTargetScalar_def Let_def)
qed

lemma demo_report:
  "\<exists>report. ResolveCVScalarSampling 7 2 ''3e-1'' 0 0 = Ok report \<and> sr_TotalFailureBudget report = Some (3 / 10) \<and>
     sr_ProposerSampleSize report = 2 \<and> sr_ValidatorSampleSize report = 3"
proof -
  have norm: "map lowerChar (trimSpace ''3e-1'') = ''3e-1''" "''3e-1'' \<noteq> ''smoke''" by code_simp+
  have "[1..7 :: int] = [1, 2, 3, 4, 5, 6, 7]" by (simp add: upto_rec1)
  then have "cvScalarExactFinitePopulationSampleSizes 7 2 (3 / 20) = Ok (2, 3)"
    by (simp add: cvScalarExactFinitePopulationSampleSizes_def validatorCombined_def demo_bounds)
  then show ?thesis
    by (simp add: ResolveCVScalarSampling_def sampleChoice_def norm demo_budget demo_bounds Let_def)
qed

theorem sampling_meets_budget_witness:
  "share {0 :: nat..<7} 2 (\<lambda>S. S \<subseteq> {0, 1}) + share {0 :: nat..<7} 3 (\<lambda>S. 2 \<le> card (S \<inter> {0, 1}) \<or> card (S - {0, 1}) < 2) \<le> 3 / 10"
proof -
  obtain report where rep: "ResolveCVScalarSampling 7 2 ''3e-1'' 0 0 = Ok report" "sr_TotalFailureBudget report = Some (3 / 10)"
    "sr_ProposerSampleSize report = 2" "sr_ValidatorSampleSize report = 3"
    using demo_report by blast
  then have "ResolveCVScalarSampling (int (card {0 :: nat..<7})) (int (card {0 :: nat, 1})) ''3e-1'' 0 0 = Ok report" by simp
  from sampling_meets_budget [OF _ _ this rep(2)]
  have "share {0 :: nat..<7} (nat 2) (\<lambda>S. S \<subseteq> {0, 1}) +
      share {0 :: nat..<7} (nat 3) (\<lambda>S. nat 3 div 2 + 1 \<le> card (S \<inter> {0, 1}) \<or> card (S - {0, 1}) < nat 3 div 2 + 1) \<le> 3 / 10"
    unfolding rep(3,4) by auto
  then have "share {0 :: nat..<7} 2 (\<lambda>S. S \<subseteq> {0, 1}) +
      share {0 :: nat..<7} 3 (\<lambda>S. 3 div 2 + 1 \<le> card (S \<inter> {0, 1}) \<or> card (S - {0, 1}) < 3 div 2 + 1) \<le> 3 / 10"
    unfolding nat_numeral .
  moreover have half: "3 div 2 + 1 = (2 :: nat)" by simp
  ultimately show ?thesis unfolding half by blast
qed

section \<open>The proposer set\<close>

lemma distinct_remdups_adj: "sorted xs \<Longrightarrow> distinct (remdups_adj xs)" for xs :: "int list"
proof (induction xs rule: remdups_adj.induct)
  case (3 x y xs)
  then show ?case by (cases "x = y") auto
qed auto

lemma mset_insertKey: "mset (insertKey k ks) = add_mset k (mset ks)"
  by (induction k ks rule: insertKey.induct) auto

lemma mset_sortKeys: "mset (foldr insertKey ks []) = mset ks"
  by (induction ks) (auto simp: mset_insertKey)

text \<open>The members of a proposer set are \<open>c\<close> distinct members of the roster, and do not depend on its order.\<close>

lemma proposer_set:
  assumes "cvEligibilityProposerSet roster c f coin = Ok out"
  shows "int (length out) = c \<and> distinct out \<and> set out \<subseteq> set roster \<and>
    (mset roster' = mset roster \<longrightarrow> cvEligibilityProposerSet roster' c f coin = Ok out)"
proof -
  let ?o = "sortedUnique roster"
  let ?keys = "foldr insertKey (map (\<lambda>i. (i, eligibilityDigest coin i)) ?o) []"
  have out: "out = take (nat c) (map fst ?keys)" and len: "length ?o = length roster" "0 < c" "c \<le> int (length ?o)"
    using assms by (auto simp: cvEligibilityProposerSet_def Let_def split: if_splits)
  have "mset (map fst ?keys) = mset (map fst (map (\<lambda>i. (i, eligibilityDigest coin i)) ?o))"
    by (simp only: mset_map mset_sortKeys)
  then have keys: "mset (map fst ?keys) = mset ?o" by (simp add: comp_def)
  have o: "set ?o = set roster" "sorted ?o" by (simp_all add: sortedUnique_def)
  have "distinct ?o" unfolding sortedUnique_def by (rule distinct_remdups_adj) simp
  then have d: "distinct (map fst ?keys)" "set (map fst ?keys) = set roster" "length (map fst ?keys) = length ?o"
    using keys o(1) mset_eq_imp_distinct_iff [OF keys] mset_eq_setD [OF keys] mset_eq_length [OF keys] by auto
  have "cvEligibilityProposerSet roster' c f coin = cvEligibilityProposerSet roster c f coin" if "mset roster' = mset roster"
    using that mset_eq_length [OF that] properties_for_sort [of "sort roster'" roster]
    by (simp add: cvEligibilityProposerSet_def sortedUnique_def Let_def)
  then show ?thesis
    using assms d len set_take_subset [of "nat c" "map fst ?keys"] unfolding out by auto
qed

end
