(* ===== verification/Cv_Config.thy ===== *)
theory Cv_Config
  imports Cv_Sampling
begin

text \<open>
  The configuration of an epoch and the thresholds derived from it (\<^verbatim>\<open>core/config.go\<close>, \<^verbatim>\<open>core/cv_sapvss_scalar_params.go\<close>,
  the chunk profile of \<^verbatim>\<open>core/cv_sapvss.go\<close> and the fallback profiles of \<^verbatim>\<open>core/apvss_ack.go\<close>). A Go \<^verbatim>\<open>int\<close> has 64 bits: \<open>int64\<close>
  wraps where the code multiplies or adds user input. The environment is a function from names to values, and the
  modulus of the scalar field and \<^verbatim>\<open>filepath.Abs\<close> are parameters. Strings are ASCII, times are nanoseconds.
\<close>

definition int64 :: "int \<Rightarrow> int" where
  "int64 x = (x + 2 ^ 63) mod 2 ^ 64 - 2 ^ 63"

lemma int64_id [simp]: "- (2 ^ 63) \<le> x \<Longrightarrow> x \<le> max_int \<Longrightarrow> int64 x = x"
  by (simp add: int64_def max_int_def)

section \<open>Configuration\<close>

record Config_core =
  c_SID :: string
  c_Epoch :: int
  c_PreviousEpochStateDigest :: bytes
  c_OldCommittee :: "int list"
  c_NewCommittee :: "int list"
  c_FOld :: int
  c_FNew :: int
  c_OldFaults :: int
  c_NewFaults :: int
  c_CVProposerSampleSize :: int
  c_CVValidatorSampleSize :: int
  c_CVSamplingFailureTarget :: string
  c_Kappa :: int
  c_WaitSPBCTimeout :: int
  c_RouteSendTimeout :: int
  c_SendRetryMax :: int
  c_SendRetryBackoff :: int
  c_AgreementTransport :: string
  c_AgreementBindHost :: string
  c_AgreementBasePort :: int
  c_LocalNodeIDs :: "int list"
  c_APVSSMode :: string
  c_APVSSFullProofProfile :: string
  c_APVSSFallbackProfile :: string
  c_AllowExperimentalAPVSS :: bool
  c_APVSSBenchmarkFallbackCount :: int
  c_APVSSBenchmarkWaitAllACKs :: bool
  c_ArtifactCacheDir :: string
  c_AblationMode :: string
  c_CommMetrics :: bool
  c_StrictNetwork :: bool
  c_CVPublicKeyDir :: string
  c_CVLocalSecretDir :: string
  c_CVLocalReceiverIDs :: "int list"

abbreviation APVSSModeFullPublicVE :: string where "APVSSModeFullPublicVE \<equiv> ''full-public-ve''"
abbreviation APVSSModeACKFallback :: string where "APVSSModeACKFallback \<equiv> ''ack-fallback''"
abbreviation APVSSFullProofExact :: string where "APVSSFullProofExact \<equiv> ''exact''"
abbreviation APVSSFullProofCompactBatch :: string where "APVSSFullProofCompactBatch \<equiv> ''compact-batch''"
abbreviation APVSSFullProofFieldCongruent :: string where "APVSSFullProofFieldCongruent \<equiv> ''field-congruent''"
abbreviation apvssFallbackExactLaneProfile :: string where "apvssFallbackExactLaneProfile \<equiv> ''exact-lane''"
abbreviation apvssFallbackCompactBatchProfile :: string where "apvssFallbackCompactBatchProfile \<equiv> ''compact-batch''"
abbreviation apvssFallbackFeldmanBatchProfile :: string where "apvssFallbackFeldmanBatchProfile \<equiv> ''feldman-batch-v1''"

definition toLower :: "string \<Rightarrow> string" where
  "toLower s = map lowerChar s"

fun splitComma :: "string \<Rightarrow> string \<Rightarrow> string list" where
  "splitComma acc [] = [acc]"
| "splitComma acc (c # r) = (if c = CHR '','' then acc # splitComma [] r else splitComma (acc @ [c]) r)"

definition filterNodeIDs :: "int list \<Rightarrow> int list \<Rightarrow> int list" where
  "filterNodeIDs ids universe =
     (if ids = [] \<or> universe = [] then [] else filter (\<lambda>i. i \<in> set universe) (sortedUnique ids))"

definition parseLocalNodeIDsEnv :: "(string \<Rightarrow> string) \<Rightarrow> int list \<Rightarrow> int list" where
  "parseLocalNodeIDsEnv getenv universe =
     (let raw = trimSpace (getenv ''RLADKR_LOCAL_NODE_IDS'') in
      if raw = [] then []
      else filterNodeIDs (List.map_filter (\<lambda>part. if trimSpace part = [] then None else atoi (trimSpace part)) (splitComma [] raw)) universe)"

text \<open>An empty string selects the default, any other one is trimmed and lowered.\<close>

definition normText :: "string \<Rightarrow> string \<Rightarrow> string" where
  "normText dflt s = toLower (trimSpace (if s = [] then dflt else s))"

definition normLocalNodes :: "(string \<Rightarrow> string) \<Rightarrow> int list \<Rightarrow> int list \<Rightarrow> int list" where
  "normLocalNodes getenv ids universe =
    (let ids = (if ids = [] then parseLocalNodeIDsEnv getenv universe else ids); ids = filterNodeIDs ids universe in
     if ids = [] then sortedUnique universe else ids)"

definition normTarget :: "string \<Rightarrow> string" where
  "normTarget s = toLower (trimSpace (if trimSpace s = [] then ''smoke'' else s))"

text \<open>The assignments in the order of the code; every field is assigned from the fields before it.\<close>

definition NormalizeConfig :: "(string \<Rightarrow> string) \<Rightarrow> Config_core \<Rightarrow> Config_core" where
  "NormalizeConfig getenv cfg =
    (let oldFaults = (if c_OldFaults cfg = 0 then c_FOld cfg else c_OldFaults cfg);
         newFaults = (if c_NewFaults cfg = 0 then c_FNew cfg else c_NewFaults cfg) in
     cfg\<lparr>c_Epoch := (if c_Epoch cfg \<le> 0 then 1 else c_Epoch cfg),
       c_OldFaults := oldFaults,
       c_NewFaults := newFaults,
       c_FOld := (if c_FOld cfg = 0 then oldFaults else c_FOld cfg),
       c_FNew := (if c_FNew cfg = 0 then newFaults else c_FNew cfg),
       c_Kappa := (if c_Kappa cfg = 0 then int64 (oldFaults + 1) else c_Kappa cfg),
       c_CVSamplingFailureTarget := normTarget (c_CVSamplingFailureTarget cfg),
       c_WaitSPBCTimeout := (if c_WaitSPBCTimeout cfg \<le> 0 then 2000000000 else c_WaitSPBCTimeout cfg),
       c_RouteSendTimeout := (if c_RouteSendTimeout cfg \<le> 0 then 300000000 else c_RouteSendTimeout cfg),
       c_SendRetryMax := (if c_SendRetryMax cfg \<le> 0 then 10 else c_SendRetryMax cfg),
       c_SendRetryBackoff := (if c_SendRetryBackoff cfg \<le> 0 then 100000000 else c_SendRetryBackoff cfg),
       c_AgreementTransport := normText ''tcp-distributed'' (c_AgreementTransport cfg),
       c_AgreementBindHost := (if c_AgreementBindHost cfg = [] then ''0.0.0.0'' else c_AgreementBindHost cfg),
       c_LocalNodeIDs := normLocalNodes getenv (c_LocalNodeIDs cfg) (c_OldCommittee cfg),
       c_APVSSMode := normText APVSSModeACKFallback (c_APVSSMode cfg),
       c_APVSSFullProofProfile := normText APVSSFullProofExact (c_APVSSFullProofProfile cfg),
       c_APVSSFallbackProfile := normText apvssFallbackFeldmanBatchProfile (c_APVSSFallbackProfile cfg),
       c_ArtifactCacheDir := (if c_ArtifactCacheDir cfg = [] then getenv ''RLADKR_ARTIFACT_CACHE_DIR'' else c_ArtifactCacheDir cfg),
       c_AblationMode := normText ''none'' (c_AblationMode cfg)\<rparr>)"

section \<open>Validation\<close>

definition apvssRequireFallbackBackend :: "string \<Rightarrow> unit res" where
  "apvssRequireFallbackBackend profile =
     (if profile = apvssFallbackExactLaneProfile \<or> profile = apvssFallbackCompactBatchProfile \<or> profile = apvssFallbackFeldmanBatchProfile
      then Ok () else Err ''unsupported APVSS fallback proof profile'')"

definition apvssRequireProductionFallbackBackend :: "string \<Rightarrow> unit res" where
  "apvssRequireProductionFallbackBackend profile =
     (if profile = apvssFallbackExactLaneProfile then Err ''APVSS exact-lane fallback lacks a public canonical <q comparator''
      else if profile = apvssFallbackCompactBatchProfile
      then Err ''APVSS compact batch fallback is experimental pending independent cryptographic review''
      else if profile = apvssFallbackFeldmanBatchProfile then Ok ()
      else Err ''unsupported APVSS fallback proof profile'')"

definition validateStrictNetworkConfig :: "(string \<Rightarrow> string) \<Rightarrow> Config_core \<Rightarrow> unit res" where
  "validateStrictNetworkConfig getenv cfg =
    (let transport = toLower (trimSpace (c_AgreementTransport cfg));
         disperseMode = toLower (trimSpace (getenv ''RLADKR_DISPERSE_MODE'')) in
     if transport \<noteq> ''tcp-distributed'' \<and> transport \<noteq> ''tcp'' then Err ''strict-network requires tcp-distributed agreement transport''
     else if disperseMode \<in> {''local'', ''cache'', ''file-cache'', ''off''} then Err ''strict-network rejects local/cache/off disperse mode''
     else if trimSpace (getenv ''RLADKR_NODE_ADDRS'') = [] then Err ''strict-network requires RLADKR_NODE_ADDRS''
     else if length (sortedUnique (c_LocalNodeIDs cfg)) \<ge> length (sortedUnique (c_OldCommittee cfg))
     then Err ''strict-network requires a proper local old-committee subset''
     else Ok ())"

definition validateAPVSSMode :: "Config_core \<Rightarrow> unit res" where
  "validateAPVSSMode cfg =
     (if c_APVSSMode cfg = APVSSModeFullPublicVE then
        if c_APVSSFullProofProfile cfg \<notin> {APVSSFullProofExact, APVSSFullProofCompactBatch, APVSSFullProofFieldCongruent}
        then Err ''invalid full-public-ve proof profile''
        else if c_APVSSBenchmarkWaitAllACKs cfg \<or> c_APVSSBenchmarkFallbackCount cfg \<noteq> 0
        then Err ''full-public-ve does not use ACK/fallback benchmark controls'' else Ok ()
      else if c_APVSSMode cfg = APVSSModeACKFallback then apvssRequireFallbackBackend (c_APVSSFallbackProfile cfg)
      else Err ''invalid APVSS mode'')"

definition ValidateConfig :: "(string \<Rightarrow> string) \<Rightarrow> Config_core \<Rightarrow> unit res" where
  "ValidateConfig getenv cfg0 =
    (let cfg = NormalizeConfig getenv cfg0;
         oldCommittee = sortedUnique (c_OldCommittee cfg); newCommittee = sortedUnique (c_NewCommittee cfg) in
     if c_SID cfg = [] then Err ''empty SID''
     else if oldCommittee = [] then Err ''empty old committee''
     else if newCommittee = [] then Err ''empty new committee''
     else if length oldCommittee \<noteq> length (c_OldCommittee cfg) then Err ''duplicate old committee member''
     else if length newCommittee \<noteq> length (c_NewCommittee cfg) then Err ''duplicate new committee member''
     else if c_FOld cfg < 0 \<or> c_OldFaults cfg < 0 then Err ''invalid old-committee fault threshold''
     else if c_FNew cfg < 0 \<or> c_NewFaults cfg < 0 then Err ''invalid new-committee fault threshold''
     else if c_FOld cfg \<noteq> c_OldFaults cfg then Err ''conflicting legacy and CV V2 old-committee fault thresholds''
     else if c_FNew cfg \<noteq> c_NewFaults cfg then Err ''conflicting legacy and CV V2 new-committee fault thresholds''
     else if int (length oldCommittee) < int64 (3 * c_FOld cfg + 1) then Err ''old committee does not satisfy n_o >= 3f_o+1''
     else if int (length newCommittee) < int64 (3 * c_FNew cfg + 1) then Err ''new committee does not satisfy n_n >= 3f_n+1''
     else if c_Kappa cfg \<noteq> int64 (c_FOld cfg + 1) then Err ''aggregate dealer count must equal f_o+1''
     else if c_SendRetryMax cfg \<le> 0 then Err ''invalid send retry max''
     else bindR (validateAPVSSMode cfg) (\<lambda>_.
       if c_APVSSBenchmarkFallbackCount cfg < 0 \<or> c_APVSSBenchmarkFallbackCount cfg > c_FNew cfg
       then Err ''APVSS benchmark fallback count must be in [0,f_n]''
       else if c_AblationMode cfg \<noteq> [] \<and> c_AblationMode cfg \<noteq> ''none'' then Err ''unsupported CV V2 ablation mode''
       else if c_StrictNetwork cfg then validateStrictNetworkConfig getenv cfg
       else Ok ()))"

definition validateAPVSSProductionAdmission :: "(string \<Rightarrow> string) \<Rightarrow> Config_core \<Rightarrow> unit res" where
  "validateAPVSSProductionAdmission getenv cfg =
    (let c = NormalizeConfig getenv cfg in
     if c_APVSSMode c = APVSSModeFullPublicVE \<and> \<not> c_AllowExperimentalAPVSS c
     then Err ''full-public-ve is a functional prototype''
     else if c_APVSSMode c = APVSSModeACKFallback \<and> c_APVSSFallbackProfile c \<noteq> apvssFallbackFeldmanBatchProfile \<and>
       \<not> c_AllowExperimentalAPVSS c
     then apvssRequireProductionFallbackBackend (c_APVSSFallbackProfile c)
     else Ok ())"

definition cvRequireSeparateKeyDirs :: "(string \<Rightarrow> string res) \<Rightarrow> string \<Rightarrow> string \<Rightarrow> unit res" where
  "cvRequireSeparateKeyDirs absPath publicDir localSecretDir =
     bindR (reErr ''resolve CV-sAPVSS public key directory'' (absPath publicDir)) (\<lambda>publicAbs.
     bindR (reErr ''resolve CV-sAPVSS secret key directory'' (absPath localSecretDir)) (\<lambda>secretAbs.
     if publicAbs = secretAbs then Err ''CV-sAPVSS public and secret key directories must differ'' else Ok ()))"

definition validateCVEpochConfig :: "(string \<Rightarrow> string) \<Rightarrow> (string \<Rightarrow> string res) \<Rightarrow> Config_core \<Rightarrow> unit res" where
  "validateCVEpochConfig getenv absPath cfg =
    (let c = NormalizeConfig getenv cfg in
     if length (c_PreviousEpochStateDigest c) \<noteq> 0 \<and> length (c_PreviousEpochStateDigest c) \<noteq> 32
     then Err ''CV epoch previous-state digest must be empty or 32 bytes''
     else if length (sortedUnique (c_LocalNodeIDs c)) \<noteq> 1 then Err ''CV epoch requires exactly one local old node''
     else if trimSpace (c_CVPublicKeyDir c) = [] then Err ''CV epoch requires a public key directory''
     else if trimSpace (c_CVLocalSecretDir c) = [] then Err ''CV epoch requires a local secret key directory''
     else bindR (reErr ''CV epoch requires separate key directories''
         (cvRequireSeparateKeyDirs absPath (c_CVPublicKeyDir c) (c_CVLocalSecretDir c))) (\<lambda>_.
       if length (c_CVLocalReceiverIDs c) \<noteq> 1 then Err ''CV epoch requires exactly one local receiver''
       else if length (filterNodeIDs (c_CVLocalReceiverIDs c) (c_NewCommittee c)) \<noteq> 1
       then Err ''CV local receiver is outside the new committee''
       else if trimSpace (c_ArtifactCacheDir c) = [] then Err ''CV epoch requires a local artifact store''
       else bindR (validateAPVSSProductionAdmission getenv c) (\<lambda>_.
         if c_APVSSBenchmarkFallbackCount c > 0 \<and> \<not> c_AllowExperimentalAPVSS c
         then Err ''forced APVSS fallback count requires explicit experimental admission''
         else if c_APVSSBenchmarkWaitAllACKs c \<and> \<not> c_AllowExperimentalAPVSS c
         then Err ''waiting for all APVSS ACKs requires explicit experimental admission''
         else if c_APVSSBenchmarkWaitAllACKs c \<and> c_APVSSBenchmarkFallbackCount c > 0
         then Err ''APVSS wait-all and forced fallback modes are mutually exclusive''
         else if c_APVSSMode c = APVSSModeFullPublicVE \<and> (c_APVSSBenchmarkWaitAllACKs c \<or> c_APVSSBenchmarkFallbackCount c \<noteq> 0)
         then Err ''full-public-ve does not use ACK/fallback benchmark controls''
         else Ok ())))"

section \<open>Derived parameters\<close>

record cvScalarParams =
  sp_oldFaults :: int
  sp_newFaults :: int
  sp_componentCount :: int
  sp_poolSize :: int
  sp_apdbLockThreshold :: int
  sp_decisionThreshold :: int
  sp_recoveryThreshold :: int
  sp_newShareDegree :: int
  sp_newShareThreshold :: int
  sp_proposerSampleSize :: int
  sp_validatorSampleSize :: int
  sp_validatorThreshold :: int
  sp_proposerFailureBound :: rat
  sp_validatorSoundnessFailureBound :: rat
  sp_validatorLivenessFailureBound :: rat
  sp_validatorCombinedFailureBound :: rat
  sp_validatorFailureBound :: rat

fun bitLen :: "nat \<Rightarrow> nat" where
  "bitLen n = (if n = 0 then 0 else Suc (bitLen (n div 2)))"

declare bitLen.simps [simp del]

definition cvMaxChunkBits :: nat where
  "cvMaxChunkBits = 20"

definition cvMaxDLogBound :: int where
  "cvMaxDLogBound = 2 ^ 32"

definition cvProfile :: "int \<Rightarrow> nat \<Rightarrow> int \<Rightarrow> (int \<times> int \<times> int) res" where
  "cvProfile modulus chunkBits maxComponents =
     (if chunkBits = 0 \<or> chunkBits > cvMaxChunkBits \<or> maxComponents \<le> 0 then Err ''invalid CV-sAPVSS chunk profile''
      else
        let base = 2 ^ chunkBits; maxDigit = base - 1 in
        if maxComponents > (2 ^ 64 - 1) div maxDigit then Err ''CV-sAPVSS digit bound overflows''
        else
          let bound = maxComponents * maxDigit in
          if bound \<ge> modulus then Err ''CV-sAPVSS digit bound wraps scalar field''
          else if bound > cvMaxDLogBound then Err ''CV-sAPVSS bounded-DLog range is infeasible''
          else Ok (base, bound, int ((bitLen (nat modulus) + chunkBits - 1) div chunkBits)))"

definition cvDeriveScalarParams :: "(string \<Rightarrow> string) \<Rightarrow> int \<Rightarrow> Config_core \<Rightarrow> cvScalarParams res" where
  "cvDeriveScalarParams getenv modulus cfg =
    (let c = NormalizeConfig getenv cfg; oldCount = int (length (c_OldCommittee c)); newCount = int (length (c_NewCommittee c)) in
     bindR (ValidateConfig getenv c) (\<lambda>_.
     if c_CVProposerSampleSize c \<le> 0 \<or> c_CVProposerSampleSize c > oldCount then Err ''CV V2 proposer sample size must be in [1,n_o]''
     else if c_CVValidatorSampleSize c \<le> 0 \<or> c_CVValidatorSampleSize c > oldCount
     then Err ''CV V2 validator sample size must be in [1,n_o]''
     else bindR (ResolveCVScalarSampling oldCount (c_OldFaults c) (c_CVSamplingFailureTarget c)
         (c_CVProposerSampleSize c) (c_CVValidatorSampleSize c)) (\<lambda>sampling.
     if sr_ProposerSampleSize sampling \<noteq> c_CVProposerSampleSize c \<or> sr_ValidatorSampleSize sampling \<noteq> c_CVValidatorSampleSize c
     then Err ''CV V2 sample sizes do not match failure target''
     else
       let componentCount = int64 (c_OldFaults c + 1); poolSize = int64 (oldCount - c_OldFaults c);
           validatorThreshold = c_CVValidatorSampleSize c div 2 + 1 in
       if validatorThreshold > poolSize then Err ''CV V2 validator threshold exceeds honest old-committee capacity''
       else if int64 (2 * c_OldFaults c + 1) > oldCount then Err ''CV V2 APDB lock threshold exceeds old committee''
       else if componentCount > poolSize \<or> poolSize > oldCount then Err ''invalid CV V2 component/pool thresholds''
       else if int64 (newCount - c_NewFaults c) \<le> 0 then Err ''invalid CV V2 new-committee threshold''
       else
         bindR (reErr ''invalid CV V2 scalar bounds'' (cvProfile modulus 8 componentCount)) (\<lambda>_.
         bindR (cvScalarProposerFailureBound oldCount (c_OldFaults c) (c_CVProposerSampleSize c)) (\<lambda>proposerFailure.
         bindR (cvScalarValidatorFailureBounds oldCount (c_OldFaults c) (c_CVValidatorSampleSize c) validatorThreshold)
           (\<lambda>(soundness, liveness, combined).
         Ok \<lparr>sp_oldFaults = c_OldFaults c, sp_newFaults = c_NewFaults c, sp_componentCount = componentCount, sp_poolSize = poolSize,
           sp_apdbLockThreshold = int64 (2 * c_OldFaults c + 1), sp_decisionThreshold = poolSize, sp_recoveryThreshold = componentCount,
           sp_newShareDegree = int64 (newCount - c_NewFaults c - 1), sp_newShareThreshold = int64 (newCount - c_NewFaults c),
           sp_proposerSampleSize = c_CVProposerSampleSize c, sp_validatorSampleSize = c_CVValidatorSampleSize c,
           sp_validatorThreshold = validatorThreshold, sp_proposerFailureBound = proposerFailure,
           sp_validatorSoundnessFailureBound = soundness, sp_validatorLivenessFailureBound = liveness,
           sp_validatorCombinedFailureBound = combined, sp_validatorFailureBound = combined\<rparr>))))))"

definition cvValidateScalarStartup :: "(string \<Rightarrow> string) \<Rightarrow> int \<Rightarrow> Config_core \<Rightarrow> cvScalarParams res" where
  "cvValidateScalarStartup getenv modulus cfg = bindR (cvDeriveScalarParams getenv modulus cfg) (\<lambda>params. Ok params)"

section \<open>Normal forms\<close>

lemma dropWhile_twice [simp]: "dropWhile P (dropWhile P xs) = dropWhile P xs"
  by (induction xs) auto

lemma rev_dropWhile_tail: "dropWhile P xs = xs \<Longrightarrow> dropWhile P (rev (dropWhile Q (rev xs))) = rev (dropWhile Q (rev xs))"
proof (cases xs)
  case (Cons x ys)
  assume "dropWhile P xs = xs"
  then have x: "\<not> P x" using Cons dropWhile_eq_self_iff [of P xs] by simp
  have "rev (dropWhile Q (rev xs)) = [] \<or> hd (rev (dropWhile Q (rev xs))) = x"
    using Cons by (auto simp: dropWhile_append hd_append)
  then show ?thesis using x dropWhile_eq_self_iff [of P "rev (dropWhile Q (rev xs))"] by auto
qed simp

lemma trimSpace_twice [simp]: "trimSpace (trimSpace s) = trimSpace s"
  using rev_dropWhile_tail [of isSpace "dropWhile isSpace s" isSpace] by (simp add: trimSpace_def)

lemma lowerChar_space: "isSpace (lowerChar c) \<longleftrightarrow> isSpace c" and lowerChar_twice: "lowerChar (lowerChar c) = lowerChar c"
proof -
  have "of_char c + 32 < (256 :: nat)" if "(of_char c :: nat) \<le> 90" using that by simp
  then have "(of_char (char_of (of_char c + 32 :: nat) :: char) :: nat) = of_char c + 32" if "(of_char c :: nat) \<le> 90"
    using that by simp
  then show "isSpace (lowerChar c) \<longleftrightarrow> isSpace c" "lowerChar (lowerChar c) = lowerChar c"
    by (auto simp: isSpace_def lowerChar_def)
qed

lemma toLower_twice [simp]: "toLower (toLower s) = toLower s"
  by (simp add: toLower_def lowerChar_twice)

lemma dropWhile_lower: "dropWhile isSpace (map lowerChar s) = map lowerChar (dropWhile isSpace s)"
  by (simp add: dropWhile_map o_def lowerChar_space)

lemma trimSpace_toLower: "trimSpace (toLower s) = toLower (trimSpace s)"
  by (simp add: trimSpace_def toLower_def dropWhile_lower rev_map)

lemma toLower_Nil [simp]: "toLower t = [] \<longleftrightarrow> t = []"
  by (simp add: toLower_def)

lemma trimSpace_Nil [simp]: "trimSpace [] = []"
  by (simp add: trimSpace_def)

lemma normText_twice:
  assumes "dflt \<noteq> []" "toLower (trimSpace dflt) = dflt"
  shows "normText dflt (normText dflt s) = normText dflt s \<longleftrightarrow> s = [] \<or> trimSpace s \<noteq> []"
proof (cases "s = [] \<or> trimSpace s = []")
  case False
  then show ?thesis by (simp add: normText_def trimSpace_toLower)
next
  case True
  then show ?thesis using assms by (cases "s = []") (simp_all add: normText_def toLower_def)
qed

lemma normTarget_twice [simp]: "normTarget (normTarget s) = normTarget s"
proof -
  have "toLower (trimSpace ''smoke'') = ''smoke''" by code_simp
  then show ?thesis by (cases "trimSpace s = []") (simp_all add: normTarget_def trimSpace_toLower)
qed

lemma normalize_fields:
  "c_OldCommittee (NormalizeConfig getenv c) = c_OldCommittee c" "c_NewCommittee (NormalizeConfig getenv c) = c_NewCommittee c"
  "c_SID (NormalizeConfig getenv c) = c_SID c"
  by (simp_all add: NormalizeConfig_def Let_def)

lemma sortedUnique_set [simp]: "set (sortedUnique v) = set v"
  by (simp add: sortedUnique_def)

lemma sortedUnique_props: "distinct (sortedUnique v)" "sorted (sortedUnique v)"
  by (simp_all add: sortedUnique_def sorted_remdups_adj distinct_remdups_adj)

lemma sortedUnique_id: "sorted v \<Longrightarrow> distinct v \<Longrightarrow> sortedUnique v = v"
  by (simp add: sortedUnique_def sorted_sort_id remdups_adj_distinct)

lemma filterNodeIDs_twice: "filterNodeIDs (filterNodeIDs ids u) u = filterNodeIDs ids u"
proof -
  have "sorted (filterNodeIDs ids u)" "distinct (filterNodeIDs ids u)"
    using sortedUnique_props [of ids] by (auto simp: filterNodeIDs_def sorted_wrt_filter)
  moreover have "set (filterNodeIDs ids u) \<subseteq> set u" by (auto simp: filterNodeIDs_def)
  ultimately show ?thesis
    by (auto simp: filterNodeIDs_def sortedUnique_id filter_id_conv)
qed

lemma normLocalNodes_twice [simp]: "normLocalNodes getenv (normLocalNodes getenv ids u) u = normLocalNodes getenv ids u"
proof -
  define l where "l = filterNodeIDs (if ids = [] then parseLocalNodeIDsEnv getenv u else ids) u"
  have l: "normLocalNodes getenv ids u = (if l = [] then sortedUnique u else l)" by (simp add: normLocalNodes_def l_def Let_def)
  show ?thesis
  proof (cases "l = []")
    case False
    then have "filterNodeIDs l u = l" by (simp add: l_def filterNodeIDs_twice)
    then show ?thesis using False unfolding l by (simp add: normLocalNodes_def Let_def)
  next
    case True
    have "filterNodeIDs (sortedUnique u) u = sortedUnique u"
      using sortedUnique_props [of u] by (auto simp: filterNodeIDs_def sortedUnique_id filter_id_conv)
    moreover have "u = [] \<Longrightarrow> parseLocalNodeIDsEnv getenv u = []" by (simp add: parseLocalNodeIDsEnv_def filterNodeIDs_def Let_def)
    moreover have "sortedUnique u = [] \<longleftrightarrow> u = []" using sortedUnique_set [of u] by (metis set_empty)
    ultimately show ?thesis using True unfolding l by (auto simp: normLocalNodes_def Let_def)
  qed
qed

definition blank :: "string \<Rightarrow> bool" where
  "blank s \<longleftrightarrow> s \<noteq> [] \<and> trimSpace s = []"

lemma normText_defaults:
  "normText ''tcp-distributed'' (normText ''tcp-distributed'' s) = normText ''tcp-distributed'' s \<longleftrightarrow> \<not> blank s"
  "normText APVSSModeACKFallback (normText APVSSModeACKFallback s) = normText APVSSModeACKFallback s \<longleftrightarrow> \<not> blank s"
  "normText APVSSFullProofExact (normText APVSSFullProofExact s) = normText APVSSFullProofExact s \<longleftrightarrow> \<not> blank s"
  "normText apvssFallbackFeldmanBatchProfile (normText apvssFallbackFeldmanBatchProfile s) = normText apvssFallbackFeldmanBatchProfile s \<longleftrightarrow> \<not> blank s"
  "normText ''none'' (normText ''none'' s) = normText ''none'' s \<longleftrightarrow> \<not> blank s"
proof -
  have "toLower (trimSpace ''tcp-distributed'') = ''tcp-distributed''" "toLower (trimSpace APVSSModeACKFallback) = APVSSModeACKFallback"
    "toLower (trimSpace APVSSFullProofExact) = APVSSFullProofExact"
    "toLower (trimSpace apvssFallbackFeldmanBatchProfile) = apvssFallbackFeldmanBatchProfile" "toLower (trimSpace ''none'') = ''none''"
    by code_simp+
  then show
    "normText ''tcp-distributed'' (normText ''tcp-distributed'' s) = normText ''tcp-distributed'' s \<longleftrightarrow> \<not> blank s"
    "normText APVSSModeACKFallback (normText APVSSModeACKFallback s) = normText APVSSModeACKFallback s \<longleftrightarrow> \<not> blank s"
    "normText APVSSFullProofExact (normText APVSSFullProofExact s) = normText APVSSFullProofExact s \<longleftrightarrow> \<not> blank s"
    "normText apvssFallbackFeldmanBatchProfile (normText apvssFallbackFeldmanBatchProfile s) = normText apvssFallbackFeldmanBatchProfile s \<longleftrightarrow> \<not> blank s"
    "normText ''none'' (normText ''none'' s) = normText ''none'' s \<longleftrightarrow> \<not> blank s"
    unfolding blank_def by (simp_all only: normText_twice simp_thms list.distinct de_Morgan_conj)
qed

text \<open>Normalising a configuration twice gives the same configuration exactly when none of the five text options that have a
  default consists of white space only: such an option is trimmed to the empty string, which only the second pass
  replaces by the default. \<open>ValidateConfig\<close> normalises again, so it checks the defaults while the caller uses the empty strings.\<close>

theorem normalize_idempotent_iff:
  "NormalizeConfig getenv (NormalizeConfig getenv c) = NormalizeConfig getenv c \<longleftrightarrow>
     \<not> blank (c_AgreementTransport c) \<and> \<not> blank (c_APVSSMode c) \<and> \<not> blank (c_APVSSFullProofProfile c) \<and>
     \<not> blank (c_APVSSFallbackProfile c) \<and> \<not> blank (c_AblationMode c)"
proof -
  let ?n = "NormalizeConfig getenv"
  have eq: "a = b \<longleftrightarrow> a\<lparr>c_AgreementTransport := [], c_APVSSMode := [], c_APVSSFullProofProfile := [], c_APVSSFallbackProfile := [], c_AblationMode := []\<rparr> =
      b\<lparr>c_AgreementTransport := [], c_APVSSMode := [], c_APVSSFullProofProfile := [], c_APVSSFallbackProfile := [], c_AblationMode := []\<rparr> \<and>
      c_AgreementTransport a = c_AgreementTransport b \<and> c_APVSSMode a = c_APVSSMode b \<and> c_APVSSFullProofProfile a = c_APVSSFullProofProfile b \<and>
      c_APVSSFallbackProfile a = c_APVSSFallbackProfile b \<and> c_AblationMode a = c_AblationMode b" for a b :: Config_core
    by (cases a, cases b) auto
  have rest: "(?n (?n c))\<lparr>c_AgreementTransport := [], c_APVSSMode := [], c_APVSSFullProofProfile := [], c_APVSSFallbackProfile := [], c_AblationMode := []\<rparr> =
      (?n c)\<lparr>c_AgreementTransport := [], c_APVSSMode := [], c_APVSSFullProofProfile := [], c_APVSSFallbackProfile := [], c_AblationMode := []\<rparr>"
    by (simp add: NormalizeConfig_def Let_def)
  have "c_AgreementTransport (?n c) = normText ''tcp-distributed'' (c_AgreementTransport c)"
    "c_APVSSMode (?n c) = normText APVSSModeACKFallback (c_APVSSMode c)"
    "c_APVSSFullProofProfile (?n c) = normText APVSSFullProofExact (c_APVSSFullProofProfile c)"
    "c_APVSSFallbackProfile (?n c) = normText apvssFallbackFeldmanBatchProfile (c_APVSSFallbackProfile c)"
    "c_AblationMode (?n c) = normText ''none'' (c_AblationMode c)" for c
    by (simp_all add: NormalizeConfig_def Let_def)
  then show ?thesis using eq [of "?n (?n c)" "?n c"] rest by (simp only: normText_defaults simp_thms)
qed

section \<open>The thresholds of an epoch\<close>

lemma sortedUnique_length: "length (sortedUnique v) = length v \<longleftrightarrow> distinct v"
  using sortedUnique_props(1) [of v] sortedUnique_set [of v] by (metis card_distinct distinct_card)

lemma guard_Ok: "(if b then Err e else m) = Ok x \<longleftrightarrow> \<not> b \<and> m = Ok x"
  by simp

lemma validated:
  assumes v: "ValidateConfig getenv c = Ok ()" and c: "n = NormalizeConfig getenv c"
  shows "distinct (c_OldCommittee n)" "distinct (c_NewCommittee n)" "0 \<le> c_OldFaults n" "0 \<le> c_NewFaults n"
    "c_FOld n = c_OldFaults n" "c_FNew n = c_NewFaults n"
    "int64 (3 * c_OldFaults n + 1) \<le> int (length (c_OldCommittee n))" "int64 (3 * c_NewFaults n + 1) \<le> int (length (c_NewCommittee n))"
proof -
  have g: "\<not> length (sortedUnique (c_OldCommittee n)) \<noteq> length (c_OldCommittee n) \<and> \<not> length (sortedUnique (c_NewCommittee n)) \<noteq> length (c_NewCommittee n) \<and>
    \<not> (c_FOld n < 0 \<or> c_OldFaults n < 0) \<and> \<not> (c_FNew n < 0 \<or> c_NewFaults n < 0) \<and> \<not> c_FOld n \<noteq> c_OldFaults n \<and> \<not> c_FNew n \<noteq> c_NewFaults n \<and>
    \<not> int (length (sortedUnique (c_OldCommittee n))) < int64 (3 * c_FOld n + 1) \<and>
    \<not> int (length (sortedUnique (c_NewCommittee n))) < int64 (3 * c_FNew n + 1)"
    using v unfolding ValidateConfig_def Let_def c [symmetric] guard_Ok by (elim conjE) (intro conjI; assumption)
  show "distinct (c_OldCommittee n)" "distinct (c_NewCommittee n)" "0 \<le> c_OldFaults n" "0 \<le> c_NewFaults n"
    "c_FOld n = c_OldFaults n" "c_FNew n = c_NewFaults n"
    "int64 (3 * c_OldFaults n + 1) \<le> int (length (c_OldCommittee n))" "int64 (3 * c_NewFaults n + 1) \<le> int (length (c_NewCommittee n))"
    using g sortedUnique_length [of "c_OldCommittee n"] sortedUnique_length [of "c_NewCommittee n"] by (simp_all, simp_all)
qed

lemma normalized_twice:
  "c_OldFaults (NormalizeConfig getenv (NormalizeConfig getenv c)) = c_OldFaults (NormalizeConfig getenv c)"
  "c_NewFaults (NormalizeConfig getenv (NormalizeConfig getenv c)) = c_NewFaults (NormalizeConfig getenv c)"
  by (auto simp: NormalizeConfig_def Let_def)

lemma resolved_committee: "ResolveCVScalarSampling n f target a b = Ok r \<Longrightarrow> 0 < n \<and> 0 \<le> f \<and> f < n"
  by (auto simp: ResolveCVScalarSampling_def split: if_splits)

text \<open>What the derivation checks, one guard after the other.\<close>

lemma derived:
  assumes d: "cvDeriveScalarParams getenv modulus cfg = Ok p" and c: "c = NormalizeConfig getenv cfg"
    and n: "n = int (length (c_OldCommittee c))" "n' = int (length (c_NewCommittee c))"
  shows "ValidateConfig getenv c = Ok ()" "c_OldFaults c < n" "0 < c_CVProposerSampleSize c" "c_CVProposerSampleSize c \<le> n"
    "0 < c_CVValidatorSampleSize c" "c_CVValidatorSampleSize c \<le> n"
    "c_CVValidatorSampleSize c div 2 + 1 \<le> int64 (n - c_OldFaults c)" "0 < int64 (n' - c_NewFaults c)"
    "sp_oldFaults p = c_OldFaults c" "sp_newFaults p = c_NewFaults c" "sp_componentCount p = int64 (c_OldFaults c + 1)"
    "sp_poolSize p = int64 (n - c_OldFaults c)" "sp_apdbLockThreshold p = int64 (2 * c_OldFaults c + 1)"
    "sp_decisionThreshold p = sp_poolSize p" "sp_recoveryThreshold p = sp_componentCount p"
    "sp_newShareDegree p = int64 (n' - c_NewFaults c - 1)" "sp_newShareThreshold p = int64 (n' - c_NewFaults c)"
    "sp_validatorSampleSize p = c_CVValidatorSampleSize c" "sp_proposerSampleSize p = c_CVProposerSampleSize c"
    "sp_validatorThreshold p = c_CVValidatorSampleSize c div 2 + 1"
    "\<exists>base bound chunks. cvProfile modulus 8 (sp_componentCount p) = Ok (base, bound, chunks)"
proof -
  obtain r s l m where g: "ValidateConfig getenv c = Ok ()" "\<not> (c_CVProposerSampleSize c \<le> 0 \<or> c_CVProposerSampleSize c > n)"
    "\<not> (c_CVValidatorSampleSize c \<le> 0 \<or> c_CVValidatorSampleSize c > n)"
    "ResolveCVScalarSampling n (c_OldFaults c) (c_CVSamplingFailureTarget c) (c_CVProposerSampleSize c) (c_CVValidatorSampleSize c) = Ok r"
    "\<not> c_CVValidatorSampleSize c div 2 + 1 > int64 (n - c_OldFaults c)" "\<not> int64 (n' - c_NewFaults c) \<le> 0"
    "\<exists>base bound chunks. cvProfile modulus 8 (int64 (c_OldFaults c + 1)) = Ok (base, bound, chunks)"
    "p = \<lparr>sp_oldFaults = c_OldFaults c, sp_newFaults = c_NewFaults c, sp_componentCount = int64 (c_OldFaults c + 1), sp_poolSize = int64 (n - c_OldFaults c),
       sp_apdbLockThreshold = int64 (2 * c_OldFaults c + 1), sp_decisionThreshold = int64 (n - c_OldFaults c), sp_recoveryThreshold = int64 (c_OldFaults c + 1),
       sp_newShareDegree = int64 (n' - c_NewFaults c - 1), sp_newShareThreshold = int64 (n' - c_NewFaults c),
       sp_proposerSampleSize = c_CVProposerSampleSize c, sp_validatorSampleSize = c_CVValidatorSampleSize c,
       sp_validatorThreshold = c_CVValidatorSampleSize c div 2 + 1, sp_proposerFailureBound = s, sp_validatorSoundnessFailureBound = fst l,
       sp_validatorLivenessFailureBound = m, sp_validatorCombinedFailureBound = snd l, sp_validatorFailureBound = snd l\<rparr>"
    using d unfolding cvDeriveScalarParams_def Let_def c [symmetric] n [symmetric] bindR_eq_Ok guard_Ok split_beta
    by (elim exE conjE) (force elim: prod.exhaust)
  show "c_OldFaults c < n" using resolved_committee [OF g(4)] by simp
  show "ValidateConfig getenv c = Ok ()" "\<exists>base bound chunks. cvProfile modulus 8 (sp_componentCount p) = Ok (base, bound, chunks)"
    "0 < c_CVProposerSampleSize c" "c_CVProposerSampleSize c \<le> n" "0 < c_CVValidatorSampleSize c" "c_CVValidatorSampleSize c \<le> n"
    "c_CVValidatorSampleSize c div 2 + 1 \<le> int64 (n - c_OldFaults c)" "0 < int64 (n' - c_NewFaults c)"
    "sp_oldFaults p = c_OldFaults c" "sp_newFaults p = c_NewFaults c" "sp_componentCount p = int64 (c_OldFaults c + 1)"
    "sp_poolSize p = int64 (n - c_OldFaults c)" "sp_apdbLockThreshold p = int64 (2 * c_OldFaults c + 1)"
    "sp_decisionThreshold p = sp_poolSize p" "sp_recoveryThreshold p = sp_componentCount p"
    "sp_newShareDegree p = int64 (n' - c_NewFaults c - 1)" "sp_newShareThreshold p = int64 (n' - c_NewFaults c)"
    "sp_validatorSampleSize p = c_CVValidatorSampleSize c" "sp_proposerSampleSize p = c_CVProposerSampleSize c"
    "sp_validatorThreshold p = c_CVValidatorSampleSize c div 2 + 1"
    using g(1-3,5-7) unfolding g(8) by simp_all
qed

lemma derived_thresholds_lemma:
  assumes "cvDeriveScalarParams getenv modulus cfg = Ok p"
    and "length (c_OldCommittee cfg) \<le> 2 ^ 60" "length (c_NewCommittee cfg) \<le> 2 ^ 60"
    and "c_NewFaults cfg \<le> max_int" "c_FNew cfg \<le> max_int"
    and n: "n = int (length (c_OldCommittee cfg))" "n' = int (length (c_NewCommittee cfg))"
    and f: "f = sp_oldFaults p" "f' = sp_newFaults p"
  shows "distinct (c_OldCommittee cfg) \<and> distinct (c_NewCommittee cfg) \<and> 0 \<le> f \<and> 0 \<le> f' \<and> 3 * f + 1 \<le> n \<and> 3 * f' + 1 \<le> n' \<and>
    sp_decisionThreshold p = n - f \<and> n + f < 2 * sp_decisionThreshold p \<and>
    sp_apdbLockThreshold p \<le> n - f \<and> sp_recoveryThreshold p = sp_apdbLockThreshold p - f \<and> f < sp_recoveryThreshold p \<and>
    f < sp_componentCount p \<and> sp_componentCount p \<le> sp_poolSize p - f \<and> sp_poolSize p \<le> n - f \<and>
    sp_newShareThreshold p = sp_newShareDegree p + 1 \<and> sp_newShareThreshold p \<le> n' - f' \<and> 2 * f' < sp_newShareThreshold p \<and>
    sp_validatorSampleSize p < 2 * sp_validatorThreshold p \<and> sp_validatorThreshold p \<le> n - f \<and>
    0 < sp_proposerSampleSize p \<and> sp_proposerSampleSize p \<le> n \<and> 255 * sp_componentCount p < modulus"
proof -
  define c where "c = NormalizeConfig getenv cfg"
  have comm: "c_OldCommittee c = c_OldCommittee cfg" "c_NewCommittee c = c_NewCommittee cfg" by (simp_all add: c_def normalize_fields)
  note d = derived [OF assms(1) c_def, unfolded comm, OF n]
  note v = validated [OF d(1) refl, unfolded normalized_twice [of getenv cfg, folded c_def] normalize_fields comm]
  have f: "f = c_OldFaults c" "f' = c_NewFaults c" using d(9,10) f by simp_all
  have n60: "n \<le> 2 ^ 60" "n' \<le> 2 ^ 60" using assms(2,3) n by simp_all
  have fb: "0 \<le> f" "f < n" "0 \<le> f'" using d(2) v(3,4) f by simp_all
  have "f' \<le> max_int" using assms(4,5) by (simp add: f c_def NormalizeConfig_def Let_def)
  then have "int64 (n' - f') = n' - f'" using fb n60 n by (intro int64_id) (auto simp: max_int_def)
  then have "f' < n'" using d(8) f by simp
  then have w: "int64 (3 * f + 1) = 3 * f + 1" "int64 (3 * f' + 1) = 3 * f' + 1" "int64 (n - f) = n - f" "int64 (f + 1) = f + 1"
    "int64 (2 * f + 1) = 2 * f + 1" "int64 (n' - f') = n' - f'" "int64 (n' - f' - 1) = n' - f' - 1"
    using fb n60 by (intro int64_id; simp add: max_int_def)+
  have q: "3 * f + 1 \<le> n" "3 * f' + 1 \<le> n'" using v(7,8) w(1,2) f n by simp_all
  have "255 * (f + 1) < modulus" using d(21) unfolding d(11) f [symmetric] w(4) by (auto simp: cvProfile_def Let_def split: if_splits)
  then show ?thesis
    using v(1,2) q fb d(3-7) unfolding d(11-20) f [symmetric] w by auto
qed

text \<open>C12. The thresholds of an epoch. Every parameter set the derivation returns for committees that fit in memory has
  \<open>n \<ge> 3 f + 1\<close> in both committees although the products in the validation can wrap, two decision quorums share a correct member,
  decision and lock quorums can be formed by the correct members alone, a lock leaves as many correct stores as recovery needs, the
  pool has room for the components and for a correct one among them, the new shares can be recombined by the correct new
  members while the faulty ones know too few, and validators sign by a majority of their sample that correct members can fill.\<close>

theorem derived_thresholds:
  assumes "cvDeriveScalarParams getenv modulus cfg = Ok p"
    and "length (c_OldCommittee cfg) \<le> 2 ^ 60" "length (c_NewCommittee cfg) \<le> 2 ^ 60"
    and "c_NewFaults cfg \<le> max_int" "c_FNew cfg \<le> max_int"
    and n: "n = int (length (c_OldCommittee cfg))" "n' = int (length (c_NewCommittee cfg))"
    and f: "f = sp_oldFaults p" "f' = sp_newFaults p"
  shows "distinct (c_OldCommittee cfg) \<and> distinct (c_NewCommittee cfg) \<and> 0 \<le> f \<and> 0 \<le> f' \<and> 3 * f + 1 \<le> n \<and> 3 * f' + 1 \<le> n' \<and>
    sp_decisionThreshold p = n - f \<and> n + f < 2 * sp_decisionThreshold p \<and>
    sp_apdbLockThreshold p \<le> n - f \<and> sp_recoveryThreshold p = sp_apdbLockThreshold p - f \<and> f < sp_recoveryThreshold p \<and>
    f < sp_componentCount p \<and> sp_componentCount p \<le> sp_poolSize p - f \<and> sp_poolSize p \<le> n - f \<and>
    sp_newShareThreshold p = sp_newShareDegree p + 1 \<and> sp_newShareThreshold p \<le> n' - f' \<and> 2 * f' < sp_newShareThreshold p \<and>
    sp_validatorSampleSize p < 2 * sp_validatorThreshold p \<and> sp_validatorThreshold p \<le> n - f \<and>
    0 < sp_proposerSampleSize p \<and> sp_proposerSampleSize p \<le> n \<and> 255 * sp_componentCount p < modulus"
  by (rule derived_thresholds_lemma [OF assms])

text \<open>The validation alone accepts a fault bound of \<open>2 ^ 62\<close> for a committee of one: \<^verbatim>\<open>3*f+1\<close> wraps to a negative number.\<close>

definition hugeFaults :: Config_core where
  "hugeFaults = \<lparr>c_SID = ''s'', c_Epoch = 1, c_PreviousEpochStateDigest = [], c_OldCommittee = [0], c_NewCommittee = [0], c_FOld = 2 ^ 62,
     c_FNew = 0, c_OldFaults = 2 ^ 62, c_NewFaults = 0, c_CVProposerSampleSize = 1, c_CVValidatorSampleSize = 1,
     c_CVSamplingFailureTarget = [], c_Kappa = 0, c_WaitSPBCTimeout = 0, c_RouteSendTimeout = 0, c_SendRetryMax = 0, c_SendRetryBackoff = 0,
     c_AgreementTransport = [], c_AgreementBindHost = [], c_AgreementBasePort = 0, c_LocalNodeIDs = [], c_APVSSMode = [],
     c_APVSSFullProofProfile = [], c_APVSSFallbackProfile = [], c_AllowExperimentalAPVSS = False, c_APVSSBenchmarkFallbackCount = 0,
     c_APVSSBenchmarkWaitAllACKs = False, c_ArtifactCacheDir = [], c_AblationMode = [], c_CommMetrics = False, c_StrictNetwork = False,
     c_CVPublicKeyDir = [], c_CVLocalSecretDir = [], c_CVLocalReceiverIDs = []\<rparr>"

theorem validate_accepts_wrapped_bound:
  "ValidateConfig (\<lambda>_. []) hugeFaults = Ok () \<and>
   int (length (c_OldCommittee hugeFaults)) < 3 * c_FOld (NormalizeConfig (\<lambda>_. []) hugeFaults) + 1"
  by code_simp

definition fourNodes :: Config_core where
  "fourNodes = hugeFaults\<lparr>c_OldCommittee := [0, 1, 2, 3], c_NewCommittee := [4, 5, 6, 7], c_FOld := 1, c_FNew := 1, c_OldFaults := 1,
     c_NewFaults := 1, c_CVProposerSampleSize := 2, c_CVValidatorSampleSize := 3\<rparr>"

lemma fourNodes_derived: "\<exists>p. cvDeriveScalarParams (\<lambda>_. []) 1000000 fourNodes = Ok p"
proof -
  let ?c = "NormalizeConfig (\<lambda>_. []) fourNodes"
  have v: "ValidateConfig (\<lambda>_. []) ?c = Ok ()" by code_simp
  have f: "c_OldCommittee ?c = [0, 1, 2, 3]" "c_NewCommittee ?c = [4, 5, 6, 7]" "c_OldFaults ?c = 1" "c_NewFaults ?c = 1"
    "c_CVProposerSampleSize ?c = 2" "c_CVValidatorSampleSize ?c = 3" "c_CVSamplingFailureTarget ?c = ''smoke''"
    by code_simp+
  have s: "sampleChoice 4 1 ''smoke'' 2 3 = Ok (''smoke'', ''smoke'', ''explicit-smoke'', None, 2, 3)"
  proof -
    have "map lowerChar (trimSpace ''smoke'') = ''smoke''" by code_simp
    then show ?thesis by (simp add: sampleChoice_def Let_def)
  qed
  have w: "int64 2 = 2" "int64 3 = 3" by (simp_all add: max_int_def)
  have "\<exists>x. cvProfile 1000000 8 2 = Ok x"
    by (simp add: cvProfile_def cvMaxChunkBits_def cvMaxDLogBound_def)
  moreover have "\<exists>b. cvScalarProposerFailureBound 4 1 2 = Ok b" by (simp add: cvScalarProposerFailureBound_def)
  moreover have "\<exists>x y z. cvScalarValidatorFailureBounds 4 1 3 2 = Ok (x, y, z)"
    by (simp add: cvScalarValidatorFailureBounds_def cvScalarHypergeometricFaultTail_def Let_def)
  ultimately show ?thesis
    by (auto simp: cvDeriveScalarParams_def Let_def v f ResolveCVScalarSampling_def s w simp del: bindR_eq_Ok)
qed

theorem derived_thresholds_witness:
  "\<exists>p. cvDeriveScalarParams (\<lambda>_. []) 1000000 fourNodes = Ok p \<and> 3 * sp_oldFaults p + 1 \<le> 4 \<and> 4 + sp_oldFaults p < 2 * sp_decisionThreshold p"
proof -
  obtain p where p: "cvDeriveScalarParams (\<lambda>_. []) 1000000 fourNodes = Ok p" using fourNodes_derived by blast
  have fits: "length (c_OldCommittee fourNodes) \<le> 2 ^ 60" "length (c_NewCommittee fourNodes) \<le> 2 ^ 60"
    "c_NewFaults fourNodes \<le> max_int" "c_FNew fourNodes \<le> max_int" "4 = int (length (c_OldCommittee fourNodes))"
    "4 = int (length (c_NewCommittee fourNodes))"
    by (simp_all add: fourNodes_def max_int_def)
  note t = derived_thresholds [OF p fits refl refl]
  have "3 * sp_oldFaults p + 1 \<le> 4" "4 + sp_oldFaults p < 2 * sp_decisionThreshold p" using t by blast+
  then show ?thesis using p by blast
qed

end
