(* ===== verification/Cv_Pool.thy ===== *)
theory Cv_Pool
  imports Cv_Handoff Cv_Config
begin

text \<open>
  Component pools and their certificates (\<^verbatim>\<open>core/cv_sapvss_pool.go\<close>): the wire forms of component headers, references, pools,
  certificates and certificate shares, the digest of a pool, the statement its certificate signs, and the state of a
  proposer's slot. Nil pointers are not modelled: the callers pass the addresses of values.
\<close>

section \<open>Data\<close>

abbreviation cvComponentHeaderScalarDomain :: string where
  "cvComponentHeaderScalarDomain \<equiv> ''ARL-CV-sAPVSS/v2-scalar-group/component-header''"

abbreviation cvComponentRefScalarDomain :: string where
  "cvComponentRefScalarDomain \<equiv> ''ARL-CV-sAPVSS/v2-scalar-group/component-ref''"

abbreviation cvPoolScalarDomain :: string where
  "cvPoolScalarDomain \<equiv> ''ARL-CV-sAPVSS/v2-scalar-group/pool''"

abbreviation cvPoolDigestScalarDomain :: string where
  "cvPoolDigestScalarDomain \<equiv> ''ARL-CV-sAPVSS/v2-scalar-group/pool-digest''"

abbreviation cvPoolCertScalarDomain :: string where
  "cvPoolCertScalarDomain \<equiv> ''ARL-CV-sAPVSS/v2-scalar-group/pool-cert''"

abbreviation cvPoolCertShareScalarDomain :: string where
  "cvPoolCertShareScalarDomain \<equiv> ''ARL-CV-sAPVSS/v2-scalar-group/pool-cert-share-wire''"

record cvComponentHeaderScalar =
  ch_ContextDigest :: bytes
  ch_DealerID :: int
  ch_PayloadDigest :: bytes
  ch_Instance :: bytes
  ch_Root :: bytes

record cvComponentRefScalar =
  cr_Header :: cvComponentHeaderScalar
  cr_Lock :: cvAPDBLockScalar

record cvPoolScalar =
  pl_ContextDigest :: bytes
  pl_ProposerID :: int
  pl_Components :: "cvComponentRefScalar list"
  pl_Digest :: bytes

record cvPoolCertificateScalar =
  pc_PoolDigest :: bytes
  pc_Certificate :: bytes
  pc_canonicalWire :: bytes

record cvPoolCertificateShareScalar =
  ps_ProposerID :: int
  ps_PoolDigest :: bytes
  ps_Signature :: bytes

record cvPoolSlotStateScalar =
  sl_poolDigest :: bytes
  sl_poolSeen :: bool
  sl_signed :: bool
  sl_certSeen :: bool

section \<open>Certificate shares\<close>

definition cvPoolCertificateShareScalarCanonicalBytes :: "cvPoolCertificateShareScalar \<Rightarrow> bytes res" where
  "cvPoolCertificateShareScalarCanonicalBytes shr =
     (if ps_ProposerID shr < 0 \<or> length (ps_PoolDigest shr) \<noteq> 32 \<or> ps_Signature shr = [] \<or>
        int (length (ps_Signature shr)) > cvMaxComponentSignatureBytes
      then Err ''invalid CV V2 pool certificate share''
      else Ok (cvWriteBytesIgnore (ps_Signature shr) (cvWriteBytesIgnore (ps_PoolDigest shr)
        (cvWriteUint64 (cvWriteBytesIgnore (bytes_of cvPoolCertShareScalarDomain) []) (word_of_int (ps_ProposerID shr))))))"

definition cvDecodePoolCertificateShareScalar :: "bytes \<Rightarrow> cvPoolCertificateShareScalar res" where
  "cvDecodePoolCertificateShareScalar wire =
     bindR (reErr ''invalid CV V2 pool certificate share domain'' (cvReader_bytes (int (length cvPoolCertShareScalarDomain)) wire)) (\<lambda>(domain, r).
     if domain \<noteq> bytes_of cvPoolCertShareScalarDomain then Err ''invalid CV V2 pool certificate share domain'' else
     bindR (reErr ''invalid CV V2 pool certificate share proposer'' (cvReader_uint64 r)) (\<lambda>(proposer, r).
     if uint proposer > max_int then Err ''invalid CV V2 pool certificate share proposer'' else
     bindR (reErr ''invalid CV V2 pool certificate share digest'' (cvReader_bytes 32 r)) (\<lambda>(digest, r).
     if length digest \<noteq> 32 then Err ''invalid CV V2 pool certificate share digest'' else
     bindR (reErr ''invalid CV V2 pool certificate share signature'' (cvReader_bytes cvMaxComponentSignatureBytes r)) (\<lambda>(signature, r).
     if signature = [] \<or> r \<noteq> [] then Err ''invalid CV V2 pool certificate share signature'' else
     let shr = \<lparr>ps_ProposerID = uint proposer, ps_PoolDigest = digest, ps_Signature = signature\<rparr> in
     bindR (reErr ''non-canonical CV V2 pool certificate share'' (cvPoolCertificateShareScalarCanonicalBytes shr)) (\<lambda>canonical.
     if canonical \<noteq> wire then Err ''non-canonical CV V2 pool certificate share'' else Ok shr)))))"

section \<open>Component headers and references\<close>

definition cvComponentInstanceDigestScalar :: "bytes \<Rightarrow> int \<Rightarrow> bytes res" where
  "cvComponentInstanceDigestScalar contextDigest dealerID =
     (if length contextDigest \<noteq> 32 \<or> dealerID < 0 then Err ''invalid CV V2 component instance input''
      else cvAPDBInstanceDigestScalar ''COMP'' [contextDigest, cvWriteUint64 [] (word_of_int dealerID)])"

definition cvComponentHeaderScalarCanonicalBytes :: "cvComponentHeaderScalar \<Rightarrow> bytes res" where
  "cvComponentHeaderScalarCanonicalBytes header =
     (if length (ch_ContextDigest header) \<noteq> 32 \<or> ch_DealerID header < 0 \<or> length (ch_PayloadDigest header) \<noteq> 32 \<or>
        length (ch_Instance header) \<noteq> 32 \<or> length (ch_Root header) \<noteq> 32
      then Err ''invalid CV V2 component header''
      else bindR (reErr ''CV V2 component header instance mismatch''
          (cvComponentInstanceDigestScalar (ch_ContextDigest header) (ch_DealerID header))) (\<lambda>wantInstance.
        if wantInstance \<noteq> ch_Instance header then Err ''CV V2 component header instance mismatch''
        else Ok (cvWriteBytesIgnore (ch_Root header) (cvWriteBytesIgnore (ch_Instance header) (cvWriteBytesIgnore (ch_PayloadDigest header)
          (cvWriteUint64 (cvWriteBytesIgnore (ch_ContextDigest header)
            (cvWriteBytesIgnore (bytes_of cvComponentHeaderScalarDomain) [])) (word_of_int (ch_DealerID header))))))))"

definition cvDecodeComponentHeaderScalar :: "bytes \<Rightarrow> cvComponentHeaderScalar res" where
  "cvDecodeComponentHeaderScalar wire =
     bindR (reErr ''invalid CV V2 component header domain'' (cvReader_bytes (int (length cvComponentHeaderScalarDomain)) wire)) (\<lambda>(domain, r).
     if domain \<noteq> bytes_of cvComponentHeaderScalarDomain then Err ''invalid CV V2 component header domain'' else
     bindR (reErr ''invalid CV V2 component header context'' (cvReader_bytes 32 r)) (\<lambda>(context, r).
     if length context \<noteq> 32 then Err ''invalid CV V2 component header context'' else
     bindR (reErr ''invalid CV V2 component header dealer'' (cvReader_uint64 r)) (\<lambda>(dealer, r).
     if uint dealer > max_int then Err ''invalid CV V2 component header dealer'' else
     bindR (reErr ''invalid CV V2 component header payload'' (cvReader_bytes 32 r)) (\<lambda>(payload, r).
     if length payload \<noteq> 32 then Err ''invalid CV V2 component header payload'' else
     bindR (reErr ''invalid CV V2 component header instance'' (cvReader_bytes 32 r)) (\<lambda>(inst, r).
     if length inst \<noteq> 32 then Err ''invalid CV V2 component header instance'' else
     bindR (reErr ''invalid CV V2 component header root'' (cvReader_bytes 32 r)) (\<lambda>(rootDigest, r).
     if length rootDigest \<noteq> 32 \<or> r \<noteq> [] then Err ''invalid CV V2 component header root'' else
     let header = \<lparr>ch_ContextDigest = context, ch_DealerID = uint dealer, ch_PayloadDigest = payload, ch_Instance = inst, ch_Root = rootDigest\<rparr> in
     bindR (reErr ''non-canonical CV V2 component header'' (cvComponentHeaderScalarCanonicalBytes header)) (\<lambda>canonical.
     if canonical \<noteq> wire then Err ''non-canonical CV V2 component header'' else Ok header)))))))"

definition cvComponentRefScalarCanonicalBytes :: "cvComponentRefScalar \<Rightarrow> bytes res" where
  "cvComponentRefScalarCanonicalBytes ref =
     bindR (cvComponentHeaderScalarCanonicalBytes (cr_Header ref)) (\<lambda>headerWire.
     bindR (reErr ''invalid CV V2 component reference lock'' (cvAPDBLockScalarCanonicalBytes (cr_Lock ref))) (\<lambda>lockWire.
     if ch_Instance (cr_Header ref) \<noteq> lk_InstanceDigest (cr_Lock ref) \<or> ch_Root (cr_Header ref) \<noteq> lk_Root (cr_Lock ref)
     then Err ''invalid CV V2 component reference lock''
     else Ok (cvWriteBytesIgnore lockWire (cvWriteBytesIgnore headerWire (cvWriteBytesIgnore (bytes_of cvComponentRefScalarDomain) [])))))"

definition cvDecodeComponentRefScalar :: "bytes \<Rightarrow> cvComponentRefScalar res" where
  "cvDecodeComponentRefScalar wire =
     bindR (reErr ''invalid CV V2 component reference domain'' (cvReader_bytes (int (length cvComponentRefScalarDomain)) wire)) (\<lambda>(domain, r).
     if domain \<noteq> bytes_of cvComponentRefScalarDomain then Err ''invalid CV V2 component reference domain'' else
     bindR (reErr ''invalid CV V2 component reference header'' (cvReader_bytes cvMaxNetworkPayloadBytes r)) (\<lambda>(headerWire, r).
     bindR (cvDecodeComponentHeaderScalar headerWire) (\<lambda>header.
     bindR (reErr ''invalid CV V2 component reference lock'' (cvReader_bytes (cvMaxComponentSignatureBytes + 256) r)) (\<lambda>(lockWire, r).
     if r \<noteq> [] then Err ''invalid CV V2 component reference lock'' else
     bindR (cvDecodeAPDBLockScalar lockWire) (\<lambda>lock.
     let ref = \<lparr>cr_Header = header, cr_Lock = lock\<rparr> in
     bindR (reErr ''non-canonical CV V2 component reference'' (cvComponentRefScalarCanonicalBytes ref)) (\<lambda>canonical.
     if canonical \<noteq> wire then Err ''non-canonical CV V2 component reference'' else Ok ref))))))"

definition cvValidateComponentRefScalar :: "('f, 'g, 'k) blsLib \<Rightarrow> cvComponentRefScalar \<Rightarrow> ('f, 'k) tblsThresholdSigner option \<Rightarrow> unit res" where
  "cvValidateComponentRefScalar lib ref apdbSigner =
     bindR (cvComponentRefScalarCanonicalBytes ref) (\<lambda>_.
     case apdbSigner of None \<Rightarrow> Ok () | Some s \<Rightarrow> cvVerifyAPDBLockScalar lib (cr_Lock ref) (Some s))"

definition equalComponentRefsScalar :: "cvComponentRefScalar \<Rightarrow> cvComponentRefScalar \<Rightarrow> bool" where
  "equalComponentRefsScalar left right =
     (case (cvComponentRefScalarCanonicalBytes left, cvComponentRefScalarCanonicalBytes right) of
        (Ok leftWire, Ok rightWire) \<Rightarrow> leftWire = rightWire
      | _ \<Rightarrow> False)"

section \<open>Pools\<close>

fun writeRefs :: "string \<Rightarrow> bytes \<Rightarrow> int \<Rightarrow> cvComponentRefScalar list \<Rightarrow> bytes \<Rightarrow> bytes res" where
  "writeRefs e context lastDealer [] body = Ok body"
| "writeRefs e context lastDealer (ref # refs) body =
     (if ch_DealerID (cr_Header ref) \<le> lastDealer \<or> ch_ContextDigest (cr_Header ref) \<noteq> context then Err e
      else bindR (cvComponentRefScalarCanonicalBytes ref) (\<lambda>refWire.
        writeRefs e context (ch_DealerID (cr_Header ref)) refs (cvWriteBytesIgnore refWire body)))"

text \<open>The unsigned body, which the encoder and the constructor both write, with different messages for a wrong order.\<close>

definition poolUnsigned :: "string \<Rightarrow> bytes \<Rightarrow> int \<Rightarrow> cvComponentRefScalar list \<Rightarrow> bytes res" where
  "poolUnsigned e context proposerID components =
     bindR (cvWriteUint32 (cvWriteUint64 (cvWriteBytesIgnore context (cvWriteBytesIgnore (bytes_of cvPoolScalarDomain) []))
       (word_of_int proposerID)) (int (length components))) (\<lambda>body.
     writeRefs e context (- 1) components body)"

definition cvPoolScalarCanonicalBytes :: "cvPoolScalar \<Rightarrow> cvScalarParams \<Rightarrow> bytes res" where
  "cvPoolScalarCanonicalBytes pool params =
     (if length (pl_ContextDigest pool) \<noteq> 32 \<or> pl_ProposerID pool < 0 \<or> int (length (pl_Components pool)) \<noteq> sp_poolSize params \<or>
        length (pl_Digest pool) \<noteq> 32
      then Err ''invalid CV V2 pool''
      else bindR (poolUnsigned ''invalid CV V2 pool component order'' (pl_ContextDigest pool) (pl_ProposerID pool) (pl_Components pool)) (\<lambda>body.
        let wantDigest = cv_hashBytes [bytes_of cvPoolDigestScalarDomain, body] in
        if pl_Digest pool \<noteq> wantDigest then Err ''CV V2 pool digest mismatch''
        else Ok (cvWriteBytesIgnore (pl_Digest pool) (cvWriteBytesIgnore body []))))"

definition cvBuildPoolScalar :: "bytes \<Rightarrow> int \<Rightarrow> cvComponentRefScalar list \<Rightarrow> cvScalarParams \<Rightarrow> cvPoolScalar res" where
  "cvBuildPoolScalar contextDigest proposerID components params =
     (if length contextDigest \<noteq> 32 \<or> int (length components) \<noteq> sp_poolSize params then Err ''invalid CV V2 pool construction''
      else bindR (poolUnsigned ''invalid CV V2 pool construction order'' contextDigest proposerID components) (\<lambda>body.
        let pool = \<lparr>pl_ContextDigest = contextDigest, pl_ProposerID = proposerID, pl_Components = components,
          pl_Digest = cv_hashBytes [bytes_of cvPoolDigestScalarDomain, body]\<rparr> in
        bindR (cvPoolScalarCanonicalBytes pool params) (\<lambda>_. Ok pool)))"

fun readRefs :: "nat \<Rightarrow> bytes \<Rightarrow> (cvComponentRefScalar list \<times> bytes) res" where
  "readRefs 0 r = Ok ([], r)"
| "readRefs (Suc n) r =
     bindR (reErr ''invalid CV V2 pool component'' (cvReader_bytes cvMaxNetworkPayloadBytes r)) (\<lambda>(refWire, r).
     bindR (cvDecodeComponentRefScalar refWire) (\<lambda>ref.
     bindR (readRefs n r) (\<lambda>(refs, r). Ok (ref # refs, r))))"

definition cvDecodePoolScalar :: "bytes \<Rightarrow> cvScalarParams \<Rightarrow> cvPoolScalar res" where
  "cvDecodePoolScalar wire params =
     bindR (reErr ''invalid CV V2 pool unsigned body'' (cvReader_bytes cvMaxNetworkPayloadBytes wire)) (\<lambda>(unsignedWire, r).
     bindR (reErr ''invalid CV V2 pool digest'' (cvReader_bytes 32 r)) (\<lambda>(digest, r).
     if length digest \<noteq> 32 \<or> r \<noteq> [] then Err ''invalid CV V2 pool digest'' else
     bindR (reErr ''invalid CV V2 pool domain'' (cvReader_bytes (int (length cvPoolScalarDomain)) unsignedWire)) (\<lambda>(domain, u).
     if domain \<noteq> bytes_of cvPoolScalarDomain then Err ''invalid CV V2 pool domain'' else
     bindR (reErr ''invalid CV V2 pool context'' (cvReader_bytes 32 u)) (\<lambda>(context, u).
     if length context \<noteq> 32 then Err ''invalid CV V2 pool context'' else
     bindR (reErr ''invalid CV V2 pool proposer'' (cvReader_uint64 u)) (\<lambda>(proposer, u).
     if uint proposer > max_int then Err ''invalid CV V2 pool proposer'' else
     bindR (reErr ''invalid CV V2 pool component count'' (cvReader_uint32 u)) (\<lambda>(count, u).
     if count \<noteq> sp_poolSize params then Err ''invalid CV V2 pool component count'' else
     bindR (readRefs (nat count) u) (\<lambda>(components, u).
     if u \<noteq> [] then Err ''invalid CV V2 pool unsigned suffix'' else
     let pool = \<lparr>pl_ContextDigest = context, pl_ProposerID = uint proposer, pl_Components = components, pl_Digest = digest\<rparr> in
     bindR (reErr ''non-canonical CV V2 pool'' (cvPoolScalarCanonicalBytes pool params)) (\<lambda>canonical.
     if canonical \<noteq> wire then Err ''non-canonical CV V2 pool'' else Ok pool))))))))"

section \<open>Certificates\<close>

definition cvPoolCertificateScalarCanonicalBytes :: "cvPoolCertificateScalar \<Rightarrow> bytes res" where
  "cvPoolCertificateScalarCanonicalBytes certificate =
     (if length (pc_PoolDigest certificate) \<noteq> 32 \<or> pc_Certificate certificate = [] \<or>
        int (length (pc_Certificate certificate)) > cvMaxComponentSignatureBytes
      then Err ''invalid CV V2 pool certificate''
      else if pc_canonicalWire certificate \<noteq> [] then Ok (pc_canonicalWire certificate)
      else Ok (cvWriteBytesIgnore (pc_Certificate certificate) (cvWriteBytesIgnore (pc_PoolDigest certificate)
        (cvWriteBytesIgnore (bytes_of cvPoolCertScalarDomain) []))))"

definition cvDecodePoolCertificateScalar :: "bytes \<Rightarrow> cvPoolCertificateScalar res" where
  "cvDecodePoolCertificateScalar wire =
     bindR (reErr ''invalid CV V2 pool certificate domain'' (cvReader_bytes (int (length cvPoolCertScalarDomain)) wire)) (\<lambda>(domain, r).
     if domain \<noteq> bytes_of cvPoolCertScalarDomain then Err ''invalid CV V2 pool certificate domain'' else
     bindR (reErr ''invalid CV V2 pool certificate digest'' (cvReader_bytes 32 r)) (\<lambda>(digest, r).
     if length digest \<noteq> 32 then Err ''invalid CV V2 pool certificate digest'' else
     bindR (reErr ''invalid CV V2 pool certificate signature'' (cvReader_bytes cvMaxComponentSignatureBytes r)) (\<lambda>(certificateWire, r).
     if certificateWire = [] \<or> r \<noteq> [] then Err ''invalid CV V2 pool certificate signature'' else
     let certificate = \<lparr>pc_PoolDigest = digest, pc_Certificate = certificateWire, pc_canonicalWire = []\<rparr> in
     bindR (reErr ''non-canonical CV V2 pool certificate'' (cvPoolCertificateScalarCanonicalBytes certificate)) (\<lambda>canonical.
     if canonical \<noteq> wire then Err ''non-canonical CV V2 pool certificate''
     else Ok (certificate\<lparr>pc_canonicalWire := canonical\<rparr>)))))"

definition cvPoolCertificateStatementScalar :: "bytes \<Rightarrow> int \<Rightarrow> bytes \<Rightarrow> bytes res" where
  "cvPoolCertificateStatementScalar contextDigest proposerID poolDigest =
     (if length contextDigest \<noteq> 32 \<or> proposerID < 0 \<or> length poolDigest \<noteq> 32 then Err ''invalid CV V2 pool certificate statement''
      else Ok (cv_hashBytes [bytes_of cvPoolCertScalarDomain,
        cvWriteBytesIgnore poolDigest (cvWriteUint64 (cvWriteBytesIgnore contextDigest []) (word_of_int proposerID))]))"

definition cvVerifyPoolCertificateScalar :: "('f, 'g, 'k) blsLib \<Rightarrow> cvPoolScalar \<Rightarrow> cvPoolCertificateScalar \<Rightarrow>
    ('f, 'k) tblsThresholdSigner option \<Rightarrow> unit res" where
  "cvVerifyPoolCertificateScalar lib pool certificate controlSigner =
     (if \<not> cvScalarSignerHasRole controlSigner cvScalarRoleControl \<or> pl_Digest pool \<noteq> pc_PoolDigest certificate
      then Err ''invalid CV V2 pool certificate''
      else case cvPoolCertificateStatementScalar (pl_ContextDigest pool) (pl_ProposerID pool) (pl_Digest pool) of
          Ok statement \<Rightarrow>
            if \<not> VerifyRecovered lib (the controlSigner) cvPoolCertScalarDomain statement (pc_Certificate certificate)
            then Err ''invalid CV V2 pool certificate signature'' else Ok ()
        | _ \<Rightarrow> Err ''invalid CV V2 pool certificate signature'')"

section \<open>The slot of a proposer\<close>

definition observePool :: "cvPoolSlotStateScalar \<Rightarrow> cvPoolScalar \<Rightarrow> cvPoolSlotStateScalar res" where
  "observePool state pool =
     (if length (pl_Digest pool) \<noteq> 32 then Err ''invalid CV V2 pool slot input''
      else if sl_poolSeen state \<and> sl_poolDigest state \<noteq> pl_Digest pool then Err ''conflicting CV V2 pool for proposer slot''
      else if \<not> sl_poolSeen state then Ok (state\<lparr>sl_poolSeen := True, sl_poolDigest := pl_Digest pool\<rparr>)
      else Ok state)"

definition markSigned :: "cvPoolSlotStateScalar \<Rightarrow> bytes \<Rightarrow> cvPoolSlotStateScalar res" where
  "markSigned state poolDigest =
     (if \<not> sl_poolSeen state \<or> sl_poolDigest state \<noteq> poolDigest \<or> sl_signed state
      then Err ''invalid CV V2 pool slot signature transition''
      else Ok (state\<lparr>sl_signed := True\<rparr>))"

definition observeCertificate :: "cvPoolSlotStateScalar \<Rightarrow> cvPoolCertificateScalar \<Rightarrow> cvPoolSlotStateScalar res" where
  "observeCertificate state certificate =
     (if \<not> sl_poolSeen state \<or> sl_poolDigest state \<noteq> pc_PoolDigest certificate
      then Err ''conflicting CV V2 pool certificate for proposer slot''
      else Ok (state\<lparr>sl_certSeen := True\<rparr>))"

section \<open>What wires determine\<close>

lemma uint_dealer: "0 \<le> i \<Longrightarrow> i \<le> max_int \<Longrightarrow> uint (word_of_int i :: 64 word) = i"
  by (simp add: uint_word_of_int max_int_def)

lemma decoded_pool:
  assumes "cvDecodePoolScalar wire params = Ok pool"
  obtains body where "wire = lengthPrefixed body @ lengthPrefixed (pl_Digest pool)" "length body < 2 ^ 32"
    "pl_Digest pool = cv_hashBytes [bytes_of cvPoolDigestScalarDomain, body]" "length (pl_Digest pool) = 32"
    "length (pl_ContextDigest pool) = 32" "0 \<le> pl_ProposerID pool" "pl_ProposerID pool \<le> max_int"
    "cvPoolScalarCanonicalBytes pool params = Ok wire"
proof -
  have can: "cvPoolScalarCanonicalBytes pool params = Ok wire" and pid: "pl_ProposerID pool \<le> max_int"
    using assms by (auto simp: cvDecodePoolScalar_def Let_def split: if_splits)
  have long: "length wire \<ge> 40"
    using assms by (auto simp: cvDecodePoolScalar_def Let_def cv_get_iff lengthPrefixed_def split: if_splits)
  obtain body where body: "poolUnsigned ''invalid CV V2 pool component order'' (pl_ContextDigest pool) (pl_ProposerID pool) (pl_Components pool) = Ok body"
    "pl_Digest pool = cv_hashBytes [bytes_of cvPoolDigestScalarDomain, body]" "length (pl_Digest pool) = 32"
    "length (pl_ContextDigest pool) = 32" "0 \<le> pl_ProposerID pool"
    "wire = cvWriteBytesIgnore (pl_Digest pool) (cvWriteBytesIgnore body [])"
    using can by (auto simp: cvPoolScalarCanonicalBytes_def Let_def split: if_splits)
  show thesis
  proof (cases "length body < 2 ^ 32")
    case True
    then show thesis using that [of body] body can pid by simp
  next
    case False
    then have "cvWriteBytesIgnore body [] = []" by (simp add: cvWriteBytesIgnore_def cvWriteBytes_def cvWriteUint32_def)
    then have "wire = lengthPrefixed (pl_Digest pool)" using body(3,6) by simp
    then have "length wire = 36" using body(3) by (simp add: lengthPrefixed_def)
    then show thesis using long by simp
  qed
qed

text \<open>The strings hashed for a pool and for its certificate.\<close>

definition poolStrings :: "cvPoolScalar \<Rightarrow> bytes set" where
  "poolStrings pool =
    (case poolUnsigned ''invalid CV V2 pool component order'' (pl_ContextDigest pool) (pl_ProposerID pool) (pl_Components pool) of
       Ok body \<Rightarrow> {concat [bytes_of cvPoolDigestScalarDomain, body]} | _ \<Rightarrow> {})"

lemma pool_digest_binds:
  assumes "cvDecodePoolScalar wire params = Ok pool" "cvDecodePoolScalar wire' params = Ok pool'"
    and "pl_Digest pool = pl_Digest pool'" "\<not> (\<exists>x \<in> poolStrings pool. \<exists>y \<in> poolStrings pool'. collision x y)"
  shows "pool = pool'"
proof -
  have body: "\<exists>body. poolUnsigned ''invalid CV V2 pool component order'' (pl_ContextDigest p) (pl_ProposerID p) (pl_Components p) = Ok body \<and>
      pl_Digest p = cv_hashBytes [bytes_of cvPoolDigestScalarDomain, body] \<and> w = cvWriteBytesIgnore (pl_Digest p) (cvWriteBytesIgnore body [])"
    if "cvDecodePoolScalar w params = Ok p" for w p
    using that by (auto simp: cvDecodePoolScalar_def cvPoolScalarCanonicalBytes_def Let_def split: if_splits)
  obtain b where b: "poolUnsigned ''invalid CV V2 pool component order'' (pl_ContextDigest pool) (pl_ProposerID pool) (pl_Components pool) = Ok b"
    "pl_Digest pool = cv_hashBytes [bytes_of cvPoolDigestScalarDomain, b]" "wire = cvWriteBytesIgnore (pl_Digest pool) (cvWriteBytesIgnore b [])"
    using body [OF assms(1)] by blast
  obtain c where c: "poolUnsigned ''invalid CV V2 pool component order'' (pl_ContextDigest pool') (pl_ProposerID pool') (pl_Components pool') = Ok c"
    "pl_Digest pool' = cv_hashBytes [bytes_of cvPoolDigestScalarDomain, c]" "wire' = cvWriteBytesIgnore (pl_Digest pool') (cvWriteBytesIgnore c [])"
    using body [OF assms(2)] by blast
  have "\<not> collision (concat [bytes_of cvPoolDigestScalarDomain, b]) (concat [bytes_of cvPoolDigestScalarDomain, c])"
    using assms(4) by (simp add: poolStrings_def b(1) c(1))
  then have "b = c" using assms(3) b(2) c(2) unfolding cv_hashBytes_def collision_def by simp
  then have "wire = wire'" using assms(3) b(3) c(3) by simp
  then show ?thesis using assms(1,2) by simp
qed

section \<open>Round trips\<close>

definition honestMemo :: "cvAPDBLockScalar \<Rightarrow> bool" where
  "honestMemo lock \<longleftrightarrow> lk_canonicalWire lock = [] \<or> cvDecodeAPDBLockScalar (lk_canonicalWire lock) = Ok lock"

lemma lock_memo:
  assumes "cvAPDBLockScalarCanonicalBytes lock = Ok w" "honestMemo lock"
  shows "cvDecodeAPDBLockScalar w = Ok (lock\<lparr>lk_canonicalWire := w\<rparr>)"
proof (cases "lk_canonicalWire lock = []")
  case True
  then have "lock\<lparr>lk_canonicalWire := []\<rparr> = lock" by (cases lock) simp
  then show ?thesis unfolding lock_codec using assms(1) by simp
next
  case False
  then have "lk_canonicalWire lock = w" "cvDecodeAPDBLockScalar (lk_canonicalWire lock) = Ok lock"
    using assms by (auto simp: cvAPDBLockScalarCanonicalBytes_def honestMemo_def split: if_splits)
  then show ?thesis by (cases lock) auto
qed

lemma lock_wire_length: "cvDecodeAPDBLockScalar w = Ok lock \<Longrightarrow> int (length w) \<le> cvMaxComponentSignatureBytes + 256"
  by (auto simp: cvDecodeAPDBLockScalar_def cv_get_iff Let_def lengthPrefixed_def cvMaxComponentSignatureBytes_def split: if_splits)

lemma component_header_wire:
  assumes "cvComponentHeaderScalarCanonicalBytes h = Ok w"
  shows "length (ch_ContextDigest h) = 32 \<and> 0 \<le> ch_DealerID h \<and> length (ch_PayloadDigest h) = 32 \<and> length (ch_Instance h) = 32 \<and>
    length (ch_Root h) = 32 \<and> w = lengthPrefixed (bytes_of cvComponentHeaderScalarDomain) @ lengthPrefixed (ch_ContextDigest h) @
      put64 (word_of_int (ch_DealerID h)) @ lengthPrefixed (ch_PayloadDigest h) @ lengthPrefixed (ch_Instance h) @ lengthPrefixed (ch_Root h)"
  using assms by (auto simp: cvComponentHeaderScalarCanonicalBytes_def cvWriteUint64_def split: if_splits)

lemma component_header_roundtrip:
  assumes c: "cvComponentHeaderScalarCanonicalBytes h = Ok w" and "ch_DealerID h \<le> max_int"
  shows "cvDecodeComponentHeaderScalar w = Ok h"
proof -
  note w = component_header_wire [OF c]
  have "uint (word_of_int (ch_DealerID h) :: 64 word) = ch_DealerID h" using w assms(2) uint_dealer by blast
  then show ?thesis
    using w c assms(2) unfolding cvDecodeComponentHeaderScalar_def
    by (cases h) (simp add: cv_get_put cv_bytes_end Let_def del: bindR_eq_Ok)
qed

text \<open>Decoding fills in the memo of the lock and changes nothing else.\<close>

definition withMemo :: "cvComponentRefScalar \<Rightarrow> cvComponentRefScalar" where
  "withMemo ref = (case cvAPDBLockScalarCanonicalBytes (cr_Lock ref) of
     Ok w \<Rightarrow> ref\<lparr>cr_Lock := (cr_Lock ref)\<lparr>lk_canonicalWire := w\<rparr>\<rparr> | _ \<Rightarrow> ref)"

definition goodRef :: "cvComponentRefScalar \<Rightarrow> bool" where
  "goodRef ref \<longleftrightarrow> honestMemo (cr_Lock ref) \<and> ch_DealerID (cr_Header ref) \<le> max_int"

lemma ref_roundtrip:
  assumes c: "cvComponentRefScalarCanonicalBytes ref = Ok w" and "goodRef ref"
  shows "cvDecodeComponentRefScalar w = Ok (withMemo ref)" "cvComponentRefScalarCanonicalBytes (withMemo ref) = Ok w"
    "cr_Header (withMemo ref) = cr_Header ref" "int (length w) \<le> cvMaxNetworkPayloadBytes" "length w < 2 ^ 32"
    "int (length w) \<le> 2 * cvMaxComponentSignatureBytes"
proof -
  obtain hw lw where w: "cvComponentHeaderScalarCanonicalBytes (cr_Header ref) = Ok hw" "cvAPDBLockScalarCanonicalBytes (cr_Lock ref) = Ok lw"
    "ch_Instance (cr_Header ref) = lk_InstanceDigest (cr_Lock ref)" "ch_Root (cr_Header ref) = lk_Root (cr_Lock ref)"
    "w = cvWriteBytesIgnore lw (cvWriteBytesIgnore hw (cvWriteBytesIgnore (bytes_of cvComponentRefScalarDomain) []))"
    using c by (auto simp: cvComponentRefScalarCanonicalBytes_def split: if_splits)
  have lock: "cvDecodeAPDBLockScalar lw = Ok ((cr_Lock ref)\<lparr>lk_canonicalWire := lw\<rparr>)"
    using lock_memo [OF w(2)] assms(2) by (simp add: goodRef_def)
  have hl: "length hw \<le> 300" using component_header_wire [OF w(1)] by (auto simp: lengthPrefixed_def)
  have ll: "int (length lw) \<le> cvMaxComponentSignatureBytes + 256" using lock_wire_length [OF lock] .
  have small: "length lw < 2 ^ 32" "length hw < 2 ^ 32" "int (length hw) \<le> cvMaxNetworkPayloadBytes"
    using hl ll by (auto simp: cvMaxComponentSignatureBytes_def cvMaxNetworkPayloadBytes_def)
  have wire: "w = lengthPrefixed (bytes_of cvComponentRefScalarDomain) @ lengthPrefixed hw @ lengthPrefixed lw"
    using w(5) small by simp
  have memo: "withMemo ref = ref\<lparr>cr_Lock := (cr_Lock ref)\<lparr>lk_canonicalWire := lw\<rparr>\<rparr>" by (simp add: withMemo_def w(2))
  show can: "cvComponentRefScalarCanonicalBytes (withMemo ref) = Ok w"
    using w decoded_lock [OF lock] by (simp add: cvComponentRefScalarCanonicalBytes_def memo)
  show "cvDecodeComponentRefScalar w = Ok (withMemo ref)"
    using small ll lock can component_header_roundtrip [OF w(1)] assms(2) unfolding cvDecodeComponentRefScalar_def goodRef_def memo
    by (cases ref) (simp add: wire cv_get_put cv_bytes_end Let_def del: bindR_eq_Ok)
  show "cr_Header (withMemo ref) = cr_Header ref" by (simp add: memo)
  show "int (length w) \<le> cvMaxNetworkPayloadBytes" "length w < 2 ^ 32" "int (length w) \<le> 2 * cvMaxComponentSignatureBytes"
    using hl ll by (auto simp: wire lengthPrefixed_def cvMaxComponentSignatureBytes_def cvMaxNetworkPayloadBytes_def)
qed

lemma refs_roundtrip:
  assumes "writeRefs e context lastDealer refs b = Ok b'" "\<forall>ref \<in> set refs. goodRef ref"
  shows "\<exists>ws. b' = b @ ws \<and> readRefs (length refs) ws = Ok (map withMemo refs, []) \<and>
    writeRefs e context lastDealer (map withMemo refs) b = Ok b'"
  using assms
proof (induction refs arbitrary: lastDealer b)
  case (Cons ref refs)
  obtain w where w: "cvComponentRefScalarCanonicalBytes ref = Ok w" "\<not> ch_DealerID (cr_Header ref) \<le> lastDealer"
    "ch_ContextDigest (cr_Header ref) = context"
    "writeRefs e context (ch_DealerID (cr_Header ref)) refs (cvWriteBytesIgnore w b) = Ok b'"
    using Cons.prems(1) by (auto split: if_splits)
  note r = ref_roundtrip [OF w(1)]
  have good: "goodRef ref" using Cons.prems(2) by simp
  obtain ws where ws: "b' = cvWriteBytesIgnore w b @ ws" "readRefs (length refs) ws = Ok (map withMemo refs, [])"
    "writeRefs e context (ch_DealerID (cr_Header ref)) (map withMemo refs) (cvWriteBytesIgnore w b) = Ok b'"
    using Cons.IH [OF w(4)] Cons.prems(2) by auto
  have "readRefs (length (ref # refs)) (lengthPrefixed w @ ws) = Ok (map withMemo (ref # refs), [])"
    using r [OF good] ws(2) by (simp add: cv_get_put del: bindR_eq_Ok)
  moreover have "writeRefs e context lastDealer (map withMemo (ref # refs)) b = Ok b'"
    using r(2,3) [OF good] w ws(3) by simp
  ultimately show ?case using ws(1) r(5) [OF good] by (intro exI [of _ "lengthPrefixed w @ ws"]) simp
qed simp

text \<open>A pool whose references come from decoding or from fresh locks decodes from its own wire, with the memos filled in.\<close>

lemma pool_roundtrip:
  assumes c: "cvPoolScalarCanonicalBytes pool params = Ok wire" and good: "\<forall>ref \<in> set (pl_Components pool). goodRef ref"
    and pid: "pl_ProposerID pool \<le> max_int"
    and small: "\<And>body. poolUnsigned ''invalid CV V2 pool component order'' (pl_ContextDigest pool) (pl_ProposerID pool)
      (pl_Components pool) = Ok body \<Longrightarrow> int (length body) \<le> cvMaxNetworkPayloadBytes"
  shows "cvDecodePoolScalar wire params = Ok (pool\<lparr>pl_Components := map withMemo (pl_Components pool)\<rparr>)"
proof -
  let ?e = "''invalid CV V2 pool component order''"
  obtain body where b: "poolUnsigned ?e (pl_ContextDigest pool) (pl_ProposerID pool) (pl_Components pool) = Ok body"
    "length (pl_ContextDigest pool) = 32" "0 \<le> pl_ProposerID pool" "int (length (pl_Components pool)) = sp_poolSize params"
    "length (pl_Digest pool) = 32" "pl_Digest pool = cv_hashBytes [bytes_of cvPoolDigestScalarDomain, body]"
    "wire = cvWriteBytesIgnore (pl_Digest pool) (cvWriteBytesIgnore body [])"
    using c by (auto simp: cvPoolScalarCanonicalBytes_def Let_def split: if_splits)
  have size: "sp_poolSize params < 2 ^ 32" "0 \<le> sp_poolSize params"
    using b(1,4) by (auto simp: poolUnsigned_def cvWriteUint32_def split: if_splits)
  define pre where "pre = lengthPrefixed (bytes_of cvPoolScalarDomain) @ lengthPrefixed (pl_ContextDigest pool) @
    put64 (word_of_int (pl_ProposerID pool)) @ putInt32 (sp_poolSize params)"
  have "writeRefs ?e (pl_ContextDigest pool) (- 1) (pl_Components pool) pre = Ok body"
    using b(1,2,4) size by (simp add: poolUnsigned_def cvWriteUint32_eq cvWriteUint64_def pre_def)
  then obtain ws where ws: "body = pre @ ws" "readRefs (length (pl_Components pool)) ws = Ok (map withMemo (pl_Components pool), [])"
    "writeRefs ?e (pl_ContextDigest pool) (- 1) (map withMemo (pl_Components pool)) pre = Ok body"
    using refs_roundtrip good by blast
  have blen: "int (length body) \<le> cvMaxNetworkPayloadBytes" "length body < 2 ^ 32"
    using small [OF b(1)] by (simp_all add: cvMaxNetworkPayloadBytes_def)
  then have wire: "wire = lengthPrefixed body @ lengthPrefixed (pl_Digest pool)" using b(5,7) by simp
  have "poolUnsigned ?e (pl_ContextDigest pool) (pl_ProposerID pool) (map withMemo (pl_Components pool)) = Ok body"
    using ws(3) b(2,4) size by (simp add: poolUnsigned_def cvWriteUint32_eq cvWriteUint64_def pre_def)
  then have can: "cvPoolScalarCanonicalBytes (pool\<lparr>pl_Components := map withMemo (pl_Components pool)\<rparr>) params = Ok wire"
    using b by (simp add: cvPoolScalarCanonicalBytes_def)
  have count: "nat (sp_poolSize params) = length (pl_Components pool)" using b(4) by simp
  show ?thesis
    using blen b(2,3,5) size pid can uint_dealer [OF b(3) pid] ws(2) unfolding cvDecodePoolScalar_def
    by (cases pool) (simp add: wire ws(1) pre_def cv_get_put cv_bytes_end count Let_def del: bindR_eq_Ok)
qed

end
