(* ===== verification/Go_Threads.thy ===== *)
theory Go_Threads
  imports Go_Prelude
begin

text \<open>
  Goroutines over state that is shared under a mutex. A goroutine is the list of the tasks it still has to run; a task
  holds at most one locked region, so running it is atomic, and it may put further tasks in front of the rest. A
  schedule starts goroutines and resumes them in any order. The locale is the rely-guarantee rule: what every task
  guarantees of the shared state is what the other tasks rely on.
\<close>

record ('s, 't, 'o) machine =
  mc_state :: 's
  mc_threads :: "'t list list"
  mc_out :: "'o list"

datatype ('c, 'r) threadEvent = Start 'c | Resume nat 'r

definition threadStep :: "('r \<Rightarrow> 's \<Rightarrow> 't \<Rightarrow> 's \<times> 't list \<times> 'o list) \<Rightarrow> ('c \<Rightarrow> 't) \<Rightarrow> ('s, 't, 'o) machine \<Rightarrow>
    ('c, 'r) threadEvent \<Rightarrow> ('s, 't, 'o) machine" where
  "threadStep exec first m ev =
    (case ev of
       Start call \<Rightarrow> m\<lparr>mc_threads := mc_threads m @ [[first call]]\<rparr>
     | Resume i r \<Rightarrow>
         if i < length (mc_threads m) then
           (case mc_threads m ! i of
              [] \<Rightarrow> m
            | task # rest \<Rightarrow>
                let (s, tasks, out) = exec r (mc_state m) task in
                m\<lparr>mc_state := s, mc_threads := (mc_threads m)[i := tasks @ rest], mc_out := mc_out m @ out\<rparr>)
         else m)"

definition threadRun :: "('r \<Rightarrow> 's \<Rightarrow> 't \<Rightarrow> 's \<times> 't list \<times> 'o list) \<Rightarrow> ('c \<Rightarrow> 't) \<Rightarrow> ('s, 't, 'o) machine \<Rightarrow>
    ('c, 'r) threadEvent list \<Rightarrow> ('s, 't, 'o) machine" where
  "threadRun exec first m evs = foldl (threadStep exec first) m evs"

definition idleMachine :: "'s \<Rightarrow> ('s, 't, 'o) machine" where
  "idleMachine s = \<lparr>mc_state = s, mc_threads = [], mc_out = []\<rparr>"

definition machineSound :: "('s \<Rightarrow> bool) \<Rightarrow> ('s \<Rightarrow> 't \<Rightarrow> bool) \<Rightarrow> ('s \<Rightarrow> 'o \<Rightarrow> bool) \<Rightarrow> ('s, 't, 'o) machine \<Rightarrow> bool" where
  "machineSound invr ok outOk m \<longleftrightarrow> invr (mc_state m) \<and> (\<forall>ts \<in> set (mc_threads m). \<forall>t \<in> set ts. ok (mc_state m) t) \<and>
     (\<forall>x \<in> set (mc_out m). outOk (mc_state m) x)"

locale rely_guarantee =
  fixes exec :: "'r \<Rightarrow> 's \<Rightarrow> 't \<Rightarrow> 's \<times> 't list \<times> 'o list"
    and first :: "'c \<Rightarrow> 't"
    and invr :: "'s \<Rightarrow> bool"
    and le :: "'s \<Rightarrow> 's \<Rightarrow> bool"
    and ok :: "'s \<Rightarrow> 't \<Rightarrow> bool"
    and outOk :: "'s \<Rightarrow> 'o \<Rightarrow> bool"
    and good :: "'c \<Rightarrow> bool"
  assumes exec_ok: "invr s \<Longrightarrow> ok s task \<Longrightarrow> exec r s task = (s', tasks, out) \<Longrightarrow>
      invr s' \<and> le s s' \<and> (\<forall>t \<in> set tasks. ok s' t) \<and> (\<forall>x \<in> set out. outOk s' x)"
    and ok_mono: "le s s' \<Longrightarrow> ok s task \<Longrightarrow> ok s' task"
    and out_mono: "le s s' \<Longrightarrow> outOk s x \<Longrightarrow> outOk s' x"
    and first_ok: "invr s \<Longrightarrow> good call \<Longrightarrow> ok s (first call)"
begin

lemma step_sound:
  assumes "machineSound invr ok outOk m" "\<And>call. ev = Start call \<Longrightarrow> good call"
  shows "machineSound invr ok outOk (threadStep exec first m ev)"
proof (cases ev)
  case (Start call)
  then show ?thesis using assms first_ok by (auto simp: machineSound_def threadStep_def)
next
  case (Resume i r)
  show ?thesis
  proof (cases "i < length (mc_threads m)")
    case True
    show ?thesis
    proof (cases "mc_threads m ! i")
      case (Cons task rest)
      obtain s' tasks out where e: "exec r (mc_state m) task = (s', tasks, out)" by (metis prod_cases3)
      have mem: "task # rest \<in> set (mc_threads m)" using True Cons nth_mem by metis
      have ok: "invr (mc_state m)" "ok (mc_state m) task" using assms(1) mem by (auto simp: machineSound_def)
      note g = exec_ok [OF ok e]
      have "ok s' t" if "t \<in> set ts" "ts \<in> set (mc_threads m)" for t ts
        using that assms(1) g ok_mono by (auto simp: machineSound_def)
      moreover have "outOk s' x" if "x \<in> set (mc_out m)" for x
        using that assms(1) g out_mono by (auto simp: machineSound_def)
      moreover have "ts \<in> set (mc_threads m) \<or> ts = tasks @ rest" if "ts \<in> set ((mc_threads m)[i := tasks @ rest])" for ts
        using that set_update_subset_insert [of "mc_threads m" i "tasks @ rest"] by blast
      moreover have "\<forall>t \<in> set rest. ok s' t" using calculation(1) [of _ "task # rest"] mem by simp
      ultimately show ?thesis
        using Resume True Cons e g by (fastforce simp: threadStep_def machineSound_def)
    qed (use Resume assms(1) in \<open>simp add: threadStep_def\<close>)
  qed (use Resume assms(1) in \<open>simp add: threadStep_def\<close>)
qed

lemma run_sound:
  "machineSound invr ok outOk m \<Longrightarrow> (\<And>call. Start call \<in> set evs \<Longrightarrow> good call) \<Longrightarrow> machineSound invr ok outOk (threadRun exec first m evs)"
proof (induction evs arbitrary: m)
  case (Cons ev evs)
  have "machineSound invr ok outOk (threadStep exec first m ev)" using Cons.prems by (intro step_sound) auto
  then show ?case using Cons by (simp add: threadRun_def)
qed (simp add: threadRun_def)

lemma idle_sound: "invr s \<Longrightarrow> machineSound invr ok outOk (idleMachine s)"
  by (simp add: machineSound_def idleMachine_def)

end

end
