(* ===== verification/Cv_Pool_Net.thy ===== *)
theory Cv_Pool_Net
  imports Cv_Pool Go_Threads Go_Reactor
begin

text \<open>
  Certifying pools over the network (the pool operations of \<^verbatim>\<open>core/cv_sapvss_apdb_network_scalar.go\<close>): a proposer offers its pool,
  every member signs the first valid pool it sees for a proposer, the proposer recovers the certificate from the shares
  and announces it. The service keeps its slots under a mutex and works outside of it in between, so a
  goroutine is a list of tasks, each with at most one locked region, and a step of the machine runs the first task of any
  goroutine. What a task reads of other parts of the service, the eligible proposers and the verified references, is
  given with the step. Theorems hold for every interleaving. A buffered notification channel of capacity one is a flag.
\<close>

section \<open>State\<close>

record cvNetworkPoolSlotScalar =
  ns_state :: cvPoolSlotStateScalar
  ns_poolWire :: bytes
  ns_certWire :: bytes
  ns_localShare :: bytes
  ns_localShareWire :: bytes
  ns_shares :: "(int \<times> bytes) list"
  ns_sharesReady :: bool
  ns_certReady :: bool
  ns_certifying :: bool

type_synonym poolSlots = "int \<rightharpoonup> cvNetworkPoolSlotScalar"

record ('f, 'k) poolConfig =
  pf_LocalNode :: int
  pf_OldRoster :: "int list"
  pf_ExpectedContext :: bytes
  pf_Params :: cvScalarParams
  pf_apdbSigner :: "('f, 'k) tblsThresholdSigner"
  pf_controlSigner :: "('f, 'k) tblsThresholdSigner"

record poolReads =
  rd_eligibleProposers :: "int set"
  rd_componentRefsScalar :: "int \<rightharpoonup> cvComponentRefScalar"

datatype poolTask =
    OfferBegin int bytes
  | OfferValidate int bytes
  | OfferCommit cvPoolScalar bytes bytes
  | ShareBegin int bytes
  | ShareCommit int cvPoolCertificateShareScalar
  | CertBegin int bytes
  | CertLookup int cvPoolCertificateScalar bytes
  | CertCommit int cvPoolCertificateScalar bytes
  | SendShare int bytes
  | CertifyBegin cvPoolScalar
  | CertifyLocked cvPoolScalar bytes bytes
  | CertifyWait cvPoolScalar bytes bytes nat
  | CertifyRecover cvPoolScalar bytes
  | CertifyPublish cvPoolScalar cvPoolCertificateScalar bytes
  | CertifyEnd int
  | AwaitBegin int
  | AwaitWait int
  | AwaitRead int

datatype waitChoice = WaitReady | WaitTimer | WaitCancelled

text \<open>\<open>PoolSigned\<close> is a call of \<^verbatim>\<open>SignShare\<close>: proposer, digest of the pool and statement.\<close>

datatype poolOut =
    PoolSigned int bytes bytes
  | PoolSend int string bytes
  | PoolFanout "int list" string bytes
  | CertifyReturned "cvPoolCertificateScalar res"
  | AwaitReturned int "(cvPoolScalar \<times> cvPoolCertificateScalar) res"

definition emptySlot :: cvNetworkPoolSlotScalar where
  "emptySlot = \<lparr>ns_state = \<lparr>sl_poolDigest = [], sl_poolSeen = False, sl_signed = False, sl_certSeen = False\<rparr>,
     ns_poolWire = [], ns_certWire = [], ns_localShare = [], ns_localShareWire = [], ns_shares = [], ns_sharesReady = False,
     ns_certReady = False, ns_certifying = False\<rparr>"

definition poolSlotLocked :: "poolSlots \<Rightarrow> int \<Rightarrow> cvNetworkPoolSlotScalar" where
  "poolSlotLocked slots proposer = (case slots proposer of None \<Rightarrow> emptySlot | Some slot \<Rightarrow> slot)"

definition cvControlRetryMaxAttemptsScalar :: nat where
  "cvControlRetryMaxAttemptsScalar = 4"

section \<open>Validation of pools\<close>

fun validateRefs :: "('f, 'g, 'k) blsLib \<Rightarrow> ('f, 'k) tblsThresholdSigner \<Rightarrow> (int \<rightharpoonup> cvComponentRefScalar) \<Rightarrow> cvComponentRefScalar list \<Rightarrow> unit res" where
  "validateRefs lib apdbSigner knownRefs [] = Ok ()"
| "validateRefs lib apdbSigner knownRefs (ref # refs) =
    (case knownRefs (ch_DealerID (cr_Header ref)) of
       Some known \<Rightarrow>
         if equalComponentRefsScalar known ref then validateRefs lib apdbSigner knownRefs refs
         else Err ''CV V2 component reference conflicts with verified cache''
     | None \<Rightarrow> bindR (cvValidateComponentRefScalar lib ref (Some apdbSigner)) (\<lambda>_. validateRefs lib apdbSigner knownRefs refs))"

definition validateKnownComponentRefsScalar :: "('f, 'g, 'k) blsLib \<Rightarrow> ('f, 'k) poolConfig \<Rightarrow> poolReads \<Rightarrow> cvComponentRefScalar list \<Rightarrow> unit res" where
  "validateKnownComponentRefsScalar lib cfg rd refs =
    (let knownRefs = rd_componentRefsScalar rd |` ((\<lambda>ref. ch_DealerID (cr_Header ref)) ` set refs) in
     validateRefs lib (pf_apdbSigner cfg) knownRefs refs)"

definition validatePool :: "('f, 'g, 'k) blsLib \<Rightarrow> ('f, 'k) poolConfig \<Rightarrow> poolReads \<Rightarrow> cvPoolScalar \<Rightarrow> bytes res" where
  "validatePool lib cfg rd pool =
     (if pl_ContextDigest pool \<noteq> pf_ExpectedContext cfg then Err ''CV V2 pool context mismatch''
      else if pl_ProposerID pool \<notin> rd_eligibleProposers rd then Err ''CV V2 pool proposer is not eligible''
      else bindR (cvPoolScalarCanonicalBytes pool (pf_Params cfg)) (\<lambda>wire.
        bindR (reErr ''invalid CV V2 pool component'' (validateKnownComponentRefsScalar lib cfg rd (pl_Components pool))) (\<lambda>_.
        Ok wire)))"

section \<open>Handlers\<close>

type_synonym poolEffect = "poolSlots \<times> poolTask list \<times> poolOut list"

text \<open>\<^verbatim>\<open>handlePoolOffer\<close>, up to the first unlock, the validation, and the second locked region.\<close>

definition offerBegin :: "poolSlots \<Rightarrow> int \<Rightarrow> bytes \<Rightarrow> poolEffect" where
  "offerBegin slots sender body =
    (case slots sender of
       Some slot \<Rightarrow>
         if ns_poolWire slot = body \<and> ns_localShareWire slot \<noteq> [] then (slots, [SendShare sender (ns_localShareWire slot)], [])
         else (slots, [OfferValidate sender body], [])
     | None \<Rightarrow> (slots, [OfferValidate sender body], []))"

definition offerValidate :: "('f, 'g, 'k) blsLib \<Rightarrow> ('f, 'k) poolConfig \<Rightarrow> poolReads \<Rightarrow> int \<Rightarrow> bytes \<Rightarrow> poolTask list" where
  "offerValidate lib cfg rd sender body =
    (case cvDecodePoolScalar body (pf_Params cfg) of
       Ok pool \<Rightarrow>
         if pl_ProposerID pool \<noteq> sender then []
         else (case validatePool lib cfg rd pool of
             Ok poolWire \<Rightarrow>
               (case cvPoolCertificateStatementScalar (pl_ContextDigest pool) (pl_ProposerID pool) (pl_Digest pool) of
                  Ok statement \<Rightarrow> [OfferCommit pool poolWire statement] | _ \<Rightarrow> [])
           | _ \<Rightarrow> [])
     | _ \<Rightarrow> [])"

definition offerShare :: "poolSlots \<Rightarrow> cvPoolScalar \<Rightarrow> cvNetworkPoolSlotScalar \<Rightarrow> bytes \<Rightarrow> poolOut list \<Rightarrow> poolEffect" where
  "offerShare slots pool slot deferred out =
    (let shareWire = cvPoolCertificateShareScalarCanonicalBytes
          \<lparr>ps_ProposerID = pl_ProposerID pool, ps_PoolDigest = pl_Digest pool, ps_Signature = ns_localShare slot\<rparr>;
         cert = (if deferred \<noteq> [] then [CertBegin (pl_ProposerID pool) deferred] else []) in
     case shareWire of
       Ok w \<Rightarrow>
         let slot = (if ns_localShareWire slot = [] then slot\<lparr>ns_localShareWire := w\<rparr> else slot) in
         (slots(pl_ProposerID pool \<mapsto> slot), cert @ [SendShare (pl_ProposerID pool) w], out)
     | _ \<Rightarrow> (slots(pl_ProposerID pool \<mapsto> slot), cert, out))"

definition offerCommit :: "('f, 'g, 'k) blsLib \<Rightarrow> ('f, 'k) poolConfig \<Rightarrow> poolSlots \<Rightarrow> cvPoolScalar \<Rightarrow> bytes \<Rightarrow> bytes \<Rightarrow> poolEffect" where
  "offerCommit lib cfg slots pool poolWire statement =
    (let slot = poolSlotLocked slots (pl_ProposerID pool); k = pl_ProposerID pool in
     case observePool (ns_state slot) pool of
       Ok st \<Rightarrow>
         let slot = slot\<lparr>ns_state := st\<rparr>; deferred = ns_certWire slot in
         if \<not> sl_signed st then
           (case SignShare lib (pf_controlSigner cfg) (pf_LocalNode cfg) cvPoolCertScalarDomain statement of
              Ok localShare \<Rightarrow>
                (case markSigned st (pl_Digest pool) of
                   Ok st \<Rightarrow> offerShare slots pool (slot\<lparr>ns_state := st, ns_poolWire := poolWire, ns_localShare := localShare\<rparr>) deferred
                     [PoolSigned k (pl_Digest pool) statement]
                 | _ \<Rightarrow> (slots(k \<mapsto> slot), [], [PoolSigned k (pl_Digest pool) statement]))
            | _ \<Rightarrow> (slots(k \<mapsto> slot), [], []))
         else if ns_localShare slot = [] \<or> sl_poolDigest st \<noteq> pl_Digest pool then (slots(k \<mapsto> slot), [], [])
         else offerShare slots pool slot deferred []
     | _ \<Rightarrow> (slots(k \<mapsto> slot), [], []))"

text \<open>\<^verbatim>\<open>handlePoolCertificateShare\<close>. A slot is never removed or replaced in the map.\<close>

definition shareBegin :: "('f, 'g, 'k) blsLib \<Rightarrow> ('f, 'k) poolConfig \<Rightarrow> poolSlots \<Rightarrow> int \<Rightarrow> bytes \<Rightarrow> poolTask list" where
  "shareBegin lib cfg slots sender body =
    (case cvDecodePoolCertificateShareScalar body of
       Ok shr \<Rightarrow>
         if ps_ProposerID shr \<noteq> pf_LocalNode cfg then []
         else (case slots (ps_ProposerID shr) of
             None \<Rightarrow> []
           | Some slot \<Rightarrow>
               if \<not> sl_poolSeen (ns_state slot) \<or> sl_poolDigest (ns_state slot) \<noteq> ps_PoolDigest shr then []
               else if sender \<in> fst ` set (ns_shares slot) then []
               else (case cvPoolCertificateStatementScalar (pf_ExpectedContext cfg) (ps_ProposerID shr) (ps_PoolDigest shr) of
                   Ok statement \<Rightarrow>
                     if VerifyShare lib (pf_controlSigner cfg) sender cvPoolCertScalarDomain statement (ps_Signature shr)
                     then [ShareCommit sender shr] else []
                 | _ \<Rightarrow> []))
     | _ \<Rightarrow> [])"

definition shareCommit :: "('f, 'k) poolConfig \<Rightarrow> poolSlots \<Rightarrow> int \<Rightarrow> cvPoolCertificateShareScalar \<Rightarrow> poolSlots" where
  "shareCommit cfg slots sender shr =
    (case slots (ps_ProposerID shr) of
       None \<Rightarrow> slots
     | Some slot \<Rightarrow>
         if \<not> sl_poolSeen (ns_state slot) \<or> sl_poolDigest (ns_state slot) \<noteq> ps_PoolDigest shr then slots
         else
           let slot = (if sender \<in> fst ` set (ns_shares slot) then slot
                 else slot\<lparr>ns_shares := putShare sender (ps_Signature shr) (ns_shares slot)\<rparr>);
               slot = (if int (length (ns_shares slot)) \<ge> th_t (pf_controlSigner cfg) then slot\<lparr>ns_sharesReady := True\<rparr> else slot) in
           slots(ps_ProposerID shr \<mapsto> slot))"

text \<open>\<^verbatim>\<open>handlePoolCertificate\<close>.\<close>

definition certBegin :: "poolSlots \<Rightarrow> int \<Rightarrow> bytes \<Rightarrow> poolTask list" where
  "certBegin slots sender body =
    (if (case slots sender of Some slot \<Rightarrow> sl_certSeen (ns_state slot) \<and> ns_certWire slot = body | None \<Rightarrow> False) then []
     else (case cvDecodePoolCertificateScalar body of Ok certificate \<Rightarrow> [CertLookup sender certificate body] | _ \<Rightarrow> []))"

definition certLookup :: "('f, 'g, 'k) blsLib \<Rightarrow> ('f, 'k) poolConfig \<Rightarrow> poolSlots \<Rightarrow> int \<Rightarrow> cvPoolCertificateScalar \<Rightarrow> bytes \<Rightarrow> poolEffect" where
  "certLookup lib cfg slots sender certificate body =
    (let slot = poolSlotLocked slots sender in
     if \<not> sl_poolSeen (ns_state slot) then (slots(sender \<mapsto> slot\<lparr>ns_certWire := body\<rparr>), [], [])
     else if sl_poolDigest (ns_state slot) \<noteq> pc_PoolDigest certificate then (slots, [], [])
     else (case cvDecodePoolScalar (ns_poolWire slot) (pf_Params cfg) of
         Ok pool \<Rightarrow>
           if pl_ProposerID pool \<noteq> sender \<or> \<not> is_Ok (cvVerifyPoolCertificateScalar lib pool certificate (Some (pf_controlSigner cfg)))
           then (slots, [], []) else (slots, [CertCommit sender certificate body], [])
       | _ \<Rightarrow> (slots, [], [])))"

definition certCommit :: "poolSlots \<Rightarrow> int \<Rightarrow> cvPoolCertificateScalar \<Rightarrow> bytes \<Rightarrow> poolSlots" where
  "certCommit slots sender certificate body =
    (let slot = poolSlotLocked slots sender in
     case observeCertificate (ns_state slot) certificate of
       Ok st \<Rightarrow> slots(sender \<mapsto> slot\<lparr>ns_state := st, ns_certWire := body, ns_certReady := True\<rparr>)
     | _ \<Rightarrow> slots)"

text \<open>\<^verbatim>\<open>CertifyPool\<close>: checks, the locked region, waiting for shares with at most four resends, recovery, publication, and the
  deferred reset.\<close>

definition certifyBegin :: "('f, 'g, 'k) blsLib \<Rightarrow> ('f, 'k) poolConfig \<Rightarrow> poolReads \<Rightarrow> cvPoolScalar \<Rightarrow> poolTask list \<times> poolOut list" where
  "certifyBegin lib cfg rd pool =
     (if pl_ProposerID pool \<noteq> pf_LocalNode cfg then ([], [CertifyReturned (Err ''invalid CV V2 pool certification caller'')])
      else case bindR (validatePool lib cfg rd pool) (\<lambda>poolWire.
            bindR (cvPoolCertificateStatementScalar (pl_ContextDigest pool) (pl_ProposerID pool) (pl_Digest pool)) (\<lambda>statement.
            Ok (poolWire, statement))) of
          Ok (poolWire, statement) \<Rightarrow> ([CertifyLocked pool poolWire statement], [])
        | Err e \<Rightarrow> ([], [CertifyReturned (Err e)])
        | Panic \<Rightarrow> ([], [CertifyReturned Panic]))"

definition certifyStart :: "('f, 'k) poolConfig \<Rightarrow> poolSlots \<Rightarrow> cvPoolScalar \<Rightarrow> bytes \<Rightarrow> bytes \<Rightarrow> cvNetworkPoolSlotScalar \<Rightarrow> poolOut list \<Rightarrow> poolEffect" where
  "certifyStart cfg slots pool poolWire statement slot out =
    (let k = pl_ProposerID pool;
         slot = slot\<lparr>ns_poolWire := poolWire, ns_certifying := True\<rparr>;
         slot = (if int (length (ns_shares slot)) \<ge> th_t (pf_controlSigner cfg) then slot\<lparr>ns_sharesReady := True\<rparr> else slot) in
     (slots(k \<mapsto> slot), [CertifyWait pool poolWire statement 0, CertifyEnd k],
      out @ [PoolFanout (filter (\<lambda>m. m \<noteq> pf_LocalNode cfg) (pf_OldRoster cfg)) cvTagPoolOfferScalar poolWire]))"

definition certifyLocked :: "('f, 'g, 'k) blsLib \<Rightarrow> ('f, 'k) poolConfig \<Rightarrow> poolSlots \<Rightarrow> cvPoolScalar \<Rightarrow> bytes \<Rightarrow> bytes \<Rightarrow> poolEffect" where
  "certifyLocked lib cfg slots pool poolWire statement =
    (let k = pl_ProposerID pool; slot = poolSlotLocked slots k in
     case observePool (ns_state slot) pool of
       Err e \<Rightarrow> (slots(k \<mapsto> slot), [], [CertifyReturned (Err e)])
     | Panic \<Rightarrow> (slots(k \<mapsto> slot), [], [CertifyReturned Panic])
     | Ok st \<Rightarrow>
         let slot = slot\<lparr>ns_state := st\<rparr> in
         if ns_certifying slot then (slots(k \<mapsto> slot), [], [CertifyReturned (Err ''CV V2 pool certification already active'')])
         else if \<not> sl_signed st then
           (case SignShare lib (pf_controlSigner cfg) (pf_LocalNode cfg) cvPoolCertScalarDomain statement of
              Err e \<Rightarrow> (slots(k \<mapsto> slot), [], [CertifyReturned (Err e)])
            | Panic \<Rightarrow> (slots(k \<mapsto> slot), [], [CertifyReturned Panic])
            | Ok localShare \<Rightarrow>
                let out = [PoolSigned k (pl_Digest pool) statement] in
                (case markSigned st (pl_Digest pool) of
                   Ok st \<Rightarrow> certifyStart cfg slots pool poolWire statement
                     (slot\<lparr>ns_state := st, ns_localShare := localShare,
                        ns_shares := putShare (pf_LocalNode cfg) localShare (ns_shares slot)\<rparr>) out
                 | Err e \<Rightarrow> (slots(k \<mapsto> slot), [], out @ [CertifyReturned (Err e)])
                 | Panic \<Rightarrow> (slots(k \<mapsto> slot), [], out @ [CertifyReturned Panic])))
         else if ns_localShare slot = [] then (slots(k \<mapsto> slot), [], [CertifyReturned (Err ''incomplete CV V2 pool proposer slot'')])
         else certifyStart cfg slots pool poolWire statement slot [])"

definition certifyWait :: "('f, 'k) poolConfig \<Rightarrow> waitChoice \<Rightarrow> poolSlots \<Rightarrow> cvPoolScalar \<Rightarrow> bytes \<Rightarrow> bytes \<Rightarrow> nat \<Rightarrow> poolEffect" where
  "certifyWait cfg choice slots pool poolWire statement attempt =
    (let k = pl_ProposerID pool; slot = poolSlotLocked slots k in
     case choice of
       WaitCancelled \<Rightarrow> (slots, [], [CertifyReturned (Err ''context'')])
     | WaitReady \<Rightarrow>
         if ns_sharesReady slot then (slots(k \<mapsto> slot\<lparr>ns_sharesReady := False\<rparr>), [CertifyRecover pool statement], [])
         else (slots, [CertifyWait pool poolWire statement attempt], [])
     | WaitTimer \<Rightarrow>
         if attempt < cvControlRetryMaxAttemptsScalar then
           let missing = filter (\<lambda>m. m \<noteq> pf_LocalNode cfg \<and> m \<notin> fst ` set (ns_shares slot)) (pf_OldRoster cfg) in
           (slots, [CertifyWait pool poolWire statement (Suc attempt)],
            if missing = [] then [] else [PoolFanout missing cvTagPoolOfferScalar poolWire])
         else (slots, [CertifyWait pool poolWire statement attempt], []))"

definition certifyRecover :: "('f :: field, 'g :: ab_group_add, 'k) blsLib \<Rightarrow> ('f, 'k) poolConfig \<Rightarrow> poolSlots \<Rightarrow> cvPoolScalar \<Rightarrow> bytes \<Rightarrow> poolEffect" where
  "certifyRecover lib cfg slots pool statement =
    (let slot = poolSlotLocked slots (pl_ProposerID pool);
         r = bindR (Recover lib (pf_controlSigner cfg) (ns_shares slot)) (\<lambda>recovered.
           let certificate = \<lparr>pc_PoolDigest = pl_Digest pool, pc_Certificate = recovered, pc_canonicalWire = []\<rparr> in
           bindR (cvVerifyPoolCertificateScalar lib pool certificate (Some (pf_controlSigner cfg))) (\<lambda>_.
           bindR (cvPoolCertificateScalarCanonicalBytes certificate) (\<lambda>certWire. Ok (certificate, certWire)))) in
     case r of
       Ok (certificate, certWire) \<Rightarrow> (slots, [CertifyPublish pool certificate certWire], [])
     | Err e \<Rightarrow> (slots, [], [CertifyReturned (Err e)])
     | Panic \<Rightarrow> (slots, [], [CertifyReturned Panic]))"

definition certifyPublish :: "('f, 'k) poolConfig \<Rightarrow> poolSlots \<Rightarrow> cvPoolScalar \<Rightarrow> cvPoolCertificateScalar \<Rightarrow> bytes \<Rightarrow> poolEffect" where
  "certifyPublish cfg slots pool certificate certWire =
    (let k = pl_ProposerID pool; slot = poolSlotLocked slots k in
     case observeCertificate (ns_state slot) certificate of
       Ok st \<Rightarrow> (slots(k \<mapsto> slot\<lparr>ns_state := st, ns_certWire := certWire, ns_certReady := True\<rparr>), [],
         [PoolFanout (filter (\<lambda>m. m \<noteq> pf_LocalNode cfg) (pf_OldRoster cfg)) cvTagPoolCertScalar certWire, CertifyReturned (Ok certificate)])
     | Err e \<Rightarrow> (slots, [], [CertifyReturned (Err e)])
     | Panic \<Rightarrow> (slots, [], [CertifyReturned Panic]))"

text \<open>\<^verbatim>\<open>AwaitCertifiedPool\<close>: eligibility and the state of the slot, the wait on its channel, and reading it.\<close>

definition awaitBegin :: "poolReads \<Rightarrow> poolSlots \<Rightarrow> int \<Rightarrow> poolEffect" where
  "awaitBegin rd slots proposer =
     (if proposer \<notin> rd_eligibleProposers rd then (slots, [], [AwaitReturned proposer (Err ''CV V2 pool proposer is not eligible'')])
      else let slot = poolSlotLocked slots proposer in
        (slots(proposer \<mapsto> slot), [if sl_certSeen (ns_state slot) then AwaitRead proposer else AwaitWait proposer], []))"

definition awaitWait :: "waitChoice \<Rightarrow> poolSlots \<Rightarrow> int \<Rightarrow> poolEffect" where
  "awaitWait choice slots proposer =
    (let slot = poolSlotLocked slots proposer in
     case choice of
       WaitCancelled \<Rightarrow> (slots, [], [AwaitReturned proposer (Err ''context'')])
     | WaitReady \<Rightarrow>
         if ns_certReady slot then (slots(proposer \<mapsto> slot\<lparr>ns_certReady := False\<rparr>), [AwaitRead proposer], [])
         else (slots, [AwaitWait proposer], [])
     | WaitTimer \<Rightarrow> (slots, [AwaitWait proposer], []))"

definition awaitCertified :: "('f, 'g, 'k) blsLib \<Rightarrow> ('f, 'k) poolConfig \<Rightarrow> poolSlots \<Rightarrow> int \<Rightarrow> (cvPoolScalar \<times> cvPoolCertificateScalar) res" where
  "awaitCertified lib cfg slots proposer =
    (let slot = poolSlotLocked slots proposer in
     bindR (cvDecodePoolScalar (ns_poolWire slot) (pf_Params cfg)) (\<lambda>pool.
     bindR (reErr ''invalid CV V2 certified pool state'' (cvDecodePoolCertificateScalar (ns_certWire slot))) (\<lambda>certificate.
     bindR (reErr ''invalid CV V2 certified pool state'' (cvVerifyPoolCertificateScalar lib pool certificate (Some (pf_controlSigner cfg)))) (\<lambda>_.
     Ok (pool, certificate)))))"

section \<open>The machine\<close>

fun poolExec :: "('f :: field, 'g :: ab_group_add, 'k) blsLib \<Rightarrow> ('f, 'k) poolConfig \<Rightarrow> poolReads \<Rightarrow> waitChoice \<Rightarrow> poolSlots \<Rightarrow> poolTask \<Rightarrow> poolEffect" where
  "poolExec lib cfg rd choice slots (OfferBegin sender body) = offerBegin slots sender body"
| "poolExec lib cfg rd choice slots (OfferValidate sender body) = (slots, offerValidate lib cfg rd sender body, [])"
| "poolExec lib cfg rd choice slots (OfferCommit pool poolWire statement) = offerCommit lib cfg slots pool poolWire statement"
| "poolExec lib cfg rd choice slots (ShareBegin sender body) = (slots, shareBegin lib cfg slots sender body, [])"
| "poolExec lib cfg rd choice slots (ShareCommit sender shr) = (shareCommit cfg slots sender shr, [], [])"
| "poolExec lib cfg rd choice slots (CertBegin sender body) = (slots, certBegin slots sender body, [])"
| "poolExec lib cfg rd choice slots (CertLookup sender certificate body) = certLookup lib cfg slots sender certificate body"
| "poolExec lib cfg rd choice slots (CertCommit sender certificate body) = (certCommit slots sender certificate body, [], [])"
| "poolExec lib cfg rd choice slots (SendShare receiver w) = (slots, [], [PoolSend receiver cvTagPoolCertShareScalar w])"
| "poolExec lib cfg rd choice slots (CertifyBegin pool) = (slots, fst (certifyBegin lib cfg rd pool), snd (certifyBegin lib cfg rd pool))"
| "poolExec lib cfg rd choice slots (CertifyLocked pool poolWire statement) = certifyLocked lib cfg slots pool poolWire statement"
| "poolExec lib cfg rd choice slots (CertifyWait pool poolWire statement attempt) = certifyWait cfg choice slots pool poolWire statement attempt"
| "poolExec lib cfg rd choice slots (CertifyRecover pool statement) = certifyRecover lib cfg slots pool statement"
| "poolExec lib cfg rd choice slots (CertifyPublish pool certificate certWire) = certifyPublish cfg slots pool certificate certWire"
| "poolExec lib cfg rd choice slots (CertifyEnd k) =
     (case slots k of None \<Rightarrow> slots | Some slot \<Rightarrow> slots(k \<mapsto> slot\<lparr>ns_certifying := False\<rparr>), [], [])"
| "poolExec lib cfg rd choice slots (AwaitBegin k) = awaitBegin rd slots k"
| "poolExec lib cfg rd choice slots (AwaitWait k) = awaitWait choice slots k"
| "poolExec lib cfg rd choice slots (AwaitRead k) = (slots, [], [AwaitReturned k (awaitCertified lib cfg slots k)])"

text \<open>A message or a call starts a goroutine; a step runs the first task of one.\<close>

datatype poolCall = PoolOffer int bytes | PoolShare int bytes | PoolCert int bytes | PoolCertify cvPoolScalar | PoolAwait int

fun firstTask :: "poolCall \<Rightarrow> poolTask" where
  "firstTask (PoolOffer sender body) = OfferBegin sender body"
| "firstTask (PoolShare sender body) = ShareBegin sender body"
| "firstTask (PoolCert sender body) = CertBegin sender body"
| "firstTask (PoolCertify pool) = CertifyBegin pool"
| "firstTask (PoolAwait k) = AwaitBegin k"

definition poolRun :: "('f :: field, 'g :: ab_group_add, 'k) blsLib \<Rightarrow> ('f, 'k) poolConfig \<Rightarrow>
    (poolCall, poolReads \<times> waitChoice) threadEvent list \<Rightarrow> (poolSlots, poolTask, poolOut) machine" where
  "poolRun lib cfg evs = threadRun (\<lambda>(rd, choice). poolExec lib cfg rd choice) firstTask (idleMachine Map.empty) evs"

end
