(* ===== verification/Cv_Pool_Props.thy ===== *)
theory Cv_Pool_Props
  imports Cv_Pool_Net
begin

text \<open>
  What the pool machine keeps in every schedule: the digest of a slot is fixed when its first pool is seen, a member
  signs only that digest, and a slot that shows a certificate holds a pool and a certificate that verify
  against each other. With quorums of the control signer, the pool certified for a proposer is unique.
\<close>

section \<open>Invariant\<close>

lemma slot_upd [simp]: "poolSlotLocked (slots(k \<mapsto> slot)) j = (if j = k then slot else poolSlotLocked slots j)"
  by (simp add: poolSlotLocked_def)

definition certValid :: "('f, 'g, 'k) blsLib \<Rightarrow> ('f, 'k) poolConfig \<Rightarrow> int \<Rightarrow> bytes \<Rightarrow> bytes \<Rightarrow> bool" where
  "certValid lib cfg k d c \<longleftrightarrow> (\<exists>statement. cvPoolCertificateStatementScalar (pf_ExpectedContext cfg) k d = Ok statement \<and>
     VerifyRecovered lib (pf_controlSigner cfg) cvPoolCertScalarDomain statement c)"

definition wireOf :: "('f, 'k) poolConfig \<Rightarrow> int \<Rightarrow> bytes \<Rightarrow> bytes \<Rightarrow> bool" where
  "wireOf cfg k d w \<longleftrightarrow> (\<exists>pool. cvDecodePoolScalar w (pf_Params cfg) = Ok pool \<and> pl_Digest pool = d \<and>
     pl_ContextDigest pool = pf_ExpectedContext cfg \<and> pl_ProposerID pool = k)"

text \<open>\<open>G\<close> says that the pools this node asks to certify itself fit the wire format. Signing does not depend on it.\<close>

definition slotInv :: "bool \<Rightarrow> ('f, 'g, 'k) blsLib \<Rightarrow> ('f, 'k) poolConfig \<Rightarrow> int \<Rightarrow> cvNetworkPoolSlotScalar \<Rightarrow> bool" where
  "slotInv G lib cfg k slot \<longleftrightarrow>
     (sl_signed (ns_state slot) \<longrightarrow> sl_poolSeen (ns_state slot)) \<and>
     (ns_poolWire slot \<noteq> [] \<longrightarrow> sl_poolSeen (ns_state slot) \<and> (G \<longrightarrow> wireOf cfg k (sl_poolDigest (ns_state slot)) (ns_poolWire slot))) \<and>
     (sl_certSeen (ns_state slot) \<longrightarrow> ns_poolWire slot \<noteq> [] \<and>
        (G \<longrightarrow> (\<exists>c. cvDecodePoolCertificateScalar (ns_certWire slot) = Ok c \<and> pc_PoolDigest c = sl_poolDigest (ns_state slot) \<and>
          certValid lib cfg k (sl_poolDigest (ns_state slot)) (pc_Certificate c)))) \<and>
     (ns_certReady slot \<longrightarrow> sl_certSeen (ns_state slot))"

definition slotLe :: "cvNetworkPoolSlotScalar \<Rightarrow> cvNetworkPoolSlotScalar \<Rightarrow> bool" where
  "slotLe a b \<longleftrightarrow> (sl_poolSeen (ns_state a) \<longrightarrow> sl_poolSeen (ns_state b) \<and> sl_poolDigest (ns_state b) = sl_poolDigest (ns_state a)) \<and>
     (ns_poolWire a \<noteq> [] \<longrightarrow> ns_poolWire b \<noteq> []) \<and> (sl_certSeen (ns_state a) \<longrightarrow> sl_certSeen (ns_state b))"

definition poolInv :: "bool \<Rightarrow> ('f, 'g, 'k) blsLib \<Rightarrow> ('f, 'k) poolConfig \<Rightarrow> poolSlots \<Rightarrow> bool" where
  "poolInv G lib cfg slots \<longleftrightarrow> (\<forall>k. slotInv G lib cfg k (poolSlotLocked slots k))"

definition slotsLe :: "poolSlots \<Rightarrow> poolSlots \<Rightarrow> bool" where
  "slotsLe slots slots' \<longleftrightarrow> (\<forall>k. slotLe (poolSlotLocked slots k) (poolSlotLocked slots' k))"

definition seen :: "poolSlots \<Rightarrow> int \<Rightarrow> bytes \<Rightarrow> bool" where
  "seen slots k d \<longleftrightarrow> sl_poolSeen (ns_state (poolSlotLocked slots k)) \<and> sl_poolDigest (ns_state (poolSlotLocked slots k)) = d"

definition hasWire :: "poolSlots \<Rightarrow> int \<Rightarrow> bool" where
  "hasWire slots k \<longleftrightarrow> ns_poolWire (poolSlotLocked slots k) \<noteq> []"

definition offered :: "bool \<Rightarrow> ('f, 'k) poolConfig \<Rightarrow> cvPoolScalar \<Rightarrow> bytes \<Rightarrow> bytes \<Rightarrow> bool" where
  "offered G cfg pool w statement \<longleftrightarrow> w \<noteq> [] \<and> (pl_ProposerID pool \<le> max_int \<or> pl_ProposerID pool = pf_LocalNode cfg) \<and>
     pl_ContextDigest pool = pf_ExpectedContext cfg \<and>
     cvPoolCertificateStatementScalar (pf_ExpectedContext cfg) (pl_ProposerID pool) (pl_Digest pool) = Ok statement \<and>
     (G \<longrightarrow> wireOf cfg (pl_ProposerID pool) (pl_Digest pool) w)"

definition goodPool :: "cvPoolScalar \<Rightarrow> bool" where
  "goodPool pool \<longleftrightarrow> (\<forall>ref \<in> set (pl_Components pool). goodRef ref) \<and> pl_ProposerID pool \<le> max_int \<and>
     (case poolUnsigned ''invalid CV V2 pool component order'' (pl_ContextDigest pool) (pl_ProposerID pool) (pl_Components pool) of
        Ok body \<Rightarrow> int (length body) \<le> cvMaxNetworkPayloadBytes | _ \<Rightarrow> True)"

fun taskOk :: "bool \<Rightarrow> ('f, 'g, 'k) blsLib \<Rightarrow> ('f, 'k) poolConfig \<Rightarrow> poolSlots \<Rightarrow> poolTask \<Rightarrow> bool" where
  "taskOk G lib cfg slots (OfferCommit pool w statement) \<longleftrightarrow> offered G cfg pool w statement"
| "taskOk G lib cfg slots (CertLookup sender c body) \<longleftrightarrow> cvDecodePoolCertificateScalar body = Ok c"
| "taskOk G lib cfg slots (CertCommit sender c body) \<longleftrightarrow> cvDecodePoolCertificateScalar body = Ok c \<and> seen slots sender (pc_PoolDigest c) \<and>
     hasWire slots sender \<and> (G \<longrightarrow> certValid lib cfg sender (pc_PoolDigest c) (pc_Certificate c))"
| "taskOk G lib cfg slots (CertifyBegin pool) \<longleftrightarrow> (G \<longrightarrow> goodPool pool)"
| "taskOk G lib cfg slots (CertifyLocked pool w statement) \<longleftrightarrow> offered G cfg pool w statement"
| "taskOk G lib cfg slots (CertifyWait pool w statement attempt) \<longleftrightarrow> pl_ContextDigest pool = pf_ExpectedContext cfg \<and>
     seen slots (pl_ProposerID pool) (pl_Digest pool) \<and> hasWire slots (pl_ProposerID pool)"
| "taskOk G lib cfg slots (CertifyRecover pool statement) \<longleftrightarrow> pl_ContextDigest pool = pf_ExpectedContext cfg \<and>
     seen slots (pl_ProposerID pool) (pl_Digest pool) \<and> hasWire slots (pl_ProposerID pool)"
| "taskOk G lib cfg slots (CertifyPublish pool c certWire) \<longleftrightarrow>
     seen slots (pl_ProposerID pool) (pc_PoolDigest c) \<and> hasWire slots (pl_ProposerID pool) \<and>
     cvDecodePoolCertificateScalar certWire = Ok (c\<lparr>pc_canonicalWire := certWire\<rparr>) \<and>
     certValid lib cfg (pl_ProposerID pool) (pc_PoolDigest c) (pc_Certificate c)"
| "taskOk G lib cfg slots (AwaitRead k) \<longleftrightarrow> sl_certSeen (ns_state (poolSlotLocked slots k))"
| "taskOk G lib cfg slots task \<longleftrightarrow> True"

text \<open>What a waiter gets: a certified pool with the digest of the slot, unless its proposer was not eligible or it was cancelled.\<close>

definition awaitOk :: "('f, 'g, 'k) blsLib \<Rightarrow> ('f, 'k) poolConfig \<Rightarrow> poolSlots \<Rightarrow> int \<Rightarrow> (cvPoolScalar \<times> cvPoolCertificateScalar) res \<Rightarrow> bool" where
  "awaitOk lib cfg slots k r \<longleftrightarrow> r = Err ''CV V2 pool proposer is not eligible'' \<or> r = Err ''context'' \<or>
     (\<exists>pool c. r = Ok (pool, c) \<and> pl_ProposerID pool = k \<and> pl_ContextDigest pool = pf_ExpectedContext cfg \<and> seen slots k (pl_Digest pool) \<and>
       cvVerifyPoolCertificateScalar lib pool c (Some (pf_controlSigner cfg)) = Ok ())"

fun outOk :: "bool \<Rightarrow> ('f, 'g, 'k) blsLib \<Rightarrow> ('f, 'k) poolConfig \<Rightarrow> poolSlots \<Rightarrow> poolOut \<Rightarrow> bool" where
  "outOk G lib cfg slots (PoolSigned k d statement) \<longleftrightarrow> seen slots k d \<and> (k \<le> max_int \<or> k = pf_LocalNode cfg) \<and>
     cvPoolCertificateStatementScalar (pf_ExpectedContext cfg) k d = Ok statement"
| "outOk G lib cfg slots (CertifyReturned (Ok c)) \<longleftrightarrow> (\<exists>k. seen slots k (pc_PoolDigest c) \<and> certValid lib cfg k (pc_PoolDigest c) (pc_Certificate c))"
| "outOk G lib cfg slots (AwaitReturned k r) \<longleftrightarrow>
     (G \<longrightarrow> cvScalarSignerHasRole (Some (pf_controlSigner cfg)) cvScalarRoleControl \<longrightarrow> awaitOk lib cfg slots k r)"
| "outOk G lib cfg slots x \<longleftrightarrow> True"

lemma seen_mono: "slotsLe s s' \<Longrightarrow> seen s k d \<Longrightarrow> seen s' k d"
  by (auto simp: slotsLe_def slotLe_def seen_def)

lemma hasWire_mono: "slotsLe s s' \<Longrightarrow> hasWire s k \<Longrightarrow> hasWire s' k"
  by (auto simp: slotsLe_def slotLe_def hasWire_def)

lemma certSeen_mono: "slotsLe s s' \<Longrightarrow> sl_certSeen (ns_state (poolSlotLocked s k)) \<Longrightarrow> sl_certSeen (ns_state (poolSlotLocked s' k))"
  by (auto simp: slotsLe_def slotLe_def)

lemma taskOk_mono: "slotsLe s s' \<Longrightarrow> taskOk G lib cfg s task \<Longrightarrow> taskOk G lib cfg s' task"
  using seen_mono hasWire_mono certSeen_mono by (cases task) (auto; blast)+

lemma outOk_mono: "slotsLe s s' \<Longrightarrow> outOk G lib cfg s x \<Longrightarrow> outOk G lib cfg s' x"
  using seen_mono by (cases "(G, lib, cfg, s, x)" rule: outOk.cases) (auto simp: awaitOk_def; blast)+

lemma slotLe_refl [simp]: "slotLe a a" and slotsLe_refl [simp]: "slotsLe s s"
  by (simp_all add: slotLe_def slotsLe_def)

definition effectOk :: "bool \<Rightarrow> ('f, 'g, 'k) blsLib \<Rightarrow> ('f, 'k) poolConfig \<Rightarrow> poolSlots \<Rightarrow> poolEffect \<Rightarrow> bool" where
  "effectOk G lib cfg slots eff \<longleftrightarrow> (case eff of (slots', tasks, out) \<Rightarrow>
     poolInv G lib cfg slots' \<and> slotsLe slots slots' \<and> (\<forall>t \<in> set tasks. taskOk G lib cfg slots' t) \<and> (\<forall>x \<in> set out. outOk G lib cfg slots' x))"

text \<open>One slot changes.\<close>

lemma effect_upd:
  assumes "poolInv G lib cfg slots" "slotInv G lib cfg k slot'" "slotLe (poolSlotLocked slots k) slot'"
    and "\<forall>t \<in> set tasks. taskOk G lib cfg (slots(k \<mapsto> slot')) t" "\<forall>x \<in> set out. outOk G lib cfg (slots(k \<mapsto> slot')) x"
  shows "effectOk G lib cfg slots (slots(k \<mapsto> slot'), tasks, out)"
  using assms by (auto simp: effectOk_def poolInv_def slotsLe_def)

lemma effect_same:
  assumes "poolInv G lib cfg slots" "\<forall>t \<in> set tasks. taskOk G lib cfg slots t" "\<forall>x \<in> set out. outOk G lib cfg slots x"
  shows "effectOk G lib cfg slots (slots, tasks, out)"
  using assms by (simp add: effectOk_def)

lemma poolInv_slot: "poolInv G lib cfg slots \<Longrightarrow> slotInv G lib cfg k (poolSlotLocked slots k)"
  by (simp add: poolInv_def)

lemma observePool_Ok:
  assumes "observePool st pool = Ok st'"
  shows "sl_poolSeen st'" "sl_poolDigest st' = pl_Digest pool" "sl_signed st' = sl_signed st" "sl_certSeen st' = sl_certSeen st"
    "sl_poolSeen st \<Longrightarrow> st' = st \<and> sl_poolDigest st = pl_Digest pool" "length (pl_Digest pool) = 32"
  using assms by (auto simp: observePool_def split: if_splits)

text \<open>Seeing a pool keeps the invariant.\<close>

lemma observe_slot:
  assumes inv: "slotInv G lib cfg k slot" and ob: "observePool (ns_state slot) pool = Ok st"
  shows "slotInv G lib cfg k (slot\<lparr>ns_state := st\<rparr>)" "slotLe slot (slot\<lparr>ns_state := st\<rparr>)"
proof -
  note o = observePool_Ok [OF ob]
  show "slotInv G lib cfg k (slot\<lparr>ns_state := st\<rparr>)"
  proof (cases "sl_poolSeen (ns_state slot)")
    case True
    then show ?thesis using inv o(5) by simp
  next
    case False
    then show ?thesis using inv o by (auto simp: slotInv_def)
  qed
  show "slotLe slot (slot\<lparr>ns_state := st\<rparr>)" using o by (auto simp: slotLe_def)
qed

section \<open>Every task keeps it\<close>

lemma slotLe_trans: "slotLe a b \<Longrightarrow> slotLe b c \<Longrightarrow> slotLe a c"
  by (auto simp: slotLe_def)

lemma offered_wire:
  assumes "offered G cfg pool w statement" "slotInv G lib cfg (pl_ProposerID pool) slot" "sl_poolSeen (ns_state slot)"
    "sl_poolDigest (ns_state slot) = pl_Digest pool" "sl_signed st' \<longrightarrow> sl_poolSeen st'" "sl_poolSeen st' = sl_poolSeen (ns_state slot)"
    "sl_poolDigest st' = sl_poolDigest (ns_state slot)" "sl_certSeen st' = sl_certSeen (ns_state slot)"
  shows "slotInv G lib cfg (pl_ProposerID pool) (slot\<lparr>ns_state := st', ns_poolWire := w\<rparr>)"
  using assms by (auto simp: slotInv_def offered_def)

text \<open>Fields that neither the invariant nor the order mentions.\<close>

lemma slot_frame [simp]:
  "slotInv G lib cfg k (slot\<lparr>ns_localShare := a\<rparr>) = slotInv G lib cfg k slot"
  "slotInv G lib cfg k (slot\<lparr>ns_localShareWire := a\<rparr>) = slotInv G lib cfg k slot"
  "slotInv G lib cfg k (slot\<lparr>ns_shares := l\<rparr>) = slotInv G lib cfg k slot"
  "slotInv G lib cfg k (slot\<lparr>ns_sharesReady := b\<rparr>) = slotInv G lib cfg k slot"
  "slotInv G lib cfg k (slot\<lparr>ns_certifying := b\<rparr>) = slotInv G lib cfg k slot"
  "slotLe slot' (slot\<lparr>ns_localShare := a\<rparr>) = slotLe slot' slot"
  "slotLe slot' (slot\<lparr>ns_localShareWire := a\<rparr>) = slotLe slot' slot"
  "slotLe slot' (slot\<lparr>ns_shares := l\<rparr>) = slotLe slot' slot"
  "slotLe slot' (slot\<lparr>ns_sharesReady := b\<rparr>) = slotLe slot' slot"
  "slotLe slot' (slot\<lparr>ns_certifying := b\<rparr>) = slotLe slot' slot"
  by (simp_all add: slotInv_def slotLe_def)

lemma offerShare_ok:
  assumes "poolInv G lib cfg slots" "slotInv G lib cfg (pl_ProposerID pool) slot" "slotLe (poolSlotLocked slots (pl_ProposerID pool)) slot"
    and "\<forall>x \<in> set out. outOk G lib cfg (slots(pl_ProposerID pool \<mapsto> slot)) x"
  shows "effectOk G lib cfg slots (offerShare slots pool slot deferred out)"
proof -
  have out: "\<forall>x \<in> set out. outOk G lib cfg (slots(pl_ProposerID pool \<mapsto> slot')) x" if "slotLe slot slot'" for slot'
  proof -
    have "slotsLe (slots(pl_ProposerID pool \<mapsto> slot)) (slots(pl_ProposerID pool \<mapsto> slot'))" using that by (simp add: slotsLe_def)
    then show ?thesis using assms(4) outOk_mono by blast
  qed
  show ?thesis
    unfolding offerShare_def Let_def using assms(1-3) out
    by (auto split: res.splits intro!: effect_upd)
qed

lemma markSigned_Ok:
  "markSigned st d = Ok st' \<Longrightarrow> sl_poolSeen st \<and> sl_poolDigest st = d \<and> st' = st\<lparr>sl_signed := True\<rparr>"
  by (auto simp: markSigned_def split: if_splits)

lemma signed_out:
  assumes "offered G cfg pool w statement" "sl_poolSeen (ns_state slot)" "sl_poolDigest (ns_state slot) = pl_Digest pool"
  shows "outOk G lib cfg (slots(pl_ProposerID pool \<mapsto> slot)) (PoolSigned (pl_ProposerID pool) (pl_Digest pool) statement)"
  using assms by (simp add: offered_def seen_def)

lemma offerCommit_ok:
  assumes inv: "poolInv G lib cfg slots" and off: "offered G cfg pool w statement"
  shows "effectOk G lib cfg slots (offerCommit lib cfg slots pool w statement)"
proof -
  define k where "k = pl_ProposerID pool"
  define slot where "slot = poolSlotLocked slots k"
  have si: "slotInv G lib cfg k slot" using inv by (simp add: slot_def poolInv_slot)
  show ?thesis
  proof (cases "observePool (ns_state slot) pool")
    case (Ok st)
    note o = observePool_Ok [OF Ok] and ob = observe_slot [OF si Ok]
    have seen: "sl_poolSeen (ns_state (slot\<lparr>ns_state := st\<rparr>))" "sl_poolDigest (ns_state (slot\<lparr>ns_state := st\<rparr>)) = pl_Digest pool"
      using o by simp_all
    have stop: "effectOk G lib cfg slots (slots(k \<mapsto> slot\<lparr>ns_state := st\<rparr>), [], out)"
      if "set out \<subseteq> {PoolSigned k (pl_Digest pool) statement}" for out
      using that inv ob signed_out [OF off seen] by (intro effect_upd) (auto simp: slot_def k_def)
    have go: "effectOk G lib cfg slots (offerShare slots pool (slot\<lparr>ns_state := st', ns_poolWire := w, ns_localShare := sh\<rparr>) deferred
        [PoolSigned k (pl_Digest pool) statement])" if "markSigned st (pl_Digest pool) = Ok st'" for st' sh deferred
    proof -
      note m = markSigned_Ok [OF that]
      have "slotInv G lib cfg k ((slot\<lparr>ns_state := st\<rparr>)\<lparr>ns_state := st', ns_poolWire := w\<rparr>)"
        using offered_wire [OF off ob(1) [unfolded k_def] seen, of st'] m by (simp add: k_def)
      moreover have "slotLe slot (slot\<lparr>ns_state := st', ns_poolWire := w\<rparr>)"
        using ob(2) m off by (auto simp: slotLe_def offered_def)
      ultimately show ?thesis
        using inv signed_out [OF off, of "slot\<lparr>ns_state := st', ns_poolWire := w, ns_localShare := sh\<rparr>"] m o
        by (intro offerShare_ok) (auto simp: k_def slot_def)
    qed
    have again: "effectOk G lib cfg slots (offerShare slots pool (slot\<lparr>ns_state := st\<rparr>) deferred [])" for deferred
      using inv ob by (intro offerShare_ok) (auto simp: k_def slot_def)
    show ?thesis
      unfolding offerCommit_def Let_def k_def [symmetric] slot_def [symmetric] Ok res.case
      using stop go again by (auto split: res.splits)
  next
    case (Err e)
    then show ?thesis using inv by (auto simp: offerCommit_def k_def slot_def Let_def intro!: effect_upd simp: poolInv_slot)
  next
    case Panic
    then show ?thesis using inv by (auto simp: offerCommit_def k_def slot_def Let_def intro!: effect_upd simp: poolInv_slot)
  qed
qed

lemma validated_pool:
  assumes v: "validatePool lib cfg rd pool = Ok w"
  shows "pl_ContextDigest pool = pf_ExpectedContext cfg" "cvPoolScalarCanonicalBytes pool (pf_Params cfg) = Ok w" "w \<noteq> []"
proof -
  show c: "pl_ContextDigest pool = pf_ExpectedContext cfg" "cvPoolScalarCanonicalBytes pool (pf_Params cfg) = Ok w"
    using v by (auto simp: validatePool_def split: if_splits)
  have "length (pl_Digest pool) = 32" "\<exists>b. w = cvWriteBytesIgnore (pl_Digest pool) b"
    using c(2) by (auto simp: cvPoolScalarCanonicalBytes_def Let_def split: if_splits)
  then show "w \<noteq> []" by (auto simp: lengthPrefixed_def)
qed

lemma offerValidate_ok: "\<forall>t \<in> set (offerValidate lib cfg rd sender body). taskOk G lib cfg slots t"
proof -
  have "offered G cfg pool w statement"
    if "cvDecodePoolScalar body (pf_Params cfg) = Ok pool" "validatePool lib cfg rd pool = Ok w"
      "cvPoolCertificateStatementScalar (pl_ContextDigest pool) (pl_ProposerID pool) (pl_Digest pool) = Ok statement" for pool w statement
  proof -
    note v = validated_pool [OF that(2)]
    have "cvPoolScalarCanonicalBytes pool (pf_Params cfg) = Ok body" "pl_ProposerID pool \<le> max_int" using decoded_pool [OF that(1)] by metis+
    then have "w = body" "pl_ProposerID pool \<le> max_int" using v(2) by simp_all
    then show ?thesis using that v by (auto simp: offered_def wireOf_def)
  qed
  then show ?thesis by (auto simp: offerValidate_def split: res.splits)
qed

lemma shareCommit_ok: "poolInv G lib cfg slots \<Longrightarrow> effectOk G lib cfg slots (shareCommit cfg slots sender shr, [], [])"
proof (cases "slots (ps_ProposerID shr)")
  case (Some slot)
  assume inv: "poolInv G lib cfg slots"
  have "poolSlotLocked slots (ps_ProposerID shr) = slot" using Some by (simp add: poolSlotLocked_def)
  then have "slotInv G lib cfg (ps_ProposerID shr) slot" using poolInv_slot [OF inv] by metis
  then show ?thesis
    using Some inv unfolding shareCommit_def Let_def
    by (auto intro!: effect_upd effect_same simp: poolSlotLocked_def)
qed (auto simp: shareCommit_def intro: effect_same)

lemma certLookup_ok:
  assumes inv: "poolInv G lib cfg slots" and dec: "cvDecodePoolCertificateScalar body = Ok certificate"
  shows "effectOk G lib cfg slots (certLookup lib cfg slots sender certificate body)"
proof -
  define slot where "slot = poolSlotLocked slots sender"
  have si: "slotInv G lib cfg sender slot" using poolInv_slot [OF inv] by (simp add: slot_def)
  have early: "effectOk G lib cfg slots (slots(sender \<mapsto> slot\<lparr>ns_certWire := body\<rparr>), [], [])" if "\<not> sl_poolSeen (ns_state slot)"
    using that si inv by (intro effect_upd) (auto simp: slotInv_def slotLe_def slot_def)
  have pend: "taskOk G lib cfg slots (CertCommit sender certificate body)"
    if "sl_poolSeen (ns_state slot)" "sl_poolDigest (ns_state slot) = pc_PoolDigest certificate"
      "cvDecodePoolScalar (ns_poolWire slot) (pf_Params cfg) = Ok pool" "pl_ProposerID pool = sender"
      "cvVerifyPoolCertificateScalar lib pool certificate (Some (pf_controlSigner cfg)) = Ok ()" for pool
  proof -
    have w: "ns_poolWire slot \<noteq> []" by (rule decoded_pool [OF that(3)]) simp
    have "certValid lib cfg sender (pc_PoolDigest certificate) (pc_Certificate certificate)" if G
    proof -
      have "wireOf cfg sender (pc_PoolDigest certificate) (ns_poolWire slot)" using si w \<open>G\<close> \<open>sl_poolDigest _ = _\<close> by (auto simp: slotInv_def)
      then have "pl_ContextDigest pool = pf_ExpectedContext cfg" using \<open>cvDecodePoolScalar _ _ = _\<close> by (auto simp: wireOf_def)
      then show ?thesis
        using \<open>cvVerifyPoolCertificateScalar _ _ _ _ = _\<close> \<open>pl_ProposerID pool = sender\<close>
        by (auto simp: cvVerifyPoolCertificateScalar_def certValid_def split: if_splits res.splits)
    qed
    then show ?thesis using that(1,2) w dec by (simp add: seen_def hasWire_def slot_def)
  qed
  show ?thesis
    unfolding certLookup_def Let_def slot_def [symmetric]
    using early pend inv by (auto split: res.splits intro!: effect_same simp: is_Ok_conv)
qed

lemma certified_slot:
  assumes si: "slotInv G lib cfg k slot" and ob: "observeCertificate (ns_state slot) certificate = Ok st" and w: "ns_poolWire slot \<noteq> []"
    and dec: "G \<longrightarrow> (\<exists>c. cvDecodePoolCertificateScalar body = Ok c \<and> pc_PoolDigest c = pc_PoolDigest certificate \<and>
      certValid lib cfg k (pc_PoolDigest certificate) (pc_Certificate c))"
  shows "slotInv G lib cfg k (slot\<lparr>ns_state := st, ns_certWire := body, ns_certReady := True\<rparr>)"
    "slotLe slot (slot\<lparr>ns_state := st, ns_certWire := body, ns_certReady := True\<rparr>)"
  using assms by (auto simp: slotInv_def slotLe_def observeCertificate_def split: if_splits)

lemma certCommit_ok:
  assumes inv: "poolInv G lib cfg slots" and ok: "taskOk G lib cfg slots (CertCommit sender certificate body)"
  shows "effectOk G lib cfg slots (certCommit slots sender certificate body, [], [])"
proof -
  define slot where "slot = poolSlotLocked slots sender"
  have si: "slotInv G lib cfg sender slot" using poolInv_slot [OF inv] by (simp add: slot_def)
  have "ns_poolWire slot \<noteq> []" using ok by (simp add: hasWire_def slot_def)
  moreover have "G \<longrightarrow> (\<exists>c. cvDecodePoolCertificateScalar body = Ok c \<and> pc_PoolDigest c = pc_PoolDigest certificate \<and>
      certValid lib cfg sender (pc_PoolDigest certificate) (pc_Certificate c))" using ok by simp
  ultimately show ?thesis
    using certified_slot [OF si] inv unfolding certCommit_def Let_def slot_def [symmetric]
    by (cases "observeCertificate (ns_state slot) certificate") (auto intro!: effect_upd effect_same simp: slot_def)
qed

lemma good_wire:
  assumes w: "cvPoolScalarCanonicalBytes pool (pf_Params cfg) = Ok w" and g: "goodPool pool" and c: "pl_ContextDigest pool = pf_ExpectedContext cfg"
  shows "wireOf cfg (pl_ProposerID pool) (pl_Digest pool) w"
proof -
  have "int (length body) \<le> cvMaxNetworkPayloadBytes"
    if "poolUnsigned ''invalid CV V2 pool component order'' (pl_ContextDigest pool) (pl_ProposerID pool) (pl_Components pool) = Ok body" for body
    using that g by (simp add: goodPool_def)
  then have "cvDecodePoolScalar w (pf_Params cfg) = Ok (pool\<lparr>pl_Components := map withMemo (pl_Components pool)\<rparr>)"
    using g by (intro pool_roundtrip [OF w]) (auto simp: goodPool_def)
  then show ?thesis using c by (simp add: wireOf_def)
qed

lemma certifyBegin_ok:
  assumes "G \<longrightarrow> goodPool pool"
  shows "\<forall>t \<in> set (fst (certifyBegin lib cfg rd pool)). taskOk G lib cfg slots t" "\<forall>x \<in> set (snd (certifyBegin lib cfg rd pool)). outOk G lib cfg slots x"
proof -
  have "offered G cfg pool w statement"
    if "validatePool lib cfg rd pool = Ok w" "pl_ProposerID pool = pf_LocalNode cfg"
      "cvPoolCertificateStatementScalar (pl_ContextDigest pool) (pl_ProposerID pool) (pl_Digest pool) = Ok statement" for w statement
  proof -
    note v = validated_pool [OF that(1)]
    have "wireOf cfg (pl_ProposerID pool) (pl_Digest pool) w" if G using good_wire [OF v(2)] assms that v(1) by blast
    then show ?thesis using that v by (simp add: offered_def)
  qed
  then show "\<forall>t \<in> set (fst (certifyBegin lib cfg rd pool)). taskOk G lib cfg slots t" "\<forall>x \<in> set (snd (certifyBegin lib cfg rd pool)). outOk G lib cfg slots x"
    by (auto simp: certifyBegin_def split: res.splits prod.splits)
qed

lemma certifyStart_ok:
  assumes inv: "poolInv G lib cfg slots" and off: "offered G cfg pool w statement" and si: "slotInv G lib cfg (pl_ProposerID pool) slot"
    and le: "slotLe (poolSlotLocked slots (pl_ProposerID pool)) slot"
    and seen: "sl_poolSeen (ns_state slot)" "sl_poolDigest (ns_state slot) = pl_Digest pool"
    and out: "set out \<subseteq> {PoolSigned (pl_ProposerID pool) (pl_Digest pool) statement}"
  shows "effectOk G lib cfg slots (certifyStart cfg slots pool w statement slot out)"
proof -
  let ?k = "pl_ProposerID pool"
  define s' where "s' = slot\<lparr>ns_poolWire := w, ns_certifying := True\<rparr>"
  have "slotInv G lib cfg ?k (slot\<lparr>ns_state := ns_state slot, ns_poolWire := w\<rparr>)"
    using si seen by (intro offered_wire [OF off si seen]) (auto simp: slotInv_def)
  then have i: "slotInv G lib cfg ?k s'" by (simp add: s'_def)
  have l: "slotLe (poolSlotLocked slots ?k) s'" using le off by (auto simp: s'_def slotLe_def offered_def)
  have t: "taskOk G lib cfg (slots(?k \<mapsto> x)) (CertifyWait pool w statement 0)" "outOk G lib cfg (slots(?k \<mapsto> x)) (PoolSigned ?k (pl_Digest pool) statement)"
    if "ns_state x = ns_state slot" "ns_poolWire x = w" for x
    using that seen off by (auto simp: seen_def hasWire_def offered_def)
  have e: "effectOk G lib cfg slots (slots(?k \<mapsto> x), [CertifyWait pool w statement 0, CertifyEnd ?k], out @ [PoolFanout ms tag w])"
    if "x = s' \<or> x = s'\<lparr>ns_sharesReady := True\<rparr>" for x ms tag
  proof -
    have x: "ns_state x = ns_state slot" "ns_poolWire x = w" using that by (auto simp: s'_def)
    show ?thesis
      using that i l out t [OF x] by (intro effect_upd [OF inv]) (auto simp del: outOk.simps(1) taskOk.simps(6))
  qed
  then show ?thesis by (simp add: certifyStart_def Let_def s'_def [symmetric])
qed

lemma certifyLocked_ok:
  assumes inv: "poolInv G lib cfg slots" and off: "offered G cfg pool w statement"
  shows "effectOk G lib cfg slots (certifyLocked lib cfg slots pool w statement)"
proof -
  define k where "k = pl_ProposerID pool"
  define slot where "slot = poolSlotLocked slots k"
  have si: "slotInv G lib cfg k slot" using inv by (simp add: slot_def poolInv_slot)
  show ?thesis
  proof (cases "observePool (ns_state slot) pool")
    case (Ok st)
    note o = observePool_Ok [OF Ok] and ob = observe_slot [OF si Ok]
    have seen: "sl_poolSeen (ns_state (slot\<lparr>ns_state := st\<rparr>))" "sl_poolDigest (ns_state (slot\<lparr>ns_state := st\<rparr>)) = pl_Digest pool"
      using o by simp_all
    have stop: "effectOk G lib cfg slots (slots(k \<mapsto> slot\<lparr>ns_state := st\<rparr>), [], out)"
      if "set out \<subseteq> {PoolSigned k (pl_Digest pool) statement, CertifyReturned r}" "\<not> is_Ok r" for out r
    proof (rule effect_upd [OF inv])
      have "outOk G lib cfg (slots(k \<mapsto> slot\<lparr>ns_state := st\<rparr>)) (CertifyReturned r)" using that(2) by (cases r) auto
      then show "\<forall>x \<in> set out. outOk G lib cfg (slots(k \<mapsto> slot\<lparr>ns_state := st\<rparr>)) x"
        using that(1) signed_out [OF off seen, folded k_def] by blast
    qed (use ob in \<open>simp_all add: slot_def\<close>)
    have go: "effectOk G lib cfg slots (certifyStart cfg slots pool w statement (slot\<lparr>ns_state := st', ns_localShare := sh, ns_shares := l\<rparr>)
        [PoolSigned k (pl_Digest pool) statement])" if "markSigned st (pl_Digest pool) = Ok st'" for st' sh l
    proof -
      note m = markSigned_Ok [OF that]
      have "slotInv G lib cfg k (slot\<lparr>ns_state := st'\<rparr>)" using ob(1) m by (simp add: slotInv_def)
      moreover have "slotLe slot (slot\<lparr>ns_state := st'\<rparr>)" using ob(2) m by (auto simp: slotLe_def)
      ultimately show ?thesis using m by (intro certifyStart_ok [OF inv off]) (auto simp: k_def slot_def)
    qed
    have again: "effectOk G lib cfg slots (certifyStart cfg slots pool w statement (slot\<lparr>ns_state := st\<rparr>) [])"
      using ob seen by (intro certifyStart_ok [OF inv off]) (auto simp: k_def slot_def)
    show ?thesis
      unfolding certifyLocked_def Let_def k_def [symmetric] slot_def [symmetric] Ok res.case
      using stop go again by (auto split: res.splits simp: is_Ok_conv)
  next
    case (Err e)
    then show ?thesis using inv by (auto simp: certifyLocked_def k_def slot_def Let_def intro!: effect_upd simp: poolInv_slot)
  next
    case Panic
    then show ?thesis using inv by (auto simp: certifyLocked_def k_def slot_def Let_def intro!: effect_upd simp: poolInv_slot)
  qed
qed

lemma certifyWait_ok:
  assumes inv: "poolInv G lib cfg slots" and ok: "taskOk G lib cfg slots (CertifyWait pool w statement attempt)"
  shows "effectOk G lib cfg slots (certifyWait cfg choice slots pool w statement attempt)"
proof (cases choice)
  case WaitReady
  have "slotInv G lib cfg (pl_ProposerID pool) (poolSlotLocked slots (pl_ProposerID pool))" by (rule poolInv_slot [OF inv])
  then show ?thesis
    using WaitReady inv ok by (auto simp: certifyWait_def Let_def seen_def hasWire_def intro!: effect_upd effect_same)
qed (use inv ok in \<open>auto simp: certifyWait_def Let_def intro!: effect_same\<close>)

lemma fresh_certificate:
  assumes "cvPoolCertificateScalarCanonicalBytes c = Ok w" "pc_canonicalWire c = []"
  shows "cvDecodePoolCertificateScalar w = Ok (c\<lparr>pc_canonicalWire := w\<rparr>)"
proof -
  have shape: "length (pc_PoolDigest c) = 32" "pc_Certificate c \<noteq> []" "int (length (pc_Certificate c)) \<le> cvMaxComponentSignatureBytes"
    using assms by (auto simp: cvPoolCertificateScalarCanonicalBytes_def split: if_splits)
  then have small: "length (pc_Certificate c) < 2 ^ 32" by (simp add: cvMaxComponentSignatureBytes_def)
  have w: "w = lengthPrefixed (bytes_of cvPoolCertScalarDomain) @ lengthPrefixed (pc_PoolDigest c) @ lengthPrefixed (pc_Certificate c)"
    using assms shape small by (auto simp: cvPoolCertificateScalarCanonicalBytes_def split: if_splits)
  have c: "c\<lparr>pc_canonicalWire := []\<rparr> = c" using assms(2) by (cases c) simp
  show ?thesis
    using shape small assms c unfolding cvDecodePoolCertificateScalar_def
    by (cases c) (simp add: w cv_get_put cv_bytes_end Let_def del: bindR_eq_Ok)
qed

lemma certifyRecover_ok:
  assumes inv: "poolInv G lib cfg slots" and ok: "taskOk G lib cfg slots (CertifyRecover pool statement)"
  shows "effectOk G lib cfg slots (certifyRecover lib cfg slots pool statement)"
proof -
  have "taskOk G lib cfg slots (CertifyPublish pool c certWire)"
    if "c = \<lparr>pc_PoolDigest = pl_Digest pool, pc_Certificate = recovered, pc_canonicalWire = []\<rparr>"
      "cvVerifyPoolCertificateScalar lib pool c (Some (pf_controlSigner cfg)) = Ok ()" "cvPoolCertificateScalarCanonicalBytes c = Ok certWire"
    for c recovered certWire
  proof -
    have "certValid lib cfg (pl_ProposerID pool) (pl_Digest pool) (pc_Certificate c)"
      using that(2) ok by (auto simp: cvVerifyPoolCertificateScalar_def certValid_def split: if_splits res.splits)
    then show ?thesis using that ok fresh_certificate [OF that(3)] by simp
  qed
  then show ?thesis
    using inv unfolding certifyRecover_def Let_def
    by (auto split: res.splits intro!: effect_same simp del: taskOk.simps(8))
qed

lemma certifyPublish_ok:
  assumes inv: "poolInv G lib cfg slots" and ok: "taskOk G lib cfg slots (CertifyPublish pool c certWire)"
  shows "effectOk G lib cfg slots (certifyPublish cfg slots pool c certWire)"
proof -
  define k where "k = pl_ProposerID pool"
  define slot where "slot = poolSlotLocked slots k"
  have si: "slotInv G lib cfg k slot" using poolInv_slot [OF inv] by (simp add: slot_def)
  have w: "ns_poolWire slot \<noteq> []" using ok by (simp add: hasWire_def slot_def k_def)
  have dec: "G \<longrightarrow> (\<exists>c'. cvDecodePoolCertificateScalar certWire = Ok c' \<and> pc_PoolDigest c' = pc_PoolDigest c \<and>
      certValid lib cfg k (pc_PoolDigest c) (pc_Certificate c'))" using ok by (simp add: k_def)
  show ?thesis
  proof (cases "observeCertificate (ns_state slot) c")
    case (Ok st)
    let ?slot = "slot\<lparr>ns_state := st, ns_certWire := certWire, ns_certReady := True\<rparr>"
    have "seen (slots(k \<mapsto> ?slot)) k (pc_PoolDigest c)"
      using Ok by (auto simp: seen_def observeCertificate_def split: if_splits)
    then have out: "outOk G lib cfg (slots(k \<mapsto> ?slot)) (CertifyReturned (Ok c))" using ok by (auto simp: k_def)
    show ?thesis
      using certified_slot [OF si Ok w dec] out Ok unfolding certifyPublish_def Let_def k_def [symmetric] slot_def [symmetric]
      by (auto intro!: effect_upd [OF inv] simp: slot_def simp del: outOk.simps(2))
  qed (use inv in \<open>auto simp: certifyPublish_def Let_def k_def slot_def intro!: effect_same\<close>)
qed

lemma slot_available:
  assumes si: "slotInv True lib cfg k (poolSlotLocked slots k)" and seen: "sl_certSeen (ns_state (poolSlotLocked slots k))"
    and role: "cvScalarSignerHasRole (Some (pf_controlSigner cfg)) cvScalarRoleControl"
  shows "\<exists>pool c. awaitCertified lib cfg slots k = Ok (pool, c) \<and> pl_ProposerID pool = k \<and> pl_ContextDigest pool = pf_ExpectedContext cfg \<and>
    pl_Digest pool = sl_poolDigest (ns_state (poolSlotLocked slots k)) \<and>
    cvVerifyPoolCertificateScalar lib pool c (Some (pf_controlSigner cfg)) = Ok ()"
proof -
  let ?slot = "poolSlotLocked slots k"
  obtain pool where p: "cvDecodePoolScalar (ns_poolWire ?slot) (pf_Params cfg) = Ok pool" "pl_Digest pool = sl_poolDigest (ns_state ?slot)"
    "pl_ContextDigest pool = pf_ExpectedContext cfg" "pl_ProposerID pool = k"
    using si seen by (auto simp: slotInv_def wireOf_def)
  obtain c where c: "cvDecodePoolCertificateScalar (ns_certWire ?slot) = Ok c" "pc_PoolDigest c = sl_poolDigest (ns_state ?slot)"
    "certValid lib cfg k (sl_poolDigest (ns_state ?slot)) (pc_Certificate c)"
    using si seen by (auto simp: slotInv_def)
  have v: "cvVerifyPoolCertificateScalar lib pool c (Some (pf_controlSigner cfg)) = Ok ()"
    using p c role by (auto simp: cvVerifyPoolCertificateScalar_def certValid_def)
  have "awaitCertified lib cfg slots k = Ok (pool, c)"
    using p c v by (simp add: awaitCertified_def Let_def del: bindR_eq_Ok)
  then show ?thesis using p v by blast
qed

lemma awaitBegin_ok: "poolInv G lib cfg slots \<Longrightarrow> effectOk G lib cfg slots (awaitBegin rd slots k)"
  by (auto simp: awaitBegin_def Let_def awaitOk_def poolInv_slot intro!: effect_same effect_upd)

lemma awaitWait_ok:
  assumes inv: "poolInv G lib cfg slots"
  shows "effectOk G lib cfg slots (awaitWait choice slots k)"
proof -
  have si: "slotInv G lib cfg k (poolSlotLocked slots k)" by (rule poolInv_slot [OF inv])
  then have "slotInv G lib cfg k ((poolSlotLocked slots k)\<lparr>ns_certReady := False\<rparr>)" by (simp add: slotInv_def)
  then show ?thesis
    using inv si by (cases choice) (auto simp: awaitWait_def Let_def awaitOk_def slotInv_def slotLe_def intro!: effect_same effect_upd)
qed

lemma awaitRead_ok:
  assumes inv: "poolInv G lib cfg slots" and ok: "sl_certSeen (ns_state (poolSlotLocked slots k))"
  shows "effectOk G lib cfg slots (slots, [], [AwaitReturned k (awaitCertified lib cfg slots k)])"
proof -
  have "awaitOk lib cfg slots k (awaitCertified lib cfg slots k)" if G "cvScalarSignerHasRole (Some (pf_controlSigner cfg)) cvScalarRoleControl"
  proof -
    have si: "slotInv True lib cfg k (poolSlotLocked slots k)" using poolInv_slot [OF inv] that(1) by simp
    then have "sl_poolSeen (ns_state (poolSlotLocked slots k))" using ok by (auto simp: slotInv_def)
    then show ?thesis using slot_available [OF si ok that(2)] by (auto simp: awaitOk_def seen_def)
  qed
  then show ?thesis using inv by (intro effect_same) auto
qed

lemma poolExec_ok:
  assumes inv: "poolInv G lib cfg slots" and ok: "taskOk G lib cfg slots task"
  shows "effectOk G lib cfg slots (poolExec lib cfg rd choice slots task)"
proof (cases task)
  case (OfferBegin sender body)
  then show ?thesis using inv by (auto simp: offerBegin_def split: option.splits intro!: effect_same)
next
  case (CertBegin sender body)
  then show ?thesis using inv by (auto simp: certBegin_def split: option.splits res.splits intro!: effect_same)
next
  case (ShareBegin sender body)
  then show ?thesis using inv by (auto simp: shareBegin_def split: option.splits res.splits intro!: effect_same)
next
  case (CertifyEnd k)
  have "slotInv G lib cfg k (poolSlotLocked slots k)" by (rule poolInv_slot [OF inv])
  then show ?thesis
    using CertifyEnd inv by (auto simp: poolSlotLocked_def split: option.splits intro!: effect_same effect_upd)
next
  case (CertifyBegin pool)
  then have "G \<longrightarrow> goodPool pool" using ok by simp
  then show ?thesis unfolding CertifyBegin poolExec.simps by (intro effect_same [OF inv] certifyBegin_ok)
next
  case (OfferValidate sender body)
  then show ?thesis unfolding OfferValidate poolExec.simps by (intro effect_same [OF inv] offerValidate_ok) simp
qed (use inv ok in \<open>auto simp del: taskOk.simps(3,6-8) intro: awaitBegin_ok awaitWait_ok awaitRead_ok offerCommit_ok shareCommit_ok certLookup_ok certCommit_ok certifyLocked_ok certifyWait_ok
      certifyRecover_ok certifyPublish_ok effect_same\<close>)

text \<open>The pool machine under the rely-guarantee rule.\<close>

interpretation pool_rg: rely_guarantee "\<lambda>(rd, choice). poolExec lib cfg rd choice" firstTask "poolInv G lib cfg" slotsLe "taskOk G lib cfg"
    "outOk G lib cfg" "\<lambda>call. case call of PoolCertify pool \<Rightarrow> G \<longrightarrow> goodPool pool | _ \<Rightarrow> True"
  for G :: bool and lib :: "('f :: field, 'g :: ab_group_add, 'k) blsLib" and cfg :: "('f, 'k) poolConfig"
proof
  fix s task and r :: "poolReads \<times> waitChoice" and s' tasks out
  assume "poolInv G lib cfg s" "taskOk G lib cfg s task" "(case r of (rd, choice) \<Rightarrow> poolExec lib cfg rd choice) s task = (s', tasks, out)"
  then show "poolInv G lib cfg s' \<and> slotsLe s s' \<and> (\<forall>t \<in> set tasks. taskOk G lib cfg s' t) \<and> (\<forall>x \<in> set out. outOk G lib cfg s' x)"
    using poolExec_ok [of G lib cfg s task "fst r" "snd r"] by (simp add: effectOk_def split_beta)
next
  fix s call
  assume "case call of PoolCertify pool \<Rightarrow> G \<longrightarrow> goodPool pool | _ \<Rightarrow> True"
  then show "taskOk G lib cfg s (firstTask call)" by (cases call) auto
qed (auto intro: taskOk_mono outOk_mono)

lemma poolInv_empty: "poolInv G lib cfg Map.empty"
  by (simp add: poolInv_def slotInv_def poolSlotLocked_def emptySlot_def)

lemma pool_run_sound:
  assumes "\<And>pool. Start (PoolCertify pool) \<in> set evs \<Longrightarrow> G \<longrightarrow> goodPool pool"
  shows "machineSound (poolInv G lib cfg) (taskOk G lib cfg) (outOk G lib cfg) (poolRun lib cfg evs)"
  unfolding poolRun_def using assms poolInv_empty
  by (intro pool_rg.run_sound pool_rg.idle_sound) (auto split: poolCall.splits)

section \<open>Certified pools are available\<close>

text \<open>C7. A certified pool is there for whoever waits for it. In every interleaving of offers, shares, certificates, waiters and
  own certifications, with any peers: once the slot of a proposer shows a certificate or wakes its waiters, reading the slot
  returns a pool of that proposer for the expected context, with the slot's digest, and a certificate that verifies for it; and a
  waiter whose proposer is eligible and which is not cancelled never returns anything else.\<close>

theorem pool_certified_available:
  assumes "\<And>pool. Start (PoolCertify pool) \<in> set evs \<Longrightarrow> goodPool pool"
    and "cvScalarSignerHasRole (Some (pf_controlSigner cfg)) cvScalarRoleControl"
    and "m = poolRun lib cfg evs" "slot = poolSlotLocked (mc_state m) k"
  shows "(sl_certSeen (ns_state slot) \<or> ns_certReady slot \<longrightarrow>
      (\<exists>pool c. awaitCertified lib cfg (mc_state m) k = Ok (pool, c) \<and> pl_ProposerID pool = k \<and>
        pl_ContextDigest pool = pf_ExpectedContext cfg \<and> pl_Digest pool = sl_poolDigest (ns_state slot) \<and>
        cvVerifyPoolCertificateScalar lib pool c (Some (pf_controlSigner cfg)) = Ok ())) \<and>
    (AwaitReturned k r \<in> set (mc_out m) \<longrightarrow> awaitOk lib cfg (mc_state m) k r)"
proof -
  have sound: "machineSound (poolInv True lib cfg) (taskOk True lib cfg) (outOk True lib cfg) m"
    unfolding assms(3) using assms(1) by (intro pool_run_sound) simp
  then have si: "slotInv True lib cfg k slot" using assms(4) by (simp add: machineSound_def poolInv_def)
  have "awaitOk lib cfg (mc_state m) k r" if "AwaitReturned k r \<in> set (mc_out m)"
    using sound that assms(2) by (fastforce simp: machineSound_def)
  moreover have "sl_certSeen (ns_state slot)" if "sl_certSeen (ns_state slot) \<or> ns_certReady slot"
    using si that by (auto simp: slotInv_def)
  ultimately show ?thesis using slot_available [of lib cfg k "mc_state m"] si assms(2,4) by blast
qed

section \<open>One certified pool per proposer\<close>

definition poolSigned :: "poolOut list \<Rightarrow> (int \<times> bytes) set" where
  "poolSigned out = {(k, d). \<exists>statement. PoolSigned k d statement \<in> set out}"

lemma signs_one_pool:
  assumes "(k, d) \<in> poolSigned (mc_out (poolRun lib cfg evs))" "(k, d') \<in> poolSigned (mc_out (poolRun lib cfg evs))"
  shows "d = d'"
proof -
  have "machineSound (poolInv False lib cfg) (taskOk False lib cfg) (outOk False lib cfg) (poolRun lib cfg evs)"
    by (intro pool_run_sound) simp
  then have "seen (mc_state (poolRun lib cfg evs)) k d" "seen (mc_state (poolRun lib cfg evs)) k d'"
    using assms by (fastforce simp: machineSound_def poolSigned_def)+
  then show ?thesis by (simp add: seen_def)
qed

lemma signed_bound:
  assumes "(k, d) \<in> poolSigned (mc_out (poolRun lib cfg evs))" "pf_LocalNode cfg \<le> max_int"
  shows "k \<le> max_int" "\<exists>st. cvPoolCertificateStatementScalar (pf_ExpectedContext cfg) k d = Ok st"
proof -
  have "machineSound (poolInv False lib cfg) (taskOk False lib cfg) (outOk False lib cfg) (poolRun lib cfg evs)"
    by (intro pool_run_sound) simp
  then show "k \<le> max_int" "\<exists>st. cvPoolCertificateStatementScalar (pf_ExpectedContext cfg) k d = Ok st"
    using assms by (fastforce simp: machineSound_def poolSigned_def)+
qed

text \<open>The message the control signer signs for a statement, and the strings hashed on the way to it.\<close>

definition certMessage :: "bytes \<Rightarrow> bytes" where
  "certMessage statement = cv_domainDigest cvPoolCertScalarDomain statement"

definition certStrings :: "bytes \<Rightarrow> int \<Rightarrow> bytes \<Rightarrow> bytes set" where
  "certStrings ctx k d =
    (let wire = lengthPrefixed ctx @ put64 (word_of_int k) @ lengthPrefixed d in
     {concat [bytes_of cvPoolCertScalarDomain, wire],
      concat [bytes_of ''rladkr-domain'', bytes_of (map cvUpperChar cvPoolCertScalarDomain), cv_hashBytes [bytes_of cvPoolCertScalarDomain, wire]]})"

lemma statement_eq:
  assumes "cvPoolCertificateStatementScalar ctx k d = Ok st"
  shows "st = cv_hashBytes [bytes_of cvPoolCertScalarDomain, lengthPrefixed ctx @ put64 (word_of_int k) @ lengthPrefixed d]"
    "0 \<le> k" "length d = 32" "length ctx = 32"
  using assms by (auto simp: cvPoolCertificateStatementScalar_def cvWriteUint64_def split: if_splits)

lemma message_binds:
  assumes st: "cvPoolCertificateStatementScalar ctx k d = Ok st" "cvPoolCertificateStatementScalar ctx k' d' = Ok st'"
    and msg: "certMessage st = certMessage st'" and b: "k \<le> max_int" "k' \<le> max_int"
    and nc: "\<And>x y. x \<in> certStrings ctx k d \<Longrightarrow> y \<in> certStrings ctx k' d' \<Longrightarrow> \<not> collision x y"
  shows "k = k' \<and> d = d'"
proof -
  note a = statement_eq [OF st(1)] and c = statement_eq [OF st(2)]
  have n: "\<not> collision (concat [bytes_of ''rladkr-domain'', bytes_of (map cvUpperChar cvPoolCertScalarDomain), st])
      (concat [bytes_of ''rladkr-domain'', bytes_of (map cvUpperChar cvPoolCertScalarDomain), st'])"
    "\<not> collision (concat [bytes_of cvPoolCertScalarDomain, lengthPrefixed ctx @ put64 (word_of_int k) @ lengthPrefixed d])
      (concat [bytes_of cvPoolCertScalarDomain, lengthPrefixed ctx @ put64 (word_of_int k') @ lengthPrefixed d'])"
    by (rule nc; simp add: certStrings_def Let_def a(1) c(1))+
  have "st = st'" using msg n(1) unfolding certMessage_def cv_domainDigest_def cv_hashBytes_def collision_def by simp
  then have "lengthPrefixed ctx @ put64 (word_of_int k) @ lengthPrefixed d = lengthPrefixed ctx @ put64 (word_of_int k') @ lengthPrefixed d'"
    using n(2) unfolding a(1) c(1) cv_hashBytes_def collision_def by simp
  then have "(word_of_int k :: 64 word) = word_of_int k'" "d = d'"
    using a(3) c(3) by (simp_all add: put64_append_eq lengthPrefixed_inj)
  then show ?thesis using uint_dealer [OF a(2) b(1)] uint_dealer [OF c(2) b(2)] by metis
qed

text \<open>What threshold signatures promise: when a pool certificate verifies, as many members as the threshold exist of whom every
  correct one signed the message that is signed for it.\<close>

definition poolUnforgeable :: "('f, 'g, 'k) blsLib \<Rightarrow> ('f, 'k) tblsThresholdSigner \<Rightarrow> bytes \<Rightarrow> int set \<Rightarrow> (int \<Rightarrow> (int \<times> bytes) set) \<Rightarrow> bool" where
  "poolUnforgeable lib s ctx faulty signedBy \<longleftrightarrow>
     (\<forall>k d st certificate. cvPoolCertificateStatementScalar ctx k d = Ok st \<longrightarrow> VerifyRecovered lib s cvPoolCertScalarDomain st certificate \<longrightarrow>
        (\<exists>Q. Q \<subseteq> set (th_memberOrder s) \<and> th_t s \<le> int (card Q) \<and>
           (\<forall>p \<in> Q - faulty. \<exists>k' d' st'. (k', d') \<in> signedBy p \<and> cvPoolCertificateStatementScalar ctx k' d' = Ok st' \<and>
              certMessage st' = certMessage st)))"

definition certificationStrings :: "bytes \<Rightarrow> cvPoolScalar \<Rightarrow> cvPoolScalar \<Rightarrow> (int \<times> bytes) set \<Rightarrow> bytes set" where
  "certificationStrings ctx pool pool' pairs =
     poolStrings pool \<union> poolStrings pool' \<union> certStrings ctx (pl_ProposerID pool) (pl_Digest pool) \<union>
     certStrings ctx (pl_ProposerID pool') (pl_Digest pool') \<union> (\<Union>(k, d) \<in> pairs. certStrings ctx k d)"

text \<open>The correct members of the quorum behind a certificate signed exactly this proposer and digest.\<close>

lemma certified_quorum:
  assumes sigs: "poolUnforgeable lib s ctx faulty (\<lambda>p. poolSigned (mc_out (poolRun lib (cfg p) (evs p))))"
    and nodes: "\<And>p. pf_LocalNode (cfg p) \<le> max_int"
    and cert: "cvVerifyPoolCertificateScalar lib pool c (Some s) = Ok ()" "pl_ContextDigest pool = ctx" "pl_ProposerID pool = k" "k \<le> max_int"
    and nc: "\<And>p k' d' x y. (k', d') \<in> poolSigned (mc_out (poolRun lib (cfg p) (evs p))) \<Longrightarrow> x \<in> certStrings ctx k' d' \<Longrightarrow>
      y \<in> certStrings ctx k (pl_Digest pool) \<Longrightarrow> \<not> collision x y"
  obtains Q where "Q \<subseteq> set (th_memberOrder s)" "th_t s \<le> int (card Q)"
    "\<And>p. p \<in> Q \<Longrightarrow> p \<notin> faulty \<Longrightarrow> (k, pl_Digest pool) \<in> poolSigned (mc_out (poolRun lib (cfg p) (evs p)))"
proof -
  let ?signed = "\<lambda>p. poolSigned (mc_out (poolRun lib (cfg p) (evs p)))"
  obtain st where st: "cvPoolCertificateStatementScalar ctx k (pl_Digest pool) = Ok st"
    "VerifyRecovered lib s cvPoolCertScalarDomain st (pc_Certificate c)"
    using cert(1-3) by (auto simp: cvVerifyPoolCertificateScalar_def split: if_splits res.splits)
  obtain Q where Q: "Q \<subseteq> set (th_memberOrder s)" "th_t s \<le> int (card Q)"
    "\<forall>p \<in> Q - faulty. \<exists>k' d' st'. (k', d') \<in> ?signed p \<and> cvPoolCertificateStatementScalar ctx k' d' = Ok st' \<and> certMessage st' = certMessage st"
    using sigs [unfolded poolUnforgeable_def, THEN spec, THEN spec, THEN spec, THEN spec, THEN mp, OF st(1), THEN mp, OF st(2)] by blast
  have "(k, pl_Digest pool) \<in> ?signed p" if p: "p \<in> Q" "p \<notin> faulty" for p
  proof -
    obtain k' d' st' where s': "(k', d') \<in> ?signed p" "cvPoolCertificateStatementScalar ctx k' d' = Ok st'" "certMessage st' = certMessage st"
      using Q(3) p by blast
    have "k' = k \<and> d' = pl_Digest pool"
      using message_binds [OF s'(2) st(1) s'(3) signed_bound(1) [OF s'(1) nodes] cert(4)] nc [OF s'(1)] by blast
    then show ?thesis using s'(1) by simp
  qed
  then show thesis using that Q(1,2) by blast
qed

text \<open>C6. One certified pool per proposer. Let the thresholds be derived from the configuration, let the control signer be one of
  the old committee with the decision threshold, and let at most as many members be faulty as the configuration
  allows. The correct ones run the pool machine, in any interleaving and with any messages. Then two pools of one
  proposer whose certificates verify are the same pool, components and all, or two of the strings that were hashed collide.\<close>

theorem pool_certificate_unique:
  assumes params: "cvDeriveScalarParams getenv modulus conf = Ok params" "length (c_OldCommittee conf) \<le> 2 ^ 60"
      "length (c_NewCommittee conf) \<le> 2 ^ 60" "c_NewFaults conf \<le> max_int" "c_FNew conf \<le> max_int"
    and signer: "th_memberOrder s = sortedUnique (c_OldCommittee conf)" "th_t s = sp_decisionThreshold params"
    and faults: "finite faulty" "int (card faulty) \<le> sp_oldFaults params"
    and nodes: "\<And>p. pf_ExpectedContext (cfg p) = ctx" "\<And>p. pf_LocalNode (cfg p) \<le> max_int"
    and sigs: "poolUnforgeable lib s ctx faulty (\<lambda>p. poolSigned (mc_out (poolRun lib (cfg p) (evs p))))"
    and pools: "cvDecodePoolScalar wire params = Ok pool" "cvDecodePoolScalar wire' params = Ok pool'"
      "pl_ContextDigest pool = ctx" "pl_ContextDigest pool' = ctx" "pl_ProposerID pool = pl_ProposerID pool'"
    and certs: "cvVerifyPoolCertificateScalar lib pool c (Some s) = Ok ()" "cvVerifyPoolCertificateScalar lib pool' c' (Some s) = Ok ()"
  shows "pool = pool' \<or>
    (\<exists>x y. {x, y} \<subseteq> certificationStrings ctx pool pool' (\<Union>p. poolSigned (mc_out (poolRun lib (cfg p) (evs p)))) \<and> collision x y)"
proof (rule disjCI)
  let ?signed = "\<lambda>p. poolSigned (mc_out (poolRun lib (cfg p) (evs p)))"
  let ?X = "certificationStrings ctx pool pool' (\<Union>p. ?signed p)"
  assume "\<not> (\<exists>x y. {x, y} \<subseteq> ?X \<and> collision x y)"
  then have nc: "\<not> collision x y" if "x \<in> ?X" "y \<in> ?X" for x y using that by blast
  define k where "k = pl_ProposerID pool"
  have kb: "k \<le> max_int" using pools(1) by (rule decoded_pool) (simp add: k_def)
  have strings: "certStrings ctx k (pl_Digest pool) \<subseteq> ?X" "certStrings ctx k (pl_Digest pool') \<subseteq> ?X"
    "\<And>p k' d'. (k', d') \<in> ?signed p \<Longrightarrow> certStrings ctx k' d' \<subseteq> ?X"
    using pools(5) by (auto simp: certificationStrings_def k_def)
  have nc': "\<not> collision x y" if "(k', d') \<in> ?signed p" "x \<in> certStrings ctx k' d'" "y \<in> certStrings ctx k D"
      "certStrings ctx k D \<subseteq> ?X" for p k' d' x y D
    using that strings(3) nc by blast
  have k': "pl_ProposerID pool = k" "pl_ProposerID pool' = k" using pools(5) by (simp_all add: k_def)
  obtain Q where Q: "Q \<subseteq> set (th_memberOrder s)" "th_t s \<le> int (card Q)" "\<And>p. p \<in> Q \<Longrightarrow> p \<notin> faulty \<Longrightarrow> (k, pl_Digest pool) \<in> ?signed p"
    by (rule certified_quorum [OF sigs nodes(2) certs(1) pools(3) k'(1) kb nc'])
      (assumption | rule strings(1) | blast)+
  obtain R where R: "R \<subseteq> set (th_memberOrder s)" "th_t s \<le> int (card R)" "\<And>p. p \<in> R \<Longrightarrow> p \<notin> faulty \<Longrightarrow> (k, pl_Digest pool') \<in> ?signed p"
    by (rule certified_quorum [OF sigs nodes(2) certs(2) pools(4) k'(2) kb nc'])
      (assumption | rule strings(2) | blast)+
  obtain p where p: "p \<in> Q" "p \<in> R" "p \<notin> faulty"
  proof (rule quorum_honest_Int [of "set (th_memberOrder s)" Q R faulty])
    note t = derived_thresholds_lemma [OF params refl refl refl refl]
    have "card (set (th_memberOrder s)) = length (c_OldCommittee conf)"
      unfolding signer(1) using t distinct_card [of "c_OldCommittee conf"] by simp
    then show "card (set (th_memberOrder s)) + card faulty < card Q + card R"
      using Q(2) R(2) signer(2) faults(2) t by linarith
  qed (use Q R faults in auto)
  then have "pl_Digest pool = pl_Digest pool'" using signs_one_pool [OF Q(3) R(3)] by blast
  then show "pool = pool'"
    using pool_digest_binds [OF pools(1,2)] nc by (force simp: certificationStrings_def)
qed

section \<open>A committee of one\<close>

definition oneNode :: Config_core where
  "oneNode = hugeFaults\<lparr>c_FOld := 0, c_OldFaults := 0\<rparr>"

definition oneParams :: cvScalarParams where
  "oneParams = (case cvDeriveScalarParams (\<lambda>_. []) 1000000 oneNode of Ok p \<Rightarrow> p)"

lemma oneParams:
  "cvDeriveScalarParams (\<lambda>_. []) 1000000 oneNode = Ok oneParams" "sp_poolSize oneParams = 1" "sp_decisionThreshold oneParams = 1"
  "sp_oldFaults oneParams = 0"
proof -
  let ?c = "NormalizeConfig (\<lambda>_. []) oneNode"
  have v: "ValidateConfig (\<lambda>_. []) ?c = Ok ()" by code_simp
  have f: "c_OldCommittee ?c = [0]" "c_NewCommittee ?c = [0]" "c_OldFaults ?c = 0" "c_NewFaults ?c = 0"
    "c_CVProposerSampleSize ?c = 1" "c_CVValidatorSampleSize ?c = 1" "c_CVSamplingFailureTarget ?c = ''smoke''"
    by code_simp+
  have s: "sampleChoice 1 0 ''smoke'' 1 1 = Ok (''smoke'', ''smoke'', ''explicit-smoke'', None, 1, 1)"
  proof -
    have "map lowerChar (trimSpace ''smoke'') = ''smoke''" by code_simp
    then show ?thesis by (simp add: sampleChoice_def Let_def)
  qed
  have w: "int64 1 = 1" "int64 0 = 0" by (simp_all add: max_int_def)
  have "\<exists>x. cvProfile 1000000 8 1 = Ok x" by (simp add: cvProfile_def cvMaxChunkBits_def cvMaxDLogBound_def)
  moreover have "\<exists>b. cvScalarProposerFailureBound 1 0 1 = Ok b" by (simp add: cvScalarProposerFailureBound_def)
  moreover have "\<exists>x y z. cvScalarValidatorFailureBounds 1 0 1 1 = Ok (x, y, z)"
    by (simp add: cvScalarValidatorFailureBounds_def cvScalarHypergeometricFaultTail_def Let_def)
  ultimately have "\<exists>p. cvDeriveScalarParams (\<lambda>_. []) 1000000 oneNode = Ok p \<and> sp_poolSize p = 1 \<and> sp_decisionThreshold p = 1 \<and> sp_oldFaults p = 0"
    by (auto simp: cvDeriveScalarParams_def Let_def v f ResolveCVScalarSampling_def s w simp del: bindR_eq_Ok)
  then show "cvDeriveScalarParams (\<lambda>_. []) 1000000 oneNode = Ok oneParams" "sp_poolSize oneParams = 1" "sp_decisionThreshold oneParams = 1"
    "sp_oldFaults oneParams = 0" by (auto simp: oneParams_def)
qed

definition zero32 :: bytes where
  "zero32 = replicate 32 0"

definition compInstance :: bytes where
  "compInstance = cv_hashBytes [bytes_of cvAPDBInstanceDomain, lengthPrefixed (bytes_of ''COMP'') @ lengthPrefixed zero32 @ lengthPrefixed (put64 0)]"

definition compRef :: cvComponentRefScalar where
  "compRef = \<lparr>cr_Header = \<lparr>ch_ContextDigest = zero32, ch_DealerID = 0, ch_PayloadDigest = zero32, ch_Instance = compInstance, ch_Root = zero32\<rparr>,
     cr_Lock = \<lparr>lk_InstanceDigest = compInstance, lk_Root = zero32, lk_Certificate = [1], lk_canonicalWire = []\<rparr>\<rparr>"

lemma comp_lengths [simp]: "length zero32 = 32" "length compInstance = 32"
  by (simp_all add: zero32_def compInstance_def cv_hashBytes_def)

lemma compRef_wire: "\<exists>w. cvComponentRefScalarCanonicalBytes compRef = Ok w"
proof -
  have "cvComponentInstanceDigestScalar zero32 0 = Ok compInstance"
    by (simp add: cvComponentInstanceDigestScalar_def cvAPDBInstanceDigestScalar_def cvWriteUint64_def cvWriteBytes_eq compInstance_def)
  moreover have "\<exists>w. cvAPDBLockScalarCanonicalBytes (cr_Lock compRef) = Ok w"
    by (simp add: cvAPDBLockScalarCanonicalBytes_def lockShape_def compRef_def cvMaxComponentSignatureBytes_def)
  ultimately show ?thesis
    by (auto simp: cvComponentRefScalarCanonicalBytes_def cvComponentHeaderScalarCanonicalBytes_def compRef_def simp del: bindR_eq_Ok)
qed

definition onePool :: cvPoolScalar where
  "onePool = (case cvBuildPoolScalar zero32 0 [compRef] oneParams of Ok p \<Rightarrow> p)"

lemma compRef_good: "goodRef compRef"
  by (simp add: goodRef_def honestMemo_def compRef_def max_int_def)

lemma oneBody: "\<exists>body. (\<forall>e. poolUnsigned e zero32 0 [compRef] = Ok body) \<and> int (length body) \<le> cvMaxNetworkPayloadBytes"
proof -
  obtain rw where rw: "cvComponentRefScalarCanonicalBytes compRef = Ok rw" using compRef_wire by blast
  note l = ref_roundtrip(5,6) [OF rw compRef_good]
  show ?thesis
    using rw l by (simp add: poolUnsigned_def cvWriteUint32_eq cvWriteUint64_def)
      (simp add: compRef_def lengthPrefixed_def cvMaxNetworkPayloadBytes_def cvMaxComponentSignatureBytes_def putInt32_def)
qed

lemma onePool:
  "pl_ContextDigest onePool = zero32" "pl_ProposerID onePool = 0" "pl_Components onePool = [compRef]" "length (pl_Digest onePool) = 32"
  "\<exists>w. cvPoolScalarCanonicalBytes onePool oneParams = Ok w" "goodPool onePool"
proof -
  obtain body where b: "\<And>e. poolUnsigned e zero32 0 [compRef] = Ok body" "int (length body) \<le> cvMaxNetworkPayloadBytes" using oneBody by blast
  have "cvPoolScalarCanonicalBytes \<lparr>pl_ContextDigest = zero32, pl_ProposerID = 0, pl_Components = [compRef],
      pl_Digest = cv_hashBytes [bytes_of cvPoolDigestScalarDomain, body]\<rparr> oneParams =
      Ok (cvWriteBytesIgnore (cv_hashBytes [bytes_of cvPoolDigestScalarDomain, body]) (cvWriteBytesIgnore body []))"
    by (simp add: cvPoolScalarCanonicalBytes_def b(1) oneParams(2) cv_hashBytes_def)
  then have p: "onePool = \<lparr>pl_ContextDigest = zero32, pl_ProposerID = 0, pl_Components = [compRef],
      pl_Digest = cv_hashBytes [bytes_of cvPoolDigestScalarDomain, body]\<rparr>" "\<exists>w. cvPoolScalarCanonicalBytes onePool oneParams = Ok w"
    by (simp_all add: onePool_def cvBuildPoolScalar_def b(1) oneParams(2) Let_def del: bindR_eq_Ok)
  show "pl_ContextDigest onePool = zero32" "pl_ProposerID onePool = 0" "pl_Components onePool = [compRef]" "length (pl_Digest onePool) = 32"
    unfolding p(1) by (simp_all add: cv_hashBytes_def)
  show "\<exists>w. cvPoolScalarCanonicalBytes onePool oneParams = Ok w" by (rule p(2))
  show "goodPool onePool" unfolding p(1) using b compRef_good by (simp add: goodPool_def max_int_def)
qed

definition oneStatement :: bytes where
  "oneStatement = (case cvPoolCertificateStatementScalar zero32 0 (pl_Digest onePool) of Ok st \<Rightarrow> st)"

lemma oneStatement: "cvPoolCertificateStatementScalar zero32 0 (pl_Digest onePool) = Ok oneStatement"
  by (simp add: oneStatement_def cvPoolCertificateStatementScalar_def onePool)

definition oneLib :: "(rat, int, int) blsLib" where
  "oneLib = \<lparr>bl_HashToG1 = (\<lambda>d domain. if domain = cvPoolCertScalarDomain \<and> d \<noteq> certMessage oneStatement then Err ''hash'' else Ok 1),
     bl_smul = (\<lambda>_ x. x), bl_Marshal = (\<lambda>_. [1]), bl_Unmarshal = (\<lambda>_. Ok 1), bl_g2 = (\<lambda>_. 1), bl_check = (\<lambda>_ _ _. True)\<rparr>"

definition oneSigner :: "string \<Rightarrow> (rat, int) tblsThresholdSigner" where
  "oneSigner role = \<lparr>th_t = 1, th_n = 1, th_scalarRole = role, th_pubKey = 1, th_pubKeyShares = [1], th_shares = [1],
     th_memberOrder = [0], th_memberIndex = [0 \<mapsto> 0], th_signingMembers = None\<rparr>"

definition oneCfg :: "(rat, int) poolConfig" where
  "oneCfg = \<lparr>pf_LocalNode = 0, pf_OldRoster = [0], pf_ExpectedContext = zero32, pf_Params = oneParams,
     pf_apdbSigner = oneSigner cvScalarRoleAPDB, pf_controlSigner = oneSigner cvScalarRoleControl\<rparr>"

lemma oneCfg_simps: "pf_Params oneCfg = oneParams" "pf_ExpectedContext oneCfg = zero32"
  by (simp_all add: oneCfg_def)

definition oneReads :: poolReads where
  "oneReads = \<lparr>rd_eligibleProposers = {0}, rd_componentRefsScalar = Map.empty\<rparr>"

text \<open>The node certifies its own pool: begin, sign, wait, recover, publish. Then it waits for it.\<close>

definition oneEvents :: "(poolCall, poolReads \<times> waitChoice) threadEvent list" where
  "oneEvents = [Start (PoolCertify onePool), Resume 0 (oneReads, WaitTimer), Resume 0 (oneReads, WaitTimer), Resume 0 (oneReads, WaitReady),
     Resume 0 (oneReads, WaitTimer), Resume 0 (oneReads, WaitTimer), Start (PoolAwait 0), Resume 1 (oneReads, WaitTimer), Resume 1 (oneReads, WaitTimer)]"

lemma one_roles:
  "cvScalarSignerHasRole (Some (oneSigner cvScalarRoleAPDB)) cvScalarRoleAPDB" "cvScalarSignerHasRole (Some (oneSigner cvScalarRoleControl)) cvScalarRoleControl"
  by (simp_all add: cvScalarSignerHasRole_def cvScalarKnownThresholdRole_def oneSigner_def)

definition oneWire :: bytes where
  "oneWire = (case cvPoolScalarCanonicalBytes onePool oneParams of Ok w \<Rightarrow> w)"

lemma one_begin: "certifyBegin oneLib oneCfg oneReads onePool = ([CertifyLocked onePool oneWire oneStatement], [])"
proof -
  have w: "cvPoolScalarCanonicalBytes onePool oneParams = Ok oneWire" using onePool(5) by (auto simp: oneWire_def)
  have "cvVerifyAPDBLockScalar oneLib (cr_Lock compRef) (Some (oneSigner cvScalarRoleAPDB)) = Ok ()"
    using one_roles by (simp add: cvVerifyAPDBLockScalar_def lockShape_def compRef_def cvMaxComponentSignatureBytes_def
        cvAPDBStoredStatementScalar_def VerifyRecovered_def oneLib_def)
  then have "validateRefs oneLib (oneSigner cvScalarRoleAPDB) Map.empty [compRef] = Ok ()"
    using compRef_wire by (auto simp: cvValidateComponentRefScalar_def simp del: bindR_eq_Ok)
  then have "validatePool oneLib oneCfg oneReads onePool = Ok oneWire"
    using w by (simp add: validatePool_def validateKnownComponentRefsScalar_def oneCfg_def oneReads_def onePool Let_def)
  then show ?thesis using oneStatement by (simp add: certifyBegin_def oneCfg_def onePool)
qed

lemma one_sign: "SignShare oneLib (oneSigner cvScalarRoleControl) 0 cvPoolCertScalarDomain oneStatement = Ok [1]"
  by (simp add: SignShare_def oneSigner_def oneLib_def certMessage_def)

definition oneSlot :: cvNetworkPoolSlotScalar where
  "oneSlot = \<lparr>ns_state = \<lparr>sl_poolDigest = pl_Digest onePool, sl_poolSeen = True, sl_signed = True, sl_certSeen = False\<rparr>,
     ns_poolWire = oneWire, ns_certWire = [], ns_localShare = [1], ns_localShareWire = [], ns_shares = [(0, [1])], ns_sharesReady = True,
     ns_certReady = False, ns_certifying = True\<rparr>"

lemma one_locked:
  "certifyLocked oneLib oneCfg Map.empty onePool oneWire oneStatement =
    ([0 \<mapsto> oneSlot], [CertifyWait onePool oneWire oneStatement 0, CertifyEnd 0],
     [PoolSigned 0 (pl_Digest onePool) oneStatement, PoolFanout [] cvTagPoolOfferScalar oneWire])"
proof -
  have "th_t (oneSigner r) = 1" for r by (simp add: oneSigner_def)
  then show ?thesis
    using one_sign by (simp add: certifyLocked_def Let_def onePool oneCfg_def poolSlotLocked_def emptySlot_def observePool_def markSigned_def
        certifyStart_def putShare_def oneSlot_def)
qed

definition oneCert :: cvPoolCertificateScalar where
  "oneCert = \<lparr>pc_PoolDigest = pl_Digest onePool, pc_Certificate = [1], pc_canonicalWire = []\<rparr>"

lemma one_verify: "cvVerifyPoolCertificateScalar oneLib onePool oneCert (Some (oneSigner cvScalarRoleControl)) = Ok ()"
  using one_roles by (simp add: cvVerifyPoolCertificateScalar_def oneCert_def onePool oneStatement VerifyRecovered_def oneLib_def certMessage_def)

lemma one_recover: "\<exists>w. certifyRecover oneLib oneCfg slots onePool oneStatement = (slots, [CertifyPublish onePool oneCert w], [])"
  if "ns_shares (poolSlotLocked slots 0) = [(0, [1])]"
proof -
  have "Recover oneLib (oneSigner cvScalarRoleControl) [(0, [1])] = Ok [1]"
    by (simp add: Recover_def oneSigner_def oneLib_def Let_def)
  moreover have "\<exists>w. cvPoolCertificateScalarCanonicalBytes oneCert = Ok w"
    by (simp add: cvPoolCertificateScalarCanonicalBytes_def oneCert_def onePool cvMaxComponentSignatureBytes_def)
  ultimately show ?thesis
    using one_verify that unfolding certifyRecover_def Let_def onePool(2)
    by (auto simp: oneCfg_def oneCert_def simp del: bindR_eq_Ok)
qed

lemma one_run:
  "sl_certSeen (ns_state (poolSlotLocked (mc_state (poolRun oneLib oneCfg oneEvents)) 0))"
  "(0, pl_Digest onePool) \<in> poolSigned (mc_out (poolRun oneLib oneCfg oneEvents))"
  "\<exists>r. AwaitReturned 0 r \<in> set (mc_out (poolRun oneLib oneCfg oneEvents))"
proof -
  let ?s = "[0 \<mapsto> oneSlot\<lparr>ns_sharesReady := False\<rparr>]"
  obtain w where w: "certifyRecover oneLib oneCfg ?s onePool oneStatement = (?s, [CertifyPublish onePool oneCert w], [])"
    using one_recover [of ?s] by (auto simp: oneSlot_def poolSlotLocked_def)
  have wait: "certifyWait oneCfg WaitReady [0 \<mapsto> oneSlot] onePool oneWire oneStatement 0 = (?s, [CertifyRecover onePool oneStatement], [])"
    by (simp add: certifyWait_def Let_def onePool poolSlotLocked_def oneSlot_def)
  have pub: "\<exists>out. certifyPublish oneCfg ?s onePool oneCert w =
      ([0 \<mapsto> oneSlot\<lparr>ns_state := (ns_state oneSlot)\<lparr>sl_certSeen := True\<rparr>, ns_sharesReady := False, ns_certWire := w, ns_certReady := True\<rparr>], [], out)"
    by (simp add: certifyPublish_def Let_def onePool poolSlotLocked_def oneSlot_def observeCertificate_def oneCert_def)
  moreover have await: "awaitBegin oneReads [0 \<mapsto> slot] 0 = ([0 \<mapsto> slot], [AwaitRead 0], [])" if "sl_certSeen (ns_state slot)" for slot
    using that by (simp add: awaitBegin_def oneReads_def poolSlotLocked_def)
  ultimately show "sl_certSeen (ns_state (poolSlotLocked (mc_state (poolRun oneLib oneCfg oneEvents)) 0))"
    "(0, pl_Digest onePool) \<in> poolSigned (mc_out (poolRun oneLib oneCfg oneEvents))"
    "\<exists>r. AwaitReturned 0 r \<in> set (mc_out (poolRun oneLib oneCfg oneEvents))"
    by (auto simp: await poolRun_def threadRun_def oneEvents_def threadStep_def idleMachine_def one_begin one_locked wait w poolSlotLocked_def poolSigned_def)
qed

theorem pool_certified_available_witness:
  "\<exists>pool c r. awaitCertified oneLib oneCfg (mc_state (poolRun oneLib oneCfg oneEvents)) 0 = Ok (pool, c) \<and> pl_ProposerID pool = 0 \<and>
     cvVerifyPoolCertificateScalar oneLib pool c (Some (pf_controlSigner oneCfg)) = Ok () \<and>
     AwaitReturned 0 r \<in> set (mc_out (poolRun oneLib oneCfg oneEvents)) \<and> awaitOk oneLib oneCfg (mc_state (poolRun oneLib oneCfg oneEvents)) 0 r"
proof -
  have good: "goodPool pool" if "Start (PoolCertify pool) \<in> set oneEvents" for pool
    using that onePool(6) by (auto simp: oneEvents_def)
  have role: "cvScalarSignerHasRole (Some (pf_controlSigner oneCfg)) cvScalarRoleControl" using one_roles by (simp add: oneCfg_def)
  obtain r where r: "AwaitReturned 0 r \<in> set (mc_out (poolRun oneLib oneCfg oneEvents))" using one_run(3) by (rule exE)
  let ?m = "poolRun oneLib oneCfg oneEvents" and ?slot = "poolSlotLocked (mc_state (poolRun oneLib oneCfg oneEvents)) 0"
  have "(sl_certSeen (ns_state ?slot) \<or> ns_certReady ?slot \<longrightarrow>
      (\<exists>pool c. awaitCertified oneLib oneCfg (mc_state ?m) 0 = Ok (pool, c) \<and> pl_ProposerID pool = 0 \<and>
        pl_ContextDigest pool = pf_ExpectedContext oneCfg \<and> pl_Digest pool = sl_poolDigest (ns_state ?slot) \<and>
        cvVerifyPoolCertificateScalar oneLib pool c (Some (pf_controlSigner oneCfg)) = Ok ())) \<and>
    (AwaitReturned 0 r \<in> set (mc_out ?m) \<longrightarrow> awaitOk oneLib oneCfg (mc_state ?m) 0 r)"
    by (rule pool_certified_available [OF _ role refl refl]) (rule good)
  then show ?thesis using r one_run(1) by (elim conjE) (drule mp, rule disjI1, assumption, drule mp, assumption, elim exE conjE, intro exI conjI; assumption)
qed

theorem pool_certificate_unique_witness:
  "\<exists>pool c. cvVerifyPoolCertificateScalar oneLib pool c (Some (oneSigner cvScalarRoleControl)) = Ok () \<and>
    (pool = pool \<or> (\<exists>x y. {x, y} \<subseteq> certificationStrings zero32 pool pool
      (\<Union>p :: int. poolSigned (mc_out (poolRun oneLib oneCfg oneEvents))) \<and> collision x y))"
proof -
  let ?signed = "\<lambda>p :: int. poolSigned (mc_out (poolRun oneLib oneCfg oneEvents))"
  have fits: "length (c_OldCommittee oneNode) \<le> 2 ^ 60" "length (c_NewCommittee oneNode) \<le> 2 ^ 60" "c_NewFaults oneNode \<le> max_int"
    "c_FNew oneNode \<le> max_int" by (simp_all add: oneNode_def hugeFaults_def max_int_def)
  have signer: "th_memberOrder (oneSigner cvScalarRoleControl) = sortedUnique (c_OldCommittee oneNode)"
    "th_t (oneSigner cvScalarRoleControl) = sp_decisionThreshold oneParams"
    by (simp_all add: oneSigner_def oneNode_def hugeFaults_def sortedUnique_def oneParams)
  have unf: "poolUnforgeable oneLib (oneSigner cvScalarRoleControl) zero32 {} ?signed"
  proof -
    have "certMessage oneStatement = certMessage st"
      if "VerifyRecovered oneLib (oneSigner cvScalarRoleControl) cvPoolCertScalarDomain st c" for st c
      using that by (auto simp: VerifyRecovered_def oneLib_def certMessage_def split: if_splits)
    moreover have "{0} \<subseteq> set (th_memberOrder (oneSigner cvScalarRoleControl))" "th_t (oneSigner cvScalarRoleControl) \<le> int (card {0 :: int})"
      by (simp_all add: oneSigner_def)
    ultimately show ?thesis unfolding poolUnforgeable_def using one_run(2) oneStatement by (metis DiffD1 singletonD)
  qed
  obtain w where w: "cvPoolScalarCanonicalBytes onePool oneParams = Ok w" using onePool(5) by blast
  have "wireOf oneCfg (pl_ProposerID onePool) (pl_Digest onePool) w"
    using good_wire [OF w [folded oneCfg_simps] onePool(6)] by (simp add: onePool oneCfg_simps)
  then obtain pool where p: "cvDecodePoolScalar w oneParams = Ok pool" "pl_ContextDigest pool = zero32" "pl_ProposerID pool = 0"
      "pl_Digest pool = pl_Digest onePool"
    by (auto simp: wireOf_def oneCfg_simps onePool)
  have v: "cvVerifyPoolCertificateScalar oneLib pool oneCert (Some (oneSigner cvScalarRoleControl)) = Ok ()"
    using one_verify unfolding cvVerifyPoolCertificateScalar_def p(2-4) onePool(1,2) .
  have nodes: "\<And>p :: int. pf_ExpectedContext oneCfg = zero32" "\<And>p :: int. pf_LocalNode oneCfg \<le> max_int"
    by (simp_all add: oneCfg_def max_int_def)
  have none: "finite ({} :: int set)" "int (card ({} :: int set)) \<le> sp_oldFaults oneParams" by (simp_all add: oneParams)
  show ?thesis
    using pool_certificate_unique [OF oneParams(1) fits signer none nodes unf p(1) p(1) p(2) p(2) refl v v] v by blast
qed

end
