(* ===== verification/Cv_Coin.thy ===== *)
theory Cv_Coin
  imports Cv_Handoff Cv_Config "HOL-Library.Multiset"
begin

text \<open>
  The coin of the scalar protocol and the samples drawn from it (\<^verbatim>\<open>core/cv_sapvss_scalar_coin.go\<close>): invocations, the wire
  forms of coin shares and outputs, building and verifying an output, and sampling without replacement by a
  Fisher-Yates shuffle whose indices come from a hash stream with rejection. The rejection loop may run forever, which is
  \<open>None\<close>. The specification of the shuffle says that it is a bijection between index vectors and permutations.
\<close>

section \<open>Data and wire forms\<close>

abbreviation cvScalarSamplerDomain :: string where "cvScalarSamplerDomain \<equiv> ''ARL-CV-sAPVSS/v2-scalar-group/sample''"
abbreviation cvScalarCoinDomain :: string where "cvScalarCoinDomain \<equiv> ''ARL-CV-sAPVSS/v2-scalar-group/coin''"
abbreviation cvScalarCoinOutputDomain :: string where "cvScalarCoinOutputDomain \<equiv> ''ARL-CV-sAPVSS/v2-scalar-group/coin-output''"
abbreviation cvScalarEligibilityCoinTag :: string where "cvScalarEligibilityCoinTag \<equiv> ''ELIG''"
abbreviation cvScalarContributorCoinTag :: string where "cvScalarContributorCoinTag \<equiv> ''CONTRIB''"
abbreviation cvScalarProposerSampleTag :: string where "cvScalarProposerSampleTag \<equiv> ''PROP''"
abbreviation cvScalarValidatorSampleTag :: string where "cvScalarValidatorSampleTag \<equiv> ''VAL''"
abbreviation cvScalarSelectionSampleTag :: string where "cvScalarSelectionSampleTag \<equiv> ''SELECT''"
abbreviation cvScalarCoinShareDomain :: string where "cvScalarCoinShareDomain \<equiv> ''ARL-CV-sAPVSS/v2-scalar-group/coin-share''"

definition cvMaxLeafWireBytes :: int where
  "cvMaxLeafWireBytes = 64 * 1048576"

record cvCoinShareScalar =
  cs_InvocationDigest :: bytes
  cs_Signature :: bytes

record cvCoinOutputScalar =
  co_Invocation :: bytes
  co_Certificate :: bytes
  co_Value :: bytes

definition cvCoinShareScalarCanonicalBytes :: "cvCoinShareScalar \<Rightarrow> bytes res" where
  "cvCoinShareScalarCanonicalBytes shr =
     (if length (cs_InvocationDigest shr) \<noteq> 32 \<or> cs_Signature shr = [] \<or> int (length (cs_Signature shr)) > cvMaxComponentSignatureBytes
      then Err ''invalid CV V2 coin share''
      else Ok (cvWriteBytesIgnore (cs_Signature shr) (cvWriteBytesIgnore (cs_InvocationDigest shr)
        (cvWriteBytesIgnore (bytes_of cvScalarCoinShareDomain) []))))"

definition cvDecodeCoinShareScalar :: "bytes \<Rightarrow> cvCoinShareScalar res" where
  "cvDecodeCoinShareScalar wire =
     bindR (reErr ''invalid CV V2 coin share domain'' (cvReader_bytes (int (length cvScalarCoinShareDomain)) wire)) (\<lambda>(domain, r).
     if domain \<noteq> bytes_of cvScalarCoinShareDomain then Err ''invalid CV V2 coin share domain'' else
     bindR (reErr ''invalid CV V2 coin share invocation'' (cvReader_bytes 32 r)) (\<lambda>(digest, r).
     if length digest \<noteq> 32 then Err ''invalid CV V2 coin share invocation'' else
     bindR (reErr ''invalid CV V2 coin share signature'' (cvReader_bytes cvMaxComponentSignatureBytes r)) (\<lambda>(signature, r).
     if signature = [] \<or> r \<noteq> [] then Err ''invalid CV V2 coin share signature'' else
     let shr = \<lparr>cs_InvocationDigest = digest, cs_Signature = signature\<rparr> in
     bindR (reErr ''non-canonical CV V2 coin share'' (cvCoinShareScalarCanonicalBytes shr)) (\<lambda>canonical.
     if canonical \<noteq> wire then Err ''non-canonical CV V2 coin share'' else Ok shr))))"

definition cvEligibilityCoinInvocationScalar :: "string \<Rightarrow> 64 word \<Rightarrow> bytes res" where
  "cvEligibilityCoinInvocationScalar sid epoch =
     (if sid = [] \<or> epoch = 0 then Err ''invalid CV V2 eligibility coin invocation''
      else Ok (cvWriteUint64 (cvWriteBytesIgnore (bytes_of sid) (cvWriteBytesIgnore (bytes_of cvScalarEligibilityCoinTag) [])) epoch))"

definition cvContributorCoinInvocationScalar :: "bytes \<Rightarrow> int \<Rightarrow> bytes \<Rightarrow> bytes res" where
  "cvContributorCoinInvocationScalar contextDigest proposerID poolDigest =
     (if length contextDigest \<noteq> 32 \<or> proposerID < 0 \<or> length poolDigest \<noteq> 32 then Err ''invalid CV V2 contributor coin invocation''
      else Ok (cvWriteBytesIgnore poolDigest (cvWriteUint64 (cvWriteBytesIgnore contextDigest
        (cvWriteBytesIgnore (bytes_of cvScalarContributorCoinTag) [])) (word_of_int proposerID))))"

definition cvCoinInvocationDigestScalar :: "bytes \<Rightarrow> bytes res" where
  "cvCoinInvocationDigestScalar invocation =
     (if invocation = [] \<or> int (length invocation) > cvMaxLeafWireBytes then Err ''invalid CV V2 coin invocation''
      else Ok (cv_hashBytes [bytes_of cvScalarCoinDomain, invocation]))"

definition cvBuildCoinOutputScalar :: "('f, 'g, 'k) blsLib \<Rightarrow> bytes \<Rightarrow> bytes \<Rightarrow> ('f, 'k) tblsThresholdSigner option \<Rightarrow> cvCoinOutputScalar res" where
  "cvBuildCoinOutputScalar lib invocation certificate signer =
     bindR (reErr ''invalid CV V2 coin certificate'' (cvCoinInvocationDigestScalar invocation)) (\<lambda>digest.
     if \<not> cvScalarSignerHasRole signer cvScalarRoleCoin \<or> certificate = [] \<or>
       \<not> VerifyRecovered lib (the signer) cvScalarCoinDomain digest certificate
     then Err ''invalid CV V2 coin certificate''
     else Ok \<lparr>co_Invocation = invocation, co_Certificate = certificate,
       co_Value = cv_hashBytes [bytes_of cvScalarCoinOutputDomain, invocation, certificate]\<rparr>)"

definition cvVerifyCoinOutputScalar :: "('f, 'g, 'k) blsLib \<Rightarrow> cvCoinOutputScalar \<Rightarrow> bytes \<Rightarrow> ('f, 'k) tblsThresholdSigner option \<Rightarrow> unit res" where
  "cvVerifyCoinOutputScalar lib output expectedInvocation signer =
     (if \<not> cvScalarSignerHasRole signer cvScalarRoleCoin \<or> co_Invocation output = [] \<or> co_Certificate output = [] \<or>
        length (co_Value output) \<noteq> 32 \<or> expectedInvocation = [] \<or> co_Invocation output \<noteq> expectedInvocation
      then Err ''invalid CV V2 coin output''
      else bindR (reErr ''invalid CV V2 coin output certificate'' (cvCoinInvocationDigestScalar (co_Invocation output))) (\<lambda>digest.
        if \<not> VerifyRecovered lib (the signer) cvScalarCoinDomain digest (co_Certificate output)
        then Err ''invalid CV V2 coin output certificate''
        else if cv_hashBytes [bytes_of cvScalarCoinOutputDomain, co_Invocation output, co_Certificate output] \<noteq> co_Value output
        then Err ''invalid CV V2 coin output value'' else Ok ()))"

definition cvCoinOutputScalarCanonicalBytes :: "cvCoinOutputScalar \<Rightarrow> bytes res" where
  "cvCoinOutputScalarCanonicalBytes output =
     (if co_Invocation output = [] \<or> int (length (co_Invocation output)) > cvMaxLeafWireBytes \<or> co_Certificate output = [] \<or>
        int (length (co_Certificate output)) > cvMaxComponentSignatureBytes \<or> length (co_Value output) \<noteq> 32
      then Err ''invalid CV V2 coin output''
      else Ok (cvWriteBytesIgnore (co_Value output) (cvWriteBytesIgnore (co_Certificate output) (cvWriteBytesIgnore (co_Invocation output)
        (cvWriteBytesIgnore (bytes_of cvScalarCoinOutputDomain) [])))))"

definition cvDecodeCoinOutputScalar :: "bytes \<Rightarrow> cvCoinOutputScalar res" where
  "cvDecodeCoinOutputScalar wire =
     bindR (reErr ''invalid CV V2 coin output domain'' (cvReader_bytes (int (length cvScalarCoinOutputDomain)) wire)) (\<lambda>(domain, r).
     if domain \<noteq> bytes_of cvScalarCoinOutputDomain then Err ''invalid CV V2 coin output domain'' else
     bindR (reErr ''invalid CV V2 coin output invocation'' (cvReader_bytes cvMaxLeafWireBytes r)) (\<lambda>(invocation, r).
     if invocation = [] then Err ''invalid CV V2 coin output invocation'' else
     bindR (reErr ''invalid CV V2 coin output certificate'' (cvReader_bytes cvMaxComponentSignatureBytes r)) (\<lambda>(certificate, r).
     if certificate = [] then Err ''invalid CV V2 coin output certificate'' else
     bindR (reErr ''invalid CV V2 coin output value'' (cvReader_bytes 32 r)) (\<lambda>(val, r).
     if length val \<noteq> 32 \<or> r \<noteq> [] then Err ''invalid CV V2 coin output value'' else
     let output = \<lparr>co_Invocation = invocation, co_Certificate = certificate, co_Value = val\<rparr> in
     bindR (reErr ''non-canonical CV V2 coin output'' (cvCoinOutputScalarCanonicalBytes output)) (\<lambda>canonical.
     if canonical \<noteq> wire then Err ''non-canonical CV V2 coin output'' else Ok output)))))"

section \<open>The sampler\<close>

record cvScalarCoinStream =
  st_coinValue :: bytes
  st_tag :: string
  st_counter :: "64 word"

definition nextUint64 :: "cvScalarCoinStream \<Rightarrow> 64 word \<times> cvScalarCoinStream" where
  "nextUint64 s =
    (let digest = cv_hashBytes [bytes_of cvScalarSamplerDomain, st_coinValue s, bytes_of (st_tag s), put64 (st_counter s)] in
     (get64 (take 8 digest), s\<lparr>st_counter := st_counter s + 1\<rparr>))"

definition sampleThreshold :: "64 word \<Rightarrow> 64 word" where
  "sampleThreshold bound = (- bound) mod bound"

partial_function (option) indexLoop :: "64 word \<Rightarrow> cvScalarCoinStream \<Rightarrow> (int \<times> cvScalarCoinStream) option" where
  "indexLoop bound s =
    (let (v, s') = nextUint64 s in
     if v \<ge> sampleThreshold bound then Some (uint (v mod bound), s') else indexLoop bound s')"

definition streamIndex :: "cvScalarCoinStream \<Rightarrow> 64 word \<Rightarrow> (int \<times> cvScalarCoinStream) res option" where
  "streamIndex s bound =
     (if bound = 0 \<or> uint bound > max_int + 1 then Some (Err ''invalid CV V2 sampler bound'')
      else map_option Ok (indexLoop bound s))"

definition swapAt :: "'a list \<Rightarrow> nat \<Rightarrow> nat \<Rightarrow> 'a list" where
  "swapAt xs i j = xs[i := xs ! j, j := xs ! i]"

fun shuffleLoop :: "nat \<Rightarrow> cvScalarCoinStream \<Rightarrow> int list \<Rightarrow> int list res option" where
  "shuffleLoop 0 s permutation = Some (Ok permutation)"
| "shuffleLoop (Suc i) s permutation =
    (case streamIndex s (word_of_nat (Suc i + 1)) of
       None \<Rightarrow> None
     | Some (Ok (j, s)) \<Rightarrow> shuffleLoop i s (swapAt permutation (Suc i) (nat j))
     | Some (Err e) \<Rightarrow> Some (Err e)
     | Some Panic \<Rightarrow> Some Panic)"

definition cvSampleWithoutReplacementScalar :: "int list \<Rightarrow> bytes \<Rightarrow> string \<Rightarrow> int \<Rightarrow> int list res option" where
  "cvSampleWithoutReplacementScalar roster coinValue tag cnt =
    (let ordered = sortedUnique roster in
     if ordered = [] \<or> length ordered \<noteq> length roster \<or> coinValue = [] \<or> tag = [] \<or> cnt \<le> 0 \<or> cnt > int (length ordered)
     then Some (Err ''invalid CV V2 sampling input'')
     else map_option (\<lambda>r. bindR r (\<lambda>permutation. Ok (take (nat cnt) permutation)))
       (shuffleLoop (length ordered - 1) \<lparr>st_coinValue = coinValue, st_tag = tag, st_counter = 0\<rparr> ordered))"

definition cvSelectedPoolIndicesScalar :: "int \<Rightarrow> int \<Rightarrow> bytes \<Rightarrow> int list res option" where
  "cvSelectedPoolIndicesScalar poolSize componentCount coinValue =
     (if poolSize \<le> 0 \<or> componentCount \<le> 0 \<or> componentCount > poolSize
      then Some (Err ''invalid CV V2 contributor selection dimensions'')
      else cvSampleWithoutReplacementScalar [0..poolSize - 1] coinValue cvScalarSelectionSampleTag componentCount)"

definition cvDeriveEligibilitySamplesScalar :: "int list \<Rightarrow> bytes \<Rightarrow> int \<Rightarrow> int \<Rightarrow> (int list \<times> int list) res option" where
  "cvDeriveEligibilitySamplesScalar roster coinValue proposerCount validatorCount =
    (case cvSampleWithoutReplacementScalar roster coinValue cvScalarProposerSampleTag proposerCount of
       None \<Rightarrow> None
     | Some (Err e) \<Rightarrow> Some (Err e)
     | Some Panic \<Rightarrow> Some Panic
     | Some (Ok proposers) \<Rightarrow>
         map_option (\<lambda>r. bindR r (\<lambda>validators. Ok (proposers, validators)))
           (cvSampleWithoutReplacementScalar roster coinValue cvScalarValidatorSampleTag validatorCount))"

section \<open>The codecs are canonical\<close>

lemma coin_share_codec:
  "cvDecodeCoinShareScalar w = Ok shr \<longleftrightarrow> cvCoinShareScalarCanonicalBytes shr = Ok w"
proof
  assume "cvDecodeCoinShareScalar w = Ok shr"
  then show "cvCoinShareScalarCanonicalBytes shr = Ok w" by (auto simp: cvDecodeCoinShareScalar_def Let_def split: if_splits)
next
  assume c: "cvCoinShareScalarCanonicalBytes shr = Ok w"
  then have g: "length (cs_InvocationDigest shr) = 32" "cs_Signature shr \<noteq> []" "int (length (cs_Signature shr)) \<le> cvMaxComponentSignatureBytes"
    "length (cs_Signature shr) < 2 ^ 32"
    and w: "w = lengthPrefixed (bytes_of cvScalarCoinShareDomain) @ lengthPrefixed (cs_InvocationDigest shr) @ lengthPrefixed (cs_Signature shr)"
    by (auto simp: cvCoinShareScalarCanonicalBytes_def cvMaxComponentSignatureBytes_def split: if_splits)
  show "cvDecodeCoinShareScalar w = Ok shr"
    using g c unfolding cvDecodeCoinShareScalar_def w by (cases shr) (simp add: cv_get_put cv_bytes_end Let_def del: bindR_eq_Ok)
qed

lemma coin_output_codec:
  "cvDecodeCoinOutputScalar w = Ok out \<longleftrightarrow> cvCoinOutputScalarCanonicalBytes out = Ok w"
proof
  assume "cvDecodeCoinOutputScalar w = Ok out"
  then show "cvCoinOutputScalarCanonicalBytes out = Ok w" by (auto simp: cvDecodeCoinOutputScalar_def Let_def split: if_splits)
next
  assume c: "cvCoinOutputScalarCanonicalBytes out = Ok w"
  then have g: "co_Invocation out \<noteq> []" "int (length (co_Invocation out)) \<le> cvMaxLeafWireBytes" "length (co_Invocation out) < 2 ^ 32"
    "co_Certificate out \<noteq> []" "int (length (co_Certificate out)) \<le> cvMaxComponentSignatureBytes" "length (co_Certificate out) < 2 ^ 32"
    "length (co_Value out) = 32"
    and w: "w = lengthPrefixed (bytes_of cvScalarCoinOutputDomain) @ lengthPrefixed (co_Invocation out) @ lengthPrefixed (co_Certificate out) @
      lengthPrefixed (co_Value out)"
    by (auto simp: cvCoinOutputScalarCanonicalBytes_def cvMaxComponentSignatureBytes_def cvMaxLeafWireBytes_def split: if_splits)
  show "cvDecodeCoinOutputScalar w = Ok out"
    using g c unfolding cvDecodeCoinOutputScalar_def w by (cases out) (simp add: cv_get_put cv_bytes_end Let_def del: bindR_eq_Ok)
qed

section \<open>One coin value per encoding of the signature\<close>

lemma verifiedCoin:
  assumes "cvVerifyCoinOutputScalar lib out ivk signer = Ok ()"
  shows "co_Invocation out = ivk" "co_Certificate out \<noteq> []" "cvCoinInvocationDigestScalar ivk = Ok (cv_hashBytes [bytes_of cvScalarCoinDomain, ivk])"
    and "cvScalarSignerHasRole signer cvScalarRoleCoin" "ivk \<noteq> []"
    and "VerifyRecovered lib (the signer) cvScalarCoinDomain (cv_hashBytes [bytes_of cvScalarCoinDomain, ivk]) (co_Certificate out)"
    and "co_Value out = cv_hashBytes [bytes_of cvScalarCoinOutputDomain, ivk, co_Certificate out]"
  using assms by (auto simp: cvVerifyCoinOutputScalar_def cvCoinInvocationDigestScalar_def split: if_splits res.splits)

lemma verifiedCoin_point:
  assumes "blsLaws lib" "th_pubKey s = bl_g2 lib sk" "bl_HashToG1 lib (cv_domainDigest domain digest) domain = Ok h"
    and "VerifyRecovered lib s domain digest c"
  shows "bl_Unmarshal lib c = Ok (bl_smul lib sk h)"
  using assms by (auto simp: VerifyRecovered_def blsLaws_def split: res.splits)

lemma verifiedCoin_hash:
  "VerifyRecovered lib s domain digest c \<Longrightarrow> \<exists>h. bl_HashToG1 lib (cv_domainDigest domain digest) domain = Ok h"
  by (auto simp: VerifyRecovered_def split: res.splits)

text \<open>C39. Two verified outputs of one coin invocation carry the same group signature, however they were recovered; when their certificates are the
  library's own encoding of a point, as \<^verbatim>\<open>Recover\<close> makes them, the outputs are equal, value included. So nodes that recovered the coin
  themselves draw the same samples from it.
\<close>
theorem coin_output_unique:
  assumes "blsLaws lib" "th_pubKey s = bl_g2 lib sk"
    and "cvVerifyCoinOutputScalar lib out ivk (Some s) = Ok ()" "cvVerifyCoinOutputScalar lib out' ivk (Some s) = Ok ()"
  shows "bl_Unmarshal lib (co_Certificate out) = bl_Unmarshal lib (co_Certificate out') \<and>
    (co_Certificate out = bl_Marshal lib g \<and> co_Certificate out' = bl_Marshal lib g' \<longrightarrow> out = out' \<and>
      cvSelectedPoolIndicesScalar poolSize componentCount (co_Value out) = cvSelectedPoolIndicesScalar poolSize componentCount (co_Value out'))"
proof -
  let ?d = "cv_hashBytes [bytes_of cvScalarCoinDomain, ivk]"
  have v: "VerifyRecovered lib s cvScalarCoinDomain ?d (co_Certificate out)"
    "VerifyRecovered lib s cvScalarCoinDomain ?d (co_Certificate out')"
    using verifiedCoin(6) [OF assms(3)] verifiedCoin(6) [OF assms(4)] by simp_all
  obtain h where h: "bl_HashToG1 lib (cv_domainDigest cvScalarCoinDomain ?d) cvScalarCoinDomain = Ok h"
    using verifiedCoin_hash [OF v(1)] by blast
  have same: "bl_Unmarshal lib (co_Certificate out) = bl_Unmarshal lib (co_Certificate out')"
    using verifiedCoin_point [OF assms(1,2) h] v by simp
  have "out = out'" if "co_Certificate out = bl_Marshal lib g" "co_Certificate out' = bl_Marshal lib g'"
  proof -
    have "co_Certificate out = co_Certificate out'" using same that assms(1) by (simp add: blsLaws_def)
    then show ?thesis using verifiedCoin(1,7) [OF assms(3)] verifiedCoin(1,7) [OF assms(4)] by (intro cvCoinOutputScalar.equality) simp_all
  qed
  then show ?thesis using same by blast
qed

text \<open>C40. The value of a coin is a hash of the encoding of the group signature, not of the signature: whoever holds a verified output can replace the
  certificate by any other byte string that the curve library decodes to the same point, and the result verifies for the same invocation, with
  another value (or the two hash inputs collide). The contributor coin of an agreement object comes from the proposer, so the proposer can choose among
  such encodings and thereby among selections of contributors.
\<close>
theorem coin_output_malleable:
  assumes "cvVerifyCoinOutputScalar lib out ivk signer = Ok ()"
    and "bl_Unmarshal lib c' = bl_Unmarshal lib (co_Certificate out)" "c' \<noteq> []" "c' \<noteq> co_Certificate out"
  shows "\<exists>out'. cvBuildCoinOutputScalar lib ivk c' signer = Ok out' \<and> cvVerifyCoinOutputScalar lib out' ivk signer = Ok () \<and>
    (co_Value out' \<noteq> co_Value out \<or>
     collision (concat [bytes_of cvScalarCoinOutputDomain, ivk, c']) (concat [bytes_of cvScalarCoinOutputDomain, ivk, co_Certificate out]))"
proof -
  note v = verifiedCoin [OF assms(1)]
  let ?out = "\<lparr>co_Invocation = ivk, co_Certificate = c', co_Value = cv_hashBytes [bytes_of cvScalarCoinOutputDomain, ivk, c']\<rparr>"
  have c: "VerifyRecovered lib (the signer) cvScalarCoinDomain (cv_hashBytes [bytes_of cvScalarCoinDomain, ivk]) c'"
    using v(6) assms(2) by (simp add: VerifyRecovered_def)
  have "cvBuildCoinOutputScalar lib ivk c' signer = Ok ?out" using c v(3,4) assms(3) by (simp add: cvBuildCoinOutputScalar_def)
  moreover have "cvVerifyCoinOutputScalar lib ?out ivk signer = Ok ()"
    using c v(3-5) assms(3) by (simp add: cvVerifyCoinOutputScalar_def cv_hashBytes_def)
  moreover have "co_Value ?out \<noteq> co_Value out \<or>
     collision (concat [bytes_of cvScalarCoinOutputDomain, ivk, c']) (concat [bytes_of cvScalarCoinOutputDomain, ivk, co_Certificate out])"
    using v(7) assms(4) by (simp add: cv_hashBytes_def collision_def)
  ultimately show ?thesis by blast
qed

text \<open>A curve whose decoder ignores what follows the encoding of a point, as that of the BLS12-381 library does, and a signer of the coin role.\<close>

definition trailLib :: "(rat, rat, rat) blsLib" where
  "trailLib = \<lparr>bl_HashToG1 = (\<lambda>_ _. Ok 1), bl_smul = (*), bl_Marshal = (\<lambda>g. replicate (to_nat g) 0 @ [1]),
     bl_Unmarshal = (\<lambda>b. Ok (from_nat (length (takeWhile (\<lambda>x. x = 0) b)))), bl_g2 = (\<lambda>x. x), bl_check = (\<lambda>sig h k. sig = k * h)\<rparr>"

definition trailSigner :: "(rat, rat) tblsThresholdSigner" where
  "trailSigner = \<lparr>th_t = 1, th_n = 1, th_scalarRole = cvScalarRoleCoin, th_pubKey = 1, th_pubKeyShares = [1], th_shares = [1],
     th_memberOrder = [0], th_memberIndex = [0 \<mapsto> 0], th_signingMembers = None\<rparr>"

definition trailCoin :: "bytes \<Rightarrow> cvCoinOutputScalar" where
  "trailCoin c = \<lparr>co_Invocation = [3], co_Certificate = c, co_Value = cv_hashBytes [bytes_of cvScalarCoinOutputDomain, [3], c]\<rparr>"

lemma trailLib_laws: "blsLaws trailLib"
  by (simp add: blsLaws_def trailLib_def distrib_right takeWhile_append)

lemma trail_verified:
  "cvVerifyCoinOutputScalar trailLib (trailCoin (bl_Marshal trailLib 1)) [3] (Some trailSigner) = Ok ()"
  by (simp add: cvVerifyCoinOutputScalar_def trailCoin_def trailSigner_def trailLib_def cvScalarSignerHasRole_def cvScalarKnownThresholdRole_def
      cvCoinInvocationDigestScalar_def cvMaxLeafWireBytes_def VerifyRecovered_def cv_hashBytes_def takeWhile_append)

theorem coin_output_unique_witness:
  "blsLaws trailLib \<and> cvVerifyCoinOutputScalar trailLib (trailCoin (bl_Marshal trailLib 1)) [3] (Some trailSigner) = Ok () \<and>
   bl_Unmarshal trailLib (co_Certificate (trailCoin (bl_Marshal trailLib 1))) = Ok 1"
  using coin_output_unique [OF trailLib_laws _ trail_verified trail_verified, of 1] trailLib_laws trail_verified
  by (simp add: trailLib_def trailSigner_def trailCoin_def takeWhile_append)

theorem coin_output_malleable_witness:
  "\<exists>out'. cvBuildCoinOutputScalar trailLib [3] (bl_Marshal trailLib 1 @ [9]) (Some trailSigner) = Ok out' \<and>
     cvVerifyCoinOutputScalar trailLib out' [3] (Some trailSigner) = Ok ()"
  using coin_output_malleable [OF trail_verified, of "bl_Marshal trailLib 1 @ [9]"]
  by (auto simp: trailLib_def trailCoin_def takeWhile_append)

section \<open>The shuffle is a bijection\<close>

fun fisherYates :: "'a list \<Rightarrow> nat list \<Rightarrow> 'a list" where
  "fisherYates xs [] = xs"
| "fisherYates xs (j # js) = fisherYates (swapAt xs (Suc (length js)) j) js"

fun indexVector :: "nat list \<Rightarrow> bool" where
  "indexVector [] \<longleftrightarrow> True"
| "indexVector (j # js) \<longleftrightarrow> j \<le> Suc (length js) \<and> indexVector js"

lemma length_swapAt [simp]: "length (swapAt xs i j) = length xs"
  by (simp add: swapAt_def)

lemma mset_swapAt: "i < length xs \<Longrightarrow> j < length xs \<Longrightarrow> mset (swapAt xs i j) = mset xs"
  unfolding swapAt_def by (rule mset_swap)

lemma swapAt_nth: "i < length xs \<Longrightarrow> j < length xs \<Longrightarrow> swapAt xs i j ! i = xs ! j"
  by (cases "i = j") (simp_all add: swapAt_def)

lemma fisherYates_mset: "indexVector js \<Longrightarrow> length js < length xs \<Longrightarrow> mset (fisherYates xs js) = mset xs"
  by (induction js arbitrary: xs) (auto simp: mset_swapAt)

lemma length_fisherYates [simp]: "length (fisherYates xs js) = length xs"
  by (induction js arbitrary: xs) simp_all

lemma fisherYates_above: "indexVector js \<Longrightarrow> length js < i \<Longrightarrow> i < length xs \<Longrightarrow> fisherYates xs js ! i = xs ! i"
  by (induction js arbitrary: xs) (auto simp: swapAt_def nth_list_update)

lemma fisherYates_inj:
  "indexVector js \<Longrightarrow> indexVector js' \<Longrightarrow> length js = length js' \<Longrightarrow> length js < length xs \<Longrightarrow> distinct xs \<Longrightarrow>
    fisherYates xs js = fisherYates xs js' \<Longrightarrow> js = js'"
proof (induction js arbitrary: xs js')
  case (Cons j js)
  obtain j' ks where js': "js' = j' # ks" "length ks = length js" using Cons.prems(3) by (cases js') auto
  let ?i = "Suc (length js)"
  have b: "j < length xs" "j' < length xs" "?i < length xs" using Cons.prems js' by auto
  have "xs ! j = xs ! j'"
    using Cons.prems js' b fisherYates_above [of js ?i "swapAt xs ?i j"] fisherYates_above [of ks ?i "swapAt xs ?i j'"]
    by (simp add: swapAt_nth)
  then have "j = j'" using b Cons.prems(5) nth_eq_iff_index_eq by blast
  moreover have "distinct (swapAt xs ?i j)" using b Cons.prems(5) mset_swapAt [of ?i xs j] mset_eq_imp_distinct_iff by metis
  moreover have "indexVector js" "indexVector ks" "fisherYates (swapAt xs ?i j) js = fisherYates (swapAt xs ?i j') ks"
    using Cons.prems(1,2,6) js' by simp_all
  ultimately have "js = ks" using Cons.IH [of ks "swapAt xs ?i j"] b(3) js'(2) [symmetric] by simp
  then show ?case using \<open>j = j'\<close> js'(1) by simp
qed simp

lemma swapAt_append: "i < length xs \<Longrightarrow> j < length xs \<Longrightarrow> swapAt (xs @ ys) i j = swapAt xs i j @ ys"
  by (simp add: swapAt_def nth_append list_update_append)

lemma fisherYates_append: "indexVector js \<Longrightarrow> length js < length xs \<Longrightarrow> fisherYates (xs @ ys) js = fisherYates xs js @ ys"
  by (induction js arbitrary: xs) (simp_all add: swapAt_append)

lemma fisherYates_surj: "mset ys = mset xs \<Longrightarrow> length xs = Suc n \<Longrightarrow> \<exists>js. length js = n \<and> indexVector js \<and> fisherYates xs js = ys"
proof (induction n arbitrary: xs ys)
  case 0
  then obtain x where "xs = [x]" by (cases xs) auto
  then show ?case using 0 by (intro exI [of _ "[]"]) auto
next
  case (Suc n)
  have "ys \<noteq> []" using Suc.prems by auto
  have ly: "length ys = Suc (Suc n)" using Suc.prems mset_eq_length by metis
  then obtain zs y where ys: "ys = zs @ [y]" by (cases ys rule: rev_cases) auto
  then obtain j where j: "j < length xs" "xs ! j = y" using Suc.prems(1) mset_eq_setD by (metis in_set_conv_decomp in_set_conv_nth)
  define xs' where "xs' = swapAt xs (Suc n) j"
  have l: "length xs' = Suc (Suc n)" using Suc.prems(2) by (simp add: xs'_def)
  have "xs' ! Suc n = y" using j Suc.prems(2) by (simp add: xs'_def swapAt_nth)
  then have split: "xs' = take (Suc n) xs' @ [y]" using l by (metis append_take_drop_id Cons_nth_drop_Suc drop_all lessI order_refl)
  have "mset xs' = mset ys" using Suc.prems j by (simp add: xs'_def mset_swapAt)
  then have "mset (take (Suc n) xs') = mset zs" using split ys by (metis add_right_cancel mset_append)
  then obtain js where js: "length js = n" "indexVector js" "fisherYates (take (Suc n) xs') js = zs"
    using Suc.IH [of zs "take (Suc n) xs'"] l by auto
  have "fisherYates xs' js = ys"
    using fisherYates_append [of js "take (Suc n) xs'" "[y]"] js l split ys by simp
  then show ?case using js j Suc.prems(2) by (intro exI [of _ "j # js"]) (simp add: xs'_def)
qed

lemma fisherYates_bij:
  assumes "distinct xs" "length xs = Suc n"
  shows "bij_betw (fisherYates xs) {js. length js = n \<and> indexVector js} {ys. mset ys = mset xs}"
proof (rule bij_betw_imageI)
  show "inj_on (fisherYates xs) {js. length js = n \<and> indexVector js}"
    using assms by (intro inj_onI fisherYates_inj [of _ _ xs]) auto
  show "fisherYates xs ` {js. length js = n \<and> indexVector js} = {ys. mset ys = mset xs}"
    using assms fisherYates_surj [of _ xs n] by (auto simp: fisherYates_mset image_iff)
qed

section \<open>The indices are unbiased\<close>

fun accepted :: "64 word list \<Rightarrow> bool" where
  "accepted [] \<longleftrightarrow> True"
| "accepted (v # vs) \<longleftrightarrow> sampleThreshold (word_of_nat (length vs + 2)) \<le> v \<and> accepted vs"

fun indicesOf :: "64 word list \<Rightarrow> nat list" where
  "indicesOf [] = []"
| "indicesOf (v # vs) = unat (v mod word_of_nat (length vs + 2)) # indicesOf vs"

definition acceptedWords :: "nat \<Rightarrow> nat \<Rightarrow> 64 word set" where
  "acceptedWords b r = {v. sampleThreshold (word_of_nat b) \<le> v \<and> unat (v mod word_of_nat b) = r}"

lemma card_residue_block: "0 < b \<Longrightarrow> r < b \<Longrightarrow> card {x. t \<le> x \<and> x < t + q * b \<and> x mod b = r} = (q::nat)"
proof (induction q)
  case (Suc q)
  let ?A = "{x. t \<le> x \<and> x < t + q * b \<and> x mod b = r}"
  let ?m = "t + q * b"
  obtain y where y: "?m \<le> y" "y < ?m + b" "y mod b = r"
  proof
    show "?m \<le> ?m + (r + b - ?m mod b) mod b" by simp
    show "?m + (r + b - ?m mod b) mod b < ?m + b" using Suc.prems by simp
    have "?m mod b \<le> r + b" using Suc.prems by (meson mod_less_divisor less_imp_le_nat trans_le_add2)
    then have "(?m + (r + b - ?m mod b)) mod b = (r + b) mod b"
      by (metis le_add_diff_inverse mod_add_left_eq)
    then show "(?m + (r + b - ?m mod b) mod b) mod b = r" using Suc.prems by (simp add: mod_add_right_eq)
  qed
  have u: "x = y" if "?m \<le> x" "x < ?m + b" "x mod b = r" for x
  proof -
    have "\<bar>int x - int y\<bar> < int b" using that y by linarith
    moreover have "int b dvd int x - int y" using that(3) y(3) by (metis mod_eq_dvd_iff zmod_int)
    ultimately show ?thesis by (metis dvd_imp_le_int abs_of_nat eq_iff_diff_eq_0 not_le of_nat_eq_iff)
  qed
  have m: "t + Suc q * b = ?m + b" "t \<le> ?m" by simp_all
  have "{x. t \<le> x \<and> x < t + Suc q * b \<and> x mod b = r} = insert y ?A" unfolding m(1)
  proof (intro equalityI subsetI)
    fix x assume "x \<in> {x. t \<le> x \<and> x < ?m + b \<and> x mod b = r}"
    then show "x \<in> insert y ?A" using u [of x] by (cases "?m \<le> x") simp_all
  next
    fix x assume "x \<in> insert y ?A"
    then show "x \<in> {x. t \<le> x \<and> x < ?m + b \<and> x mod b = r}" using y m(2) by auto
  qed
  moreover have "y \<notin> ?A" "finite ?A" using y by auto
  ultimately show ?case using Suc by simp
qed simp

lemma threshold_split:
  assumes "0 < b" "b \<le> 2 ^ 63"
  shows "unat (word_of_nat b :: 64 word) = b"
    and "unat (sampleThreshold (word_of_nat b)) + (2 ^ 64 div b) * b = 2 ^ 64"
proof -
  show b: "unat (word_of_nat b :: 64 word) = b" using assms by (simp add: unsigned_of_nat take_bit_nat_eq_self)
  have "- (word_of_nat b :: 64 word) = word_of_nat (2 ^ 64 - b)" using assms by (simp add: of_nat_diff)
  moreover have "unat (word_of_nat (2 ^ 64 - b) :: 64 word) = 2 ^ 64 - b"
    using assms by (subst unsigned_of_nat) (simp add: take_bit_nat_eq_self)
  ultimately have "unat (- (word_of_nat b :: 64 word)) = 2 ^ 64 - b" by simp
  then have "unat (sampleThreshold (word_of_nat b)) = (2 ^ 64 - b) mod b"
    by (simp add: sampleThreshold_def unat_mod_distrib b)
  also have "\<dots> = 2 ^ 64 mod b" using assms by (simp add: le_mod_geq)
  finally show "unat (sampleThreshold (word_of_nat b)) + (2 ^ 64 div b) * b = 2 ^ 64"
    by (metis mod_div_mult_eq)
qed

lemma acceptedWords_card:
  assumes b: "0 < b" "b \<le> 2 ^ 63" and r: "r < b"
  shows "card (acceptedWords b r) = 2 ^ 64 div b"
proof -
  let ?t = "unat (sampleThreshold (word_of_nat b))"
  have "unat ` acceptedWords b r = {x. ?t \<le> x \<and> x < ?t + (2 ^ 64 div b) * b \<and> x mod b = r}" (is "_ = ?X")
  proof (intro equalityI subsetI)
    fix x assume "x \<in> unat ` acceptedWords b r"
    then obtain v :: "64 word" where "x = unat v" "sampleThreshold (word_of_nat b) \<le> v" "unat (v mod word_of_nat b) = r"
      by (auto simp: acceptedWords_def)
    moreover have "unat v < 2 ^ 64" using unsigned_less [of v, where 'a = nat] by simp
    ultimately show "x \<in> ?X" using threshold_split [OF b] by (simp add: unat_mod_distrib word_le_nat_alt)
  next
    fix x assume x: "x \<in> ?X"
    then have u: "unat (word_of_nat x :: 64 word) = x" using threshold_split(2) [OF b] by (simp add: unsigned_of_nat take_bit_nat_eq_self)
    then have "(word_of_nat x :: 64 word) \<in> acceptedWords b r"
      using x threshold_split [OF b] by (simp add: acceptedWords_def unat_mod_distrib word_le_nat_alt)
    then show "x \<in> unat ` acceptedWords b r" using u by (metis imageI)
  qed
  moreover have "inj_on unat (acceptedWords b r)" by (rule inj_onI) (rule unsigned_word_eqI)
  then have "card (unat ` acceptedWords b r) = card (acceptedWords b r)" by (rule card_image)
  ultimately show ?thesis using card_residue_block [OF b(1) r, of ?t "2 ^ 64 div b"] by simp
qed

lemma indicesOf_vector: "length vs < 2 ^ 63 \<Longrightarrow> indexVector (indicesOf vs) \<and> length (indicesOf vs) = length vs"
proof (induction vs)
  case (Cons v vs)
  then show ?case using threshold_split(1) [of "length vs + 2"]
    by (simp add: unat_mod_distrib less_Suc_eq_le [symmetric] del: of_nat_add of_nat_Suc)
qed simp

lemma accepted_count:
  "indexVector js \<Longrightarrow> length js < 2 ^ 63 \<Longrightarrow>
     card {vs. length vs = length js \<and> accepted vs \<and> indicesOf vs = js} = (\<Prod>i<length js. 2 ^ 64 div (i + 2))"
proof (induction js)
  case Nil
  have "{vs. length vs = length [] \<and> accepted vs \<and> indicesOf vs = []} = {[]}" by auto
  then show ?case by simp
next
  case (Cons j js)
  let ?S = "{vs. length vs = length js \<and> accepted vs \<and> indicesOf vs = js}"
  have "{vs. length vs = length (j # js) \<and> accepted vs \<and> indicesOf vs = j # js}
      = (\<lambda>(v, vs). v # vs) ` (acceptedWords (length js + 2) j \<times> ?S)"
    by (auto simp: acceptedWords_def length_Suc_conv image_iff simp del: of_nat_add of_nat_Suc)
  moreover have "inj_on (\<lambda>(v, vs). v # vs) (acceptedWords (length js + 2) j \<times> ?S)" by (auto simp: inj_on_def)
  ultimately show ?case
    using Cons acceptedWords_card [of "length js + 2" j] by (simp add: card_image card_cartesian_product mult.commute)
qed

section \<open>The sampler returns, and every permutation is equally likely\<close>

definition streamValue :: "bytes \<Rightarrow> string \<Rightarrow> 64 word \<Rightarrow> 64 word" where
  "streamValue coinValue tag c = fst (nextUint64 \<lparr>st_coinValue = coinValue, st_tag = tag, st_counter = c\<rparr>)"

definition fairStream :: "bytes \<Rightarrow> string \<Rightarrow> nat \<Rightarrow> bool" where
  "fairStream coinValue tag n \<longleftrightarrow>
     (\<forall>i<n. \<forall>c. \<exists>k. sampleThreshold (word_of_nat (i + 2)) \<le> streamValue coinValue tag (c + word_of_nat k))"

lemma nextUint64_eq:
  "nextUint64 s = (streamValue (st_coinValue s) (st_tag s) (st_counter s), s\<lparr>st_counter := st_counter s + 1\<rparr>)"
  by (simp add: nextUint64_def streamValue_def Let_def)

lemma indexLoop_returns:
  "sampleThreshold b \<le> streamValue (st_coinValue s) (st_tag s) (st_counter s + word_of_nat k) \<Longrightarrow>
     \<exists>c s'. indexLoop b s = Some (uint (streamValue (st_coinValue s) (st_tag s) c mod b), s') \<and>
       sampleThreshold b \<le> streamValue (st_coinValue s) (st_tag s) c \<and> st_coinValue s' = st_coinValue s \<and> st_tag s' = st_tag s"
proof (induction k arbitrary: s)
  case 0
  then show ?case by (subst indexLoop.simps) (auto simp: nextUint64_eq)
next
  case (Suc k)
  let ?s = "s\<lparr>st_counter := st_counter s + 1\<rparr>"
  show ?case
  proof (cases "sampleThreshold b \<le> streamValue (st_coinValue s) (st_tag s) (st_counter s)")
    case True
    then show ?thesis by (subst indexLoop.simps) (auto simp: nextUint64_eq)
  next
    case False
    then have "indexLoop b s = indexLoop b ?s" by (subst indexLoop.simps) (simp add: nextUint64_eq)
    then show ?thesis using Suc.IH [of ?s] Suc.prems by (simp add: ac_simps)
  qed
qed

lemma shuffleLoop_draws:
  "n < 2 ^ 63 \<Longrightarrow> fairStream (st_coinValue s) (st_tag s) n \<Longrightarrow>
     \<exists>vs. length vs = n \<and> accepted vs \<and> set vs \<subseteq> range (streamValue (st_coinValue s) (st_tag s)) \<and>
       shuffleLoop n s xs = Some (Ok (fisherYates xs (indicesOf vs)))"
proof (induction n arbitrary: s xs)
  case 0
  show ?case by (intro exI [of _ "[]"]) simp
next
  case (Suc n)
  let ?b = "word_of_nat (Suc n + 1) :: 64 word"
  have b: "unat ?b = Suc n + 1" using Suc.prems(1) threshold_split(1) [of "Suc n + 1"] by simp
  obtain k where "sampleThreshold ?b \<le> streamValue (st_coinValue s) (st_tag s) (st_counter s + word_of_nat k)"
    using Suc.prems(2) by (force simp: fairStream_def)
  from indexLoop_returns [OF this] obtain c s' where
    l: "indexLoop ?b s = Some (uint (streamValue (st_coinValue s) (st_tag s) c mod ?b), s')"
    and a: "sampleThreshold ?b \<le> streamValue (st_coinValue s) (st_tag s) c" and s': "st_coinValue s' = st_coinValue s" "st_tag s' = st_tag s"
    by blast
  let ?v = "streamValue (st_coinValue s) (st_tag s) c"
  have "uint ?b = int (Suc n + 1)" using b by (metis of_nat_unat)
  then have i: "streamIndex s ?b = Some (Ok (uint (?v mod ?b), s'))"
    using l Suc.prems(1) b by (auto simp: streamIndex_def max_int_def)
  have f: "fairStream (st_coinValue s') (st_tag s') n" "n < 2 ^ 63" using Suc.prems s' by (simp_all add: fairStream_def)
  obtain vs where vs: "length vs = n" "accepted vs" "set vs \<subseteq> range (streamValue (st_coinValue s) (st_tag s))"
    "shuffleLoop n s' (swapAt xs (Suc n) (unat (?v mod ?b))) = Some (Ok (fisherYates (swapAt xs (Suc n) (unat (?v mod ?b))) (indicesOf vs)))"
    using Suc.IH [OF f(2,1), of "swapAt xs (Suc n) (unat (?v mod ?b))"] s' by auto
  have e: "length vs + 2 = Suc n + 1" "length (indicesOf vs) = n" using vs(1) f(2) indicesOf_vector [of vs] by simp_all
  have "accepted (?v # vs)" using a vs(2) unfolding accepted.simps e by simp
  moreover have "shuffleLoop (Suc n) s xs = Some (Ok (fisherYates xs (indicesOf (?v # vs))))"
    unfolding indicesOf.simps shuffleLoop.simps fisherYates.simps i e using vs(4) by simp
  ultimately show ?case using vs(1,3) by (intro exI [of _ "?v # vs"]) simp
qed

lemma permutation_count:
  assumes "distinct xs" "length xs = Suc n" "n < 2 ^ 63" "mset ys = mset xs"
  shows "card {vs. length vs = n \<and> accepted vs \<and> fisherYates xs (indicesOf vs) = ys} = (\<Prod>i<n. 2 ^ 64 div (i + 2))"
proof -
  obtain js where js: "length js = n" "indexVector js" "fisherYates xs js = ys" using fisherYates_surj assms(2,4) by metis
  have "indicesOf vs = js \<longleftrightarrow> fisherYates xs (indicesOf vs) = ys" if "length vs = n" for vs
    using that js assms indicesOf_vector [of vs] fisherYates_inj [of "indicesOf vs" js xs] by auto
  then have "{vs. length vs = n \<and> accepted vs \<and> fisherYates xs (indicesOf vs) = ys}
      = {vs. length vs = length js \<and> accepted vs \<and> indicesOf vs = js}" using js(1) by auto
  then show ?thesis using accepted_count [of js] js assms(3) by simp
qed



end
