(* ===== verification/Spec2Isabelle.thy ===== *)
theory Spec2Isabelle
  imports Sha256_Vector Mvba_Wire Mvba_Quit_Props Mvba_Coin_ABA Mvba_ACS Mvba_Signers Cv_Network_Auth Cv_Decision Cv_Pool_Props Cv_Coin
begin

text \<open>
  A verification library for the ARL-ADKR repository: asynchronous distributed key reconfiguration in Go.

  \<^bold>\<open>The program.\<close> An old committee hands a shared key over to a new one. Its parts are:

  \<^item> \<^verbatim>\<open>experiments/dumbomvba-go/core\<close>: multi-valued validated Byzantine agreement. Every node disperses its proposal
    (provable dissemination), waits until enough leaders are done (quitting), elects a leader with the shared coin,
    votes on it (recast preparation and binary agreement) and recovers its value (recast). The validated common
    subset runs on top of it.
  \<^item> \<^verbatim>\<open>core\<close>: the CV-sAPVSS protocol. A router delivers authenticated messages; components and aggregates are
    dispersed by APDB and certified by threshold signatures; committees of proposers and validators are sampled; pools
    of components are proposed and certified; the decision is signed once by every old member and handed to the new
    committee.
  \<^item> \<^verbatim>\<open>experiments/practical-adkr\<close>, \<^verbatim>\<open>cmd\<close>, \<^verbatim>\<open>deployment\<close>, \<^verbatim>\<open>scripts\<close>: a second protocol, the benchmark
    programs and the infrastructure.

  \<^bold>\<open>How Go is modelled.\<close> \<open>Go_Prelude\<close> has byte strings, the result type \<open>res\<close> (\<open>Ok\<close>, \<open>Err\<close> with the message, \<open>Panic\<close>),
  integers (machine words where they are encoded or can wrap, \<open>int\<close> elsewhere), decimal and hexadecimal printing, and
  quorum arithmetic. \<open>Go_Reactor\<close> turns a goroutine that loops over a \<^verbatim>\<open>select\<close> into a handler from a state and an event to a
  step (\<open>Continue\<close> or \<open>Return\<close>, with the messages sent); the locale \<open>loop_contract\<close> proves invariants and postconditions of
  its runs once. A schedule is the list of events of a node, so every theorem over all schedules covers every
  interleaving, loss and reordering. \<open>Codec\<close> has the locale \<open>prefix_codec\<close> of a writer and a reader, interpreted on
  every field codec of the code. \<open>Sha256\<close> is a concrete SHA-256, evaluated on a test vector in \<open>Sha256_Vector\<close>; no theorem assumes
  that it has no collisions: where one is needed the conclusion exhibits the two colliding strings among those hashed.
  \<open>Merkle_Core\<close> has the trees of both protocols behind the locales \<open>merkle_hash\<close> and \<open>merkle_tree\<close>; \<open>Lagrange\<close> has
  interpolation for the threshold signatures.

  \<^bold>\<open>The agreement library\<close> (\<^verbatim>\<open>experiments/dumbomvba-go/core\<close>).

  \<^item> \<open>Mvba_Messages\<close>, \<open>Mvba_Wire\<close>: types, messages and tags (\<^verbatim>\<open>types.go\<close>, \<^verbatim>\<open>equivalent_messages.go\<close>), and the gob codecs,
    which are canonical.
  \<^item> \<open>Mvba_Erasure\<close>: packing, Reed-Solomon coding and Merkle proofs (\<^verbatim>\<open>equivalent_utils.go\<close>): round trip, completeness and
    soundness, and the length prefixes on which \<^verbatim>\<open>unpackValue\<close> panics.
  \<^item> \<open>Mvba_Node\<close>: \<^verbatim>\<open>NewDumboMVBA\<close> and what it guarantees of a configuration.
  \<^item> \<open>Mvba_PD\<close>, \<open>Mvba_PD_Props\<close>, \<open>Mvba_PD_Safety\<close>: provable dissemination (\<^verbatim>\<open>pd_equivalent.go\<close>): a node signs one root per
    instance, outcomes are verified, an honest leader makes progress, and two certified roots of an instance are equal.
  \<^item> \<open>Mvba_RC\<close>, \<open>Mvba_RC_Props\<close>: recast (\<^verbatim>\<open>rc_equivalent.go\<close>): agreement, liveness, and that what is returned is certified.
  \<^item> \<open>Mvba_Quit\<close>, \<open>Mvba_Quit_Props\<close>: leaving dissemination and preparing the recast (\<^verbatim>\<open>mvba_equivalent.go\<close>).
  \<^item> \<open>Mvba_ABA\<close>, \<open>Mvba_ABA_Net\<close>, \<open>Mvba_ABA_Props\<close>: binary agreement (\<^verbatim>\<open>aba_equivalent.go\<close>), its reachable configurations as an
    inductive set, agreement and validity, and a schedule on which it stops for ever.
  \<^item> \<open>Mvba_Coin\<close>, \<open>Mvba_Coin_ABA\<close>: the shared coin (\<^verbatim>\<open>coin_equivalent.go\<close>), common and live, and agreement on top of it.
  \<^item> \<open>Mvba_Run\<close>, \<open>Mvba_Legacy\<close>: the composition (\<^verbatim>\<open>runEquivalent\<close>, \<^verbatim>\<open>Run\<close> and the older rounds of \<^verbatim>\<open>mvba.go\<close>).
  \<^item> \<open>Mvba_Signers\<close>: the three signers; threshold BLS recovers the group signature.
  \<^item> \<open>Mvba_ACS\<close>: the validated common subset (\<^verbatim>\<open>acs_vacs.go\<close>).

  \<^bold>\<open>The CV-sAPVSS protocol\<close> (\<^verbatim>\<open>core\<close>).

  \<^item> \<open>Cv_Wire\<close>: field writers, the reader, hashing and domain separation.
  \<^item> \<open>Cv_Router\<close>: tags, envelopes, roster rules and the reading goroutines as interleaved events (\<^verbatim>\<open>cv_sapvss_router.go\<close>); the
    channels refine a filter of the inbox. The authenticator is behind the locale \<open>envelope_opener\<close>.
  \<^item> \<open>Cv_Network_Auth\<close>: sealing and opening with their caches (\<^verbatim>\<open>cv_sapvss_network_auth_scalar.go\<close>), which change no result;
    delivered messages were signed by their senders.
  \<^item> \<open>Cv_Threshold\<close>: the threshold signer (\<^verbatim>\<open>crypto_runtime.go\<close>).
  \<^item> \<open>Cv_APDB\<close>, \<open>Cv_APDB_Props\<close>: dispersal (\<^verbatim>\<open>cv_sapvss_apdb.go\<close>): one payload per root, recovery from any \<open>k\<close> verified stores,
    termination of the level loop, canonical codecs.
  \<^item> \<open>Cv_Sampling\<close>: sampling and eligibility (\<^verbatim>\<open>cv_sapvss_sampling_scalar.go\<close>, \<^verbatim>\<open>cv_eligibility.go\<close>): the bounds are exact
    proportions, and resolved sizes are the smallest that meet the budget.
  \<^item> \<open>Cv_Handoff\<close>, \<open>Cv_Decision\<close>: the handoff, the immutable store and one-shot signing (\<^verbatim>\<open>cv_sapvss_handoff.go\<close>,
    \<^verbatim>\<open>cv_sapvss_store.go\<close>, \<^verbatim>\<open>cv_sapvss_decision_store.go\<close>): one handoff per context.
  \<^item> \<open>Cv_Config\<close>: normalising and validating a configuration and deriving the thresholds (\<^verbatim>\<open>config.go\<close>,
    \<^verbatim>\<open>cv_sapvss_scalar_params.go\<close>), with 64-bit wrap-around: what is derived is a safe set of quorums.
  \<^item> \<open>Go_Threads\<close>: goroutines as lists of tasks, one task per region under the lock, run in any interleaving; the locale
    \<open>rely_guarantee\<close> proves that an invariant of the shared state and of every pending task holds in every run.
  \<^item> \<open>Cv_Pool\<close>, \<open>Cv_Pool_Net\<close>, \<open>Cv_Pool_Props\<close>: component pools (\<^verbatim>\<open>cv_sapvss_pool.go\<close>) and their certification
    (\<^verbatim>\<open>CertifyPool\<close>, \<^verbatim>\<open>AwaitCertifiedPool\<close> and the three handlers of \<^verbatim>\<open>cv_sapvss_apdb_network_scalar.go\<close>). The locked regions of a
    handler are separate tasks, so another goroutine may run between them. A slot that shows a certificate holds a pool and a
    certificate that verifies for it; a proposer has at most one certified pool.
  \<^item> \<open>Cv_Coin\<close>: coin outputs and samples without replacement (\<^verbatim>\<open>cv_sapvss_scalar_coin.go\<close>): the sampler is an unbiased
    Fisher-Yates shuffle, recovered outputs are equal, and re-encoding a certificate gives another accepted value.
  \<^bold>\<open>Parameters and their hypotheses.\<close> Code outside the repository is an argument: the Reed-Solomon coder (\<open>rs_laws\<close>, \<open>rs_exact\<close>: its
  documented behaviour), curve and signature libraries (\<open>blsLaws\<close>), JSON, the environment variables and the
  pseudo-random permutation. What cryptography promises is stated per theorem: that a verified certificate has enough
  signers (\<open>unforgeable\<close>, \<open>decisionUnforgeable\<close>) and that threshold signatures are unique (\<open>uniqueSignatures\<close>). Every theorem
  with hypotheses is applied to a concrete system by the theorem of the same name with \<open>_witness\<close>.

  \<^bold>\<open>Bounds and fuel.\<close> No definition uses fuel: loops are recursion over their lists or have a termination measure (the levels of
  a tree shrink, a turn of binary agreement moves on or ends). The rejection loop of the sampler, which no bound limits, is a partial
  function into \<open>option\<close>, and the property proves that it returns on every stream that reaches the threshold again and again. Sizes that a wire field holds are bounded by its width where
  the theorem needs it; products of configured sizes are assumed to fit the machine integer.

  \<^bold>\<open>Not modelled.\<close> The other network services of \<^verbatim>\<open>core\<close> (files with \<^verbatim>\<open>network\<close> or \<^verbatim>\<open>service\<close> in their name; pool certification is modelled)
  interleave timers, worker pools, metrics and caches around the operations modelled here. The verifiable secret sharing itself
  (\<^verbatim>\<open>cv_sapvss_proof.go\<close>, \<^verbatim>\<open>cv_sapvss_leaf_scalar.go\<close>, \<^verbatim>\<open>apvss_*.go\<close>) is group arithmetic and zero-knowledge proofs whose
  soundness is a statement about probabilities and hardness assumptions that this library does not formalise. TCP
  transport, key files and start-up are input and output; \<^verbatim>\<open>compress/flate\<close> is not available to the payload response codec.
  The second protocol in \<^verbatim>\<open>experiments/practical-adkr\<close> and the benchmark programs are outside, as are scripts,
  deployment and data.
\<close>

end
